(* ===== verification/Benji_Prelude.thy ===== *)
theory Benji_Prelude
  imports Main "HOL-Library.Multiset" "HOL-Library.AList"
begin

text \<open>
  Shared vocabulary of the development: fallible and stateful computations, Python's slices,
  integer division and \<open>str.split\<close>, dictionaries as association lists, and the
  lemmas about them that every component uses.

  A Python function that may raise is a function into \<open>'e + 'a\<close> (\<open>Inl\<close> the exception).
  One that also mutates state is a function \<open>'s \<Rightarrow> ('e + 'a) \<times> 's\<close>: the state
  survives an exception, because the code's \<open>except\<close> and \<open>finally\<close> clauses see it.
\<close>

named_theorems py_defs \<open>unfolding of the computation combinators\<close>
named_theorems split_rules \<open>lemmas on splitting and joining strings\<close>

section \<open>Fallible computations\<close>

type_synonym ('e, 's, 'a) py = "'s \<Rightarrow> ('e + 'a) \<times> 's"

definition bind_res :: "'e + 'a \<Rightarrow> ('a \<Rightarrow> 'e + 'b) \<Rightarrow> 'e + 'b" where
  "bind_res m f = (case m of Inl e \<Rightarrow> Inl e | Inr x \<Rightarrow> f x)"

fun map_res :: "('a \<Rightarrow> 'e + 'b) \<Rightarrow> 'a list \<Rightarrow> 'e + 'b list" where
  "map_res f [] = Inr []"
| "map_res f (x # xs) = bind_res (f x) (\<lambda>y. bind_res (map_res f xs) (\<lambda>ys. Inr (y # ys)))"

definition returnS :: "'a \<Rightarrow> ('e, 's, 'a) py" where
  "returnS x s = (Inr x, s)"

definition raiseS :: "'e \<Rightarrow> ('e, 's, 'a) py" where
  "raiseS e s = (Inl e, s)"

definition bindS :: "('e, 's, 'a) py \<Rightarrow> ('a \<Rightarrow> ('e, 's, 'b) py) \<Rightarrow> ('e, 's, 'b) py" where
  "bindS m f s = (case m s of (Inl e, s') \<Rightarrow> (Inl e, s') | (Inr x, s') \<Rightarrow> f x s')"

definition thenS :: "('e, 's, 'a) py \<Rightarrow> ('e, 's, 'b) py \<Rightarrow> ('e, 's, 'b) py" where
  "thenS m k = bindS m (\<lambda>_. k)"

text \<open>\<open>try: m except E as e: h(e)\<close>, where \<open>h\<close> re-raises what it does not handle.\<close>

definition exceptS :: "('e, 's, 'a) py \<Rightarrow> ('e \<Rightarrow> ('e, 's, 'a) py) \<Rightarrow> ('e, 's, 'a) py" where
  "exceptS m h s = (case m s of (Inl e, s') \<Rightarrow> h e s' | (Inr x, s') \<Rightarrow> (Inr x, s'))"

text \<open>\<open>try: m finally: f\<close>: an exception of \<open>f\<close> replaces the outcome of \<open>m\<close>.\<close>

definition finallyS :: "('e, 's, 'a) py \<Rightarrow> ('e, 's, unit) py \<Rightarrow> ('e, 's, 'a) py" where
  "finallyS m f s = (case m s of (r, s') \<Rightarrow>
     (case f s' of (Inl e, s'') \<Rightarrow> (Inl e, s'') | (Inr _, s'') \<Rightarrow> (r, s'')))"

definition liftS :: "'e + 'a \<Rightarrow> ('e, 's, 'a) py" where
  "liftS r s = (r, s)"

text \<open>\<open>for x in xs: f(x)\<close>, left by the first exception.\<close>

fun for_each :: "('a \<Rightarrow> ('e, 's, unit) py) \<Rightarrow> 'a list \<Rightarrow> ('e, 's, unit) py" where
  "for_each f [] s = (Inr (), s)"
| "for_each f (x # xs) s =
     (case f x s of (Inl e, s') \<Rightarrow> (Inl e, s') | (Inr _, s') \<Rightarrow> for_each f xs s')"

lemmas [py_defs] = bind_res_def returnS_def raiseS_def bindS_def thenS_def exceptS_def
  finallyS_def liftS_def

lemma bind_res_Inl [simp]: "bind_res (Inl e) f = Inl e"
  and bind_res_Inr [simp]: "bind_res (Inr x) f = f x"
  by (simp_all add: bind_res_def)

lemma bind_res_eq_Inr: "bind_res m f = Inr y \<longleftrightarrow> (\<exists>x. m = Inr x \<and> f x = Inr y)"
  by (cases m) auto

lemma bindS_eq:
  "bindS m f s = (case m s of (Inl e, s') \<Rightarrow> (Inl e, s') | (Inr x, s') \<Rightarrow> f x s')"
  by (fact bindS_def)

lemma returnS_apply [simp]: "returnS x s = (Inr x, s)"
  and raiseS_apply [simp]: "raiseS e s = (Inl e, s)"
  and liftS_apply [simp]: "liftS r s = (r, s)"
  by (simp_all add: returnS_def raiseS_def liftS_def)

lemma map_res_all: "(\<And>x. x \<in> set xs \<Longrightarrow> f x = Inr (g x)) \<Longrightarrow> map_res f xs = Inr (map g xs)"
  by (induction xs) auto

lemma for_each_append:
  "for_each f (xs @ ys) s =
     (case for_each f xs s of (Inl e, s') \<Rightarrow> (Inl e, s') | (Inr _, s') \<Rightarrow> for_each f ys s')"
  by (induction xs arbitrary: s) (auto split: prod.splits sum.splits)

text \<open>A loop whose body never raises and has effect \<open>g x\<close> is a fold of the effects.\<close>

lemma for_each_fold:
  assumes "\<And>x s. f x s = (Inr (), g x s)"
  shows "for_each f xs s = (Inr (), fold g xs s)"
  using assms by (induction xs arbitrary: s) auto

text \<open>A property of the state that every iteration keeps holds after the loop, raised or not.\<close>

lemma for_each_invariant:
  assumes "\<And>x s. x \<in> set xs \<Longrightarrow> P s \<Longrightarrow> P (snd (f x s))" and "P s"
  shows "P (snd (for_each f xs s))"
  using assms
proof (induction xs arbitrary: s)
  case (Cons x xs)
  have step: "P (snd (f x s))" using Cons.prems by simp
  show ?case
  proof (cases "f x s")
    case (Pair r s')
    with step Cons.IH [of s'] Cons.prems(1) show ?thesis by (cases r) auto
  qed
qed simp

text \<open>Elimination rules: how a composed computation can have ended.\<close>

lemma bindS_cases:
  assumes "bindS m f s = (r, s')"
  obtains (fail) e where "m s = (Inl e, s')" "r = Inl e"
    | (ok) x s1 where "m s = (Inr x, s1)" "f x s1 = (r, s')"
  using assms by (auto simp: bindS_def split: prod.splits sum.splits)

lemma thenS_cases:
  assumes "thenS m k s = (r, s')"
  obtains (fail) e where "m s = (Inl e, s')" "r = Inl e"
    | (ok) x s1 where "m s = (Inr x, s1)" "k s1 = (r, s')"
  using assms unfolding thenS_def by (rule bindS_cases)

lemma exceptS_cases:
  assumes "exceptS m h s = (r, s')"
  obtains (ok) x where "m s = (Inr x, s')" "r = Inr x"
    | (exn) e s1 where "m s = (Inl e, s1)" "h e s1 = (r, s')"
  using assms by (auto simp: exceptS_def split: prod.splits sum.splits)

lemma finallyS_cases:
  assumes "finallyS m f s = (r, s')"
  obtains (ok) r1 s1 u where "m s = (r1, s1)" "f s1 = (Inr u, s')" "r = r1"
    | (fail) r1 s1 e where "m s = (r1, s1)" "f s1 = (Inl e, s')" "r = Inl e"
  using assms by (auto simp: finallyS_def split: prod.splits sum.splits)

lemma bindS_ok: "m s = (Inr x, s1) \<Longrightarrow> bindS m f s = f x s1"
  and bindS_fail: "m s = (Inl e, s1) \<Longrightarrow> bindS m f s = (Inl e, s1)"
  and thenS_ok: "m s = (Inr x, s1) \<Longrightarrow> thenS m k s = k s1"
  and thenS_fail: "m s = (Inl e, s1) \<Longrightarrow> thenS m k s = (Inl e, s1)"
  and exceptS_ok: "m s = (Inr x, s1) \<Longrightarrow> exceptS m h s = (Inr x, s1)"
  and exceptS_exn: "m s = (Inl e, s1) \<Longrightarrow> exceptS m h s = h e s1"
  by (simp_all add: py_defs)

text \<open>A computation keeps an observation of the state, whatever its outcome.\<close>

definition keeps :: "('s \<Rightarrow> 'o) \<Rightarrow> ('e, 's, 'a) py \<Rightarrow> bool" where
  "keeps obs m \<longleftrightarrow> (\<forall>s. obs (snd (m s)) = obs s)"

named_theorems keeps_intros \<open>composition of computations that keep an observation\<close>

lemma keepsD: "keeps obs m \<Longrightarrow> m s = (r, s') \<Longrightarrow> obs s' = obs s"
  by (metis keeps_def snd_conv)

lemma keepsI: "(\<And>s r s'. m s = (r, s') \<Longrightarrow> obs s' = obs s) \<Longrightarrow> keeps obs m"
  by (simp add: keeps_def) (metis prod.collapse)

lemma keeps_returnS [keeps_intros]: "keeps obs (returnS x)"
  and keeps_raiseS [keeps_intros]: "keeps obs (raiseS e)"
  and keeps_liftS [keeps_intros]: "keeps obs (liftS r)"
  by (simp_all add: keeps_def)

lemma keeps_bindS [keeps_intros]:
  assumes "keeps obs m" and "\<And>x. keeps obs (f x)" shows "keeps obs (bindS m f)"
  by (rule keepsI, erule bindS_cases) (metis assms keepsD)+

lemma keeps_bind_lift: "(\<And>x. r = Inr x \<Longrightarrow> keeps obs (f x)) \<Longrightarrow> keeps obs (bindS (liftS r) f)"
  by (cases r) (simp_all add: keeps_def bindS_def)

lemma keeps_thenS [keeps_intros]: "keeps obs m \<Longrightarrow> keeps obs k \<Longrightarrow> keeps obs (thenS m k)"
  unfolding thenS_def by (rule keeps_bindS)

lemma keeps_exceptS [keeps_intros]:
  assumes "keeps obs m" and "\<And>e. keeps obs (h e)" shows "keeps obs (exceptS m h)"
  by (rule keepsI, erule exceptS_cases) (metis assms keepsD)+

lemma keeps_finallyS [keeps_intros]:
  assumes "keeps obs m" and "keeps obs f" shows "keeps obs (finallyS m f)"
  by (rule keepsI, erule finallyS_cases) (metis assms keepsD)+

lemma keeps_if [keeps_intros]: "keeps obs a \<Longrightarrow> keeps obs b \<Longrightarrow> keeps obs (if c then a else b)"
  by simp

text \<open>A computation preserves a predicate of the state, whatever its outcome.\<close>

definition preserves :: "('s \<Rightarrow> bool) \<Rightarrow> ('e, 's, 'a) py \<Rightarrow> bool" where
  "preserves P m \<longleftrightarrow> (\<forall>s. P s \<longrightarrow> P (snd (m s)))"

named_theorems preserves_intros \<open>composition of computations that preserve a predicate\<close>

lemma preservesD: "preserves P m \<Longrightarrow> P s \<Longrightarrow> m s = (r, s') \<Longrightarrow> P s'"
  by (auto simp: preserves_def)

lemma preserves_pure [preserves_intros]: "preserves P (returnS x)" "preserves P (raiseS e)" "preserves P (liftS r)"
  by (simp_all add: preserves_def)

lemma preserves_bindS [preserves_intros]: "preserves P m \<Longrightarrow> (\<And>x. preserves P (f x)) \<Longrightarrow> preserves P (bindS m f)"
  unfolding preserves_def bindS_def by (auto split: prod.splits sum.splits)

lemma preserves_thenS [preserves_intros]: "preserves P m \<Longrightarrow> preserves P n \<Longrightarrow> preserves P (thenS m n)"
  unfolding thenS_def by (intro preserves_bindS)

lemma preserves_exceptS [preserves_intros]: "preserves P m \<Longrightarrow> (\<And>e. preserves P (h e)) \<Longrightarrow> preserves P (exceptS m h)"
  unfolding preserves_def exceptS_def by (auto split: prod.splits sum.splits)

lemma preserves_finallyS [preserves_intros]: "preserves P m \<Longrightarrow> preserves P f \<Longrightarrow> preserves P (finallyS m f)"
  unfolding preserves_def finallyS_def by (auto split: prod.splits sum.splits)

lemma preserves_if [preserves_intros]: "preserves P m \<Longrightarrow> preserves P n \<Longrightarrow> preserves P (if b then m else n)"
  by simp

lemma preserves_for_each [preserves_intros]: "(\<And>x. preserves P (f x)) \<Longrightarrow> preserves P (for_each f xs)"
  unfolding preserves_def using for_each_invariant [of xs P f] by blast

section \<open>Python's slices and integer division\<close>

text \<open>\<open>xs[a:b]\<close> for \<open>0 \<le> a\<close>, \<open>0 \<le> b\<close>; out-of-range bounds are clipped.\<close>

definition py_slice :: "nat \<Rightarrow> nat \<Rightarrow> 'a list \<Rightarrow> 'a list" where
  "py_slice a b xs = take (b - a) (drop a xs)"

lemma length_py_slice [simp]: "length (py_slice a b xs) = min (b - a) (length xs - a)"
  by (auto simp: py_slice_def)

lemma py_slice_append_skip: "length xs = a \<Longrightarrow> py_slice a (a + length ys) (xs @ ys @ zs) = ys"
  by (simp add: py_slice_def)

text \<open>\<open>math.ceil(a / b)\<close> of the code, for the non-negative sizes it is applied to.\<close>

definition ceil_div :: "int \<Rightarrow> int \<Rightarrow> int" where
  "ceil_div a b = - ((- a) div b)"

lemma ceil_div_bounds:
  assumes "0 < b"
  shows "b * ceil_div a b \<ge> a" and "b * (ceil_div a b - 1) < a"
proof -
  have q: "b * ((- a) div b) + (- a) mod b = - a" by simp
  have m: "0 \<le> (- a) mod b" "(- a) mod b < b" using assms by simp_all
  have d: "b * (ceil_div a b - 1) = b * ceil_div a b - b" by (simp add: right_diff_distrib)
  have c: "b * ceil_div a b = - (b * ((- a) div b))" by (simp add: ceil_div_def)
  show "b * ceil_div a b \<ge> a" using q m c by linarith
  show "b * (ceil_div a b - 1) < a" using q m c d by linarith
qed

lemma ceil_div_nonneg: "0 < b \<Longrightarrow> 0 \<le> a \<Longrightarrow> 0 \<le> ceil_div a b"
  by (simp add: ceil_div_def div_nonpos_pos_le0)

lemma ceil_div_pos: "0 < b \<Longrightarrow> 0 < a \<Longrightarrow> 0 < ceil_div a b"
  by (simp add: ceil_div_def div_neg_pos_less0)

lemma ceil_div_0 [simp]: "ceil_div 0 b = 0"
  by (simp add: ceil_div_def)

lemma less_ceil_div_iff:
  assumes "0 < b"
  shows "i < ceil_div a b \<longleftrightarrow> i * b < a"
proof
  assume "i < ceil_div a b"
  then have "b * i \<le> b * (ceil_div a b - 1)" using assms by (intro mult_left_mono) auto
  then show "i * b < a" using ceil_div_bounds(2) [OF assms, of a] by (simp add: mult.commute)
next
  assume "i * b < a"
  then have "b * i < b * ceil_div a b"
    using ceil_div_bounds(1) [OF assms, of a] by (simp add: mult.commute)
  then show "i < ceil_div a b" using assms by simp
qed

text \<open>\<open>range(a, b)\<close> on Python's integers.\<close>

definition py_range :: "int \<Rightarrow> int \<Rightarrow> int list" where
  "py_range a b = map (\<lambda>k. a + int k) [0..<nat (b - a)]"

lemma set_py_range [simp]: "set (py_range a b) = {a..<b}"
proof -
  have "x \<in> set (py_range a b)" if "x \<in> {a..<b}" for x
    using that by (auto simp: py_range_def image_iff intro!: bexI [of _ "nat (x - a)"])
  then show ?thesis by (auto simp: py_range_def)
qed

lemma distinct_py_range [simp]: "distinct (py_range a b)"
  by (auto simp: py_range_def distinct_map inj_on_def)

lemma sorted_py_range [simp]: "sorted (py_range a b)"
  by (auto simp: py_range_def sorted_iff_nth_mono)

lemma length_py_range [simp]: "length (py_range a b) = nat (b - a)"
  by (simp add: py_range_def)

lemma nth_py_range [simp]: "k < nat (b - a) \<Longrightarrow> py_range a b ! k = a + int k"
  by (simp add: py_range_def)

section \<open>Strings\<close>

text \<open>\<open>s.split(c)\<close> for a one-character separator: always at least one part.\<close>

fun split_on :: "'a \<Rightarrow> 'a list \<Rightarrow> 'a list list" where
  "split_on c [] = [[]]"
| "split_on c (x # xs) =
     (if x = c then [] # split_on c xs
      else (case split_on c xs of [] \<Rightarrow> [[x]] | p # ps \<Rightarrow> (x # p) # ps))"

text \<open>\<open>c.join(parts)\<close>.\<close>

fun join_with :: "'a \<Rightarrow> 'a list list \<Rightarrow> 'a list" where
  "join_with c [] = []"
| "join_with c [p] = p"
| "join_with c (p # q # ps) = p @ c # join_with c (q # ps)"

lemma split_on_not_Nil [simp]: "split_on c xs \<noteq> []"
  by (cases xs) (auto split: list.splits)

lemma split_on_no_sep [split_rules]: "c \<notin> set xs \<Longrightarrow> split_on c xs = [xs]"
  by (induction xs) auto

lemma split_on_append [split_rules]:
  "c \<notin> set xs \<Longrightarrow> split_on c (xs @ c # ys) = xs # split_on c ys"
  by (induction xs) auto

lemma join_split [split_rules, simp]: "join_with c (split_on c xs) = xs"
proof (induction xs)
  case (Cons x xs)
  show ?case
  proof (cases "split_on c xs")
    case (Cons p ps)
    with Cons.IH show ?thesis by (cases ps) auto
  qed simp
qed simp

lemma split_join [split_rules]:
  "ps \<noteq> [] \<Longrightarrow> (\<And>p. p \<in> set ps \<Longrightarrow> c \<notin> set p) \<Longrightarrow> split_on c (join_with c ps) = ps"
  by (induction c ps rule: join_with.induct) (auto simp: split_on_no_sep split_on_append)

lemma split_on_parts_no_sep: "p \<in> set (split_on c xs) \<Longrightarrow> c \<notin> set p"
  by (induction xs arbitrary: p) (auto split: if_splits list.splits)

section \<open>Dictionaries\<close>

text \<open>
  A Python dict keeps its keys in insertion order: an association list with distinct keys, read
  with \<open>map_of\<close> and written with \<open>AList.update\<close>, which keeps the position of a key
  that is present and appends a new one.
\<close>

type_synonym ('k, 'v) dict = "('k \<times> 'v) list"

abbreviation dict_get :: "('k, 'v) dict \<Rightarrow> 'k \<Rightarrow> 'v option" where
  "dict_get d k \<equiv> map_of d k"

abbreviation dict_set :: "('k, 'v) dict \<Rightarrow> 'k \<Rightarrow> 'v \<Rightarrow> ('k, 'v) dict" where
  "dict_set d k v \<equiv> AList.update k v d"

abbreviation dict_del :: "('k, 'v) dict \<Rightarrow> 'k \<Rightarrow> ('k, 'v) dict" where
  "dict_del d k \<equiv> AList.delete k d"

abbreviation dict_keys :: "('k, 'v) dict \<Rightarrow> 'k list" where
  "dict_keys d \<equiv> map fst d"

lemma dict_get_set: "dict_get (dict_set d k v) k' = (if k' = k then Some v else dict_get d k')"
  by (simp add: update_conv)

lemma dict_del_set: "k \<notin> set (dict_keys d) \<Longrightarrow> dict_del (dict_set d k v) k = d"
  by (induction d) (auto simp: AList.delete_eq)

lemma dict_set_new: "k \<notin> set (dict_keys d) \<Longrightarrow> dict_set d k v = d @ [(k, v)]"
  by (induction d) auto

section \<open>Decimal numerals\<close>

text \<open>\<open>str\<close> of an integer.\<close>

fun str_nat :: "nat \<Rightarrow> string" where
  "str_nat n = (if n < 10 then [char_of (n + 48)] else str_nat (n div 10) @ [char_of (n mod 10 + 48)])"

declare str_nat.simps [simp del]

definition str_int :: "int \<Rightarrow> string" where
  "str_int i = (if i < 0 then [CHR ''-''] else []) @ str_nat (nat \<bar>i\<bar>)"

end
