(* ===== verification/Benji_Types.thy ===== *)
theory Benji_Types
  imports Benji_Prelude
begin

text \<open>
  The data every component handles: block UIDs and dereferenced blocks of \<open>database.py\<close>, the
  version status, and the exceptions of \<open>exception.py\<close> and \<open>storage/base.py\<close> beside
  the built-in ones the code raises, with the class tests its handlers make.
\<close>

section \<open>Block UIDs and blocks\<close>

text \<open>\<open>BlockUid(left, right)\<close>; \<open>SparseBlockUid\<close> is \<open>BlockUid(None, None)\<close>.\<close>

datatype block_uid = BlockUid (uid_left: "int option") (uid_right: "int option")

definition SparseBlockUid :: block_uid where
  "SparseBlockUid = BlockUid None None"

text \<open>\<open>BlockUid.__bool__\<close>.\<close>

definition uid_bool :: "block_uid \<Rightarrow> bool" where
  "uid_bool u \<longleftrightarrow> uid_left u \<noteq> None \<and> uid_right u \<noteq> None"

text \<open>\<open>BlockUid.__lt__\<close>: a missing half counts as 0.\<close>

definition half :: "int option \<Rightarrow> int" where
  "half h = (case h of Some x \<Rightarrow> x | None \<Rightarrow> 0)"

definition uid_lt :: "block_uid \<Rightarrow> block_uid \<Rightarrow> bool" where
  "uid_lt a b \<longleftrightarrow>
     half (uid_left a) < half (uid_left b) \<or>
     half (uid_left a) = half (uid_left b) \<and> half (uid_right a) < half (uid_right b)"

text \<open>
  A row of the table \<open>blocks\<close>. \<open>DereferencedBlock\<close> has the same fields, and
  \<open>Block.deref()\<close> copies them, so one record serves for both.
\<close>

record block =
  blk_version_id :: int
  blk_idx :: int
  blk_uid :: block_uid
  blk_checksum :: "string option"
  blk_size :: int
  blk_valid :: bool

section \<open>Version status\<close>

datatype version_status = incomplete | valid | invalid

definition is_valid :: "version_status \<Rightarrow> bool" where
  "is_valid s \<longleftrightarrow> s = valid"

definition is_deep_scrubbable :: "version_status \<Rightarrow> bool" where
  "is_deep_scrubbable s \<longleftrightarrow> s = invalid \<or> s = valid"

definition is_scrubbable :: "version_status \<Rightarrow> bool" where
  "is_scrubbable s \<longleftrightarrow> s = valid"

definition is_removable :: "version_status \<Rightarrow> bool" where
  "is_removable s \<longleftrightarrow> s \<noteq> incomplete"

text \<open>\<open>VersionStatus.value\<close> and \<open>VersionStatus(value)\<close>, which the column type stores and reads.\<close>

fun status_value :: "version_status \<Rightarrow> int" where
  "status_value incomplete = 1"
| "status_value valid = 2"
| "status_value invalid = 3"

definition status_of_value :: "int \<Rightarrow> version_status option" where
  "status_of_value n =
     (if n = 1 then Some incomplete else if n = 2 then Some valid
      else if n = 3 then Some invalid else None)"

section \<open>Exceptions\<close>

datatype exn =
    UsageError | InputDataError | AlreadyLocked | InternalError | ConfigurationError | ScrubbingError
  | InvalidBlockException block | BlockNotFoundError block_uid
  | KeyError | ValueError | TypeError | AttributeError | AssertionError | RuntimeError
  | FileNotFoundError | FileExistsError | PermissionError | EOFError | OSError | IntegrityError | StructError
  | NameError | IndexError | NotImplementedError | TimeoutError | ParseFatalException | ArgumentError | MultipleResultsFound
  | ClientError string | B2Error | FileNotPresent | BenjiError

text \<open>\<open>isinstance(e, IOError)\<close>, \<open>isinstance(e, RuntimeError)\<close> and the handlers' \<open>(KeyError, ValueError)\<close>.\<close>

fun is_io_error :: "exn \<Rightarrow> bool" where
  "is_io_error ScrubbingError = True"
| "is_io_error (InvalidBlockException b) = True"
| "is_io_error (BlockNotFoundError u) = True"
| "is_io_error FileNotFoundError = True"
| "is_io_error FileExistsError = True"
| "is_io_error PermissionError = True"
| "is_io_error OSError = True"
| "is_io_error TimeoutError = True"
| "is_io_error _ = False"

fun is_runtime_error :: "exn \<Rightarrow> bool" where
  "is_runtime_error UsageError = True"
| "is_runtime_error InputDataError = True"
| "is_runtime_error AlreadyLocked = True"
| "is_runtime_error InternalError = True"
| "is_runtime_error ConfigurationError = True"
| "is_runtime_error RuntimeError = True"
| "is_runtime_error NotImplementedError = True"
| "is_runtime_error _ = False"

fun is_key_or_value_error :: "exn \<Rightarrow> bool" where
  "is_key_or_value_error KeyError = True"
| "is_key_or_value_error ValueError = True"
| "is_key_or_value_error _ = False"

type_synonym 'a res = "exn + 'a"

text \<open>\<open>query.one_or_none()\<close> on the rows of a table that satisfy the filter.\<close>

definition one_or_none :: "('r \<Rightarrow> bool) \<Rightarrow> 'r list \<Rightarrow> 'r option res" where
  "one_or_none p rows = (case filter p rows of [] \<Rightarrow> Inr None | [r] \<Rightarrow> Inr (Some r) | _ \<Rightarrow> Inl MultipleResultsFound)"

text \<open>\<open>BlockUid.__init__\<close> asserts that both halves are given or neither.\<close>

definition mk_block_uid :: "int option \<Rightarrow> int option \<Rightarrow> block_uid res" where
  "mk_block_uid l r =
     (if (l = None \<and> r = None) \<or> (l \<noteq> None \<and> r \<noteq> None) then Inr (BlockUid l r)
      else Inl AssertionError)"

definition wf_uid :: "block_uid \<Rightarrow> bool" where
  "wf_uid u \<longleftrightarrow> (uid_left u = None \<longleftrightarrow> uid_right u = None)"

lemma mk_block_uid_wf: "mk_block_uid l r = Inr u \<Longrightarrow> wf_uid u"
  by (auto simp: mk_block_uid_def wf_uid_def split: if_splits)

lemma uid_bool_Sparse [simp]: "\<not> uid_bool SparseBlockUid"
  by (simp add: uid_bool_def SparseBlockUid_def)

lemma uid_bool_BlockUid [simp]: "uid_bool (BlockUid (Some l) (Some r))"
  by (simp add: uid_bool_def)

lemma uid_bool_cases: "uid_bool u \<Longrightarrow> (\<And>l r. u = BlockUid (Some l) (Some r) \<Longrightarrow> P) \<Longrightarrow> P"
  by (cases u) (auto simp: uid_bool_def)

lemma wf_not_bool: "wf_uid u \<Longrightarrow> \<not> uid_bool u \<longleftrightarrow> u = SparseBlockUid"
  by (cases u) (auto simp: wf_uid_def uid_bool_def SparseBlockUid_def)

lemma status_of_value_status [simp]: "status_of_value (status_value s) = Some s"
  by (cases s) (simp_all add: status_of_value_def)

lemmas status_defs = is_valid_def is_deep_scrubbable_def is_scrubbable_def is_removable_def

end
