(* ===== verification/Validation.thy ===== *)
theory Validation
  imports Benji_Types
begin

text \<open>
  \<open>InputValidation\<close> of \<open>utils.py\<close>: the names of versions, volumes, snapshots and labels.
  The regular expressions have the shape \<open>(?!-)C+(?<!-)\<close>; \<open>fullmatch\<close> of it holds for a
  non-empty string of characters of \<open>C\<close> that neither starts nor ends with a hyphen.
\<close>

section \<open>Character classes\<close>

definition lower :: string where "lower = ''abcdefghijklmnopqrstuvwxyz''"
definition upper :: string where "upper = ''ABCDEFGHIJKLMNOPQRSTUVWXYZ''"
definition digits :: string where "digits = ''0123456789''"

definition value_chars :: string where
  "value_chars = ''-'' @ lower @ upper @ digits @ ''_.:/@+''"

definition name_chars :: string where
  "name_chars = ''-'' @ lower @ upper @ digits @ ''_.''"

definition dns_chars :: string where
  "dns_chars = ''-'' @ lower @ digits"

text \<open>\<open>re.fullmatch('(?!-)[cs]{1,n}(?<!-)', s)\<close>; \<open>None\<close> for an unbounded repetition.\<close>

definition hyphen_match :: "string \<Rightarrow> nat option \<Rightarrow> string \<Rightarrow> bool" where
  "hyphen_match cs n s \<longleftrightarrow>
     s \<noteq> [] \<and> (case n of None \<Rightarrow> True | Some m \<Rightarrow> length s \<le> m) \<and>
     (\<forall>c \<in> set s. c \<in> set cs) \<and> hd s \<noteq> CHR ''-'' \<and> last s \<noteq> CHR ''-''"

section \<open>Names and labels\<close>

definition is_version_uid :: "string \<Rightarrow> bool" where
  "is_version_uid name \<longleftrightarrow> hyphen_match value_chars None name"

definition is_volume_name :: "string \<Rightarrow> bool" where
  "is_volume_name name \<longleftrightarrow> hyphen_match value_chars None name"

definition is_snapshot_name :: "string \<Rightarrow> bool" where
  "is_snapshot_name name \<longleftrightarrow> name = [] \<or> hyphen_match value_chars None name"

definition is_label_value :: "string \<Rightarrow> bool" where
  "is_label_value v \<longleftrightarrow> v = [] \<or> hyphen_match value_chars None v"

definition is_dns1123_subdomain :: "string \<Rightarrow> bool" where
  "is_dns1123_subdomain s \<longleftrightarrow>
     length s \<le> 253 \<and> list_all (hyphen_match dns_chars (Some 63)) (split_on CHR ''.'' s)"

text \<open>
  \<open>prefix, name = name.split('/')\<close> raises \<open>ValueError\<close> when there is more than one slash.
\<close>

definition is_label_name :: "string \<Rightarrow> bool res" where
  "is_label_name name =
     (if CHR ''/'' \<in> set name then
        (case split_on CHR ''/'' name of
           [prefix, nm] \<Rightarrow>
             if length prefix = 0 \<or> length nm = 0 then Inr False
             else if \<not> is_dns1123_subdomain prefix then Inr False
             else if \<not> hyphen_match name_chars (Some 63) nm then Inr False
             else Inr True
         | _ \<Rightarrow> Inl ValueError)
      else Inr (hyphen_match name_chars (Some 63) name))"

definition parse_label :: "string \<Rightarrow> ((string \<times> string) + string) res" where
  "parse_label label =
     (if length label = 0 then Inl UsageError
      else if last label = CHR ''-'' then
        (let name = butlast label in
         bind_res (is_label_name name) (\<lambda>ok.
           if \<not> ok then Inl UsageError else Inr (Inr name)))
      else if CHR ''='' \<in> set label then
        (case split_on CHR ''='' label of
           [name, v] \<Rightarrow>
             if length name = 0 then Inl UsageError
             else bind_res (is_label_name name) (\<lambda>ok.
               if \<not> ok then Inl UsageError
               else if \<not> is_label_value v then Inl UsageError
               else Inr (Inl (name, v)))
         | _ \<Rightarrow> Inl ValueError)
      else
        bind_res (is_label_name label) (\<lambda>ok.
          if \<not> ok then Inl UsageError else Inr (Inl (label, []))))"

fun validate_labels :: "string list \<Rightarrow> (string \<times> string) list \<Rightarrow> string list
    \<Rightarrow> ((string \<times> string) list \<times> string list) res" where
  "validate_labels [] add_list remove_list = Inr (add_list, remove_list)"
| "validate_labels (label # labels) add_list remove_list =
     bind_res (parse_label label) (\<lambda>r.
       case r of
         Inl nv \<Rightarrow> validate_labels labels (add_list @ [nv]) remove_list
       | Inr n \<Rightarrow> validate_labels labels add_list (remove_list @ [n]))"

definition parse_and_validate_labels ::
    "string list \<Rightarrow> ((string \<times> string) list \<times> string list) res" where
  "parse_and_validate_labels labels = validate_labels labels [] []"

section \<open>What the validators accept\<close>

lemma hyphen_match_chars: "hyphen_match cs n s \<Longrightarrow> c \<in> set s \<Longrightarrow> c \<in> set cs"
  by (auto simp: hyphen_match_def)

lemma ascii_class:
  "c \<in> set value_chars \<Longrightarrow> of_char c < (128::nat)"
  unfolding value_chars_def lower_def upper_def digits_def by (simp, elim disjE; simp)

lemma version_uid_ascii: "is_version_uid s \<Longrightarrow> c \<in> set s \<Longrightarrow> of_char c < (128::nat)"
  by (auto simp: is_version_uid_def dest: hyphen_match_chars ascii_class)

lemma version_uid_nonempty: "is_version_uid s \<Longrightarrow> s \<noteq> []"
  by (simp add: is_version_uid_def hyphen_match_def)

text \<open>A label name that is accepted never holds an equals sign nor ends in a hyphen.\<close>

lemma name_chars_no_eq: "CHR ''='' \<notin> set name_chars" "CHR ''='' \<notin> set dns_chars"
  "CHR ''='' \<notin> set value_chars"
  by (simp_all add: name_chars_def dns_chars_def value_chars_def lower_def upper_def digits_def)

lemma hyphen_match_no_eq:
  "hyphen_match name_chars n s \<Longrightarrow> CHR ''='' \<notin> set s \<and> s \<noteq> [] \<and> last s \<noteq> CHR ''-''"
  using name_chars_no_eq by (auto simp: hyphen_match_def)

lemma subdomain_no_eq:
  assumes "is_dns1123_subdomain s" shows "CHR ''='' \<notin> set s"
proof
  assume eq: "CHR ''='' \<in> set s"
  have join: "set (join_with CHR ''.'' ps) \<subseteq> insert CHR ''.'' (\<Union> (set ` set ps))" for ps :: "string list"
    by (induction "CHR ''.''" ps rule: join_with.induct) auto
  have "CHR ''='' \<in> set (join_with CHR ''.'' (split_on CHR ''.'' s))" using eq by simp
  with join obtain p where "p \<in> set (split_on CHR ''.'' s)" "CHR ''='' \<in> set p" by fastforce
  with assms show False
    using name_chars_no_eq(2)
    by (auto simp: is_dns1123_subdomain_def list_all_iff hyphen_match_def)
qed

lemma label_name_shape:
  assumes "is_label_name s = Inr True"
  shows "CHR ''='' \<notin> set s \<and> s \<noteq> [] \<and> last s \<noteq> CHR ''-''"
proof (cases "CHR ''/'' \<in> set s")
  case True
  with assms obtain p n where sp: "split_on CHR ''/'' s = [p, n]"
    and ok: "is_dns1123_subdomain p" "hyphen_match name_chars (Some 63) n"
    by (auto simp: is_label_name_def split: list.splits if_splits)
  have "s = join_with CHR ''/'' (split_on CHR ''/'' s)" by simp
  also have "\<dots> = p @ CHR ''/'' # n" by (simp add: sp)
  finally have s: "s = p @ CHR ''/'' # n" .
  show ?thesis using subdomain_no_eq [OF ok(1)] hyphen_match_no_eq [OF ok(2)] by (simp add: s)
next
  case False
  with assms show ?thesis by (auto simp: is_label_name_def dest: hyphen_match_no_eq)
qed

lemma label_value_no_eq: "is_label_value v \<Longrightarrow> CHR ''='' \<notin> set v"
  using name_chars_no_eq(3) by (auto simp: is_label_value_def hyphen_match_def)

lemma label_value_last: "is_label_value v \<Longrightarrow> v \<noteq> [] \<Longrightarrow> last v \<noteq> CHR ''-''"
  by (auto simp: is_label_value_def hyphen_match_def)

text \<open>
  Printing a parsed label and parsing it again: \<open>name=value\<close> is the canonical spelling of an
  addition, \<open>name-\<close> of a removal.
\<close>

definition show_label :: "(string \<times> string) + string \<Rightarrow> string" where
  "show_label r = (case r of Inl (n, v) \<Rightarrow> n @ ''='' @ v | Inr n \<Rightarrow> n @ ''-'')"

lemma parse_label_add:
  assumes "is_label_name n = Inr True" and "is_label_value v"
  shows "parse_label (n @ ''='' @ v) = Inr (Inl (n, v))"
proof -
  have n: "CHR ''='' \<notin> set n" "n \<noteq> []" using label_name_shape [OF assms(1)] by auto
  have sp: "split_on CHR ''='' (n @ CHR ''='' # v) = [n, v]"
    using n label_value_no_eq [OF assms(2)] by (simp add: split_on_append split_on_no_sep)
  have "last (n @ ''='' @ v) \<noteq> CHR ''-''"
    using label_value_last [OF assms(2)] by (cases "v = []") auto
  with n sp assms show ?thesis by (simp add: parse_label_def)
qed

lemma parse_label_remove:
  "is_label_name n = Inr True \<Longrightarrow> parse_label (n @ ''-'') = Inr (Inr n)"
  using label_name_shape [of n] by (simp add: parse_label_def)

lemma parse_label_sound:
  assumes "parse_label l = Inr r"
  shows "case r of Inl (n, v) \<Rightarrow> is_label_name n = Inr True \<and> is_label_value v
                 | Inr n \<Rightarrow> is_label_name n = Inr True"
proof -
  have Nil: "is_label_value []" by (simp add: is_label_value_def)
  show ?thesis
    using assms Nil
    by (auto simp: parse_label_def Let_def bind_res_eq_Inr split: if_splits list.splits sum.splits)
qed

lemma validate_labels_sound:
  assumes "validate_labels ls a r = Inr (a', r')"
    and "\<forall>(n, v) \<in> set a. is_label_name n = Inr True \<and> is_label_value v"
    and "\<forall>n \<in> set r. is_label_name n = Inr True"
  shows "(\<forall>(n, v) \<in> set a'. is_label_name n = Inr True \<and> is_label_value v) \<and>
         (\<forall>n \<in> set r'. is_label_name n = Inr True) \<and>
         length a' + length r' = length a + length r + length ls"
  using assms
proof (induction ls arbitrary: a r)
  case (Cons l ls)
  then obtain x where x: "parse_label l = Inr x"
    and rest: "(case x of Inl nv \<Rightarrow> validate_labels ls (a @ [nv]) r
                        | Inr n \<Rightarrow> validate_labels ls a (r @ [n])) = Inr (a', r')"
    by (auto simp: bind_res_eq_Inr)
  show ?case
  proof (cases x)
    case (Inl nv)
    have "\<forall>(n, v) \<in> set (a @ [nv]). is_label_name n = Inr True \<and> is_label_value v"
      using Cons.prems(2) parse_label_sound [OF x] Inl by (auto simp only: set_append set_simps sum.case)
    from Cons.IH [OF _ this Cons.prems(3)] rest Inl show ?thesis by simp
  next
    case (Inr n)
    have "\<forall>n \<in> set (r @ [n]). is_label_name n = Inr True"
      using Cons.prems(3) parse_label_sound [OF x] Inr by (auto simp only: set_append set_simps sum.case)
    from Cons.IH [OF _ Cons.prems(2) this] rest Inr show ?thesis by simp
  qed
qed simp

section \<open>What validation guarantees\<close>

text \<open>Every label list \<open>parse_and_validate_labels\<close> accepts yields one entry per label,
  and all the names and values it returns are valid.\<close>

theorem validated_labels:
  assumes "parse_and_validate_labels ls = Inr (a, r)"
  shows "(\<forall>(n, v) \<in> set a. is_label_name n = Inr True \<and> is_label_value v) \<and>
         (\<forall>n \<in> set r. is_label_name n = Inr True) \<and> length a + length r = length ls"
  using validate_labels_sound [of ls "[]" "[]" a r] assms
  by (simp add: parse_and_validate_labels_def)

lemma demo_labels: "parse_and_validate_labels [''benji.io/a=b'', ''c-''] = Inr ([(''benji.io/a'', ''b'')], [''c''])"
  by code_simp

theorem validated_labels_witness:
  "is_label_name ''benji.io/a'' = Inr True \<and> is_label_value ''b'' \<and> is_label_name ''c'' = Inr True"
  using validated_labels [OF demo_labels] by simp

text \<open>Printing what the label parser returned and parsing it again gives the same result, for
  additions (\<open>name=value\<close>) and removals (\<open>name-\<close>).\<close>

theorem label_roundtrip:
  assumes "parse_label l = Inr r"
  shows "parse_label (show_label r) = Inr r"
proof (cases r)
  case (Inl nv)
  then obtain n v where "r = Inl (n, v)" by (cases nv) auto
  with parse_label_sound [OF assms] parse_label_add show ?thesis by (simp add: show_label_def)
next
  case (Inr n)
  with parse_label_sound [OF assms] parse_label_remove show ?thesis by (simp add: show_label_def)
qed

theorem label_roundtrip_witness: "parse_label (show_label (Inl (''a'', ''b''))) = Inr (Inl (''a'', ''b''))"
proof -
  have "parse_label ''a=b'' = Inr (Inl (''a'', ''b''))" by code_simp
  then show ?thesis by (rule label_roundtrip)
qed

end
