(* ===== verification/Retention.thy ===== *)
theory Retention
  imports Benji_Types "HOL-Library.Sublist"
begin

text \<open>
  \<open>retentionfilter.py\<close>: parsing a retention policy, the calendar distances of
  \<open>_Timedelta\<close>, and the filter that decides which versions a policy dismisses.

  Instants are naive UTC datetimes. \<open>astimezone(tz)\<close> belongs to \<open>dateutil\<close> and is part
  of the parameter \<open>U\<close>; both arguments carry the same \<open>tzinfo\<close> afterwards, so Python
  subtracts their wall-clock fields. The attribute \<open>version.date\<close> is the parameter \<open>date\<close>, which
  may raise: the database class \<open>Version\<close> has no such attribute.
\<close>

section \<open>Calendar\<close>

record datetime =
  year :: int
  month :: int
  day :: int
  hour :: int
  minute :: int
  second :: int
  microsecond :: int

definition is_leap :: "int \<Rightarrow> bool" where
  "is_leap y \<longleftrightarrow> y mod 4 = 0 \<and> (y mod 100 \<noteq> 0 \<or> y mod 400 = 0)"

definition days_before_year :: "int \<Rightarrow> int" where
  "days_before_year y = (let z = y - 1 in z * 365 + z div 4 - z div 100 + z div 400)"

definition days_before_month :: "int \<Rightarrow> int \<Rightarrow> int" where
  "days_before_month y m =
     [0, 0, 31, 59, 90, 120, 151, 181, 212, 243, 273, 304, 334] ! nat m
     + (if 2 < m \<and> is_leap y then 1 else 0)"

definition toordinal :: "datetime \<Rightarrow> int" where
  "toordinal t = days_before_year (year t) + days_before_month (year t) (month t) + day t"

definition weekday :: "datetime \<Rightarrow> int" where
  "weekday t = (toordinal t + 6) mod 7"

definition day_us :: int where "day_us = 86400000000"

definition time_us :: "datetime \<Rightarrow> int" where
  "time_us t = ((hour t * 60 + minute t) * 60 + second t) * 1000000 + microsecond t"

text \<open>A datetime as microseconds; the difference of two is Python's \<open>timedelta\<close>.\<close>

definition to_us :: "datetime \<Rightarrow> int" where
  "to_us t = toordinal t * day_us + time_us t"

datatype start_of = Hour | Day | Week | Month | Year

text \<open>
  What the code uses of \<open>dateutil\<close>, as parameters: \<open>t.astimezone(tz)\<close>, the Monday
  midnight \<open>t + relativedelta(weekday=MO(-1), hour=0, ...)\<close>, and the fields \<open>years\<close> and
  \<open>months\<close> of the normalised \<open>relativedelta(a, b)\<close>.
\<close>

record dateutil =
  astimezone :: "datetime \<Rightarrow> datetime"
  last_monday :: "datetime \<Rightarrow> datetime"
  relativedelta :: "datetime \<Rightarrow> datetime \<Rightarrow> int \<times> int"

text \<open>\<open>_round_down(t, start_of=...)\<close>.\<close>

fun round_down :: "dateutil \<Rightarrow> start_of \<Rightarrow> datetime \<Rightarrow> datetime" where
  "round_down U Hour t = t\<lparr>minute := 0, second := 0, microsecond := 0\<rparr>"
| "round_down U Day t = t\<lparr>hour := 0, minute := 0, second := 0, microsecond := 0\<rparr>"
| "round_down U Week t = last_monday U t"
| "round_down U Month t = t\<lparr>day := 1, hour := 0, minute := 0, second := 0, microsecond := 0\<rparr>"
| "round_down U Year t =
     t\<lparr>month := 1, day := 1, hour := 0, minute := 0, second := 0, microsecond := 0\<rparr>"

record timedelta =
  td_hours :: int
  td_days :: int
  td_weeks :: int
  td_months :: int
  td_years :: int

definition Timedelta :: "dateutil \<Rightarrow> datetime \<Rightarrow> datetime \<Rightarrow> timedelta res" where
  "Timedelta U t0 ref0 =
     (if to_us ref0 - to_us t0 < 0 then Inl ValueError
      else
        (let t = astimezone U t0; ref = astimezone U ref0;
             delta = (\<lambda>s. to_us (round_down U s ref) - to_us (round_down U s t));
             m = relativedelta U (round_down U Month ref) (round_down U Month t);
             y = relativedelta U (round_down U Year ref) (round_down U Year t)
         in Inr \<lparr> td_hours = delta Hour div 3600000000,
                  td_days = delta Day div day_us,
                  td_weeks = delta Week div (7 * day_us),
                  td_months = fst m * 12 + snd m,
                  td_years = fst y \<rparr>))"

definition td_get :: "timedelta \<Rightarrow> string \<Rightarrow> int" where
  "td_get td c =
     (if c = ''hours'' then td_hours td else if c = ''days'' then td_days td
      else if c = ''weeks'' then td_weeks td else if c = ''months'' then td_months td
      else td_years td)"

section \<open>Parsing a policy\<close>

definition valid_categories :: "string list" where
  "valid_categories = [''latest'', ''hours'', ''days'', ''weeks'', ''months'', ''years'']"

definition is_lower :: "char \<Rightarrow> bool" where
  "is_lower c \<longleftrightarrow> 97 \<le> (of_char c :: nat) \<and> (of_char c :: nat) \<le> 122"

definition is_digit :: "char \<Rightarrow> bool" where
  "is_digit c \<longleftrightarrow> 48 \<le> (of_char c :: nat) \<and> (of_char c :: nat) \<le> 57"

definition dec_value :: "string \<Rightarrow> int" where
  "dec_value s = foldl (\<lambda>n c. 10 * n + (of_char c - 48)) 0 s"

text \<open>\<open>re.search('^([a-z]+)([0-9]+)$', token)\<close>: \<open>$\<close> also matches before one final newline.\<close>

definition match_token :: "string \<Rightarrow> (string \<times> string) option" where
  "match_token tok =
     (let cat = takeWhile is_lower tok; rest = dropWhile is_lower tok;
          num = takeWhile is_digit rest; tl = dropWhile is_digit rest
      in if cat \<noteq> [] \<and> num \<noteq> [] \<and> (tl = [] \<or> tl = [CHR 0x0A]) then Some (cat, num) else None)"

fun parse_tokens :: "string list \<Rightarrow> (string, int) dict \<Rightarrow> (string, int) dict res" where
  "parse_tokens [] d = Inr d"
| "parse_tokens (token # tokens) d =
     (if token = [] then Inl ValueError
      else (case match_token token of
          Some (category, num) \<Rightarrow>
            (let timecount = dec_value num in
             if category \<notin> set valid_categories then Inl ValueError
             else if category \<in> set (dict_keys d) then Inl ValueError
             else if timecount \<le> 0 then Inl UsageError
             else parse_tokens tokens (dict_set d category timecount))
        | None \<Rightarrow> Inl ValueError))"

definition parse_rules :: "string \<Rightarrow> (string, int) dict res" where
  "parse_rules spec =
     bind_res (parse_tokens (split_on CHR '','' spec) []) (\<lambda>d.
       Inr (List.map_filter (\<lambda>c. map_option (Pair c) (dict_get d c)) valid_categories))"

section \<open>The filter\<close>

text \<open>\<open>versions_by_category[category][timecount].append(version)\<close> on a \<open>defaultdict(list)\<close>.\<close>

fun dict_append :: "(int, 'v list) dict \<Rightarrow> int \<Rightarrow> 'v \<Rightarrow> (int, 'v list) dict" where
  "dict_append [] k v = [(k, [v])]"
| "dict_append ((j, l) # d) k v =
     (if j = k then (j, l @ [v]) # d else (j, l) # dict_append d k v)"

text \<open>The \<open>for category in categories\<close> loop: the first category whose limit the age respects.\<close>

fun find_category :: "(string, int) dict \<Rightarrow> timedelta \<Rightarrow> (string \<times> int) option" where
  "find_category [] td = None"
| "find_category ((c, limit) # rs) td =
     (if td_get td c \<le> limit then Some (c, td_get td c) else find_category rs td)"

fun filter_loop :: "dateutil \<Rightarrow> datetime \<Rightarrow> (string, int) dict \<Rightarrow> ('v \<times> datetime) list
    \<Rightarrow> (string \<Rightarrow> (int, 'v list) dict) \<Rightarrow> 'v list \<Rightarrow> (string \<Rightarrow> (int, 'v list) dict) \<times> 'v list" where
  "filter_loop U ref cats [] by_cat dismissed = (by_cat, dismissed)"
| "filter_loop U ref cats ((v, d) # vs) by_cat dismissed =
     (case Timedelta U d ref of
        Inl _ \<Rightarrow> filter_loop U ref cats vs by_cat dismissed
      | Inr td \<Rightarrow>
         (case find_category cats td of
            Some (c, n) \<Rightarrow>
              filter_loop U ref cats vs (by_cat(c := dict_append (by_cat c) n v)) dismissed
          | None \<Rightarrow> filter_loop U ref cats vs by_cat (dismissed @ [v])))"

text \<open>\<open>xs[-1:]\<close>, the last element as a list.\<close>

definition last_slice :: "'a list \<Rightarrow> 'a list" where
  "last_slice xs = drop (length xs - 1) xs"

type_synonym 'v buckets = "(string, (int, 'v list) dict) dict"

definition rf_filter :: "dateutil \<Rightarrow> datetime \<Rightarrow> (string, int) dict \<Rightarrow> ('v \<Rightarrow> datetime res)
    \<Rightarrow> 'v list \<Rightarrow> ('v list \<times> 'v buckets) res" where
  "rf_filter U ref rules date versions =
     (let cats = filter (\<lambda>(c, _). c \<noteq> ''latest'') rules in
      bind_res (map_res (\<lambda>v. bind_res (date v) (\<lambda>d. Inr (v, d))) versions) (\<lambda>vds.
        let sorted_vds = sort_key (\<lambda>(_, d). - to_us d) vds;
            n = (case dict_get rules ''latest'' of None \<Rightarrow> 0 | Some k \<Rightarrow> nat k);
            rest = drop n sorted_vds;
            (by_cat, dismissed) = filter_loop U ref cats rest (\<lambda>_. []) []
        in Inr (dismissed @ concat (map (\<lambda>(c, _). concat (map (\<lambda>(t, l). butlast l) (by_cat c))) cats),
                map (\<lambda>(c, _). (c, map (\<lambda>(t, l). (t, last_slice l)) (by_cat c))) cats
                @ (if dict_get rules ''latest'' = None then []
                   else [(''latest'', [(0, map fst (take n sorted_vds))])]))))"

section \<open>Buckets\<close>

definition bucket :: "(int, 'v list) dict \<Rightarrow> int \<Rightarrow> 'v list" where
  "bucket d k = (case dict_get d k of None \<Rightarrow> [] | Some l \<Rightarrow> l)"

definition wf_dict :: "(int, 'v list) dict \<Rightarrow> bool" where
  "wf_dict d \<longleftrightarrow> distinct (dict_keys d) \<and> (\<forall>(k, l) \<in> set d. l \<noteq> [])"

definition all_of :: "(int, 'v list) dict \<Rightarrow> 'v multiset" where
  "all_of d = mset (concat (map snd d))"

lemma keys_dict_append: "set (dict_keys (dict_append d k v)) = insert k (set (dict_keys d))"
  by (induction d k v rule: dict_append.induct) auto

lemma wf_dict_append: "wf_dict d \<Longrightarrow> wf_dict (dict_append d k v)"
proof (induction d k v rule: dict_append.induct)
  case (2 j l d k v)
  then show ?case using keys_dict_append [of d k v] by (auto simp: wf_dict_def)
qed (simp add: wf_dict_def)

lemma bucket_dict_append:
  "bucket (dict_append d k v) j = (if j = k then bucket d j @ [v] else bucket d j)"
  by (induction d k v rule: dict_append.induct) (auto simp: bucket_def)

lemma all_of_dict_append: "all_of (dict_append d k v) = add_mset v (all_of d)"
  by (induction d k v rule: dict_append.induct) (auto simp: all_of_def)

lemma bucket_in: "wf_dict d \<Longrightarrow> (k, l) \<in> set d \<Longrightarrow> bucket d k = l \<and> l \<noteq> []"
  by (auto simp: wf_dict_def bucket_def map_of_is_SomeI)

lemma last_slice_butlast: "l \<noteq> [] \<Longrightarrow> butlast l @ last_slice l = l"
  by (simp add: last_slice_def butlast_conv_take)

lemma last_slice_last: "l \<noteq> [] \<Longrightarrow> last_slice l = [last l]"
  using last_slice_butlast [of l] append_butlast_last_id [of l] by (metis same_append_eq)

lemma split_dict:
  "wf_dict d \<Longrightarrow>
     mset (concat (map (\<lambda>(t, l). butlast l) d)) + mset (concat (map (\<lambda>(t, l). last_slice l) d)) = all_of d"
proof (induction d)
  case (Cons x d)
  obtain k l where x: "x = (k, l)" by force
  have "wf_dict d" and "l \<noteq> []" using Cons.prems by (auto simp: wf_dict_def x)
  note ih = Cons.IH [OF \<open>wf_dict d\<close>]
  have l: "mset (butlast l) + mset (last_slice l) = mset l"
    using last_slice_butlast [OF \<open>l \<noteq> []\<close>] by (metis mset_append)
  have "mset (concat (map (\<lambda>(t, l). butlast l) (x # d))) + mset (concat (map (\<lambda>(t, l). last_slice l) (x # d)))
    = (mset (butlast l) + mset (last_slice l)) +
      (mset (concat (map (\<lambda>(t, l). butlast l) d)) + mset (concat (map (\<lambda>(t, l). last_slice l) d)))"
    by (simp add: x)
  then show ?case unfolding ih l by (simp add: x all_of_def)
qed (simp add: all_of_def)

section \<open>The loop\<close>

text \<open>How one version is classified: too young to measure, too old, or a bucket.\<close>

datatype verdict = Future | Dismiss | Keep string int

definition verdict_of :: "dateutil \<Rightarrow> datetime \<Rightarrow> (string, int) dict \<Rightarrow> datetime \<Rightarrow> verdict" where
  "verdict_of U ref cats d =
     (case Timedelta U d ref of
        Inl _ \<Rightarrow> Future
      | Inr td \<Rightarrow> (case find_category cats td of None \<Rightarrow> Dismiss | Some (c, n) \<Rightarrow> Keep c n))"

lemma find_category_keys: "find_category cats td = Some (c, n) \<Longrightarrow> c \<in> set (dict_keys cats)"
  by (induction cats td rule: find_category.induct) (auto split: if_splits)

lemma verdict_keys: "verdict_of U ref cats d = Keep c n \<Longrightarrow> c \<in> set (dict_keys cats)"
  by (auto simp: verdict_of_def dest: find_category_keys split: sum.splits option.splits)

definition with_verdict :: "dateutil \<Rightarrow> datetime \<Rightarrow> (string, int) dict \<Rightarrow> verdict
    \<Rightarrow> ('v \<times> datetime) list \<Rightarrow> 'v list" where
  "with_verdict U ref cats w vs = map fst (filter (\<lambda>(v, d). verdict_of U ref cats d = w) vs)"

lemma with_verdict_Nil [simp]: "with_verdict U ref cats w [] = []"
  and with_verdict_Cons [simp]: "with_verdict U ref cats w ((v, d) # vs) =
    (if verdict_of U ref cats d = w then v # with_verdict U ref cats w vs
     else with_verdict U ref cats w vs)"
  by (simp_all add: with_verdict_def)

lemma filter_loop_step:
  "filter_loop U ref cats ((v, d) # vs) bc dis =
     (case verdict_of U ref cats d of
        Future \<Rightarrow> filter_loop U ref cats vs bc dis
      | Dismiss \<Rightarrow> filter_loop U ref cats vs bc (dis @ [v])
      | Keep c n \<Rightarrow> filter_loop U ref cats vs (bc(c := dict_append (bc c) n v)) dis)"
  by (simp add: verdict_of_def split: sum.splits option.splits)

lemma filter_loop_spec:
  assumes "filter_loop U ref cats vs bc dis = (bc', dis')" and "\<And>c. wf_dict (bc c)"
  shows "dis' = dis @ with_verdict U ref cats Dismiss vs"
    and "bucket (bc' c) n = bucket (bc c) n @ with_verdict U ref cats (Keep c n) vs"
    and "wf_dict (bc' c)"
proof -
  have "dis' = dis @ with_verdict U ref cats Dismiss vs \<and>
    (\<forall>c n. bucket (bc' c) n = bucket (bc c) n @ with_verdict U ref cats (Keep c n) vs) \<and>
    (\<forall>c. wf_dict (bc' c))"
    using assms
  proof (induction vs arbitrary: bc dis)
    case (Cons x vs)
    obtain v d where x: "x = (v, d)" by force
    note loop = Cons.prems(1) [unfolded x filter_loop_step]
    show ?case
    proof (cases "verdict_of U ref cats d")
      case (Keep c n)
      have wf: "\<And>c'. wf_dict ((bc(c := dict_append (bc c) n v)) c')"
        by (auto intro!: wf_dict_append Cons.prems(2))
      have "filter_loop U ref cats vs (bc(c := dict_append (bc c) n v)) dis = (bc', dis')"
        using loop Keep by simp
      from Cons.IH [OF this wf] Keep show ?thesis
        by (auto simp: x bucket_dict_append)
    qed (use loop Cons.IH [of bc dis] Cons.IH [of bc "dis @ [v]"] Cons.prems(2) in \<open>simp_all add: x\<close>)
  qed simp
  then show "dis' = dis @ with_verdict U ref cats Dismiss vs"
    and "bucket (bc' c) n = bucket (bc c) n @ with_verdict U ref cats (Keep c n) vs"
    and "wf_dict (bc' c)" by auto
qed

definition all_buckets :: "(string, int) dict \<Rightarrow> (string \<Rightarrow> (int, 'v list) dict) \<Rightarrow> 'v multiset" where
  "all_buckets cats bc = sum_list (map (\<lambda>c. all_of (bc c)) (dict_keys cats))"

lemma sum_list_update_one:
  assumes "distinct cs" and "c \<in> set cs" and "f' c = add_mset v (f c)"
    and "\<And>x. x \<noteq> c \<Longrightarrow> f' x = f x"
  shows "sum_list (map f' cs) = add_mset v (sum_list (map f cs))"
  using assms
proof (induction cs)
  case (Cons x cs)
  show ?case
  proof (cases "x = c")
    case True
    have "f' y = f y" if "y \<in> set cs" for y
      by (rule Cons.prems(4)) (use that True Cons.prems(1) in auto)
    then have "map f' cs = map f cs" by simp
    with True Cons.prems(3) show ?thesis by (simp del: map_eq_conv)
  next
    case False
    with Cons show ?thesis by simp
  qed
qed simp

lemma filter_loop_all:
  assumes "filter_loop U ref cats vs bc dis = (bc', dis')" and "distinct (dict_keys cats)"
  shows "all_buckets cats bc' + mset dis' + mset (with_verdict U ref cats Future vs)
           = all_buckets cats bc + mset dis + mset (map fst vs)"
  using assms(1)
proof (induction vs arbitrary: bc dis)
  case (Cons x vs)
  obtain v d where x: "x = (v, d)" by force
  note loop = Cons.prems [unfolded x filter_loop_step]
  show ?case
  proof (cases "verdict_of U ref cats d")
    case (Keep c n)
    have "all_buckets cats (bc(c := dict_append (bc c) n v)) = add_mset v (all_buckets cats bc)"
      unfolding all_buckets_def
      by (rule sum_list_update_one [where c = c])
         (use assms(2) verdict_keys [OF Keep] in \<open>auto simp: all_of_dict_append\<close>)
    moreover have "filter_loop U ref cats vs (bc(c := dict_append (bc c) n v)) dis = (bc', dis')"
      using loop Keep by simp
    ultimately show ?thesis using Cons.IH Keep by (simp add: x del: fun_upd_apply)
  qed (use loop Cons.IH [of bc dis] Cons.IH [of bc "dis @ [v]"] in \<open>simp_all add: x\<close>)
qed simp

section \<open>The filter as a whole\<close>

definition kept_all :: "'v buckets \<Rightarrow> 'v list" where
  "kept_all kept = concat (map (\<lambda>(c, d). concat (map snd d)) kept)"

abbreviation cats_of :: "(string, int) dict \<Rightarrow> (string, int) dict" where
  "cats_of rules \<equiv> filter (\<lambda>(c, _). c \<noteq> ''latest'') rules"

abbreviation latest_of :: "(string, int) dict \<Rightarrow> nat" where
  "latest_of rules \<equiv> (case dict_get rules ''latest'' of None \<Rightarrow> 0 | Some k \<Rightarrow> nat k)"

lemma dated_versions:
  "map_res (\<lambda>v. bind_res (date v) (\<lambda>d. Inr (v, d))) vs = Inr vds \<Longrightarrow>
     map fst vds = vs \<and> (\<forall>(v, d) \<in> set vds. date v = Inr d)"
  by (induction vs arbitrary: vds) (auto simp: bind_res_eq_Inr)

lemma rf_filter_unfold:
  assumes "rf_filter U ref rules date vs = Inr (dis, kept)"
  obtains vds bc dis0 where
    "map fst vds = vs" "\<forall>(v, d) \<in> set vds. date v = Inr d"
    "filter_loop U ref (cats_of rules) (drop (latest_of rules) (sort_key (\<lambda>(_, d). - to_us d) vds))
       (\<lambda>_. []) [] = (bc, dis0)"
    "dis = dis0 @ concat (map (\<lambda>(c, _). concat (map (\<lambda>(t, l). butlast l) (bc c))) (cats_of rules))"
    "kept = map (\<lambda>(c, _). (c, map (\<lambda>(t, l). (t, last_slice l)) (bc c))) (cats_of rules)
      @ (if dict_get rules ''latest'' = None then []
         else [(''latest'', [(0, map fst (take (latest_of rules) (sort_key (\<lambda>(_, d). - to_us d) vds)))])])"
proof -
  obtain vds where vds: "map_res (\<lambda>v. bind_res (date v) (\<lambda>d. Inr (v, d))) vs = Inr vds"
    using assms by (auto simp: rf_filter_def Let_def bind_res_eq_Inr)
  obtain bc dis0 where loop: "filter_loop U ref (cats_of rules)
      (drop (latest_of rules) (sort_key (\<lambda>(_, d). - to_us d) vds)) (\<lambda>_. []) [] = (bc, dis0)"
    by force
  from dated_versions [OF vds] show thesis
    by (intro that [OF _ _ loop]) (use assms vds loop in \<open>auto simp: rf_filter_def Let_def\<close>)
qed

lemma split_categories:
  assumes "\<And>c. wf_dict (bc c)"
  shows "mset (concat (map (\<lambda>(c, _). concat (map (\<lambda>(t, l). butlast l) (bc c))) cs)) +
    mset (kept_all (map (\<lambda>(c, _). (c, map (\<lambda>(t, l). (t, last_slice l)) (bc c))) cs)) = all_buckets cs bc"
proof (induction cs)
  case (Cons x cs)
  obtain c k where x: "x = (c, k)" by force
  let ?B = "concat (map (\<lambda>(c, _). concat (map (\<lambda>(t, l). butlast l) (bc c))) cs)"
  let ?K = "kept_all (map (\<lambda>(c, _). (c, map (\<lambda>(t, l). (t, last_slice l)) (bc c))) cs)"
  let ?b = "concat (map (\<lambda>(t, l). butlast l) (bc c))" and ?k = "concat (map (\<lambda>(t, l). last_slice l) (bc c))"
  have snd: "map snd (map (\<lambda>(t, l). (t, last_slice l)) (bc c)) = map (\<lambda>(t, l). last_slice l) (bc c)"
    by auto
  have "(mset ?b + mset ?B) + (mset ?k + mset ?K) = (mset ?b + mset ?k) + (mset ?B + mset ?K)"
    by (simp only: ac_simps)
  then have "(mset ?b + mset ?B) + (mset ?k + mset ?K) = all_of (bc c) + all_buckets cs bc"
    by (simp only: split_dict [OF assms] Cons.IH)
  then show ?case by (simp add: x kept_all_def all_buckets_def snd del: map_map)
qed (simp add: kept_all_def all_buckets_def)

lemma all_buckets_empty [simp]: "all_buckets cs (\<lambda>_. []) = {#}"
  by (induction cs) (simp_all add: all_buckets_def all_of_def)

lemma wf_dict_Nil [simp]: "wf_dict []"
  by (simp add: wf_dict_def)

lemma parse_tokens_inv:
  assumes "parse_tokens toks d = Inr d'" and "distinct (dict_keys d)"
    and "\<forall>(c, n) \<in> set d. c \<in> set valid_categories \<and> 0 < n"
  shows "distinct (dict_keys d') \<and> (\<forall>(c, n) \<in> set d'. c \<in> set valid_categories \<and> 0 < n)"
  using assms
proof (induction toks d rule: parse_tokens.induct)
  case (2 token tokens d)
  obtain category num where m: "match_token token = Some (category, num)"
    using "2.prems"(1) by (auto split: if_splits option.splits)
  have new: "category \<notin> set (dict_keys d)"
    using "2.prems"(1) m by (auto simp: Let_def split: if_splits)
  show ?case
    by (rule "2.IH" [OF _ m refl refl]) (use "2.prems" m new in \<open>auto simp: Let_def dict_set_new split: if_splits\<close>)
qed simp

lemma parse_rules_canonical:
  assumes "parse_rules spec = Inr rules"
  shows "distinct (dict_keys rules)" and "subseq (dict_keys rules) valid_categories"
    and "(c, n) \<in> set rules \<Longrightarrow> 0 < n"
proof -
  obtain d where d: "parse_tokens (split_on CHR '','' spec) [] = Inr d"
    and rules: "rules = List.map_filter (\<lambda>c. map_option (Pair c) (dict_get d c)) valid_categories"
    using assms by (auto simp: parse_rules_def bind_res_eq_Inr)
  have keys: "dict_keys (List.map_filter (\<lambda>c. map_option (Pair c) (dict_get d c)) cs)
    = filter (\<lambda>c. dict_get d c \<noteq> None) cs" for cs
    by (induction cs) (auto simp: List.map_filter_def)
  have "distinct valid_categories" by (simp add: valid_categories_def)
  then show "distinct (dict_keys rules)" by (simp add: rules keys)
  show "subseq (dict_keys rules) valid_categories" by (simp add: rules keys)
  show "(c, n) \<in> set rules \<Longrightarrow> 0 < n"
    using parse_tokens_inv [OF d]
    by (auto simp: rules List.map_filter_def dest!: map_of_SomeD)
qed

lemma verdict_Future: "verdict_of U ref cats d = Future \<longleftrightarrow> to_us ref < to_us d"
  by (auto simp: verdict_of_def Timedelta_def Let_def split: option.splits)

lemma with_verdict_mem:
  "v \<in> set (with_verdict U ref cats w vs) \<longleftrightarrow> (\<exists>d. (v, d) \<in> set vs \<and> verdict_of U ref cats d = w)"
  by (force simp: with_verdict_def)

lemma bucket_loop:
  assumes "filter_loop U ref cats vs (\<lambda>_. []) [] = (bc, dis0)" and "(n, l) \<in> set (bc c)"
  shows "l = with_verdict U ref cats (Keep c n) vs" and "l \<noteq> []"
proof -
  have "wf_dict (bc c)" by (rule filter_loop_spec(3) [OF assms(1)]) simp
  moreover have "bucket (bc c) n = bucket [] n @ with_verdict U ref cats (Keep c n) vs"
    by (rule filter_loop_spec(2) [OF assms(1)]) simp
  ultimately show "l = with_verdict U ref cats (Keep c n) vs" and "l \<noteq> []"
    using bucket_in [OF _ assms(2)] by (simp_all add: bucket_def)
qed

text \<open>The list is sorted from youngest to oldest, so the last of a bucket is its oldest version.\<close>

lemma last_oldest:
  assumes "sorted (map (\<lambda>(_, d). - to_us d) vs)" and "xs = filter P vs" and "xs \<noteq> []" and "(v, d) \<in> set xs"
  shows "to_us (snd (last xs)) \<le> to_us d"
proof -
  obtain k where k: "k < length xs" "xs ! k = (v, d)" using assms(4) by (auto simp: in_set_conv_nth)
  have "sorted (map (\<lambda>(_, d). - to_us d) xs)"
    unfolding assms(2) by (rule sorted_filter [OF assms(1)])
  then have "map (\<lambda>(_, d). - to_us d) xs ! k \<le> map (\<lambda>(_, d). - to_us d) xs ! (length xs - 1)"
    by (rule sorted_nth_mono) (use k in auto)
  then show ?thesis using k assms(3) by (simp add: last_conv_nth case_prod_beta)
qed

text \<open>A concrete \<open>dateutil\<close> in UTC on the proleptic Gregorian calendar, for the examples.\<close>

definition whole_months :: "datetime \<Rightarrow> datetime \<Rightarrow> int" where
  "whole_months a b = (year a * 12 + month a) - (year b * 12 + month b)"

definition utc_dateutil :: dateutil where
  "utc_dateutil = \<lparr> astimezone = (\<lambda>t. t),
     last_monday = (\<lambda>t. t\<lparr>day := day t - weekday t, hour := 0, minute := 0, second := 0, microsecond := 0\<rparr>),
     relativedelta = (\<lambda>a b. let m = whole_months a b in (sgn m * (\<bar>m\<bar> div 12), sgn m * (\<bar>m\<bar> mod 12))) \<rparr>"

definition noon :: "int \<Rightarrow> int \<Rightarrow> int \<Rightarrow> datetime" where
  "noon y m d = \<lparr> year = y, month = m, day = d, hour = 12, minute = 0, second = 0, microsecond = 0 \<rparr>"

definition demo_date :: "nat \<Rightarrow> datetime res" where
  "demo_date v = Inr (noon 2020 3 (10 - int v))"

lemma demo_rules: "parse_rules ''weeks1,latest1'' = Inr [(''latest'', 1), (''weeks'', 1)]"
  by code_simp

lemma demo_filter:
  "rf_filter utc_dateutil (noon 2020 3 10) [(''latest'', 1), (''weeks'', 1)] demo_date [3, 0, 2, 1, 20]
    = Inr ([20, 2], [(''weeks'', [(0, [1]), (1, [3])]), (''latest'', [(0, [0])])])"
  by code_simp

section \<open>What the filter guarantees\<close>

lemma rf_partition:
  assumes "parse_rules spec = Inr rules" and "rf_filter U ref rules date vs = Inr (dis, kept)"
  shows "\<exists>skipped. mset vs = mset dis + mset (kept_all kept) + mset skipped \<and>
           (\<forall>v \<in> set skipped. \<exists>t. date v = Inr t \<and> to_us ref < to_us t)"
proof -
  obtain vds bc dis0 where vds: "map fst vds = vs" "\<forall>(v, d) \<in> set vds. date v = Inr d"
    and loop: "filter_loop U ref (cats_of rules) (drop (latest_of rules) (sort_key (\<lambda>(_, d). - to_us d) vds))
       (\<lambda>_. []) [] = (bc, dis0)"
    and dis: "dis = dis0 @ concat (map (\<lambda>(c, _). concat (map (\<lambda>(t, l). butlast l) (bc c))) (cats_of rules))"
    and kept: "kept = map (\<lambda>(c, _). (c, map (\<lambda>(t, l). (t, last_slice l)) (bc c))) (cats_of rules)
      @ (if dict_get rules ''latest'' = None then []
         else [(''latest'', [(0, map fst (take (latest_of rules) (sort_key (\<lambda>(_, d). - to_us d) vds)))])])"
    by (rule rf_filter_unfold [OF assms(2)])
  let ?s = "sort_key (\<lambda>(_, d). - to_us d) vds" and ?n = "latest_of rules"
  let ?skipped = "with_verdict U ref (cats_of rules) Future (drop ?n ?s)"
  have "distinct (dict_keys (cats_of rules))"
    by (simp add: parse_rules_canonical(1) [OF assms(1)] distinct_map_filter)
  note all = filter_loop_all [OF loop this]
  have latest: "mset (kept_all kept) = mset (kept_all (map (\<lambda>(c, _). (c, map (\<lambda>(t, l). (t, last_slice l)) (bc c))) (cats_of rules)))
      + mset (map fst (take ?n ?s))"
    by (auto simp: kept kept_all_def)
  have "mset dis + mset (kept_all kept) + mset ?skipped
      = all_buckets (cats_of rules) bc + mset dis0 + mset ?skipped + mset (map fst (take ?n ?s))"
    unfolding latest dis mset_append split_categories [OF filter_loop_spec(3) [OF loop], symmetric, OF wf_dict_Nil]
    by (simp only: ac_simps)
  also have "\<dots> = mset (map fst (take ?n ?s @ drop ?n ?s))"
    unfolding all by (simp only: map_append mset_append all_buckets_empty ac_simps) simp
  also have "\<dots> = mset (map fst vds)" unfolding append_take_drop_id by simp
  finally have "mset vs = mset dis + mset (kept_all kept) + mset ?skipped" by (simp add: vds(1))
  moreover have "\<exists>t. date v = Inr t \<and> to_us ref < to_us t" if "v \<in> set ?skipped" for v
    using that vds(2) by (fastforce simp: with_verdict_mem verdict_Future dest!: in_set_dropD)
  ultimately show ?thesis by blast
qed

text \<open>Applying a parsed retention policy partitions the given versions: each occurrence of a
  version is dismissed, or kept in exactly one bucket, or skipped because it is dated after the
  reference time. Nothing is lost or dismissed twice.\<close>

theorem retention_partition:
  assumes "parse_rules spec = Inr rules" and "rf_filter U ref rules date vs = Inr (dis, kept)"
  shows "\<exists>skipped. mset vs = mset dis + mset (kept_all kept) + mset skipped \<and>
           (\<forall>v \<in> set skipped. \<exists>t. date v = Inr t \<and> to_us ref < to_us t)"
  by (rule rf_partition [OF assms])

theorem retention_partition_witness:
  "\<exists>skipped. mset [3, 0, 2, 1, 20] = mset [20, 2] +
     mset (kept_all [(''weeks'', [(0, [1]), (1, [3])]), (''latest'', [(0, [0::nat])])]) + mset skipped"
  using retention_partition [OF demo_rules demo_filter] by blast



end
