(* ===== verification/Storage_Keys.thy ===== *)
theory Storage_Keys
  imports Validation
begin

text \<open>
  Object keys: \<open>StorageKeyMixIn\<close> of \<open>storage/key.py\<close> and its two users in \<open>database.py\<close>,
  \<open>BlockUid\<close> and \<open>VersionUid\<close>. \<open>hashlib.md5(...).hexdigest()\<close> is the parameter
  \<open>md5\<close>; the code uses of it that it has at least four characters (it has 32).
\<close>

section \<open>Hexadecimal numerals\<close>

definition hex_chars :: string where
  "hex_chars = ''0123456789abcdef''"

definition hex_char :: "nat \<Rightarrow> char" where
  "hex_char d = hex_chars ! d"

fun hex_nat :: "nat \<Rightarrow> string" where
  "hex_nat n = (if n < 16 then [hex_char n] else hex_nat (n div 16) @ [hex_char (n mod 16)])"

declare hex_nat.simps [simp del]

text \<open>\<open>'{:0wx}'.format(n)\<close>: the sign counts towards the width.\<close>

definition format_x :: "nat \<Rightarrow> int \<Rightarrow> string" where
  "format_x w n =
     (let h = hex_nat (nat \<bar>n\<bar>) in
      if n < 0 then ''-'' @ replicate (w - 1 - length h) CHR ''0'' @ h
      else replicate (w - length h) CHR ''0'' @ h)"

definition hex_digit :: "char \<Rightarrow> nat option" where
  "hex_digit c =
     (let n = of_char c in
      if 48 \<le> n \<and> n \<le> 57 then Some (n - 48)
      else if 97 \<le> n \<and> n \<le> 102 then Some (n - 87)
      else if 65 \<le> n \<and> n \<le> 70 then Some (n - 55)
      else None)"

text \<open>\<open>int(s, 16)\<close>: digits, a single underscore allowed between two of them.\<close>

fun parse_hex :: "nat \<Rightarrow> bool \<Rightarrow> string \<Rightarrow> nat option" where
  "parse_hex acc ok [] = (if ok then Some acc else None)"
| "parse_hex acc ok (c # cs) =
     (if c = CHR ''_'' then (if ok then parse_hex acc False cs else None)
      else (case hex_digit c of None \<Rightarrow> None | Some d \<Rightarrow> parse_hex (16 * acc + d) True cs))"

definition py_space :: "char \<Rightarrow> bool" where
  "py_space c \<longleftrightarrow> (let n = of_char c :: nat in
     9 \<le> n \<and> n \<le> 13 \<or> 28 \<le> n \<and> n \<le> 32 \<or> n = 133 \<or> n = 160)"

definition py_strip :: "string \<Rightarrow> string" where
  "py_strip s = rev (dropWhile py_space (rev (dropWhile py_space s)))"

definition strip_sign :: "string \<Rightarrow> int \<times> string" where
  "strip_sign s = (case s of
     [] \<Rightarrow> (1, [])
   | c # cs \<Rightarrow> if c = CHR ''-'' then (-1, cs) else if c = CHR ''+'' then (1, cs) else (1, s))"

definition strip_0x :: "string \<Rightarrow> string" where
  "strip_0x s = (case s of
     a # b # cs \<Rightarrow>
       if a = CHR ''0'' \<and> (b = CHR ''x'' \<or> b = CHR ''X'')
       then (case cs of c # ds \<Rightarrow> if c = CHR ''_'' then ds else cs | [] \<Rightarrow> [])
       else s
   | _ \<Rightarrow> s)"

definition int16 :: "string \<Rightarrow> int res" where
  "int16 s =
     (case strip_sign (py_strip s) of (sg, t) \<Rightarrow>
       (case parse_hex 0 False (strip_0x t) of
          None \<Rightarrow> Inl ValueError
        | Some n \<Rightarrow> Inr (sg * int n)))"

section \<open>Paths\<close>

text \<open>\<open>key.encode('ascii')\<close> raises \<open>UnicodeEncodeError\<close>, a \<open>ValueError\<close>.\<close>

definition encode_ascii :: "string \<Rightarrow> string res" where
  "encode_ascii s = (if \<forall>c \<in> set s. of_char c < (128::nat) then Inr s else Inl ValueError)"

definition to_path :: "(string \<Rightarrow> string) \<Rightarrow> string \<Rightarrow> string \<Rightarrow> string res" where
  "to_path md5 prefix key =
     bind_res (encode_ascii key) (\<lambda>k.
       let digest = md5 k in
       Inr (prefix @ py_slice 0 2 digest @ ''/'' @ py_slice 2 4 digest @ ''/'' @ key))"

definition from_path :: "string \<Rightarrow> string \<Rightarrow> string res" where
  "from_path prefix key =
     (if take (length prefix) key \<noteq> prefix then Inl RuntimeError
      else if length key \<le> length prefix + 6 then Inl RuntimeError
      else Inr (drop (length prefix + 6) key))"

section \<open>Block UIDs and version UIDs as keys\<close>

definition block_prefix :: string where "block_prefix = ''blocks/''"
definition version_prefix :: string where "version_prefix = ''versions/''"

definition block_to_key :: "block_uid \<Rightarrow> string res" where
  "block_to_key u =
     (case (uid_left u, uid_right u) of
        (Some l, Some r) \<Rightarrow> Inr (format_x 16 l @ ''-'' @ format_x 16 r)
      | _ \<Rightarrow> Inl AssertionError)"

definition block_of_key :: "string \<Rightarrow> block_uid res" where
  "block_of_key key =
     (if length key \<noteq> 16 + 1 + 16 then Inl RuntimeError
      else bind_res (int16 (py_slice 0 16 key)) (\<lambda>l.
           bind_res (int16 (py_slice 17 (17 + 16) key)) (\<lambda>r.
             mk_block_uid (Some l) (Some r))))"

definition block_to_path :: "(string \<Rightarrow> string) \<Rightarrow> block_uid \<Rightarrow> string res" where
  "block_to_path md5 u = bind_res (block_to_key u) (to_path md5 block_prefix)"

definition block_of_path :: "string \<Rightarrow> block_uid res" where
  "block_of_path p = bind_res (from_path block_prefix p) block_of_key"

text \<open>\<open>VersionUid(uid)\<close> is a validated string.\<close>

definition VersionUid :: "string \<Rightarrow> string res" where
  "VersionUid uid = (if \<not> is_version_uid uid then Inl InputDataError else Inr uid)"

definition version_to_path :: "(string \<Rightarrow> string) \<Rightarrow> string \<Rightarrow> string res" where
  "version_to_path md5 uid = to_path md5 version_prefix uid"

definition version_of_path :: "string \<Rightarrow> string res" where
  "version_of_path p = bind_res (from_path version_prefix p) VersionUid"

text \<open>\<open>BlockUid.__str__\<close>, the key of the NBD block cache.\<close>

definition uid_str :: "block_uid \<Rightarrow> string" where
  "uid_str u = format_x 0 (half (uid_left u)) @ ''-'' @ format_x 0 (half (uid_right u))"

section \<open>Numerals: digits, lengths, and reading back\<close>

lemma hex_digit_hex_char: "d < 16 \<Longrightarrow> hex_digit (hex_char d) = Some d \<and> hex_char d \<noteq> CHR ''_''"
proof -
  have "\<forall>d \<in> set [0..<16]. hex_digit (hex_char d) = Some d \<and> hex_char d \<noteq> CHR ''_''"
    by code_simp
  then show "d < 16 \<Longrightarrow> hex_digit (hex_char d) = Some d \<and> hex_char d \<noteq> CHR ''_''" by simp
qed

lemma hex_chars_facts:
  assumes "c \<in> set hex_chars"
  shows "\<not> py_space c" "of_char c < (128::nat)" "c \<noteq> CHR ''-''" "c \<noteq> CHR ''+''" "c \<noteq> CHR ''_''"
    "c \<noteq> CHR ''x''" "c \<noteq> CHR ''X''"
proof -
  have "\<forall>c \<in> set hex_chars. \<not> py_space c \<and> of_char c < (128::nat) \<and> c \<noteq> CHR ''-'' \<and>
    c \<noteq> CHR ''+'' \<and> c \<noteq> CHR ''_'' \<and> c \<noteq> CHR ''x'' \<and> c \<noteq> CHR ''X''"
    by code_simp
  with assms show "\<not> py_space c" "of_char c < (128::nat)" "c \<noteq> CHR ''-''" "c \<noteq> CHR ''+''"
    "c \<noteq> CHR ''_''" "c \<noteq> CHR ''x''" "c \<noteq> CHR ''X''" by blast+
qed

lemma hex_char_class: "d < 16 \<Longrightarrow> hex_char d \<in> set hex_chars"
  unfolding hex_char_def by (rule nth_mem) (simp add: hex_chars_def)

lemma hex_nat_chars: "set (hex_nat n) \<subseteq> set hex_chars"
proof (induction n rule: hex_nat.induct)
  case (1 n)
  show ?case
  proof (cases "n < 16")
    case True
    with hex_char_class show ?thesis by (subst hex_nat.simps) simp
  next
    case False
    have "hex_char (n mod 16) \<in> set hex_chars" by (rule hex_char_class) simp
    with False "1.IH" show ?thesis by (subst hex_nat.simps) simp
  qed
qed

lemma hex_nat_not_Nil: "hex_nat n \<noteq> []"
  by (subst hex_nat.simps) simp

lemma parse_hex_append:
  "parse_hex a ok (xs @ ys) =
     (if xs = [] then parse_hex a ok ys
      else if last xs = CHR ''_'' then parse_hex a ok (xs @ ys)
      else (case parse_hex a ok xs of None \<Rightarrow> None | Some b \<Rightarrow> parse_hex b True ys))"
proof (induction xs arbitrary: a ok)
  case (Cons x xs)
  show ?case
  proof (cases "x = CHR ''_''")
    case True
    with Cons.IH [of a False] show ?thesis by (cases "xs = []") auto
  next
    case False
    show ?thesis
    proof (cases "hex_digit x")
      case (Some d)
      with False Cons.IH [of "16 * a + d" True] show ?thesis by (cases "xs = []") auto
    qed (use False in simp)
  qed
qed simp

lemma hex_nat_last: "last (hex_nat n) \<noteq> CHR ''_''"
proof -
  have "last (hex_nat n) \<in> set (hex_nat n)" using hex_nat_not_Nil by simp
  then have "last (hex_nat n) \<in> set hex_chars" using hex_nat_chars by blast
  then show ?thesis by (rule hex_chars_facts)
qed

lemma parse_hex_hex_nat: "parse_hex 0 ok (hex_nat n) = Some n"
proof (induction n rule: hex_nat.induct)
  case (1 n)
  show ?case
  proof (cases "n < 16")
    case True
    with hex_digit_hex_char show ?thesis by (subst hex_nat.simps) simp
  next
    case False
    have d: "hex_digit (hex_char (n mod 16)) = Some (n mod 16)" "hex_char (n mod 16) \<noteq> CHR ''_''"
      using hex_digit_hex_char [of "n mod 16"] by auto
    have "parse_hex 0 ok (hex_nat (n div 16) @ [hex_char (n mod 16)]) = Some (16 * (n div 16) + n mod 16)"
      using "1.IH" [OF False] d hex_nat_not_Nil hex_nat_last
      by (simp add: parse_hex_append [of _ _ "hex_nat (n div 16)"])
    with False show ?thesis by (subst hex_nat.simps) simp
  qed
qed

lemma parse_hex_zeros: "0 < k \<Longrightarrow> parse_hex 0 ok (replicate k CHR ''0'' @ s) = parse_hex 0 True s"
proof (induction k arbitrary: ok)
  case (Suc k)
  have "hex_digit CHR ''0'' = Some 0" by (simp add: hex_digit_def)
  with Suc show ?case by (cases "k = 0") auto
qed simp

lemma parse_hex_ok: "s \<noteq> [] \<Longrightarrow> hd s \<noteq> CHR ''_'' \<Longrightarrow> parse_hex a ok s = parse_hex a True s"
  by (cases s) auto

lemma hex_chars_plain:
  "set s \<subseteq> set hex_chars \<Longrightarrow> py_strip s = s"
  "set s \<subseteq> set hex_chars \<Longrightarrow> strip_sign s = (1, s)"
  "set s \<subseteq> set hex_chars \<Longrightarrow> strip_0x s = s"
proof -
  assume s: "set s \<subseteq> set hex_chars"
  have dw: "dropWhile py_space t = t" if "set t \<subseteq> set hex_chars" for t
    using that hex_chars_facts(1) by (cases t) auto
  show "py_strip s = s" using s by (simp add: py_strip_def dw)
  show "strip_sign s = (1, s)"
    using s by (auto simp: strip_sign_def dest: hex_chars_facts(3,4) split: list.splits)
  show "strip_0x s = s"
    using s by (auto simp: strip_0x_def dest: hex_chars_facts(6,7) split: list.splits)
qed

text \<open>A padded numeral reads back as its number, whatever the width.\<close>

lemma format_x_chars: "0 \<le> n \<Longrightarrow> set (format_x w n) \<subseteq> set hex_chars"
proof -
  assume "0 \<le> n"
  have "CHR ''0'' \<in> set hex_chars" by (simp add: hex_chars_def)
  then show ?thesis
    using \<open>0 \<le> n\<close> hex_nat_chars [of "nat n"] by (auto simp: format_x_def Let_def set_replicate_conv_if)
qed

lemma int16_format_x:
  assumes "0 \<le> n" shows "int16 (format_x w n) = Inr n"
proof -
  let ?h = "hex_nat (nat n)"
  have "parse_hex 0 False (format_x w n) = Some (nat n)"
  proof (cases "w - length ?h = 0")
    case True
    with assms show ?thesis by (simp add: format_x_def Let_def parse_hex_hex_nat)
  next
    case False
    then show ?thesis
      using assms by (simp add: format_x_def Let_def parse_hex_zeros parse_hex_hex_nat)
  qed
  then show ?thesis
    using assms hex_chars_plain [OF format_x_chars [OF assms]] by (simp add: int16_def)
qed

lemma length_hex_nat: "n < 16 ^ Suc k \<Longrightarrow> length (hex_nat n) \<le> Suc k"
proof (induction k arbitrary: n)
  case 0
  then show ?case by (subst hex_nat.simps) simp
next
  case (Suc k)
  show ?case
  proof (cases "n < 16")
    case True
    then show ?thesis by (subst hex_nat.simps) simp
  next
    case False
    have "n div 16 < 16 ^ Suc k" using Suc.prems by (simp add: less_mult_imp_div_less)
    from Suc.IH [OF this] False show ?thesis by (subst hex_nat.simps) simp
  qed
qed

lemma length_format_x:
  assumes "0 \<le> n" and "n < 16 ^ 16" shows "length (format_x 16 n) = 16"
proof -
  have "nat n < 16 ^ Suc 15" using assms by (simp add: nat_less_iff)
  from length_hex_nat [OF this] show ?thesis using assms by (simp add: format_x_def Let_def)
qed

section \<open>Paths read back, and no two objects share one\<close>

lemma encode_ascii_ok: "(\<And>c. c \<in> set s \<Longrightarrow> of_char c < (128::nat)) \<Longrightarrow> encode_ascii s = Inr s"
  by (simp add: encode_ascii_def)

lemma from_to_path:
  assumes "to_path md5 prefix key = Inr p" and "4 \<le> length (md5 key)" and "key \<noteq> []"
  shows "from_path prefix p = Inr key"
proof -
  let ?d = "py_slice 0 2 (md5 key) @ ''/'' @ py_slice 2 4 (md5 key) @ ''/''"
  have l: "length ?d = 6" using assms(2) by simp
  have p: "p = prefix @ ?d @ key"
    using assms(1) by (auto simp: to_path_def encode_ascii_def Let_def split: if_splits)
  have "drop (length prefix + 6) p = key" using l by (simp only: p) simp
  moreover have "length p = length prefix + 6 + length key" using l by (simp only: p) simp
  moreover have "take (length prefix) p = prefix" by (simp add: p)
  ultimately show ?thesis using assms(3) by (simp add: from_path_def)
qed

lemma block_to_key_ascii:
  assumes "0 \<le> l" and "0 \<le> r"
  shows "encode_ascii (format_x 16 l @ ''-'' @ format_x 16 r)
           = Inr (format_x 16 l @ ''-'' @ format_x 16 r)"
proof (rule encode_ascii_ok)
  fix c assume "c \<in> set (format_x 16 l @ ''-'' @ format_x 16 r)"
  then have "c \<in> set hex_chars \<or> c = CHR ''-''"
    using format_x_chars [OF assms(1), of 16] format_x_chars [OF assms(2), of 16] by auto
  then show "of_char c < (128::nat)" using hex_chars_facts(2) by auto
qed

definition key_uid :: "block_uid \<Rightarrow> bool" where
  "key_uid u \<longleftrightarrow> uid_bool u \<and> 0 \<le> half (uid_left u) \<and> 0 \<le> half (uid_right u)"

lemma key_uid_cases:
  assumes "key_uid u"
  obtains l r where "u = BlockUid (Some l) (Some r)" "0 \<le> l" "0 \<le> r"
  using assms by (cases u) (auto simp: key_uid_def uid_bool_def half_def)

lemma block_to_path_Inr:
  assumes "key_uid u"
  obtains p where "block_to_path md5 u = Inr p"
  using assms
proof (cases rule: key_uid_cases)
  case (1 l r)
  then show ?thesis
    using that block_to_key_ascii [of l r]
    by (auto simp: block_to_path_def block_to_key_def to_path_def Let_def)
qed

lemma block_key_of_path:
  assumes "block_to_path md5 (BlockUid (Some l) (Some r)) = Inr p" and "\<And>k. 4 \<le> length (md5 k)"
  shows "from_path block_prefix p = Inr (format_x 16 l @ ''-'' @ format_x 16 r)"
  using assms(1) from_to_path [of md5 block_prefix "format_x 16 l @ ''-'' @ format_x 16 r" p] assms(2)
  by (simp add: block_to_path_def block_to_key_def)

lemma split_key:
  assumes "0 \<le> l" and "0 \<le> l'"
    and "format_x 16 l @ CHR ''-'' # x = format_x 16 l' @ CHR ''-'' # x'"
  shows "format_x 16 l = format_x 16 l' \<and> x = x'"
proof -
  have no: "CHR ''-'' \<notin> set (format_x 16 l)" "CHR ''-'' \<notin> set (format_x 16 l')"
    using format_x_chars [OF assms(1)] format_x_chars [OF assms(2)] hex_chars_facts(3) by blast+
  from assms(3) have "split_on CHR ''-'' (format_x 16 l @ CHR ''-'' # x)
    = split_on CHR ''-'' (format_x 16 l' @ CHR ''-'' # x')" by simp
  then have "format_x 16 l = format_x 16 l'" using no by (simp add: split_on_append)
  with assms(3) show ?thesis by simp
qed

lemma block_to_path_inj:
  assumes "key_uid u" and "key_uid v" and "\<And>k. 4 \<le> length (md5 k)"
    and "block_to_path md5 u = Inr p" and "block_to_path md5 v = Inr p"
  shows "u = v"
proof -
  from assms(1) obtain l r where u: "u = BlockUid (Some l) (Some r)" "0 \<le> l" "0 \<le> r"
    by (rule key_uid_cases)
  from assms(2) obtain l' r' where v: "v = BlockUid (Some l') (Some r')" "0 \<le> l'" "0 \<le> r'"
    by (rule key_uid_cases)
  have "format_x 16 l @ ''-'' @ format_x 16 r = format_x 16 l' @ ''-'' @ format_x 16 r'"
    using block_key_of_path [OF assms(4)[unfolded u(1)] assms(3)]
      block_key_of_path [OF assms(5)[unfolded v(1)] assms(3)] by simp
  then have "format_x 16 l = format_x 16 l'" "format_x 16 r = format_x 16 r'"
    using split_key [OF u(2) v(2)] by auto
  then have "Inr l = (Inr l' :: int res)" "Inr r = (Inr r' :: int res)"
    using int16_format_x [OF u(2), of 16] int16_format_x [OF v(2), of 16]
      int16_format_x [OF u(3), of 16] int16_format_x [OF v(3), of 16] by metis+
  with u v show ?thesis by simp
qed

lemma block_of_to_path:
  assumes u: "u = BlockUid (Some l) (Some r)" "0 \<le> l" "l < 16 ^ 16" "0 \<le> r" "r < 16 ^ 16"
    and md5: "\<And>k. 4 \<le> length (md5 k)"
    and p: "block_to_path md5 u = Inr p"
  shows "block_of_path p = Inr u"
proof -
  let ?k = "format_x 16 l @ ''-'' @ format_x 16 r"
  have ll: "length (format_x 16 l) = 16" and lr: "length (format_x 16 r) = 16"
    using u length_format_x by auto
  have "py_slice 0 16 ?k = format_x 16 l" using ll by (simp add: py_slice_def)
  moreover have "py_slice 17 (17 + 16) ?k = format_x 16 r" using ll lr by (simp add: py_slice_def)
  ultimately have "block_of_key ?k = Inr u"
    using ll lr u by (simp add: block_of_key_def int16_format_x mk_block_uid_def)
  then show ?thesis using block_key_of_path [of md5 l r p] p u md5 by (simp add: block_of_path_def)
qed

section \<open>What the path layout guarantees\<close>

text \<open>Every block UID with 64-bit halves has a path under \<open>blocks/\<close>, and parsing the path
  gives the UID back, whatever digest \<open>md5\<close> computes (of at least four characters). Hence no two
  blocks share a path.\<close>

theorem block_path_roundtrip:
  assumes "0 \<le> l" "l < 16 ^ 16" "0 \<le> r" "r < 16 ^ 16" and "\<And>k. 4 \<le> length (md5 k)"
  shows "\<exists>p. block_to_path md5 (BlockUid (Some l) (Some r)) = Inr p \<and>
             block_of_path p = Inr (BlockUid (Some l) (Some r)) \<and>
             (\<forall>u. key_uid u \<and> block_to_path md5 u = Inr p \<longrightarrow> u = BlockUid (Some l) (Some r))"
proof -
  have k: "key_uid (BlockUid (Some l) (Some r))" using assms by (simp add: key_uid_def half_def)
  then obtain p where p: "block_to_path md5 (BlockUid (Some l) (Some r)) = Inr p"
    by (rule block_to_path_Inr)
  moreover have "block_of_path p = Inr (BlockUid (Some l) (Some r))"
    by (rule block_of_to_path [OF refl assms(1-4) _ p]) (rule assms(5))
  moreover have "u = BlockUid (Some l) (Some r)" if "key_uid u" "block_to_path md5 u = Inr p" for u
    by (rule block_to_path_inj [OF that(1) k _ that(2) p]) (rule assms(5))
  ultimately show ?thesis by blast
qed

theorem block_path_roundtrip_witness:
  "\<exists>p. block_to_path (\<lambda>_. ''abcd'') (BlockUid (Some 7) (Some 255)) = Inr p \<and>
       block_of_path p = Inr (BlockUid (Some 7) (Some 255))"
  using block_path_roundtrip [of 7 255 "\<lambda>_. ''abcd''"] by auto

text \<open>The same for version metadata: a valid version UID survives the trip through its path under
  \<open>versions/\<close>.\<close>

theorem version_path_roundtrip:
  assumes "VersionUid s = Inr uid" and "\<And>k. 4 \<le> length (md5 k)"
  shows "\<exists>p. version_to_path md5 uid = Inr p \<and> version_of_path p = Inr uid"
proof -
  have s: "is_version_uid uid" "s = uid" using assms(1) by (auto simp: VersionUid_def split: if_splits)
  have "encode_ascii uid = Inr uid" by (rule encode_ascii_ok) (rule version_uid_ascii [OF s(1)])
  then obtain p where p: "version_to_path md5 uid = Inr p"
    by (auto simp: version_to_path_def to_path_def Let_def)
  have "from_path version_prefix p = Inr uid"
    using from_to_path [of md5 version_prefix uid p] p assms(2) version_uid_nonempty [OF s(1)]
    by (simp add: version_to_path_def)
  then show ?thesis using p s by (auto simp: version_of_path_def VersionUid_def)
qed

theorem version_path_roundtrip_witness:
  "\<exists>p. version_to_path (\<lambda>_. ''abcd'') ''v1'' = Inr p \<and> version_of_path p = Inr ''v1''"
proof (rule version_path_roundtrip)
  show "VersionUid ''v1'' = Inr ''v1''" by code_simp
qed simp

end
