(* ===== verification/Storage.thy ===== *)
theory Storage
  imports Storage_Keys "HOL-Library.Word" "HOL-Library.Char_ord" "HOL-Library.List_Lexorder"
begin

text \<open>
  \<open>storage/base.py\<close> (the class \<open>StorageBase\<close>), \<open>storage/file.py\<close> and \<open>storage/dicthmac.py\<close>: how a block becomes
  two objects of a storage, its data and its metadata, and how it is read back, checked and removed.

  The abstract methods of \<open>StorageBase\<close> are the record \<open>backend\<close>; the file storage implements it on a
  map from keys to contents. \<open>json\<close>, \<open>hmac\<close>, \<open>semantic_version\<close>, \<open>hashlib.md5\<close> and the clock are third-party code or
  the environment and belong to the record \<open>storage_conf\<close>.
\<close>

type_synonym bytes = "8 word list"

section \<open>JSON values\<close>

text \<open>A float is the text Python prints for it.\<close>

datatype json = JNull | JBool bool | JStr string | JInt int | JFloat string | JList "json list" | JDict "(string \<times> json) list"

fun dec_nat :: "nat \<Rightarrow> string" where
  "dec_nat n = (if n < 10 then [char_of (48 + n)] else dec_nat (n div 10) @ [char_of (48 + n mod 10)])"

declare dec_nat.simps [simp del]

definition dec_int :: "int \<Rightarrow> string" where
  "dec_int i = (if i < 0 then ''-'' @ dec_nat (nat (- i)) else dec_nat (nat i))"

section \<open>HMAC over a dictionary\<close>

text \<open>
  \<open>DictHMAC._calculate_digest\<close>: the strings \<open>traverse\<close> feeds to the HMAC one after the other, that is their
  concatenation. The keyed hash with its base64 encoding is the parameter \<open>mac\<close>.
\<close>

fun traverse :: "json \<Rightarrow> string" where
  "traverse (JDict d) = concat (map (\<lambda>(k, s). k @ s) (sort_key fst (map (\<lambda>(k, v). (k, traverse v)) d)))"
| "traverse (JList xs) = concat (map traverse xs)"
| "traverse (JStr s) = s"
| "traverse (JInt i) = dec_int i"
| "traverse (JFloat s) = s"
| "traverse (JBool b) = (if b then ''True'' else ''False'')"
| "traverse JNull = ''None''"

definition hmac_key :: string where "hmac_key = ''hmac''"

definition calculate_digest :: "(string \<Rightarrow> string) \<Rightarrow> (string, json) dict \<Rightarrow> string" where
  "calculate_digest mac d = mac (traverse (JDict d))"

definition add_digest :: "(string \<Rightarrow> string) \<Rightarrow> (string, json) dict \<Rightarrow> (string, json) dict" where
  "add_digest mac d =
     dict_set d hmac_key (JDict [(''algorithm'', JStr ''sha256''), (''digest'', JStr (calculate_digest mac d))])"

text \<open>\<open>verify_digest\<close> also deletes the HMAC entry; the result is the dictionary without it.\<close>

definition verify_digest :: "(string \<Rightarrow> string) \<Rightarrow> json \<Rightarrow> (string, json) dict res" where
  "verify_digest mac j =
     (case j of
        JDict d \<Rightarrow>
          (case dict_get d hmac_key of
             None \<Rightarrow> Inl ValueError
           | Some (JDict h) \<Rightarrow>
               (case (dict_get h ''algorithm'', dict_get h ''digest'') of
                  (Some alg, Some expected) \<Rightarrow>
                    if alg \<noteq> JStr ''sha256'' then Inl ValueError
                    else
                      (let rest = dict_del d hmac_key in
                       if JStr (calculate_digest mac rest) \<noteq> expected then Inl ValueError else Inr rest)
                | _ \<Rightarrow> Inl ValueError)
           | Some _ \<Rightarrow> Inl ValueError)
      | _ \<Rightarrow> Inl InternalError)"

lemma verify_add_digest:
  "hmac_key \<notin> set (dict_keys d) \<Longrightarrow> verify_digest mac (JDict (add_digest mac d)) = Inr d"
  by (simp add: verify_digest_def add_digest_def dict_get_set dict_del_set)

section \<open>Configuration and backend\<close>

record transform =
  tr_name :: string
  tr_module :: string
  tr_encapsulate :: "nat \<Rightarrow> bytes \<Rightarrow> bytes option \<times> json"
  tr_decapsulate :: "bytes \<Rightarrow> json \<Rightarrow> bytes res"

record storage_conf =
  active_transforms :: "transform list"
  get_transform :: "string \<Rightarrow> transform res"
  dict_hmac :: "(string \<Rightarrow> string) option"
  consistency_check_writes :: bool
  json_dumps :: "json \<Rightarrow> bytes"
  json_loads :: "bytes \<Rightarrow> json res"
  version_supported :: "json \<Rightarrow> bool res"
  current_version :: string
  md5_hex :: "string \<Rightarrow> string"

record 's backend =
  be_write :: "string \<Rightarrow> bytes \<Rightarrow> (exn, 's, unit) py"
  be_read :: "string \<Rightarrow> (exn, 's, bytes) py"
  be_read_length :: "string \<Rightarrow> (exn, 's, int) py"
  be_rm :: "string \<Rightarrow> (exn, 's, unit) py"
  be_list :: "string option \<Rightarrow> 's \<Rightarrow> (string \<times> int) list"

section \<open>Transforms and object metadata\<close>

text \<open>\<open>_encapsulate\<close>: a transform that returns nothing (or empty data) is skipped; \<open>rnd\<close> is the randomness of the call.\<close>

fun encapsulate_loop :: "nat \<Rightarrow> transform list \<Rightarrow> bytes \<Rightarrow> json list \<Rightarrow> bytes \<times> json list" where
  "encapsulate_loop rnd [] data tm = (data, tm)"
| "encapsulate_loop rnd (t # ts) data tm =
     (case tr_encapsulate t rnd data of
        (Some e, materials) \<Rightarrow>
          if e \<noteq> [] then encapsulate_loop rnd ts e
            (tm @ [JDict [(''name'', JStr (tr_name t)), (''module'', JStr (tr_module t)), (''materials'', materials)]])
          else encapsulate_loop rnd ts data tm
      | (None, _) \<Rightarrow> encapsulate_loop rnd ts data tm)"

definition encapsulate :: "storage_conf \<Rightarrow> nat \<Rightarrow> bytes \<Rightarrow> bytes \<times> json list" where
  "encapsulate cf rnd data = encapsulate_loop rnd (active_transforms cf) data []"

text \<open>\<open>element[key]\<close> on an element of the transforms metadata.\<close>

definition json_item :: "json \<Rightarrow> string \<Rightarrow> json res" where
  "json_item j k =
     (case j of JDict d \<Rightarrow> (case dict_get d k of Some v \<Rightarrow> Inr v | None \<Rightarrow> Inl KeyError) | _ \<Rightarrow> Inl TypeError)"

definition lookup_transform :: "storage_conf \<Rightarrow> json \<Rightarrow> transform res" where
  "lookup_transform cf name = (case name of JStr n \<Rightarrow> get_transform cf n | _ \<Rightarrow> Inl ConfigurationError)"

fun decapsulate_loop :: "storage_conf \<Rightarrow> json list \<Rightarrow> bytes \<Rightarrow> bytes res" where
  "decapsulate_loop cf [] data = Inr data"
| "decapsulate_loop cf (el # els) data =
     bind_res (json_item el ''name'') (\<lambda>name.
     bind_res (json_item el ''module'') (\<lambda>module.
     bind_res (lookup_transform cf name) (\<lambda>t.
     if module \<noteq> JStr (tr_module t) then Inl ConfigurationError
     else bind_res (json_item el ''materials'') (\<lambda>materials.
          bind_res (tr_decapsulate t data materials) (\<lambda>data'. decapsulate_loop cf els data')))))"

definition decapsulate :: "storage_conf \<Rightarrow> bytes \<Rightarrow> json \<Rightarrow> bytes res" where
  "decapsulate cf data tm = (case tm of JList els \<Rightarrow> decapsulate_loop cf (rev els) data | _ \<Rightarrow> Inl TypeError)"

definition plain_metadata :: "storage_conf \<Rightarrow> string \<Rightarrow> int \<Rightarrow> int \<Rightarrow> json list \<Rightarrow> string option
    \<Rightarrow> (string, json) dict" where
  "plain_metadata cf timestamp sz object_size tm checksum =
     (let m0 = [(''created'', JStr timestamp), (''metadata_version'', JStr (current_version cf)),
                (''modified'', JStr timestamp), (''object_size'', JInt object_size), (''size'', JInt sz)];
          m1 = (case checksum of Some c \<Rightarrow> if c \<noteq> [] then dict_set m0 ''checksum'' (JStr c) else m0 | None \<Rightarrow> m0)
      in if tm \<noteq> [] then dict_set m1 ''transforms'' (JList tm) else m1)"

definition build_metadata :: "storage_conf \<Rightarrow> string \<Rightarrow> int \<Rightarrow> int \<Rightarrow> json list \<Rightarrow> string option
    \<Rightarrow> (string, json) dict \<times> bytes" where
  "build_metadata cf timestamp sz object_size tm checksum =
     (let m = plain_metadata cf timestamp sz object_size tm checksum;
          m' = (case dict_hmac cf of Some mac \<Rightarrow> add_digest mac m | None \<Rightarrow> m)
      in (m', json_dumps cf (JDict m')))"

text \<open>\<open>key in metadata\<close> when the JSON document is not an object: membership or substring test, or an error.\<close>

definition not_a_dict :: "string \<Rightarrow> json \<Rightarrow> exn" where
  "not_a_dict k j =
     (case j of
        JList xs \<Rightarrow> if JStr k \<in> set xs then TypeError else KeyError
      | JStr s \<Rightarrow> if \<exists>i \<le> length s. take (length k) (drop i s) = k then TypeError else KeyError
      | _ \<Rightarrow> TypeError)"

definition authenticate_metadata :: "storage_conf \<Rightarrow> json \<Rightarrow> (string, json) dict res" where
  "authenticate_metadata cf j =
     (case dict_hmac cf of
        Some mac \<Rightarrow> verify_digest mac j
      | None \<Rightarrow> (case j of JDict d \<Rightarrow> Inr d | _ \<Rightarrow> Inl (not_a_dict ''metadata_version'' j)))"

definition validate_metadata :: "storage_conf \<Rightarrow> (string, json) dict \<Rightarrow> int \<Rightarrow> (string, json) dict res" where
  "validate_metadata cf m data_length =
     (case dict_get m ''metadata_version'' of
        None \<Rightarrow> Inl KeyError
      | Some ver \<Rightarrow>
          bind_res (version_supported cf ver) (\<lambda>supported.
          if \<not> supported then Inl ValueError
          else if \<exists>k \<in> set [''created'', ''modified'', ''object_size'', ''size'']. dict_get m k = None then Inl KeyError
          else if dict_get m ''object_size'' \<noteq> Some (JInt data_length) then Inl ValueError
          else Inr m))"

definition decode_metadata :: "storage_conf \<Rightarrow> bytes \<Rightarrow> int \<Rightarrow> (string, json) dict res" where
  "decode_metadata cf metadata_json data_length =
     bind_res (json_loads cf metadata_json) (\<lambda>j.
     bind_res (authenticate_metadata cf j) (\<lambda>m. validate_metadata cf m data_length))"

section \<open>Blocks\<close>

definition META_SUFFIX :: string where "META_SUFFIX = ''.meta''"

text \<open>
  \<open>try: write(key); write(metadata_key) except: try: rm(key); rm(metadata_key) except FileNotFoundError: pass; raise\<close>
\<close>

definition write_pair :: "'s backend \<Rightarrow> string \<Rightarrow> bytes \<Rightarrow> bytes \<Rightarrow> (exn, 's, unit) py" where
  "write_pair be key data metadata_json =
     exceptS (thenS (be_write be key data) (be_write be (key @ META_SUFFIX) metadata_json))
       (\<lambda>e. thenS
          (exceptS (thenS (be_rm be key) (be_rm be (key @ META_SUFFIX)))
             (\<lambda>e'. if e' = FileNotFoundError then returnS () else raiseS e'))
          (raiseS e))"

definition check_write :: "storage_conf \<Rightarrow> 's backend \<Rightarrow> string \<Rightarrow> bytes \<Rightarrow> (exn, 's, unit) py" where
  "check_write cf be key data_expected =
     bindS (be_read be key) (\<lambda>data_actual.
     bindS (be_read be (key @ META_SUFFIX)) (\<lambda>metadata_json.
     bindS (liftS (decode_metadata cf metadata_json (int (length data_actual)))) (\<lambda>_.
     if data_expected \<noteq> data_actual then raiseS ValueError else returnS ())))"

text \<open>\<open>_write\<close>; throttling only delays it.\<close>

definition storage_write :: "storage_conf \<Rightarrow> 's backend \<Rightarrow> string \<Rightarrow> nat \<Rightarrow> block \<Rightarrow> bytes \<Rightarrow> (exn, 's, block) py" where
  "storage_write cf be timestamp rnd blk data0 =
     (case encapsulate cf rnd data0 of (data, tm) \<Rightarrow>
      case build_metadata cf timestamp (blk_size blk) (int (length data)) tm (blk_checksum blk) of (_, metadata_json) \<Rightarrow>
      bindS (liftS (block_to_path (md5_hex cf) (blk_uid blk))) (\<lambda>key.
      thenS (write_pair be key data metadata_json)
        (thenS
          (if consistency_check_writes cf
           then exceptS (check_write cf be key data)
                  (\<lambda>e. if is_key_or_value_error e then raiseS (InvalidBlockException blk) else raiseS e)
           else returnS ())
          (returnS blk))))"

text \<open>\<open>_read\<close>; the data is \<open>None\<close> when only metadata is asked for.\<close>

definition storage_read :: "storage_conf \<Rightarrow> 's backend \<Rightarrow> block \<Rightarrow> bool
    \<Rightarrow> (exn, 's, block \<times> bytes option \<times> (string, json) dict) py" where
  "storage_read cf be blk metadata_only =
     bindS (liftS (block_to_path (md5_hex cf) (blk_uid blk))) (\<lambda>key.
     bindS
       (exceptS
         (bindS
           (if metadata_only then bindS (be_read_length be key) (\<lambda>n. returnS (None, n))
            else bindS (be_read be key) (\<lambda>d. returnS (Some d, int (length d))))
           (\<lambda>(data, data_length). bindS (be_read be (key @ META_SUFFIX)) (\<lambda>mj. returnS (data, data_length, mj))))
         (\<lambda>e. if e = FileNotFoundError then raiseS (InvalidBlockException blk) else raiseS e))
       (\<lambda>(data, data_length, mj).
     bindS
       (exceptS (liftS (decode_metadata cf mj data_length))
         (\<lambda>e. if is_key_or_value_error e then raiseS (InvalidBlockException blk) else raiseS e))
       (\<lambda>m.
     if dict_get m ''checksum'' = None then raiseS (InvalidBlockException blk)
     else
       (case (data, dict_get m ''transforms'') of
          (Some d, Some tm) \<Rightarrow> bindS (liftS (decapsulate cf d tm)) (\<lambda>d'. returnS (blk, Some d', m))
        | _ \<Rightarrow> returnS (blk, data, m)))))"

definition check_block_metadata :: "block \<Rightarrow> int option \<Rightarrow> (string, json) dict \<Rightarrow> unit res" where
  "check_block_metadata blk data_length m =
     (if dict_get m ''size'' \<noteq> Some (JInt (blk_size blk)) then Inl ValueError
      else if (case data_length of Some n \<Rightarrow> n \<noteq> 0 \<and> n \<noteq> blk_size blk | None \<Rightarrow> False) then Inl ValueError
      else if map_option JStr (blk_checksum blk) \<noteq> dict_get m ''checksum'' then Inl ValueError
      else Inr ())"

text \<open>\<open>_rm_block\<close>: the metadata object is removed on every path; its absence is no error.\<close>

definition rm_pair :: "'s backend \<Rightarrow> string \<Rightarrow> (exn \<Rightarrow> exn) \<Rightarrow> (exn, 's, unit) py" where
  "rm_pair be key convert =
     finallyS (exceptS (be_rm be key) (\<lambda>e. raiseS (convert e)))
       (exceptS (be_rm be (key @ META_SUFFIX)) (\<lambda>e. if e = FileNotFoundError then returnS () else raiseS e))"

definition rm_block :: "storage_conf \<Rightarrow> 's backend \<Rightarrow> block_uid \<Rightarrow> (exn, 's, block_uid) py" where
  "rm_block cf be uid =
     bindS (liftS (block_to_path (md5_hex cf) uid)) (\<lambda>key.
     thenS (rm_pair be key (\<lambda>e. if e = FileNotFoundError then BlockNotFoundError uid else e)) (returnS uid))"

definition ends_with :: "string \<Rightarrow> string \<Rightarrow> bool" where
  "ends_with suffix s \<longleftrightarrow> length suffix \<le> length s \<and> drop (length s - length suffix) s = suffix"

text \<open>\<open>list_blocks\<close> and \<open>list_versions\<close> skip metadata objects and stray keys.\<close>

fun parse_keys :: "(string \<Rightarrow> 'a res) \<Rightarrow> string list \<Rightarrow> 'a list res" where
  "parse_keys of_path [] = Inr []"
| "parse_keys of_path (k # ks) =
     (if ends_with META_SUFFIX k then parse_keys of_path ks
      else (case of_path k of
          Inr x \<Rightarrow> bind_res (parse_keys of_path ks) (\<lambda>xs. Inr (x # xs))
        | Inl e \<Rightarrow> if is_runtime_error e \<or> e = ValueError then parse_keys of_path ks else Inl e))"

definition list_blocks :: "'s backend \<Rightarrow> 's \<Rightarrow> block_uid list res" where
  "list_blocks be s = parse_keys block_of_path (map fst (be_list be (Some block_prefix) s))"

definition list_versions :: "'s backend \<Rightarrow> 's \<Rightarrow> string list res" where
  "list_versions be s = parse_keys version_of_path (map fst (be_list be (Some version_prefix) s))"

definition storage_stats :: "'s backend \<Rightarrow> 's \<Rightarrow> int \<times> int" where
  "storage_stats be s = fold (\<lambda>(_, sz) (n, total). (n + 1, total + sz)) (be_list be None s) (0, 0)"

section \<open>Version metadata\<close>

text \<open>
  \<open>encode('utf-8')\<close> and \<open>decode('utf-8')\<close> for the code points below 256, those of HOL's characters;
  decoding anything else is an error here.
\<close>

definition utf8_char :: "char \<Rightarrow> bytes" where
  "utf8_char c =
     (let n = of_char c :: nat in
      if n < 128 then [of_nat n] else [of_nat (192 + n div 64), of_nat (128 + n mod 64)])"

definition encode_utf8 :: "string \<Rightarrow> bytes" where
  "encode_utf8 s = concat (map utf8_char s)"

fun decode_utf8 :: "bytes \<Rightarrow> string res" where
  "decode_utf8 [] = Inr []"
| "decode_utf8 (b # bs) =
     (if unat b < 128 then bind_res (decode_utf8 bs) (\<lambda>s. Inr (char_of (unat b) # s))
      else (case bs of
          [] \<Rightarrow> Inl ValueError
        | b' # bs' \<Rightarrow>
            if (unat b = 194 \<or> unat b = 195) \<and> 128 \<le> unat b' \<and> unat b' < 192
            then bind_res (decode_utf8 bs') (\<lambda>s. Inr (char_of ((unat b - 192) * 64 + (unat b' - 128)) # s))
            else Inl ValueError))"

lemma decode_utf8_char: "decode_utf8 (utf8_char c @ bs) = bind_res (decode_utf8 bs) (\<lambda>s. Inr (c # s))"
proof -
  define n where "n = (of_char c :: nat)"
  have n: "n < 256" "char_of n = c" by (simp_all add: n_def)
  have small: "unat (of_nat m :: 8 word) = m" if "m < 256" for m :: nat
    using that by (simp add: unat_of_nat take_bit_nat_eq_self)
  show ?thesis
  proof (cases "n < 128")
    case True
    then have "utf8_char c = [of_nat n]" by (simp add: utf8_char_def Let_def n_def)
    with True n show ?thesis by (simp add: small)
  next
    case False
    then have u: "utf8_char c = [of_nat (192 + n div 64), of_nat (128 + n mod 64)]"
      by (simp add: utf8_char_def Let_def n_def)
    have "2 \<le> n div 64" using div_le_mono [of 128 n 64] False by simp
    moreover have "n div 64 < 4" using n(1) by (simp add: less_mult_imp_div_less)
    ultimately have d: "n div 64 = 2 \<or> n div 64 = 3" by linarith
    have s1: "unat (of_nat (192 + n div 64) :: 8 word) = 192 + n div 64" by (rule small) (use d in auto)
    have s2: "unat (of_nat (128 + n mod 64) :: 8 word) = 128 + n mod 64"
      by (rule small) (use mod_less_divisor [of 64 n] in linarith)
    define q r where "q = n div 64" and "r = n mod 64"
    have qr: "q * 64 + r = n" "r < 64" by (simp_all add: q_def r_def)
    have "decode_utf8 (of_nat (192 + q) # of_nat (128 + r) # bs) = bind_res (decode_utf8 bs) (\<lambda>s. Inr (char_of (q * 64 + r) # s))"
      using d qr(2) s1 s2 by (simp only: decode_utf8.simps list.case q_def [symmetric] r_def [symmetric]) auto
    then show ?thesis using qr(1) n(2) u by (simp add: q_def r_def)
  qed
qed

lemma decode_encode_utf8: "decode_utf8 (encode_utf8 s) = Inr s"
  by (induction s) (simp_all add: encode_utf8_def decode_utf8_char)

definition read_version :: "storage_conf \<Rightarrow> 's backend \<Rightarrow> string \<Rightarrow> (exn, 's, string) py" where
  "read_version cf be uid =
     bindS (liftS (version_to_path (md5_hex cf) uid)) (\<lambda>key.
     bindS (be_read be key) (\<lambda>data.
     bindS (be_read be (key @ META_SUFFIX)) (\<lambda>mj.
     bindS (liftS (decode_metadata cf mj (int (length data)))) (\<lambda>m.
     bindS (liftS (case dict_get m ''transforms'' of Some tm \<Rightarrow> decapsulate cf data tm | None \<Rightarrow> Inr data)) (\<lambda>data'.
     if dict_get m ''size'' \<noteq> Some (JInt (int (length data'))) then raiseS ValueError
     else liftS (decode_utf8 data'))))))"

definition write_version :: "storage_conf \<Rightarrow> 's backend \<Rightarrow> string \<Rightarrow> nat \<Rightarrow> string \<Rightarrow> string \<Rightarrow> bool \<Rightarrow> (exn, 's, unit) py" where
  "write_version cf be timestamp rnd uid text overwrite =
     bindS (liftS (version_to_path (md5_hex cf) uid)) (\<lambda>key.
     thenS
       (if overwrite then returnS ()
        else bindS (exceptS (bindS (be_read be key) (\<lambda>_. returnS True))
               (\<lambda>e. if e = FileNotFoundError then returnS False else raiseS e))
             (\<lambda>present. if present then raiseS FileExistsError else returnS ()))
       (let plain = encode_utf8 text;
            (data, tm) = encapsulate cf rnd plain;
            (_, mj) = build_metadata cf timestamp (int (length plain)) (int (length data)) tm None
        in thenS (write_pair be key data mj)
             (if consistency_check_writes cf then check_write cf be key data else returnS ())))"

definition rm_version :: "storage_conf \<Rightarrow> 's backend \<Rightarrow> string \<Rightarrow> (exn, 's, unit) py" where
  "rm_version cf be uid =
     bindS (liftS (version_to_path (md5_hex cf) uid)) (\<lambda>key. rm_pair be key (\<lambda>e. e))"

section \<open>The file storage\<close>

text \<open>
  Files by key relative to the storage's directory; missing directories are created by the write. Any access may fail with
  an \<open>OSError\<close> of the environment: \<open>fs_fault\<close> says which ones do, and how much of a file such a write leaves
  behind (opening for writing truncates it first).
\<close>

record fs =
  fs_files :: "(string, bytes) dict"
  fs_fault :: "nat \<Rightarrow> nat option"
  fs_tick :: nat

definition fs_step :: "fs \<Rightarrow> fs" where
  "fs_step s = s\<lparr>fs_tick := Suc (fs_tick s)\<rparr>"

definition file_write :: "string \<Rightarrow> bytes \<Rightarrow> (exn, fs, unit) py" where
  "file_write key data s =
     (case fs_fault s (fs_tick s) of
        Some k \<Rightarrow> (Inl OSError, (fs_step s)\<lparr>fs_files := dict_set (fs_files s) key (take k data)\<rparr>)
      | None \<Rightarrow> (Inr (), (fs_step s)\<lparr>fs_files := dict_set (fs_files s) key data\<rparr>))"

definition file_read :: "string \<Rightarrow> (exn, fs, bytes) py" where
  "file_read key s =
     (case dict_get (fs_files s) key of
        None \<Rightarrow> (Inl FileNotFoundError, fs_step s)
      | Some data \<Rightarrow> (if fs_fault s (fs_tick s) = None then Inr data else Inl OSError, fs_step s))"

definition file_read_length :: "string \<Rightarrow> (exn, fs, int) py" where
  "file_read_length key s =
     (case dict_get (fs_files s) key of
        None \<Rightarrow> (Inl FileNotFoundError, fs_step s)
      | Some data \<Rightarrow> (if fs_fault s (fs_tick s) = None then Inr (int (length data)) else Inl OSError, fs_step s))"

definition file_rm :: "string \<Rightarrow> (exn, fs, unit) py" where
  "file_rm key s =
     (case dict_get (fs_files s) key of
        None \<Rightarrow> (Inl FileNotFoundError, fs_step s)
      | Some _ \<Rightarrow>
          if fs_fault s (fs_tick s) = None then (Inr (), (fs_step s)\<lparr>fs_files := dict_del (fs_files s) key\<rparr>)
          else (Inl OSError, fs_step s))"

definition file_list :: "string option \<Rightarrow> fs \<Rightarrow> (string \<times> int) list" where
  "file_list pre s =
     map (\<lambda>(k, d). (k, int (length d)))
       (filter (\<lambda>(k, _). case pre of None \<Rightarrow> True | Some p \<Rightarrow> take (length p) k = p) (fs_files s))"

definition file_backend :: "fs backend" where
  "file_backend = \<lparr> be_write = file_write, be_read = file_read, be_read_length = file_read_length,
     be_rm = file_rm, be_list = file_list \<rparr>"

section \<open>Round trips of the encodings\<close>

text \<open>What the storage relies on of the third-party code and of its configuration.\<close>

definition good_transform :: "transform \<Rightarrow> bool" where
  "good_transform t \<longleftrightarrow>
     (\<forall>rnd d e m. tr_encapsulate t rnd d = (Some e, m) \<longrightarrow> e \<noteq> [] \<longrightarrow> tr_decapsulate t e m = Inr d)"

definition good_conf :: "storage_conf \<Rightarrow> bool" where
  "good_conf cf \<longleftrightarrow>
     (\<forall>j. json_loads cf (json_dumps cf j) = Inr j) \<and>
     version_supported cf (JStr (current_version cf)) = Inr True \<and>
     (\<forall>k. 4 \<le> length (md5_hex cf k) \<and> set (md5_hex cf k) \<subseteq> set hex_chars) \<and>
     (\<forall>t \<in> set (active_transforms cf). get_transform cf (tr_name t) = Inr t \<and> good_transform t)"

lemma decapsulate_loop_append:
  "decapsulate_loop cf (xs @ ys) d = bind_res (decapsulate_loop cf xs d) (decapsulate_loop cf ys)"
proof (induction xs arbitrary: d)
  case (Cons x xs)
  then show ?case
    by (auto simp: bind_res_def fun_eq_iff split: sum.splits)
qed simp

lemma decapsulate_encapsulate_loop:
  assumes "encapsulate_loop rnd ts d tm = (d', tm')"
    and "\<forall>t \<in> set ts. get_transform cf (tr_name t) = Inr t \<and> good_transform t"
  shows "\<exists>new. tm' = tm @ new \<and> decapsulate_loop cf (rev new) d' = Inr d"
  using assms
proof (induction ts arbitrary: d tm)
  case (Cons t ts)
  obtain r m where r: "tr_encapsulate t rnd d = (r, m)" by force
  have ts: "\<forall>t \<in> set ts. get_transform cf (tr_name t) = Inr t \<and> good_transform t"
    and t: "get_transform cf (tr_name t) = Inr t" "good_transform t" using Cons.prems(2) by auto
  show ?case
  proof (cases "r = None \<or> r = Some []")
    case True
    then have "encapsulate_loop rnd ts d tm = (d', tm')" using Cons.prems(1) r by auto
    from Cons.IH [OF this ts] show ?thesis .
  next
    case False
    then obtain e where e: "r = Some e" "e \<noteq> []" by auto
    let ?el = "JDict [(''name'', JStr (tr_name t)), (''module'', JStr (tr_module t)), (''materials'', m)]"
    have "encapsulate_loop rnd ts e (tm @ [?el]) = (d', tm')" using Cons.prems(1) r e by simp
    from Cons.IH [OF this ts]
    obtain new where new: "tm' = (tm @ [?el]) @ new" "decapsulate_loop cf (rev new) d' = Inr e" by auto
    have "tr_decapsulate t e m = Inr d" using t(2) r e by (auto simp: good_transform_def)
    then have "decapsulate_loop cf (rev (?el # new)) d' = Inr d"
      using new(2) t(1) by (simp add: decapsulate_loop_append json_item_def lookup_transform_def)
    with new(1) show ?thesis by (intro exI [of _ "?el # new"]) simp
  qed
qed simp

lemma decapsulate_encapsulate:
  assumes "good_conf cf" and "encapsulate cf rnd d = (d', tm)"
  shows "decapsulate_loop cf (rev tm) d' = Inr d"
  using decapsulate_encapsulate_loop [of rnd "active_transforms cf" d "[]" d' tm cf] assms
  by (auto simp: encapsulate_def good_conf_def)

lemma decode_build_metadata:
  assumes "good_conf cf" and "build_metadata cf ts sz osz tm cs = (m', mj)"
  shows "\<exists>m. decode_metadata cf mj osz = Inr m \<and> dict_get m ''size'' = Some (JInt sz) \<and>
    dict_get m ''transforms'' = (if tm = [] then None else Some (JList tm)) \<and>
    dict_get m ''checksum'' = (case cs of Some c \<Rightarrow> if c \<noteq> [] then Some (JStr c) else None | None \<Rightarrow> None)"
proof -
  define m where "m = plain_metadata cf ts sz osz tm cs"
  have m': "m' = (case dict_hmac cf of Some mac \<Rightarrow> add_digest mac m | None \<Rightarrow> m)" and mj: "mj = json_dumps cf (JDict m')"
    using assms(2) unfolding m_def by (auto simp: build_metadata_def Let_def)
  have "hmac_key \<notin> set (dict_keys m)"
    by (auto simp: m_def plain_metadata_def Let_def hmac_key_def split: option.splits if_splits)
  then have auth: "authenticate_metadata cf (JDict m') = Inr m"
    by (auto simp: authenticate_metadata_def m' verify_add_digest split: option.splits)
  have keys: "dict_get m ''metadata_version'' = Some (JStr (current_version cf))"
    "dict_get m ''created'' = Some (JStr ts)" "dict_get m ''modified'' = Some (JStr ts)"
    "dict_get m ''object_size'' = Some (JInt osz)" "dict_get m ''size'' = Some (JInt sz)"
    "dict_get m ''transforms'' = (if tm = [] then None else Some (JList tm))"
    "dict_get m ''checksum'' = (case cs of Some c \<Rightarrow> if c \<noteq> [] then Some (JStr c) else None | None \<Rightarrow> None)"
    by (auto simp: m_def plain_metadata_def Let_def update_conv split: option.splits)
  have "version_supported cf (JStr (current_version cf)) = Inr True" and "json_loads cf mj = Inr (JDict m')"
    using assms(1) by (simp_all add: good_conf_def mj)
  then have "decode_metadata cf mj osz = Inr m"
    by (simp add: decode_metadata_def auth validate_metadata_def keys)
  with keys show ?thesis by blast
qed

section \<open>What a stored block is\<close>

text \<open>
  \<open>stored cf c blk data\<close>: the contents \<open>c\<close> hold an object for \<open>blk\<close> whose metadata passes every check
  and whose decapsulated data is \<open>data\<close>.
\<close>

definition stored :: "storage_conf \<Rightarrow> (string \<Rightarrow> bytes option) \<Rightarrow> block \<Rightarrow> bytes \<Rightarrow> bool" where
  "stored cf c blk data \<longleftrightarrow>
     (\<exists>key d mj m. block_to_path (md5_hex cf) (blk_uid blk) = Inr key \<and> c key = Some d \<and>
        c (key @ META_SUFFIX) = Some mj \<and> decode_metadata cf mj (int (length d)) = Inr m \<and>
        (case dict_get m ''transforms'' of None \<Rightarrow> Inr d | Some tm \<Rightarrow> decapsulate cf d tm) = Inr data \<and>
        dict_get m ''checksum'' \<noteq> None \<and> check_block_metadata blk (Some (int (length data))) m = Inr ())"

lemma block_path_no_dot:
  assumes "good_conf cf" and "key_uid u" and "block_to_path (md5_hex cf) u = Inr p"
  shows "CHR ''.'' \<notin> set p"
proof -
  obtain l r where u: "u = BlockUid (Some l) (Some r)" "0 \<le> l" "0 \<le> r" using key_uid_cases [OF assms(2)] by metis
  have dot: "CHR ''.'' \<notin> set hex_chars" by (simp add: hex_chars_def)
  let ?k = "format_x 16 l @ ''-'' @ format_x 16 r"
  have k: "CHR ''.'' \<notin> set ?k" using format_x_chars u dot by fastforce
  have "set (md5_hex cf ?k) \<subseteq> set hex_chars" using assms(1) by (simp add: good_conf_def)
  then have md5: "CHR ''.'' \<notin> set (py_slice a b (md5_hex cf ?k))" for a b
    using dot by (auto simp: py_slice_def dest!: in_set_takeD in_set_dropD)
  have "p = block_prefix @ py_slice 0 2 (md5_hex cf ?k) @ ''/'' @ py_slice 2 4 (md5_hex cf ?k) @ ''/'' @ ?k"
    using assms(3) block_to_key_ascii [OF u(2,3)] u(1) by (simp add: block_to_path_def block_to_key_def to_path_def Let_def)
  then show ?thesis using k md5 by (simp add: block_prefix_def)
qed

section \<open>The backend contract\<close>

text \<open>
  What \<open>StorageBase\<close> relies on of the abstract methods, over the contents as a map from keys to data. A failed
  write may leave anything under its key; other failures change nothing, and only environment errors are raised.
\<close>

locale object_writes =
  fixes be :: "'s backend"
    and content :: "'s \<Rightarrow> string \<Rightarrow> bytes option"
  assumes write_ok: "be_write be k d s = (Inr u, s') \<Longrightarrow> content s' = (content s)(k \<mapsto> d)"
    and read_keeps: "be_read be k s = (r, s') \<Longrightarrow> content s' = content s"
begin

lemma write_pair_ok:
  assumes "write_pair be key d mj s = (Inr u, s')"
  shows "content s' = (content s)(key \<mapsto> d, key @ META_SUFFIX \<mapsto> mj)"
proof -
  let ?w = "thenS (be_write be key d) (be_write be (key @ META_SUFFIX) mj)"
  have "?w s = (Inr u, s')"
    using assms unfolding write_pair_def
    by (rule exceptS_cases) (auto elim!: thenS_cases)
  then obtain s1 u1 where 1: "be_write be key d s = (Inr u1, s1)" and 2: "be_write be (key @ META_SUFFIX) mj s1 = (Inr u, s')"
    by (rule thenS_cases) auto
  show ?thesis using write_ok [OF 1] write_ok [OF 2] by simp
qed

lemma keeps_read [keeps_intros]: "keeps content (be_read be k)"
  by (rule keepsI) (rule read_keeps)

lemma keeps_check_write [keeps_intros]: "keeps content (check_write cf be key d)"
  unfolding check_write_def by (intro keeps_intros)

lemma write_stores:
  assumes "good_conf cf" and "key_uid (blk_uid blk)" and "blk_checksum blk = Some c" and "c \<noteq> []"
    and "int (length data) = blk_size blk"
    and "storage_write cf be ts rnd blk data s = (Inr b, s')"
  shows "b = blk \<and> stored cf (content s') blk data"
proof -
  obtain d tm where enc: "encapsulate cf rnd data = (d, tm)" by force
  obtain m' mj where bm: "build_metadata cf ts (blk_size blk) (int (length d)) tm (Some c) = (m', mj)" by force
  obtain key where key: "block_to_path (md5_hex cf) (blk_uid blk) = Inr key"
    using block_to_path_Inr [OF assms(2)] by blast
  let ?chk = "if consistency_check_writes cf
     then exceptS (check_write cf be key d)
            (\<lambda>e. if is_key_or_value_error e then raiseS (InvalidBlockException blk) else raiseS e)
     else returnS ()"
  have "thenS (write_pair be key d mj) (thenS ?chk (returnS blk)) s = (Inr b, s')"
    using assms(3,6) by (simp add: storage_write_def enc bm key bindS_def)
  then obtain u1 s1 where w: "write_pair be key d mj s = (Inr u1, s1)" and k: "thenS ?chk (returnS blk) s1 = (Inr b, s')"
    by (rule thenS_cases) auto
  from k obtain s2 u2 where c: "?chk s1 = (Inr u2, s2)" and b: "b = blk" "s' = s2" by (rule thenS_cases) auto
  have "keeps content ?chk" by (intro keeps_intros)
  from keepsD [OF this c] b(2) have "content s' = content s1" by simp
  then have cont: "content s' = (content s)(key \<mapsto> d, key @ META_SUFFIX \<mapsto> mj)" using write_pair_ok [OF w] by simp
  obtain m where m: "decode_metadata cf mj (int (length d)) = Inr m" "dict_get m ''size'' = Some (JInt (blk_size blk))"
    "dict_get m ''transforms'' = (if tm = [] then None else Some (JList tm))" "dict_get m ''checksum'' = Some (JStr c)"
    using decode_build_metadata [OF assms(1) bm] assms(4) by auto
  have dec: "decapsulate_loop cf (rev tm) d = Inr data" by (rule decapsulate_encapsulate [OF assms(1) enc])
  have "(case dict_get m ''transforms'' of None \<Rightarrow> Inr d | Some tm \<Rightarrow> decapsulate cf d tm) = Inr data"
    using dec by (cases "tm = []") (simp_all add: m decapsulate_def)
  moreover have "check_block_metadata blk (Some (int (length data))) m = Inr ()"
    by (simp add: check_block_metadata_def m assms(3,5))
  moreover have "key \<noteq> key @ META_SUFFIX" by (simp add: META_SUFFIX_def)
  ultimately have "stored cf (content s') blk data"
    unfolding stored_def using key m by (intro exI [of _ key] exI [of _ d] exI [of _ mj] exI [of _ m]) (simp add: cont)
  with b(1) show ?thesis by simp
qed

end

text \<open>The whole contract: also failed writes, lengths and removals.\<close>

locale object_store = object_writes +
  assumes write_fail: "be_write be k d s = (Inl e, s') \<Longrightarrow> e = OSError \<and> (\<forall>k'. k' \<noteq> k \<longrightarrow> content s' k' = content s k')"
    and read_result: "be_read be k s = (r, s') \<Longrightarrow>
          (case content s k of None \<Rightarrow> r = Inl FileNotFoundError | Some d \<Rightarrow> r = Inr d \<or> r = Inl OSError)"
    and length_keeps: "be_read_length be k s = (n, s') \<Longrightarrow> content s' = content s"
    and length_result: "be_read_length be k s = (n, s') \<Longrightarrow>
          (case content s k of None \<Rightarrow> n = Inl FileNotFoundError | Some d \<Rightarrow> n = Inr (int (length d)) \<or> n = Inl OSError)"
    and rm_ok: "be_rm be k s = (Inr u, s') \<Longrightarrow> content s k \<noteq> None \<and> content s' = (content s)(k := None)"
    and rm_fail: "be_rm be k s = (Inl e, s') \<Longrightarrow>
          content s' = content s \<and> (if content s k = None then e = FileNotFoundError else e = OSError)"
begin

lemma read_Inr: "be_read be k s = (Inr d, s') \<Longrightarrow> content s k = Some d \<and> content s' = content s"
  using read_keeps [of k s "Inr d" s'] read_result [of k s "Inr d" s'] by (auto split: option.splits)

lemma read_Inl:
  "be_read be k s = (Inl e, s') \<Longrightarrow> content s' = content s \<and> (if content s k = None then e = FileNotFoundError else e = OSError)"
  using read_keeps [of k s "Inl e" s'] read_result [of k s "Inl e" s'] by (auto split: option.splits)

lemma keeps_write [keeps_intros]: "k \<noteq> k' \<Longrightarrow> keeps (\<lambda>s. content s k) (be_write be k' d)"
proof (rule keepsI)
  fix s r s' assume "k \<noteq> k'" and "be_write be k' d s = (r, s')"
  then show "content s' k = content s k"
    using write_ok [of k' d s "projr r" s'] write_fail [of k' d s "projl r" s'] by (cases r) auto
qed

lemma keeps_rm [keeps_intros]: "k \<noteq> k' \<Longrightarrow> keeps (\<lambda>s. content s k) (be_rm be k')"
proof (rule keepsI)
  fix s r s' assume "k \<noteq> k'" and "be_rm be k' s = (r, s')"
  then show "content s' k = content s k"
    using rm_ok [of k' s "projr r" s'] rm_fail [of k' s "projl r" s'] by (cases r) auto
qed

lemma keeps_read_length [keeps_intros]: "keeps content (be_read_length be k)"
  by (rule keepsI) (rule length_keeps)

text \<open>A write, failed or not, disturbs no other object.\<close>

lemma keeps_write_pair [keeps_intros]:
  "k \<noteq> key \<Longrightarrow> k \<noteq> key @ META_SUFFIX \<Longrightarrow> keeps (\<lambda>s. content s k) (write_pair be key d mj)"
  unfolding write_pair_def by (intro keeps_intros) simp_all

lemma keeps_rm_pair [keeps_intros]:
  "k \<noteq> key \<Longrightarrow> k \<noteq> key @ META_SUFFIX \<Longrightarrow> keeps (\<lambda>s. content s k) (rm_pair be key f)"
  unfolding rm_pair_def by (intro keeps_intros) simp_all

end
context object_store begin

lemma keeps_check_write_at [keeps_intros]: "keeps (\<lambda>s. content s k) (check_write cf be key d)"
  using keeps_check_write by (simp add: keeps_def)

lemma read_stored:
  assumes "stored cf (content s) blk data" and "storage_read cf be blk False s = (r, s')"
  shows "content s' = content s \<and>
    (r = Inl OSError \<or> (\<exists>m. r = Inr (blk, Some data, m) \<and> check_block_metadata blk (Some (int (length data))) m = Inr ()))"
proof -
  obtain key d mj m where key: "block_to_path (md5_hex cf) (blk_uid blk) = Inr key"
    and c: "content s key = Some d" "content s (key @ META_SUFFIX) = Some mj"
    and m: "decode_metadata cf mj (int (length d)) = Inr m" "dict_get m ''checksum'' \<noteq> None"
      "(case dict_get m ''transforms'' of None \<Rightarrow> Inr d | Some tm \<Rightarrow> decapsulate cf d tm) = Inr data"
    and chk: "check_block_metadata blk (Some (int (length data))) m = Inr ()"
    using assms(1) unfolding stored_def by blast
  obtain r1 s1 where r1: "be_read be key s = (r1, s1)" by force
  obtain r2 s2 where r2: "be_read be (key @ META_SUFFIX) s1 = (r2, s2)" by force
  note k1 = read_keeps [OF r1] read_result [OF r1] and k2 = read_keeps [OF r2] read_result [OF r2]
  consider "r1 = Inl OSError" | "r1 = Inr d" "r2 = Inl OSError" | "r1 = Inr d" "r2 = Inr mj"
    using k1 k2 c by auto
  then show ?thesis
  proof cases
    case 3
    have "r = Inr (blk, Some data, m) \<and> s' = s2"
      using assms(2) r1 r2 3 m by (auto simp: storage_read_def key py_defs split: option.splits)
    with k1(1) k2(1) chk show ?thesis by simp
  qed (use assms(2) r1 r2 k1(1) k2(1) in \<open>auto simp: storage_read_def key py_defs\<close>)
qed

text \<open>Writing or removing another block leaves a stored block stored.\<close>

lemma stored_other:
  assumes "good_conf cf" and "stored cf (content s) blk data" and "key_uid (blk_uid blk)" and "key_uid u"
    and "u \<noteq> blk_uid blk" and "block_to_path (md5_hex cf) u = Inr key"
    and "\<And>k. k \<noteq> key \<Longrightarrow> k \<noteq> key @ META_SUFFIX \<Longrightarrow> content s' k = content s k"
  shows "stored cf (content s') blk data"
proof -
  obtain p where p: "block_to_path (md5_hex cf) (blk_uid blk) = Inr p"
    using block_to_path_Inr [OF assms(3)] by blast
  have md5: "\<And>k. 4 \<le> length (md5_hex cf k)" using assms(1) by (simp add: good_conf_def)
  have "p \<noteq> key" using block_to_path_inj [OF assms(3,4) md5 p] assms(5,6) by auto
  moreover have "CHR ''.'' \<notin> set p" "CHR ''.'' \<notin> set key"
    using block_path_no_dot [OF assms(1,3) p] block_path_no_dot [OF assms(1,4,6)] by auto
  then have "p \<noteq> key @ META_SUFFIX" "p @ META_SUFFIX \<noteq> key" by (auto simp: META_SUFFIX_def)
  ultimately have "content s' p = content s p" "content s' (p @ META_SUFFIX) = content s (p @ META_SUFFIX)"
    using assms(7) by simp_all
  with assms(2) p show ?thesis by (simp add: stored_def)
qed

text \<open>What a write or a removal, successful or not, leaves alone.\<close>

lemma write_frame:
  assumes "block_to_path (md5_hex cf) (blk_uid b) = Inr key" and "storage_write cf be ts rnd b d s = (r, s')"
    and "k \<noteq> key" and "k \<noteq> key @ META_SUFFIX"
  shows "content s' k = content s k"
proof -
  have "keeps (\<lambda>s. content s k) (storage_write cf be ts rnd b d)"
    unfolding storage_write_def assms(1) using assms(3,4)
    by (auto split: prod.split intro!: keeps_bind_lift keeps_intros)
  from keepsD [OF this assms(2)] show ?thesis .
qed

lemma rm_frame:
  assumes "block_to_path (md5_hex cf) u = Inr key" and "rm_block cf be u s = (r, s')"
    and "k \<noteq> key" and "k \<noteq> key @ META_SUFFIX"
  shows "content s' k = content s k"
proof -
  have "keeps (\<lambda>s. content s k) (rm_block cf be u)"
    unfolding rm_block_def assms(1) using assms(3,4)
    by (auto intro!: keeps_bind_lift keeps_thenS keeps_returnS keeps_rm_pair)
  from keepsD [OF this assms(2)] show ?thesis .
qed

lemma write_keeps_stored:
  assumes "good_conf cf" and "stored cf (content s) blk data" and "key_uid (blk_uid blk)" and "key_uid (blk_uid b)"
    and "blk_uid b \<noteq> blk_uid blk" and "storage_write cf be ts rnd b d s = (r, s')"
  shows "stored cf (content s') blk data"
proof -
  obtain key where key: "block_to_path (md5_hex cf) (blk_uid b) = Inr key"
    using block_to_path_Inr [OF assms(4)] by blast
  from stored_other [OF assms(1-4) _ key write_frame [OF key assms(6)]] assms(5) show ?thesis by simp
qed

lemma rm_keeps_stored:
  assumes "good_conf cf" and "stored cf (content s) blk data" and "key_uid (blk_uid blk)" and "key_uid u"
    and "u \<noteq> blk_uid blk" and "rm_block cf be u s = (r, s')"
  shows "stored cf (content s') blk data"
proof -
  obtain key where key: "block_to_path (md5_hex cf) u = Inr key"
    using block_to_path_Inr [OF assms(4)] by blast
  from stored_other [OF assms(1-5) key rm_frame [OF key assms(6)]] show ?thesis .
qed

lemma rm_meta:
  assumes "exceptS (be_rm be k) (\<lambda>e. if e = FileNotFoundError then returnS () else raiseS e) s = (q, s')"
  shows "q = Inr () \<and> content s' = (content s)(k := None) \<or> q = Inl OSError \<and> content s' = content s"
  using assms
proof (cases rule: exceptS_cases)
  case (ok x)
  then show ?thesis using rm_ok [of k s x s'] by simp
next
  case (exn e s1)
  then show ?thesis using rm_fail [of k s e s1] by (auto split: if_splits)
qed

end

end
