(* ===== verification/Transforms.thy ===== *)
theory Transforms
  imports Storage
begin

text \<open>
  \<open>aes_keywrap.py\<close> (RFC 3394 key wrapping) and the transforms \<open>transform/zstd.py\<close>, \<open>transform/aes_256_gcm.py\<close> and
  \<open>transform/aes_256_gcm_ecc.py\<close>. The ciphers, the compressor, base64, the elliptic curve and the random bytes come from
  third-party packages and are parameters; what is needed of them is a named hypothesis of each lemma.
\<close>

unbundle bit_operations_syntax

section \<open>Big-endian 64-bit integers\<close>

definition be_nat :: "bytes \<Rightarrow> nat" where
  "be_nat bs = foldl (\<lambda>n b. n * 256 + unat b) 0 bs"

fun to_be :: "nat \<Rightarrow> nat \<Rightarrow> bytes" where
  "to_be 0 n = []"
| "to_be (Suc k) n = to_be k (n div 256) @ [of_nat (n mod 256)]"

text \<open>\<open>QUAD = struct.Struct('>Q')\<close>.\<close>

definition quad_pack :: "64 word \<Rightarrow> bytes" where
  "quad_pack a = to_be 8 (unat a)"

definition quad_unpack :: "bytes \<Rightarrow> 64 word" where
  "quad_unpack bs = of_nat (be_nat bs)"

lemma length_to_be [simp]: "length (to_be k n) = k"
  by (induction k arbitrary: n) auto

lemma be_nat_snoc [simp]: "be_nat (bs @ [b]) = be_nat bs * 256 + unat b"
  and be_nat_Nil [simp]: "be_nat [] = 0"
  by (simp_all add: be_nat_def)

lemma unat_byte: "m < 256 \<Longrightarrow> unat (of_nat m :: 8 word) = m"
  by (simp add: unat_of_nat take_bit_nat_eq_self)

lemma byte_less: "unat (b :: 8 word) < 256"
proof -
  have "unat b < 2 ^ LENGTH(8)" by (rule unsigned_less)
  then show ?thesis by simp
qed

lemma be_nat_to_be: "n < 256 ^ k \<Longrightarrow> be_nat (to_be k n) = n"
proof (induction k arbitrary: n)
  case (Suc k)
  then have "n div 256 < 256 ^ k" by (simp add: less_mult_imp_div_less mult.commute)
  with Suc.IH show ?case by (simp add: unat_byte)
qed simp

lemma to_be_be_nat: "to_be (length bs) (be_nat bs) = bs"
proof (induction bs rule: rev_induct)
  case (snoc b bs)
  have "unat b < 256" by (rule byte_less)
  with snoc show ?case by simp
qed simp

lemma be_nat_less: "be_nat bs < 256 ^ length bs"
proof (induction bs rule: rev_induct)
  case (snoc b bs)
  have "unat b < 256" by (rule byte_less)
  with snoc have "be_nat bs * 256 + unat b < (be_nat bs + 1) * 256" by simp
  also have "\<dots> \<le> 256 ^ length bs * 256" using snoc by (intro mult_right_mono) auto
  finally show ?case by (simp add: mult.commute)
qed simp

lemma quad_unpack_pack [simp]: "quad_unpack (quad_pack a) = a"
proof -
  have "unat a < 2 ^ LENGTH(64)" by (rule unsigned_less)
  then show ?thesis by (simp add: quad_unpack_def quad_pack_def be_nat_to_be)
qed

lemma quad_pack_unpack: "length bs = 8 \<Longrightarrow> quad_pack (quad_unpack bs) = bs"
  using be_nat_less [of bs] to_be_be_nat [of bs]
  by (simp add: quad_unpack_def quad_pack_def unat_of_nat take_bit_nat_eq_self)

lemma length_quad_pack [simp]: "length (quad_pack a) = 8"
  by (simp add: quad_pack_def)

section \<open>Key wrapping\<close>

text \<open>\<open>[data[i*8:i*8+8] for i in ...]\<close>; the list of registers keeps the code's unused entry 0.\<close>

definition chunks8 :: "nat \<Rightarrow> bytes \<Rightarrow> bytes list" where
  "chunks8 n data = map (\<lambda>i. py_slice (i * 8) (i * 8 + 8) data) [0..<n]"

definition wrap_order :: "nat \<Rightarrow> (nat \<times> nat) list" where
  "wrap_order n = concat (map (\<lambda>j. map (Pair j) [1..<n + 1]) [0..<6])"

type_synonym registers = "64 word \<times> bytes list"

definition wrap_step :: "(bytes \<Rightarrow> bytes) \<Rightarrow> nat \<Rightarrow> nat \<times> nat \<Rightarrow> registers \<Rightarrow> registers" where
  "wrap_step encrypt n ji st =
     (case ji of (j, i) \<Rightarrow> case st of (A, R) \<Rightarrow>
      let B = encrypt (quad_pack A @ R ! i)
      in (quad_unpack (py_slice 0 8 B) XOR of_nat (n * j + i), R[i := drop 8 B]))"

definition unwrap_step :: "(bytes \<Rightarrow> bytes) \<Rightarrow> nat \<Rightarrow> nat \<times> nat \<Rightarrow> registers \<Rightarrow> registers" where
  "unwrap_step decrypt n ji st =
     (case ji of (j, i) \<Rightarrow> case st of (A, R) \<Rightarrow>
      let B = decrypt (quad_pack (A XOR of_nat (n * j + i)) @ R ! i)
      in (quad_unpack (py_slice 0 8 B), R[i := drop 8 B]))"

definition default_iv :: "64 word" where "default_iv = 0xa6a6a6a6a6a6a6a6"

definition aes_wrap_key :: "(bytes \<Rightarrow> bytes) \<Rightarrow> bytes \<Rightarrow> 64 word \<Rightarrow> bytes" where
  "aes_wrap_key encrypt plaintext iv =
     (let n = length plaintext div 8;
          (A, R) = fold (wrap_step encrypt n) (wrap_order n) (iv, [0] # chunks8 n plaintext)
      in quad_pack A @ concat (drop 1 R))"

definition aes_unwrap_key_and_iv :: "(bytes \<Rightarrow> bytes) \<Rightarrow> bytes \<Rightarrow> (bytes \<times> 64 word) res" where
  "aes_unwrap_key_and_iv decrypt wrapped =
     (if length wrapped < 8 then Inl StructError
      else
        (let n = length wrapped div 8 - 1;
             (A, R) = fold (unwrap_step decrypt n) (rev (wrap_order n))
                        (quad_unpack (py_slice 0 8 wrapped), [0] # chunks8 n (drop 8 wrapped))
         in Inr (concat (drop 1 R), A)))"

definition aes_unwrap_key :: "(bytes \<Rightarrow> bytes) \<Rightarrow> bytes \<Rightarrow> 64 word \<Rightarrow> bytes res" where
  "aes_unwrap_key decrypt wrapped iv =
     bind_res (aes_unwrap_key_and_iv decrypt wrapped) (\<lambda>(key, key_iv).
       if key_iv \<noteq> iv then Inl ValueError else Inr key)"

text \<open>What is needed of \<open>AES.new(kek, AES.MODE_ECB)\<close> on one 16-byte block.\<close>

definition block_cipher :: "(bytes \<Rightarrow> bytes) \<Rightarrow> (bytes \<Rightarrow> bytes) \<Rightarrow> bool" where
  "block_cipher encrypt decrypt \<longleftrightarrow>
     (\<forall>b. length b = 16 \<longrightarrow> length (encrypt b) = 16 \<and> decrypt (encrypt b) = b)"

definition wf_registers :: "nat \<Rightarrow> registers \<Rightarrow> bool" where
  "wf_registers n st \<longleftrightarrow> length (snd st) = Suc n \<and> (\<forall>i. 1 \<le> i \<and> i \<le> n \<longrightarrow> length (snd st ! i) = 8) \<and> snd st ! 0 = [0]"

lemma unwrap_wrap_step:
  assumes "block_cipher encrypt decrypt" and "wf_registers n st" and "1 \<le> i" and "i \<le> n"
  shows "unwrap_step decrypt n (j, i) (wrap_step encrypt n (j, i) st) = st"
    and "wf_registers n (wrap_step encrypt n (j, i) st)"
proof -
  obtain A R where st: "st = (A, R)" by force
  define B where "B = encrypt (quad_pack A @ R ! i)"
  have R: "length (R ! i) = 8" "length R = Suc n" "i < length R" using assms by (auto simp: wf_registers_def st)
  then have B: "length B = 16" "decrypt B = quad_pack A @ R ! i"
    using assms(1) by (simp_all add: block_cipher_def B_def)
  have w: "wrap_step encrypt n (j, i) st = (quad_unpack (py_slice 0 8 B) XOR of_nat (n * j + i), R[i := drop 8 B])"
    by (simp add: wrap_step_def st B_def Let_def)
  have "quad_pack (quad_unpack (py_slice 0 8 B)) = take 8 B" using B by (simp add: quad_pack_unpack py_slice_def)
  then have "decrypt (quad_pack (quad_unpack (py_slice 0 8 B) XOR of_nat (n * j + i) XOR of_nat (n * j + i)) @ R[i := drop 8 B] ! i)
    = quad_pack A @ R ! i" using R B by (simp add: xor.assoc)
  then show "unwrap_step decrypt n (j, i) (wrap_step encrypt n (j, i) st) = st"
    unfolding w unwrap_step_def prod.case Let_def using R by (simp only:) (simp add: st py_slice_def xor.assoc)
  show "wf_registers n (wrap_step encrypt n (j, i) st)"
    unfolding w using assms R B by (auto simp: wf_registers_def st nth_list_update)
qed

lemma fold_undo:
  assumes "\<And>x s. x \<in> set xs \<Longrightarrow> P s \<Longrightarrow> g x (f x s) = s \<and> P (f x s)" and "P s"
  shows "fold g (rev xs) (fold f xs s) = s \<and> P (fold f xs s)"
  using assms
proof (induction xs arbitrary: s)
  case (Cons x xs)
  then have "P (f x s)" "g x (f x s) = s" by auto
  with Cons.IH [of "f x s"] Cons.prems(1) show ?case by simp
qed simp

lemma length_concat8: "\<forall>x \<in> set xs. length x = 8 \<Longrightarrow> length (concat xs) = 8 * length xs"
  by (induction xs) auto

lemma chunks8_concat: "\<forall>x \<in> set xs. length x = 8 \<Longrightarrow> chunks8 (length xs) (concat xs) = xs"
proof (induction xs)
  case (Cons x xs)
  have "map (\<lambda>i. py_slice (i * 8) (i * 8 + 8) (x @ concat xs)) [0..<Suc (length xs)]
    = py_slice 0 8 (x @ concat xs) # map (\<lambda>i. py_slice (Suc i * 8) (Suc i * 8 + 8) (x @ concat xs)) [0..<length xs]"
    by (simp add: map_upt_Suc del: upt_Suc)
  with Cons show ?case by (simp add: chunks8_def py_slice_def add.commute del: upt_Suc)
qed (simp add: chunks8_def)

lemma concat_chunks8: "length d = 8 * n \<Longrightarrow> concat (chunks8 n d) = d"
proof (induction n arbitrary: d)
  case (Suc n)
  have "chunks8 (Suc n) d = take 8 d # chunks8 n (drop 8 d)"
    by (simp add: chunks8_def py_slice_def map_upt_Suc add.commute del: upt_Suc)
  with Suc show ?case by simp
qed (simp add: chunks8_def)

lemma wf_chunks: "length d = 8 * n \<Longrightarrow> wf_registers n (iv, [0] # chunks8 n d)"
  by (auto simp: wf_registers_def chunks8_def nth_Cons')

lemma set_wrap_order: "(j, i) \<in> set (wrap_order n) \<Longrightarrow> 1 \<le> i \<and> i \<le> n"
  by (auto simp: wrap_order_def)

lemma unwrap_wrap_key:
  assumes "block_cipher encrypt decrypt" and "length key = 8 * n"
  shows "aes_unwrap_key decrypt (aes_wrap_key encrypt key iv) iv = Inr key"
proof -
  let ?st = "(iv, [0] # chunks8 n key)"
  obtain A R where AR: "fold (wrap_step encrypt n) (wrap_order n) ?st = (A, R)" by force
  have undo: "fold (unwrap_step decrypt n) (rev (wrap_order n)) (A, R) = ?st" and wf: "wf_registers n (A, R)"
  proof -
    have "unwrap_step decrypt n x (wrap_step encrypt n x st) = st \<and> wf_registers n (wrap_step encrypt n x st)"
      if "x \<in> set (wrap_order n)" "wf_registers n st" for x st
    proof -
      obtain j i where x: "x = (j, i)" by force
      have "1 \<le> i" "i \<le> n" using set_wrap_order [of j i n] that(1) by (simp_all add: x)
      from unwrap_wrap_step [OF assms(1) that(2) this] show ?thesis by (simp add: x)
    qed
    from fold_undo [of "wrap_order n" "wf_registers n" "unwrap_step decrypt n" "wrap_step encrypt n", OF this wf_chunks [OF assms(2), of iv]] AR
    show "fold (unwrap_step decrypt n) (rev (wrap_order n)) (A, R) = ?st" "wf_registers n (A, R)" by simp_all
  qed
  obtain r0 Q where R: "R = r0 # Q" using wf by (cases R) (auto simp: wf_registers_def)
  have "length (Q ! k) = 8" if "k < n" for k using wf that by (auto simp: wf_registers_def R dest: spec [of _ "Suc k"])
  then have Q: "r0 = [0]" "length Q = n" "\<forall>x \<in> set Q. length x = 8"
    using wf by (auto simp: wf_registers_def R in_set_conv_nth)
  let ?w = "quad_pack A @ concat Q"
  have len: "length ?w = 8 + 8 * n" using length_concat8 [OF Q(3)] Q(2) by simp
  have "chunks8 n (drop 8 ?w) = Q" using chunks8_concat [OF Q(3)] Q(2) by simp
  moreover have "quad_unpack (py_slice 0 8 ?w) = A" by (simp add: py_slice_def)
  moreover have "length ?w div 8 - 1 = n" using len by simp
  ultimately have "aes_unwrap_key_and_iv decrypt ?w = Inr (concat (chunks8 n key), iv)"
    using undo Q(1) len by (simp add: aes_unwrap_key_and_iv_def Let_def R)
  moreover have "aes_wrap_key encrypt key iv = ?w" using AR assms(2) by (simp add: aes_wrap_key_def Let_def R)
  ultimately show ?thesis by (simp add: aes_unwrap_key_def concat_chunks8 [OF assms(2)])
qed

section \<open>AES-256-GCM\<close>

record aes_lib =
  gcm_encrypt :: "bytes \<Rightarrow> bytes \<Rightarrow> bytes \<Rightarrow> bytes"
  gcm_decrypt :: "bytes \<Rightarrow> bytes \<Rightarrow> bytes \<Rightarrow> bytes"
  b64encode :: "bytes \<Rightarrow> string"
  b64decode :: "string \<Rightarrow> bytes res"
  random_iv :: "nat \<Rightarrow> bytes"

text \<open>
  \<open>encapsulate\<close> and \<open>decapsulate\<close> of the class \<open>Transform\<close>, over its methods \<open>_create_envelope_key\<close> and
  \<open>_derive_envelope_key\<close>, which the ECC subclass overrides.
\<close>

definition aes_encapsulate :: "aes_lib \<Rightarrow> (nat \<Rightarrow> bytes \<times> bytes) \<Rightarrow> nat \<Rightarrow> bytes \<Rightarrow> bytes option \<times> json" where
  "aes_encapsulate L create_envelope_key rnd data =
     (let (envelope_key, encrypted_key) = create_envelope_key rnd;
          envelope_iv = random_iv L rnd
      in (Some (gcm_encrypt L envelope_key envelope_iv data),
          JDict [(''envelope_key'', JStr (b64encode L encrypted_key)), (''iv'', JStr (b64encode L envelope_iv))]))"

definition b64_item :: "aes_lib \<Rightarrow> json \<Rightarrow> bytes res" where
  "b64_item L j = (case j of JStr s \<Rightarrow> b64decode L s | _ \<Rightarrow> Inl TypeError)"

definition aes_decapsulate :: "aes_lib \<Rightarrow> (bytes \<Rightarrow> bytes res) \<Rightarrow> bytes \<Rightarrow> json \<Rightarrow> bytes res" where
  "aes_decapsulate L derive_envelope_key data materials =
     (case materials of
        JDict m \<Rightarrow>
          (case (dict_get m ''envelope_key'', dict_get m ''iv'') of
             (Some jk, Some ji) \<Rightarrow>
               bind_res (b64_item L jk) (\<lambda>encrypted_key.
               bind_res (b64_item L ji) (\<lambda>iv.
               if length iv \<noteq> 16 then Inl ValueError
               else bind_res (derive_envelope_key encrypted_key) (\<lambda>envelope_key.
                    if length envelope_key \<noteq> 32 then Inl ValueError
                    else Inr (gcm_decrypt L envelope_key iv data))))
           | _ \<Rightarrow> Inl KeyError)
      | _ \<Rightarrow> Inl TypeError)"

text \<open>The methods of \<open>aes_256_gcm\<close>: a random key wrapped with the master key.\<close>

definition aes_create_envelope_key :: "(bytes \<Rightarrow> bytes) \<Rightarrow> (nat \<Rightarrow> bytes) \<Rightarrow> nat \<Rightarrow> bytes \<times> bytes" where
  "aes_create_envelope_key encrypt random_key rnd =
     (let envelope_key = random_key rnd in (envelope_key, aes_wrap_key encrypt envelope_key default_iv))"

definition aes_derive_envelope_key :: "(bytes \<Rightarrow> bytes) \<Rightarrow> bytes \<Rightarrow> bytes res" where
  "aes_derive_envelope_key decrypt encrypted_key = aes_unwrap_key decrypt encrypted_key default_iv"

text \<open>
  The methods of \<open>aes_256_gcm_ecc\<close>: an ephemeral key pair and the point both sides can compute. \<open>has_private\<close>
  guards \<open>decapsulate\<close>.
\<close>

record 'p ecc_lib =
  ecc_mult :: "'p \<Rightarrow> int \<Rightarrow> 'p"
  ecc_base :: 'p
  ecc_generate :: "nat \<Rightarrow> int"
  ecc_pack :: "'p \<Rightarrow> bytes"
  ecc_unpack :: "bytes \<Rightarrow> 'p res"
  point_to_key :: "'p \<Rightarrow> bytes"

record 'p ecc_key =
  pointQ :: 'p
  private_d :: "int option"

definition ecc_create_envelope_key :: "'p ecc_lib \<Rightarrow> 'p ecc_key \<Rightarrow> nat \<Rightarrow> bytes \<times> bytes" where
  "ecc_create_envelope_key E k rnd =
     (let d = ecc_generate E rnd
      in (point_to_key E (ecc_mult E (pointQ k) d), ecc_pack E (ecc_mult E (ecc_base E) d)))"

definition ecc_derive_envelope_key :: "'p ecc_lib \<Rightarrow> int \<Rightarrow> bytes \<Rightarrow> bytes res" where
  "ecc_derive_envelope_key E d cipher_pubkey =
     bind_res (ecc_unpack E cipher_pubkey) (\<lambda>q. Inr (point_to_key E (ecc_mult E q d)))"

definition ecc_decapsulate :: "aes_lib \<Rightarrow> 'p ecc_lib \<Rightarrow> 'p ecc_key \<Rightarrow> bytes \<Rightarrow> json \<Rightarrow> bytes res" where
  "ecc_decapsulate L E k data materials =
     (case private_d k of
        None \<Rightarrow> Inl ValueError
      | Some d \<Rightarrow> aes_decapsulate L (ecc_derive_envelope_key E d) data materials)"

section \<open>Zstandard\<close>

definition zstd_encapsulate :: "(bytes \<Rightarrow> bytes) \<Rightarrow> nat \<Rightarrow> bytes \<Rightarrow> bytes option \<times> json" where
  "zstd_encapsulate compress rnd data =
     (let e = compress data in
      if length e < length data then (Some e, JDict [(''original_size'', JInt (int (length data)))])
      else (None, JNull))"

definition zstd_decapsulate :: "(bytes \<Rightarrow> int \<Rightarrow> bytes res) \<Rightarrow> bytes \<Rightarrow> json \<Rightarrow> bytes res" where
  "zstd_decapsulate decompress data materials =
     (case materials of
        JDict m \<Rightarrow>
          (case dict_get m ''original_size'' of
             Some (JInt n) \<Rightarrow> decompress data n
           | Some _ \<Rightarrow> Inl TypeError
           | None \<Rightarrow> Inl KeyError)
      | _ \<Rightarrow> Inl TypeError)"

section \<open>The transforms undo themselves\<close>

definition zstd_transform :: "string \<Rightarrow> (bytes \<Rightarrow> bytes) \<Rightarrow> (bytes \<Rightarrow> int \<Rightarrow> bytes res) \<Rightarrow> transform" where
  "zstd_transform name C D =
     \<lparr> tr_name = name, tr_module = ''zstd'', tr_encapsulate = zstd_encapsulate C, tr_decapsulate = zstd_decapsulate D \<rparr>"

definition aes_transform :: "string \<Rightarrow> aes_lib \<Rightarrow> (bytes \<Rightarrow> bytes) \<Rightarrow> (bytes \<Rightarrow> bytes) \<Rightarrow> (nat \<Rightarrow> bytes) \<Rightarrow> transform" where
  "aes_transform name L encrypt decrypt random_key =
     \<lparr> tr_name = name, tr_module = ''aes_256_gcm'',
       tr_encapsulate = aes_encapsulate L (aes_create_envelope_key encrypt random_key),
       tr_decapsulate = aes_decapsulate L (aes_derive_envelope_key decrypt) \<rparr>"

definition ecc_transform :: "string \<Rightarrow> aes_lib \<Rightarrow> 'p ecc_lib \<Rightarrow> 'p ecc_key \<Rightarrow> transform" where
  "ecc_transform name L E k =
     \<lparr> tr_name = name, tr_module = ''aes_256_gcm_ecc'',
       tr_encapsulate = aes_encapsulate L (ecc_create_envelope_key E k),
       tr_decapsulate = ecc_decapsulate L E k \<rparr>"

text \<open>Documented behaviour of the cipher, of base64 and of the random bytes.\<close>

definition good_aes_lib :: "aes_lib \<Rightarrow> bool" where
  "good_aes_lib L \<longleftrightarrow>
     (\<forall>k iv d. gcm_decrypt L k iv (gcm_encrypt L k iv d) = d) \<and>
     (\<forall>b. b64decode L (b64encode L b) = Inr b) \<and> (\<forall>rnd. length (random_iv L rnd) = 16)"

lemma aes_decapsulate_encapsulate:
  assumes "good_aes_lib L" and "create rnd = (key, encrypted)" and "derive encrypted = Inr key" and "length key = 32"
    and "aes_encapsulate L create rnd d = (Some e, m)"
  shows "aes_decapsulate L derive e m = Inr d"
  using assms by (auto simp: aes_encapsulate_def aes_decapsulate_def b64_item_def good_aes_lib_def Let_def)

text \<open>C22: Each transform module can undo itself, so that a storage configured with any stack of them satisfies the
  hypothesis of the storage round trips: zstd when decompressing a compressed block with its length returns it; AES-256-GCM
  (with RFC 3394 key wrapping, proved here) when the block cipher and the stream are inverses and the random key
  has 32 bytes; the ECC variant when multiplying points commutes and the private key is configured.\<close>

theorem transforms_reversible:
  assumes "\<And>d. D (C d) (int (length d)) = Inr d"
    and "good_aes_lib L" and "block_cipher encrypt decrypt" and "\<And>rnd. length (random_key rnd) = 32"
    and "\<And>p. ecc_unpack E (ecc_pack E p) = Inr p" and "\<And>p. length (point_to_key E p) = 32"
    and "\<And>a b. ecc_mult E (ecc_mult E (ecc_base E) a) b = ecc_mult E (ecc_mult E (ecc_base E) b) a"
    and "private_d k = Some x" and "pointQ k = ecc_mult E (ecc_base E) x"
  shows "good_transform (zstd_transform n1 C D) \<and> good_transform (aes_transform n2 L encrypt decrypt random_key) \<and>
         good_transform (ecc_transform n3 L E k)"
proof (intro conjI)
  show "good_transform (zstd_transform n1 C D)"
    using assms(1) by (auto simp: good_transform_def zstd_transform_def zstd_encapsulate_def zstd_decapsulate_def Let_def split: if_splits)
  have "aes_derive_envelope_key decrypt (aes_wrap_key encrypt (random_key rnd) default_iv) = Inr (random_key rnd)" for rnd
    using unwrap_wrap_key [OF assms(3), of "random_key rnd" 4] assms(4) by (simp add: aes_derive_envelope_key_def)
  then show "good_transform (aes_transform n2 L encrypt decrypt random_key)"
    unfolding good_transform_def aes_transform_def transform.simps using assms(4)
    by (intro allI impI) (rule aes_decapsulate_encapsulate [OF assms(2)], auto simp: aes_create_envelope_key_def Let_def)
  have "ecc_derive_envelope_key E x (snd (ecc_create_envelope_key E k rnd)) = Inr (fst (ecc_create_envelope_key E k rnd))" for rnd
    using assms(5,7,9) by (simp add: ecc_derive_envelope_key_def ecc_create_envelope_key_def Let_def)
  then show "good_transform (ecc_transform n3 L E k)"
    unfolding good_transform_def ecc_transform_def transform.simps ecc_decapsulate_def assms(8) option.case using assms(6)
    by (intro allI impI) (rule aes_decapsulate_encapsulate [OF assms(2)], auto simp: ecc_create_envelope_key_def Let_def)
qed

definition demo_aes_lib :: aes_lib where
  "demo_aes_lib = \<lparr> gcm_encrypt = (\<lambda>k iv d. map (\<lambda>x. x XOR hd k) d), gcm_decrypt = (\<lambda>k iv d. map (\<lambda>x. x XOR hd k) d),
     b64encode = (\<lambda>b. map (\<lambda>x. char_of (unat x)) b), b64decode = (\<lambda>s. Inr (map (\<lambda>c. of_nat (of_char c)) s)),
     random_iv = (\<lambda>_. replicate 16 5) \<rparr>"

definition demo_ecc_lib :: "int ecc_lib" where
  "demo_ecc_lib = \<lparr> ecc_mult = (\<lambda>p a. p * a), ecc_base = 2, ecc_generate = int,
     ecc_pack = (\<lambda>p. replicate (nat \<bar>p\<bar>) (if p < 0 then 1 else 0)),
     ecc_unpack = (\<lambda>b. Inr (if b \<noteq> [] \<and> hd b = 1 then - int (length b) else int (length b))),
     point_to_key = (\<lambda>p. replicate 32 (of_int p)) \<rparr>"

theorem transforms_reversible_witness:
  "good_transform (zstd_transform ''z'' (\<lambda>d. d) (\<lambda>d n. Inr d)) \<and>
   good_transform (aes_transform ''a'' demo_aes_lib rev rev (\<lambda>r. replicate 32 (of_nat r))) \<and>
   good_transform (ecc_transform ''e'' demo_aes_lib demo_ecc_lib \<lparr> pointQ = 6, private_d = Some 3 \<rparr>)"
proof (rule transforms_reversible)
  show "good_aes_lib demo_aes_lib"
    by (simp add: good_aes_lib_def demo_aes_lib_def comp_def byte_less xor.assoc)
  show "block_cipher rev rev" by (simp add: block_cipher_def)
  show "ecc_unpack demo_ecc_lib (ecc_pack demo_ecc_lib p) = Inr p" for p
    by (cases p) (auto simp: demo_ecc_lib_def hd_replicate)
  show "private_d \<lparr> pointQ = 6, private_d = Some 3 \<rparr> = Some 3" by simp
qed (simp_all add: demo_ecc_lib_def)

end
