(* ===== verification/Db.thy ===== *)
theory Db
  imports Benji_Types
begin

text \<open>
  The tables of \<open>database.py\<close> that the backup engine uses, the session with its transaction, and the
  operations of the class \<open>Version\<close>.

  A session has a working copy of the database, which queries see (the session flushes pending
  changes before each query), and the last committed state, to which \<open>rollback\<close> returns. The
  readings of \<open>time.monotonic()\<close> are the arbitrary sequence \<open>clock\<close>.
\<close>

section \<open>Tables and session\<close>

record version =
  ver_id :: int
  ver_uid :: string
  ver_volume :: string
  ver_snapshot :: string
  ver_size :: int
  ver_block_size :: int
  ver_storage_id :: int
  ver_status :: version_status
  ver_protected :: bool
  ver_bytes_read :: "int option"
  ver_bytes_written :: "int option"
  ver_bytes_deduplicated :: "int option"
  ver_bytes_sparse :: "int option"
  ver_duration :: "int option"
  ver_created_at :: int
  ver_vm_id :: int

record label =
  lbl_version_id :: int
  lbl_name :: string
  lbl_value :: string

record deleted_block =
  del_date :: int
  del_storage_id :: int
  del_uid :: block_uid

record lock =
  lck_name :: string
  lck_host :: string
  lck_process_id :: string
  lck_reason :: string
  lck_date :: int

record storage_row =
  sto_id :: int
  sto_name :: string
  sto_module :: string

record database =
  db_versions :: "version list"
  db_blocks :: "block list"
  db_labels :: "label list"
  db_deleted :: "deleted_block list"
  db_locks :: "lock list"
  db_storages :: "storage_row list"

record session =
  working :: database
  committed :: database
  clock :: "nat \<Rightarrow> int"
  tick :: nat
  last_timed_commit :: int

definition commit :: "session \<Rightarrow> session" where
  "commit s = s\<lparr>committed := working s\<rparr>"

definition rollback :: "session \<Rightarrow> session" where
  "rollback s = s\<lparr>working := committed s\<rparr>"

definition update_db :: "(database \<Rightarrow> database) \<Rightarrow> session \<Rightarrow> session" where
  "update_db f s = s\<lparr>working := f (working s)\<rparr>"

text \<open>\<open>Version._timed_commit\<close>, with \<open>TIMED_COMMIT_INTERVAL = 20\<close>.\<close>

definition timed_commit :: "session \<Rightarrow> session" where
  "timed_commit s =
     (let current_clock = clock s (tick s); s' = s\<lparr>tick := Suc (tick s)\<rparr> in
      if current_clock - last_timed_commit s' > 20
      then (commit s')\<lparr>last_timed_commit := current_clock\<rparr> else s')"

section \<open>Operations of a version\<close>

definition version_blocks :: "version \<Rightarrow> database \<Rightarrow> block list" where
  "version_blocks v d = filter (\<lambda>b. blk_version_id b = ver_id v) (db_blocks d)"

text \<open>\<open>query(Block).filter(version_id == id, idx == idx).one_or_none()\<close>: \<open>(version_id, idx)\<close> is the primary key.\<close>

definition query_block :: "version \<Rightarrow> int \<Rightarrow> database \<Rightarrow> block option" where
  "query_block v idx d = find (\<lambda>b. blk_version_id b = ver_id v \<and> blk_idx b = idx) (db_blocks d)"

definition create_sparse_block :: "version \<Rightarrow> int \<Rightarrow> block" where
  "create_sparse_block v idx =
     \<lparr> blk_version_id = ver_id v, blk_idx = idx, blk_uid = SparseBlockUid, blk_checksum = None,
       blk_size = ver_block_size v, blk_valid = True \<rparr>"

definition blocks_count :: "version \<Rightarrow> int" where
  "blocks_count v = ceil_div (ver_size v) (ver_block_size v)"

definition get_block_by_idx :: "version \<Rightarrow> int \<Rightarrow> database \<Rightarrow> block" where
  "get_block_by_idx v idx d =
     (case query_block v idx d of Some b \<Rightarrow> b | None \<Rightarrow> create_sparse_block v idx)"

text \<open>\<open>set_block\<close>: the row of the index is deleted, created or updated, or nothing is done.\<close>

definition put_block :: "version \<Rightarrow> int \<Rightarrow> block_uid \<Rightarrow> string option \<Rightarrow> int \<Rightarrow> bool \<Rightarrow> database \<Rightarrow> database" where
  "put_block v idx uid cs sz vld d =
     (let mine = (\<lambda>b. blk_version_id b = ver_id v \<and> blk_idx b = idx) in
      case query_block v idx d of
        None \<Rightarrow>
          d\<lparr>db_blocks := db_blocks d @
             [\<lparr> blk_version_id = ver_id v, blk_idx = idx, blk_uid = uid, blk_checksum = cs,
                blk_size = sz, blk_valid = vld \<rparr>]\<rparr>
      | Some _ \<Rightarrow>
          d\<lparr>db_blocks := map (\<lambda>b. if mine b
             then b\<lparr>blk_uid := uid, blk_checksum := cs, blk_size := sz, blk_valid := vld\<rparr> else b)
             (db_blocks d)\<rparr>)"

definition delete_block :: "version \<Rightarrow> int \<Rightarrow> database \<Rightarrow> database" where
  "delete_block v idx d =
     d\<lparr>db_blocks := filter (\<lambda>b. \<not> (blk_version_id b = ver_id v \<and> blk_idx b = idx)) (db_blocks d)\<rparr>"

definition set_block :: "version \<Rightarrow> int \<Rightarrow> block_uid \<Rightarrow> string option \<Rightarrow> int \<Rightarrow> bool \<Rightarrow> session \<Rightarrow> session" where
  "set_block v idx uid cs sz vld s =
     (let present = query_block v idx (working s) \<noteq> None;
          sparse = (\<not> uid_bool uid \<and> sz = ver_block_size v)
      in if \<not> present \<and> sparse then s
         else if present \<and> sparse then timed_commit (update_db (delete_block v idx) s)
         else timed_commit (update_db (put_block v idx uid cs sz vld) s))"

text \<open>\<open>create_blocks\<close>: fully sparse blocks are dropped; a duplicate primary key fails the insert.\<close>

definition block_key :: "block \<Rightarrow> int \<times> int" where
  "block_key b = (blk_version_id b, blk_idx b)"

definition create_blocks :: "version \<Rightarrow> block list \<Rightarrow> (exn, session, unit) py" where
  "create_blocks v bs s =
     (let kept = filter (\<lambda>b. uid_left (blk_uid b) \<noteq> None \<or> uid_right (blk_uid b) \<noteq> None
                              \<or> blk_size b \<noteq> ver_block_size v) bs;
          new = map (\<lambda>b. b\<lparr>blk_version_id := ver_id v\<rparr>) kept
      in if distinct (map block_key new) \<and>
            set (map block_key new) \<inter> set (map block_key (db_blocks (working s))) = {}
         then (Inr (), timed_commit (update_db (\<lambda>d. d\<lparr>db_blocks := db_blocks d @ new\<rparr>) s))
         else (Inl IntegrityError, rollback s))"

text \<open>
  The iterator \<open>Version.blocks\<close>: slices of \<open>BLOCKS_PER_CALL\<close> indices, the gaps of each slice filled
  with synthesised sparse blocks.
\<close>

definition BLOCKS_PER_CALL :: int where "BLOCKS_PER_CALL = 10000"

fun fill_slice :: "version \<Rightarrow> int \<Rightarrow> int \<Rightarrow> block list \<Rightarrow> block list" where
  "fill_slice v idx next_start [] = map (create_sparse_block v) (py_range idx next_start)"
| "fill_slice v idx next_start (b # bs) =
     map (create_sparse_block v) (py_range idx (blk_idx b)) @ b #
     fill_slice v (max idx (blk_idx b) + 1) next_start bs"

definition query_slice :: "version \<Rightarrow> int \<Rightarrow> int \<Rightarrow> database \<Rightarrow> block list" where
  "query_slice v a b d =
     sort_key blk_idx (filter (\<lambda>r. blk_version_id r = ver_id v \<and> a \<le> blk_idx r \<and> blk_idx r < b) (db_blocks d))"

function blocks_from :: "version \<Rightarrow> database \<Rightarrow> int \<Rightarrow> block list" where
  "blocks_from v d start_idx =
     (let next_start = min (start_idx + BLOCKS_PER_CALL) (blocks_count v);
          slice_blocks = fill_slice v start_idx next_start (query_slice v start_idx next_start d)
      in if next_start = blocks_count v then slice_blocks
         else slice_blocks @ blocks_from v d next_start)"
  by pat_completeness auto
termination
  by (relation "measure (\<lambda>(v, d, i). nat (blocks_count v - i))") (auto simp: BLOCKS_PER_CALL_def)

definition blocks :: "version \<Rightarrow> database \<Rightarrow> block list" where
  "blocks v d = blocks_from v d 0"

definition sparse_blocks_count :: "version \<Rightarrow> database \<Rightarrow> nat" where
  "sparse_blocks_count v d =
     (let non_sparse = map blk_idx (filter (\<lambda>b. blk_version_id b = ver_id v \<and>
            uid_left (blk_uid b) \<noteq> None \<and> uid_right (blk_uid b) \<noteq> None) (db_blocks d))
      in length (filter (\<lambda>i. i \<notin> set non_sparse) (py_range 0 (blocks_count v))))"

definition get_by_uid :: "string \<Rightarrow> database \<Rightarrow> version res" where
  "get_by_uid uid d =
     (case find (\<lambda>v. ver_uid v = uid) (db_versions d) of None \<Rightarrow> Inl KeyError | Some v \<Rightarrow> Inr v)"

text \<open>\<open>get_block_by_checksum\<close>: the first valid block of any version of the same storage.\<close>

definition get_block_by_checksum :: "version \<Rightarrow> string option \<Rightarrow> database \<Rightarrow> block option" where
  "get_block_by_checksum v cs d =
     find (\<lambda>b. blk_checksum b = cs \<and> blk_valid b \<and>
               (\<exists>w \<in> set (db_versions d). ver_id w = blk_version_id b \<and> ver_storage_id w = ver_storage_id v))
          (db_blocks d)"

definition set_stats :: "version \<Rightarrow> int \<Rightarrow> int \<Rightarrow> int \<Rightarrow> int \<Rightarrow> int \<Rightarrow> session \<Rightarrow> session" where
  "set_stats v rd wr dedup sparse dur s =
     commit (update_db (\<lambda>d. d\<lparr>db_versions := map (\<lambda>w. if ver_id w = ver_id v
       then w\<lparr>ver_bytes_read := Some rd, ver_bytes_written := Some wr, ver_bytes_deduplicated := Some dedup,
              ver_bytes_sparse := Some sparse, ver_duration := Some dur\<rparr> else w) (db_versions d)\<rparr>) s)"

text \<open>\<open>Version.set\<close>: each argument left at \<open>None\<close> keeps its attribute.\<close>

definition set_attrs :: "version_status option \<Rightarrow> bool option \<Rightarrow> version \<Rightarrow> version" where
  "set_attrs st pr w =
     (let w1 = (case st of Some x \<Rightarrow> w\<lparr>ver_status := x\<rparr> | None \<Rightarrow> w)
      in case pr of Some p \<Rightarrow> w1\<lparr>ver_protected := p\<rparr> | None \<Rightarrow> w1)"

definition set_version :: "version \<Rightarrow> version_status option \<Rightarrow> bool option \<Rightarrow> session \<Rightarrow> session" where
  "set_version v st pr s =
     commit (update_db (\<lambda>d. d\<lparr>db_versions :=
       map (\<lambda>w. if ver_id w = ver_id v then set_attrs st pr w else w) (db_versions d)\<rparr>) s)"

text \<open>
  \<open>set_block_valid\<close>: all rows with the UID get the flag; making a block invalid makes every version
  that refers to it invalid. The result is the set of affected version UIDs.
\<close>

definition refers_to :: "database \<Rightarrow> block_uid \<Rightarrow> version \<Rightarrow> bool" where
  "refers_to d uid v \<longleftrightarrow> (\<exists>b \<in> set (db_blocks d). blk_version_id b = ver_id v \<and> blk_uid b = uid)"

definition affected_uids :: "database \<Rightarrow> block_uid \<Rightarrow> string list" where
  "affected_uids d uid = remdups (map ver_uid (filter (refers_to d uid) (db_versions d)))"

definition mark_blocks :: "block_uid \<Rightarrow> bool \<Rightarrow> database \<Rightarrow> database" where
  "mark_blocks uid vld d =
     (let affected = affected_uids d uid in
      d\<lparr>db_blocks := map (\<lambda>b. if blk_uid b = uid then b\<lparr>blk_valid := vld\<rparr> else b) (db_blocks d),
        db_versions := (if vld then db_versions d
          else map (\<lambda>w. if ver_uid w \<in> set affected then w\<lparr>ver_status := invalid\<rparr> else w) (db_versions d))\<rparr>)"

definition set_block_valid :: "block_uid \<Rightarrow> bool \<Rightarrow> session \<Rightarrow> string list \<times> session" where
  "set_block_valid uid vld s =
     (affected_uids (working s) uid, commit (update_db (mark_blocks uid vld) s))"

text \<open>
  \<open>Version.remove\<close>: the non-sparse blocks become delete candidates, then the row goes and the
  foreign keys cascade to its blocks and labels. The result counts the rows of the version.
\<close>

definition remove_version :: "int \<Rightarrow> version \<Rightarrow> database \<Rightarrow> database" where
  "remove_version now v d =
     d\<lparr>db_deleted := db_deleted d @ map (\<lambda>b. \<lparr> del_date = now, del_storage_id = ver_storage_id v,
           del_uid = blk_uid b \<rparr>) (filter (\<lambda>b. uid_bool (blk_uid b)) (version_blocks v d)),
       db_versions := filter (\<lambda>w. ver_id w \<noteq> ver_id v) (db_versions d),
       db_blocks := filter (\<lambda>b. blk_version_id b \<noteq> ver_id v) (db_blocks d),
       db_labels := filter (\<lambda>l. lbl_version_id l \<noteq> ver_id v) (db_labels d)\<rparr>"

definition remove :: "int \<Rightarrow> version \<Rightarrow> session \<Rightarrow> nat \<times> session" where
  "remove now v s =
     (length (version_blocks v (working s)), commit (update_db (remove_version now v) s))"

definition add_label :: "version \<Rightarrow> string \<Rightarrow> string \<Rightarrow> (exn, session, unit) py" where
  "add_label v n val s =
     (let d = working s;
          mine = (\<lambda>l. lbl_name l = n \<and>
                    (\<exists>w \<in> set (db_versions d). ver_id w = lbl_version_id l \<and> ver_uid w = ver_uid v))
      in if \<exists>l \<in> set (db_labels d). mine l
         then (Inr (), commit (update_db (\<lambda>d. d\<lparr>db_labels :=
                 map (\<lambda>l. if mine l then l\<lparr>lbl_value := val\<rparr> else l) (db_labels d)\<rparr>) s))
         else (case find (\<lambda>w. ver_uid w = ver_uid v) (db_versions d) of
             None \<Rightarrow> (Inl KeyError, rollback s)
           | Some w \<Rightarrow> (Inr (), commit (update_db (\<lambda>d. d\<lparr>db_labels :=
                 db_labels d @ [\<lparr> lbl_version_id = ver_id w, lbl_name = n, lbl_value = val \<rparr>]\<rparr>) s))))"

text \<open>\<open>rm_label\<close> reads \<open>version.id\<close> of a query that may have found no row.\<close>

definition rm_label :: "version \<Rightarrow> string \<Rightarrow> (exn, session, unit) py" where
  "rm_label v n s =
     (case find (\<lambda>w. ver_uid w = ver_uid v) (db_versions (working s)) of
        None \<Rightarrow> (Inl AttributeError, rollback s)
      | Some w \<Rightarrow> (Inr (), commit (update_db (\<lambda>d. d\<lparr>db_labels :=
          filter (\<lambda>l. \<not> (lbl_version_id l = ver_id w \<and> lbl_name l = n)) (db_labels d)\<rparr>) s)))"

definition label_value :: "version \<Rightarrow> string \<Rightarrow> database \<Rightarrow> string option" where
  "label_value v n d =
     map_option lbl_value (find (\<lambda>l. lbl_version_id l = ver_id v \<and> lbl_name l = n) (db_labels d))"

text \<open>
  \<open>Storage.sync\<close>. The row it adds for an unknown name has no \<open>node_id\<close> and no \<open>user_id\<close>, columns
  declared \<open>nullable=False\<close>, so the commit is refused.
\<close>

definition storage_sync :: "string \<Rightarrow> int option \<Rightarrow> (exn, session, storage_row) py" where
  "storage_sync name sid s =
     (case find (\<lambda>r. sto_name r = name) (db_storages (working s)) of
        Some r \<Rightarrow>
          (case sid of
             Some k \<Rightarrow> if sto_id r \<noteq> k then (Inl ConfigurationError, rollback s) else (Inr r, s)
           | None \<Rightarrow> (Inr r, s))
      | None \<Rightarrow> (Inl IntegrityError, rollback s))"

section \<open>Primary keys\<close>

definition wf_blocks :: "database \<Rightarrow> bool" where
  "wf_blocks d \<longleftrightarrow> distinct (map block_key (db_blocks d))"

definition wf_db :: "database \<Rightarrow> bool" where
  "wf_db d \<longleftrightarrow> wf_blocks d \<and> distinct (map ver_id (db_versions d)) \<and> distinct (map ver_uid (db_versions d)) \<and>
     distinct (map (\<lambda>l. (lbl_version_id l, lbl_name l)) (db_labels d)) \<and>
     blk_version_id ` set (db_blocks d) \<subseteq> ver_id ` set (db_versions d) \<and>
     lbl_version_id ` set (db_labels d) \<subseteq> ver_id ` set (db_versions d)"

section \<open>The session\<close>

lemma working_commit [simp]: "working (commit s) = working s"
  and committed_commit [simp]: "committed (commit s) = working s"
  and working_rollback [simp]: "working (rollback s) = committed s"
  and committed_rollback [simp]: "committed (rollback s) = committed s"
  and working_update_db [simp]: "working (update_db f s) = f (working s)"
  and committed_update_db [simp]: "committed (update_db f s) = committed s"
  by (simp_all add: commit_def rollback_def update_db_def)

lemma working_timed_commit [simp]: "working (timed_commit s) = working s"
  by (simp add: timed_commit_def Let_def commit_def)

lemma committed_timed_commit: "committed (timed_commit s) \<in> {committed s, working s}"
  by (simp add: timed_commit_def Let_def commit_def)

section \<open>One row per index\<close>

lemma find_map_same:
  assumes "\<And>x. P (f x) = P x"
  shows "find P (map f xs) = map_option f (find P xs)"
  using assms by (induction xs) auto

lemma find_filter_other: "(\<And>x. P x \<Longrightarrow> Q x) \<Longrightarrow> find P (filter Q xs) = find P xs"
  by (induction xs) auto

lemma find_append: "find P (xs @ ys) = (case find P xs of Some x \<Rightarrow> Some x | None \<Rightarrow> find P ys)"
  by (induction xs) auto

lemma find_SomeD: "find P xs = Some x \<Longrightarrow> P x \<and> x \<in> set xs"
  by (auto simp: find_Some_iff)

lemma query_blockD: "query_block v i d = Some b \<Longrightarrow> blk_version_id b = ver_id v \<and> blk_idx b = i \<and> b \<in> set (db_blocks d)"
  unfolding query_block_def by (drule find_SomeD) simp

lemma query_block_unique:
  assumes "wf_blocks d" and "b \<in> set (db_blocks d)" and "blk_version_id b = ver_id v"
  shows "query_block v (blk_idx b) d = Some b"
proof -
  obtain c where c: "query_block v (blk_idx b) d = Some c"
    using assms(2,3) by (cases "query_block v (blk_idx b) d") (auto simp: query_block_def find_None_iff)
  from query_blockD [OF this] assms have "block_key b = block_key c" "b \<in> set (db_blocks d)" "c \<in> set (db_blocks d)"
    by (simp_all add: block_key_def)
  then have "b = c" using assms(1) by (auto simp: wf_blocks_def distinct_map dest: inj_onD)
  with c show ?thesis by simp
qed

text \<open>What the table holds for an index after \<open>set_block\<close>: nothing for a fully sparse block.\<close>

definition stored_block :: "version \<Rightarrow> int \<Rightarrow> block_uid \<Rightarrow> string option \<Rightarrow> int \<Rightarrow> bool \<Rightarrow> block" where
  "stored_block v idx uid cs sz vld =
     (if \<not> uid_bool uid \<and> sz = ver_block_size v then create_sparse_block v idx
      else \<lparr> blk_version_id = ver_id v, blk_idx = idx, blk_uid = uid, blk_checksum = cs,
             blk_size = sz, blk_valid = vld \<rparr>)"

lemma query_put_block:
  "query_block w j (put_block v i uid cs sz vld d) =
     (if ver_id w = ver_id v \<and> j = i then Some \<lparr> blk_version_id = ver_id v, blk_idx = i, blk_uid = uid,
        blk_checksum = cs, blk_size = sz, blk_valid = vld \<rparr> else query_block w j d)"
proof (cases "query_block v i d")
  case None
  then show ?thesis
    by (auto simp: put_block_def query_block_def find_append split: option.splits)
next
  case (Some b)
  let ?f = "\<lambda>b. if blk_version_id b = ver_id v \<and> blk_idx b = i
    then b\<lparr>blk_uid := uid, blk_checksum := cs, blk_size := sz, blk_valid := vld\<rparr> else b"
  have "db_blocks (put_block v i uid cs sz vld d) = map ?f (db_blocks d)"
    by (simp add: put_block_def Some)
  then have "query_block w j (put_block v i uid cs sz vld d) = map_option ?f (query_block w j d)"
    unfolding query_block_def by (simp only:) (rule find_map_same, simp)
  moreover have "query_block v i d = Some b \<Longrightarrow> ver_id w = ver_id v \<Longrightarrow> query_block w i d = Some b"
    by (simp add: query_block_def)
  ultimately show ?thesis
    using Some query_blockD [OF Some] by (cases "query_block w j d") (auto dest!: query_blockD)
qed

lemma query_delete_block:
  "query_block w j (delete_block v i d) = (if ver_id w = ver_id v \<and> j = i then None else query_block w j d)"
proof (cases "ver_id w = ver_id v \<and> j = i")
  case True
  then show ?thesis by (auto simp: query_block_def delete_block_def find_None_iff)
next
  case False
  then show ?thesis unfolding query_block_def delete_block_def by (auto intro: find_filter_other)
qed

lemma get_set_block:
  "get_block_by_idx v j (working (set_block v i uid cs sz vld s)) =
     (if j = i then stored_block v i uid cs sz vld else get_block_by_idx v j (working s))"
  by (auto simp: set_block_def Let_def get_block_by_idx_def stored_block_def query_put_block
      query_delete_block split: option.splits)

lemma get_set_block_other:
  "ver_id w \<noteq> ver_id v \<Longrightarrow>
     get_block_by_idx w j (working (set_block v i uid cs sz vld s)) = get_block_by_idx w j (working s)"
  by (auto simp: set_block_def Let_def get_block_by_idx_def query_put_block query_delete_block)

lemma keys_put_block:
  "map block_key (db_blocks (put_block v i uid cs sz vld d)) =
     (if query_block v i d = None then map block_key (db_blocks d) @ [(ver_id v, i)]
      else map block_key (db_blocks d))"
  by (auto simp: put_block_def block_key_def split: option.splits)

lemma wf_put_block: "wf_blocks d \<Longrightarrow> wf_blocks (put_block v i uid cs sz vld d)"
  by (auto simp: wf_blocks_def keys_put_block query_block_def find_None_iff block_key_def)

lemma wf_delete_block: "wf_blocks d \<Longrightarrow> wf_blocks (delete_block v i d)"
  by (simp add: wf_blocks_def delete_block_def distinct_map_filter)

lemma wf_set_block: "wf_blocks (working s) \<Longrightarrow> wf_blocks (working (set_block v i uid cs sz vld s))"
  by (simp add: set_block_def Let_def wf_put_block wf_delete_block)

section \<open>The block table as an interface\<close>

text \<open>
  What the backup engine relies on: \<open>get\<close> after \<open>put\<close>. It runs many \<open>put\<close>s in the order in which
  storage jobs complete; the result depends on the last \<open>put\<close> per index only.
\<close>

locale block_table =
  fixes ident :: "'v \<Rightarrow> 'i"
    and get :: "'v \<Rightarrow> int \<Rightarrow> 's \<Rightarrow> 'b"
    and put :: "'v \<Rightarrow> int \<Rightarrow> 'p \<Rightarrow> 's \<Rightarrow> 's"
    and row :: "'v \<Rightarrow> int \<Rightarrow> 'p \<Rightarrow> 'b"
  assumes get_put: "get v j (put v i p s) = (if j = i then row v i p else get v j s)"
    and get_put_other: "ident w \<noteq> ident v \<Longrightarrow> get w j (put v i p s) = get w j s"
begin

definition puts :: "'v \<Rightarrow> (int \<times> 'p) list \<Rightarrow> 's \<Rightarrow> 's" where
  "puts v ps s = fold (\<lambda>(i, p). put v i p) ps s"

lemma get_puts:
  "get v j (puts v ps s) = (case map_of (rev ps) j of None \<Rightarrow> get v j s | Some p \<Rightarrow> row v j p)"
proof (induction ps rule: rev_induct)
  case (snoc x ps)
  then show ?case by (cases x) (simp add: puts_def get_put)
qed (simp add: puts_def)

lemma get_puts_other: "ident w \<noteq> ident v \<Longrightarrow> get w j (puts v ps s) = get w j s"
  by (induction ps rule: rev_induct) (auto simp: puts_def get_put_other)

lemma map_of_rev: "distinct (map fst ps) \<Longrightarrow> map_of (rev ps) = map_of ps"
  by (rule map_of_inject_set [THEN iffD2]) (simp_all flip: rev_map)

lemma puts_any_order:
  assumes "mset ps = mset qs" and "distinct (map fst ps)"
  shows "get v j (puts v ps s) = get v j (puts v qs s)"
proof -
  have "mset (map fst ps) = mset (map fst qs)" using assms(1) by (metis mset_map)
  then have d: "distinct (map fst qs)" using assms(2) by (metis distinct_count_atmost_1 mset_eq_setD)
  have "map_of ps = map_of qs"
    by (rule map_of_inject_set [THEN iffD2]) (use assms d in \<open>auto dest: mset_eq_setD\<close>)
  then show ?thesis by (simp add: get_puts map_of_rev assms(2) d)
qed

end

type_synonym put_args = "block_uid \<times> string option \<times> int \<times> bool"

definition set_block_args :: "version \<Rightarrow> int \<Rightarrow> put_args \<Rightarrow> session \<Rightarrow> session" where
  "set_block_args v i p = (case p of (uid, cs, sz, vld) \<Rightarrow> set_block v i uid cs sz vld)"

definition stored_args :: "version \<Rightarrow> int \<Rightarrow> put_args \<Rightarrow> block" where
  "stored_args v i p = (case p of (uid, cs, sz, vld) \<Rightarrow> stored_block v i uid cs sz vld)"

interpretation bt: block_table ver_id "\<lambda>v i s. get_block_by_idx v i (working s)" set_block_args stored_args
  by unfold_locales (auto simp: set_block_args_def stored_args_def get_set_block get_set_block_other)

section \<open>The block iterator\<close>

lemma sorted_slice: "sorted (map blk_idx (query_slice v a b d))"
  by (simp add: query_slice_def)

lemma set_slice:
  "set (query_slice v a b d) = {r \<in> set (db_blocks d). blk_version_id r = ver_id v \<and> a \<le> blk_idx r \<and> blk_idx r < b}"
  by (auto simp: query_slice_def)

lemma distinct_slice:
  assumes "wf_blocks d" shows "distinct (map blk_idx (query_slice v a b d))"
proof -
  have "inj_on block_key (set (db_blocks d))" "distinct (db_blocks d)"
    using assms by (auto simp: wf_blocks_def distinct_map)
  then show ?thesis
    by (auto simp: query_slice_def distinct_map block_key_def inj_on_def)
qed

text \<open>Filling the gaps of a sorted duplicate-free slice yields each index once, from the table or sparse.\<close>

lemma py_range_split: "a \<le> m \<Longrightarrow> m \<le> b \<Longrightarrow> py_range a b = py_range a m @ py_range m b"
proof (rule nth_equalityI)
  fix k assume "a \<le> m" "m \<le> b" "k < length (py_range a b)"
  then show "py_range a b ! k = (py_range a m @ py_range m b) ! k"
    by (cases "k < nat (m - a)") (auto simp: nth_append)
qed auto

lemma py_range_Cons: "a < b \<Longrightarrow> py_range a b = a # py_range (a + 1) b"
  using py_range_split [of a "a + 1" b] by (simp add: py_range_def)

lemma fill_slice:
  assumes "sorted_wrt (<) (map blk_idx bs)" and "\<forall>b \<in> set bs. idx \<le> blk_idx b \<and> blk_idx b < n" and "idx \<le> n"
  shows "fill_slice v idx n bs =
    map (\<lambda>i. case find (\<lambda>b. blk_idx b = i) bs of Some b \<Rightarrow> b | None \<Rightarrow> create_sparse_block v i) (py_range idx n)"
  using assms
proof (induction bs arbitrary: idx)
  case (Cons b bs)
  let ?i = "blk_idx b" and ?g = "\<lambda>bs i. case find (\<lambda>b. blk_idx b = i) bs of Some b \<Rightarrow> b | None \<Rightarrow> create_sparse_block v i"
  have i: "idx \<le> ?i" "?i < n" using Cons.prems(2) by auto
  have late: "blk_idx c > ?i" if "c \<in> set bs" for c using Cons.prems(1) that by auto
  have ih: "fill_slice v (?i + 1) n bs = map (?g bs) (py_range (?i + 1) n)"
    by (rule Cons.IH) (use Cons.prems i late in \<open>auto simp: int_one_le_iff_zero_less dest: late\<close>)
  have "find (\<lambda>c. blk_idx c = j) bs = None" if "j < ?i" for j
    using late that by (force simp: find_None_iff)
  then have "map (?g (b # bs)) (py_range idx ?i) = map (create_sparse_block v) (py_range idx ?i)" by auto
  moreover have "map (?g (b # bs)) (py_range (?i + 1) n) = map (?g bs) (py_range (?i + 1) n)" by auto
  moreover have "py_range idx n = py_range idx ?i @ ?i # py_range (?i + 1) n"
    using py_range_split [of idx ?i n] py_range_Cons [of ?i n] i by simp
  ultimately show ?case using ih i by (simp add: max_def)
qed simp
lemma find_unique:
  "inj_on f (set xs) \<Longrightarrow> x \<in> set xs \<Longrightarrow> find (\<lambda>y. f y = f x) xs = Some x"
  by (induction xs) (auto simp: inj_on_def)

lemma query_block_None:
  "query_block v i d = None \<longleftrightarrow> (\<forall>b \<in> set (db_blocks d). \<not> (blk_version_id b = ver_id v \<and> blk_idx b = i))"
  by (auto simp: query_block_def find_None_iff)

lemma find_slice:
  assumes "wf_blocks d" and "a \<le> i" and "i < b"
  shows "find (\<lambda>r. blk_idx r = i) (query_slice v a b d) = query_block v i d"
proof (cases "query_block v i d")
  case None
  then have "find (\<lambda>r. blk_idx r = i) (query_slice v a b d) = None"
    by (auto simp: query_block_None find_None_iff set_slice)
  with None show ?thesis by simp
next
  case (Some r)
  note r = query_blockD [OF Some]
  have "r \<in> set (query_slice v a b d)" using r assms by (simp add: set_slice)
  with find_unique [of blk_idx "query_slice v a b d" r] distinct_slice [OF assms(1), of v a b] r Some
  show ?thesis by (simp add: distinct_map)
qed

lemma fill_query_slice:
  assumes "wf_blocks d" and "a \<le> b"
  shows "fill_slice v a b (query_slice v a b d) = map (\<lambda>i. get_block_by_idx v i d) (py_range a b)"
proof -
  have "sorted_wrt (<) (map blk_idx (query_slice v a b d))"
    using sorted_slice [of v a b d] distinct_slice [OF assms(1), of v a b] by (simp add: strict_sorted_iff)
  then have "fill_slice v a b (query_slice v a b d) = map (\<lambda>i. case find (\<lambda>r. blk_idx r = i) (query_slice v a b d) of
      Some r \<Rightarrow> r | None \<Rightarrow> create_sparse_block v i) (py_range a b)"
    by (rule fill_slice) (use assms in \<open>auto simp: set_slice\<close>)
  also have "\<dots> = map (\<lambda>i. get_block_by_idx v i d) (py_range a b)"
    by (simp add: find_slice [OF assms(1)] get_block_by_idx_def)
  finally show ?thesis .
qed

declare blocks_from.simps [simp del]

lemma blocks_from_eq:
  assumes "wf_blocks d" and "start \<le> blocks_count v"
  shows "blocks_from v d start = map (\<lambda>i. get_block_by_idx v i d) (py_range start (blocks_count v))"
  using assms
proof (induction v d start rule: blocks_from.induct)
  case (1 v d start)
  define n where "n = min (start + BLOCKS_PER_CALL) (blocks_count v)"
  have n: "start \<le> n" "n \<le> blocks_count v"
    using "1.prems"(2) by (simp_all add: BLOCKS_PER_CALL_def n_def)
  note slice = fill_query_slice [OF "1.prems"(1) n(1), of v]
  show ?case
  proof (cases "n = blocks_count v")
    case True
    then show ?thesis using slice by (simp add: blocks_from.simps [of v d start] Let_def flip: n_def)
  next
    case False
    then have "blocks_from v d start = map (\<lambda>i. get_block_by_idx v i d) (py_range start n)
      @ map (\<lambda>i. get_block_by_idx v i d) (py_range n (blocks_count v))"
      using "1.IH" [OF n_def refl False "1.prems"(1) n(2)] slice
      by (simp add: blocks_from.simps [of v d start] Let_def flip: n_def)
    then show ?thesis using py_range_split [OF n] by simp
  qed
qed

lemma blocks_eq:
  assumes "wf_blocks d" and "0 \<le> ver_size v" and "0 < ver_block_size v"
  shows "blocks v d = map (\<lambda>i. get_block_by_idx v i d) (py_range 0 (blocks_count v))"
  unfolding blocks_def
  by (rule blocks_from_eq [OF assms(1)]) (simp add: blocks_count_def ceil_div_nonneg assms)

lemma sparse_blocks_count_eq:
  assumes "wf_blocks d" and "0 \<le> ver_size v" and "0 < ver_block_size v"
  shows "sparse_blocks_count v d = length (filter (\<lambda>b. \<not> uid_bool (blk_uid b)) (blocks v d))"
proof -
  let ?ns = "map blk_idx (filter (\<lambda>b. blk_version_id b = ver_id v \<and> uid_left (blk_uid b) \<noteq> None \<and>
    uid_right (blk_uid b) \<noteq> None) (db_blocks d))"
  have "i \<in> set ?ns \<longleftrightarrow> uid_bool (blk_uid (get_block_by_idx v i d))" for i
  proof (cases "query_block v i d")
    case None
    then have "i \<notin> set ?ns" by (auto simp: query_block_None)
    with None show ?thesis by (simp add: get_block_by_idx_def create_sparse_block_def)
  next
    case (Some b)
    have uniq: "c = b" if "c \<in> set (db_blocks d)" "blk_version_id c = ver_id v" "blk_idx c = i" for c
      using query_block_unique [OF assms(1) that(1,2)] that(3) Some by simp
    have "i \<in> set ?ns \<longleftrightarrow> (\<exists>c \<in> set (db_blocks d). blk_version_id c = ver_id v \<and> blk_idx c = i \<and> uid_bool (blk_uid c))"
      by (auto simp: uid_bool_def)
    also have "\<dots> \<longleftrightarrow> uid_bool (blk_uid b)" using uniq query_blockD [OF Some] by blast
    finally show ?thesis using Some by (simp add: get_block_by_idx_def)
  qed
  then show ?thesis
    by (simp add: sparse_blocks_count_def blocks_eq [OF assms] filter_map comp_def)
qed

section \<open>Marking blocks and removing versions\<close>

lemma mark_blocks_query:
  "query_block v i (mark_blocks uid vld d) =
     map_option (\<lambda>b. if blk_uid b = uid then b\<lparr>blk_valid := vld\<rparr> else b) (query_block v i d)"
  unfolding query_block_def mark_blocks_def Let_def by simp (rule find_map_same, simp)

lemma wf_db_cong:
  assumes "map block_key (db_blocks d') = map block_key (db_blocks d)"
    and "map ver_id (db_versions d') = map ver_id (db_versions d)"
    and "map ver_uid (db_versions d') = map ver_uid (db_versions d)"
    and "map (\<lambda>l. (lbl_version_id l, lbl_name l)) (db_labels d') = map (\<lambda>l. (lbl_version_id l, lbl_name l)) (db_labels d)"
  shows "wf_db d' = wf_db d"
proof -
  have b: "blk_version_id ` set (db_blocks e) = fst ` set (map block_key (db_blocks e))"
    "lbl_version_id ` set (db_labels e) = fst ` set (map (\<lambda>l. (lbl_version_id l, lbl_name l)) (db_labels e))"
    "ver_id ` set (db_versions e) = set (map ver_id (db_versions e))" for e
    by (auto simp: block_key_def image_image)
  show ?thesis unfolding wf_db_def wf_blocks_def b assms ..
qed

lemma wf_mark_blocks: "wf_db (mark_blocks uid vld d) = wf_db d"
  by (rule wf_db_cong) (simp_all add: mark_blocks_def Let_def block_key_def comp_def if_distrib cong: if_cong)

lemma wf_remove_version: "wf_db d \<Longrightarrow> wf_db (remove_version now v d)"
  by (auto simp: wf_db_def wf_blocks_def remove_version_def distinct_map_filter)

lemma remove_version_other:
  "ver_id w \<noteq> ver_id v \<Longrightarrow> query_block w i (remove_version now v d) = query_block w i d"
  unfolding query_block_def remove_version_def by (auto intro: find_filter_other)

section \<open>What the version operations guarantee\<close>

text \<open>The iterator \<open>Version.blocks\<close>, which reads the table in windows of 10000 indices and
  synthesises the missing rows, yields exactly one block per index of the version, in order: the stored row or
  a sparse block of full size. The number of sparse ones is \<open>sparse_blocks_count\<close>.\<close>

theorem blocks_iterator_complete:
  assumes "wf_blocks d" and "0 \<le> ver_size v" and "0 < ver_block_size v"
  shows "blocks v d = map (\<lambda>i. get_block_by_idx v i d) (py_range 0 (blocks_count v)) \<and>
         map blk_idx (blocks v d) = py_range 0 (blocks_count v) \<and>
         sparse_blocks_count v d = length (filter (\<lambda>b. \<not> uid_bool (blk_uid b)) (blocks v d))"
proof -
  have "blk_idx (get_block_by_idx v i d) = i" for i
    by (auto simp: get_block_by_idx_def create_sparse_block_def dest: query_blockD split: option.splits)
  then show ?thesis using blocks_eq [OF assms] sparse_blocks_count_eq [OF assms] by (simp add: comp_def)
qed

definition demo_version :: version where
  "demo_version = \<lparr> ver_id = 1, ver_uid = ''v1'', ver_volume = ''vol'', ver_snapshot = ''snap'',
     ver_size = 40000, ver_block_size = 4096, ver_storage_id = 1, ver_status = valid, ver_protected = False,
     ver_bytes_read = None, ver_bytes_written = None, ver_bytes_deduplicated = None, ver_bytes_sparse = None,
     ver_duration = None, ver_created_at = 0, ver_vm_id = 1 \<rparr>"

definition demo_block :: block where
  "demo_block = \<lparr> blk_version_id = 1, blk_idx = 3, blk_uid = BlockUid (Some 1) (Some 4),
     blk_checksum = Some ''c'', blk_size = 4096, blk_valid = True \<rparr>"

definition demo_db :: database where
  "demo_db = \<lparr> db_versions = [demo_version], db_blocks = [demo_block], db_labels = [], db_deleted = [],
     db_locks = [], db_storages = [] \<rparr>"

theorem blocks_iterator_complete_witness:
  "blocks demo_version demo_db = map (\<lambda>i. get_block_by_idx demo_version i demo_db) (py_range 0 (blocks_count demo_version)) \<and>
   map blk_idx (blocks demo_version demo_db) = py_range 0 (blocks_count demo_version) \<and>
   sparse_blocks_count demo_version demo_db = length (filter (\<lambda>b. \<not> uid_bool (blk_uid b)) (blocks demo_version demo_db))"
  by (rule blocks_iterator_complete) (simp_all add: wf_blocks_def demo_db_def demo_version_def)

text \<open>Marking a block UID as invalid is committed at once, flags every row with the UID, makes
  exactly the versions that refer to it invalid and returns their UIDs; marking it valid changes no version,
  since a version may have other invalid blocks.\<close>

theorem set_block_valid_effect:
  assumes "wf_db (working s)" and "set_block_valid uid vld s = (uids, s')"
  shows "working s' = committed s' \<and>
         set uids = ver_uid ` {w \<in> set (db_versions (working s)). refers_to (working s) uid w} \<and>
         db_versions (committed s') = map (\<lambda>w. if \<not> vld \<and> refers_to (working s) uid w
            then w\<lparr>ver_status := invalid\<rparr> else w) (db_versions (working s)) \<and>
         db_blocks (committed s') = map (\<lambda>b. if blk_uid b = uid then b\<lparr>blk_valid := vld\<rparr> else b)
            (db_blocks (working s)) \<and> wf_db (committed s')"
proof -
  let ?d = "working s"
  have s': "uids = affected_uids ?d uid" "s' = commit (update_db (mark_blocks uid vld) s)"
    using assms(2) by (simp_all add: set_block_valid_def)
  have inj: "inj_on ver_uid (set (db_versions ?d))" using assms(1) by (simp add: wf_db_def distinct_map)
  then have "ver_uid w \<in> set (affected_uids ?d uid) \<longleftrightarrow> refers_to ?d uid w" if "w \<in> set (db_versions ?d)" for w
    using that by (auto simp: affected_uids_def dest: inj_onD)
  then show ?thesis
    using assms(1) by (auto simp: s' wf_mark_blocks) (auto simp: affected_uids_def mark_blocks_def Let_def)
qed

theorem set_block_valid_effect_witness:
  "\<exists>uids s'. set_block_valid (BlockUid (Some 1) (Some 4)) False
      \<lparr> working = demo_db, committed = demo_db, clock = (\<lambda>_. 0), tick = 0, last_timed_commit = 0 \<rparr> = (uids, s') \<and>
    db_versions (committed s') = [demo_version\<lparr>ver_status := invalid\<rparr>] \<and>
    db_blocks (committed s') = [demo_block\<lparr>blk_valid := False\<rparr>]"
proof -
  let ?s = "\<lparr> working = demo_db, committed = demo_db, clock = (\<lambda>_. 0), tick = 0, last_timed_commit = 0 \<rparr>"
  have "wf_db (working ?s)" by (simp add: wf_db_def wf_blocks_def demo_db_def demo_block_def demo_version_def)
  obtain uids s' where r: "set_block_valid (BlockUid (Some 1) (Some 4)) False ?s = (uids, s')" by force
  from set_block_valid_effect [OF \<open>wf_db (working ?s)\<close> r]
  have "db_versions (committed s') = [demo_version\<lparr>ver_status := invalid\<rparr>]"
    and "db_blocks (committed s') = [demo_block\<lparr>blk_valid := False\<rparr>]"
    by (simp_all add: demo_db_def demo_block_def demo_version_def refers_to_def)
  with r show ?thesis by blast
qed

text \<open>Removing a version commits a database without the version, its blocks and its labels, in
  which every non-sparse block it referred to is a delete candidate of its storage and all other versions
  keep their blocks; the result counts the removed block rows.\<close>

theorem remove_version_effect:
  assumes "wf_db (working s)" and "remove now v s = (n, s')"
  shows "working s' = committed s' \<and> wf_db (committed s') \<and>
         n + length (db_blocks (committed s')) = length (db_blocks (working s)) \<and>
         ver_id v \<notin> ver_id ` set (db_versions (committed s')) \<and>
         ver_id v \<notin> blk_version_id ` set (db_blocks (committed s')) \<and>
         (\<forall>b \<in> set (db_blocks (working s)). blk_version_id b = ver_id v \<and> uid_bool (blk_uid b) \<longrightarrow>
            \<lparr> del_date = now, del_storage_id = ver_storage_id v, del_uid = blk_uid b \<rparr> \<in> set (db_deleted (committed s'))) \<and>
         (\<forall>w i. ver_id w \<noteq> ver_id v \<longrightarrow>
            get_block_by_idx w i (committed s') = get_block_by_idx w i (working s))"
proof -
  let ?d = "working s"
  have s': "n = length (version_blocks v ?d)" "s' = commit (update_db (remove_version now v) s)"
    using assms(2) by (simp_all add: remove_def)
  have "n + length (db_blocks (committed s')) = length (db_blocks ?d)"
    using sum_length_filter_compl [of "\<lambda>b. blk_version_id b = ver_id v" "db_blocks ?d"]
    by (simp add: s' remove_version_def version_blocks_def)
  moreover have "\<forall>w i. ver_id w \<noteq> ver_id v \<longrightarrow>
      get_block_by_idx w i (committed s') = get_block_by_idx w i (working s)"
    by (simp add: s' get_block_by_idx_def remove_version_other)
  moreover have "wf_db (committed s')" using wf_remove_version [OF assms(1)] by (simp add: s')
  ultimately show ?thesis by (auto simp: s' remove_version_def version_blocks_def)
qed

theorem remove_version_effect_witness:
  "\<exists>n s'. remove 7 demo_version
      \<lparr> working = demo_db, committed = demo_db, clock = (\<lambda>_. 0), tick = 0, last_timed_commit = 0 \<rparr> = (n, s') \<and>
    n + length (db_blocks (committed s')) = 1"
proof -
  let ?s = "\<lparr> working = demo_db, committed = demo_db, clock = (\<lambda>_. 0), tick = 0, last_timed_commit = 0 \<rparr>"
  obtain n s' where r: "remove 7 demo_version ?s = (n, s')" by force
  have "wf_db (working ?s)" by (simp add: wf_db_def wf_blocks_def demo_db_def demo_block_def demo_version_def)
  from remove_version_effect [OF this r] r show ?thesis by (simp add: demo_db_def)
qed
end
