(* ===== verification/Locking.thy ===== *)
theory Locking
  imports Db
begin

text \<open>
  The class \<open>_Locking\<close> of \<open>database.py\<close>: named locks as rows of the table \<open>locks\<close>, whose primary key is the
  name. A process is identified by its host and its process id. Several processes, each with a session
  of its own, act on the same committed table; their steps interleave at the granularity of a method call.
\<close>

record process =
  host :: string
  process_id :: string

definition held_by :: "process \<Rightarrow> string \<Rightarrow> lock \<Rightarrow> bool" where
  "held_by me n l \<longleftrightarrow> lck_host l = host me \<and> lck_name l = n \<and> lck_process_id l = process_id me"

definition lock_row :: "process \<Rightarrow> string \<Rightarrow> string \<Rightarrow> int \<Rightarrow> lock" where
  "lock_row me n reason now =
     \<lparr> lck_name = n, lck_host = host me, lck_process_id = process_id me, lck_reason = reason, lck_date = now \<rparr>"

text \<open>\<open>Session.merge(lock)\<close>: the row with the same primary key is overwritten, otherwise one is inserted.\<close>

definition merge_lock :: "lock \<Rightarrow> lock list \<Rightarrow> lock list" where
  "merge_lock l ls =
     (if lck_name l \<in> set (map lck_name ls) then map (\<lambda>k. if lck_name k = lck_name l then l else k) ls
      else ls @ [l])"

text \<open>
  \<open>lock\<close>. The column \<open>reason\<close> is \<open>nullable=False\<close>: without a reason the insert violates a
  constraint, which the handler reports as \<open>AlreadyLocked\<close> like a duplicate key.
\<close>

definition lock :: "process \<Rightarrow> string \<Rightarrow> string option \<Rightarrow> bool \<Rightarrow> int \<Rightarrow> (exn, session, unit) py" where
  "lock me n reason override now s =
     (let ls = db_locks (working s) in
      if \<exists>l \<in> set ls. held_by me n l then (Inl InternalError, rollback s)
      else (case reason of
          None \<Rightarrow> (Inl AlreadyLocked, rollback s)
        | Some r \<Rightarrow>
            if override then (Inr (), commit (update_db (\<lambda>d. d\<lparr>db_locks := merge_lock (lock_row me n r now) (db_locks d)\<rparr>) s))
            else if n \<in> set (map lck_name ls) then (Inl AlreadyLocked, rollback s)
            else (Inr (), commit (update_db (\<lambda>d. d\<lparr>db_locks := db_locks d @ [lock_row me n r now]\<rparr>) s))))"

definition is_locked :: "string \<Rightarrow> session \<Rightarrow> bool" where
  "is_locked n s \<longleftrightarrow> (\<exists>l \<in> set (db_locks (working s)). lck_name l = n)"

definition update_lock :: "process \<Rightarrow> string \<Rightarrow> string option \<Rightarrow> (exn, session, unit) py" where
  "update_lock me n reason s =
     (if \<not> (\<exists>l \<in> set (db_locks (working s)). held_by me n l) then (Inl InternalError, rollback s)
      else (case reason of
          None \<Rightarrow> (Inl IntegrityError, rollback s)
        | Some r \<Rightarrow> (Inr (), commit (update_db (\<lambda>d. d\<lparr>db_locks :=
            map (\<lambda>l. if held_by me n l then l\<lparr>lck_reason := r\<rparr> else l) (db_locks d)\<rparr>) s))))"

definition unlock :: "process \<Rightarrow> string \<Rightarrow> (exn, session, unit) py" where
  "unlock me n s =
     (if \<not> (\<exists>l \<in> set (db_locks (working s)). held_by me n l) then (Inl InternalError, rollback s)
      else (Inr (), commit (update_db (\<lambda>d. d\<lparr>db_locks :=
              filter (\<lambda>l. \<not> held_by me n l) (db_locks d)\<rparr>) s)))"

definition unlock_all :: "process \<Rightarrow> session \<Rightarrow> session" where
  "unlock_all me s =
     commit (update_db (\<lambda>d. d\<lparr>db_locks :=
       filter (\<lambda>l. \<not> (lck_host l = host me \<and> lck_process_id l = process_id me)) (db_locks d)\<rparr>) s)"

definition version_lock_name :: "string \<Rightarrow> string" where
  "version_lock_name uid = ''Version '' @ uid"

definition lock_version :: "process \<Rightarrow> string \<Rightarrow> string option \<Rightarrow> bool \<Rightarrow> int \<Rightarrow> (exn, session, unit) py" where
  "lock_version me uid reason override now = lock me (version_lock_name uid) reason override now"

definition is_version_locked :: "string \<Rightarrow> session \<Rightarrow> bool" where
  "is_version_locked uid = is_locked (version_lock_name uid)"

definition update_version_lock :: "process \<Rightarrow> string \<Rightarrow> string option \<Rightarrow> (exn, session, unit) py" where
  "update_version_lock me uid reason = update_lock me (version_lock_name uid) reason"

definition unlock_version :: "process \<Rightarrow> string \<Rightarrow> (exn, session, unit) py" where
  "unlock_version me uid = unlock me (version_lock_name uid)"

text \<open>
  The context manager \<open>with_lock\<close> around a body: the lock is released when the body raises, and when it returns and
  \<open>unlock\<close> is set. An error of the release replaces the outcome.
\<close>

definition guarded :: "(exn, 's, unit) py \<Rightarrow> (exn, 's, unit) py \<Rightarrow> bool \<Rightarrow> (exn, 's, 'a) py \<Rightarrow> (exn, 's, 'a) py" where
  "guarded acquire release unlock_after body s =
     (case acquire s of
        (Inl e, s1) \<Rightarrow> (Inl e, s1)
      | (Inr _, s1) \<Rightarrow>
         (case body s1 of
            (Inl e, s2) \<Rightarrow> (case release s2 of (Inl e', s3) \<Rightarrow> (Inl e', s3) | (Inr _, s3) \<Rightarrow> (Inl e, s3))
          | (Inr x, s2) \<Rightarrow>
              if unlock_after then
                (case release s2 of (Inl e', s3) \<Rightarrow> (Inl e', s3) | (Inr _, s3) \<Rightarrow> (Inr x, s3))
              else (Inr x, s2)))"

definition with_lock :: "process \<Rightarrow> string \<Rightarrow> string option \<Rightarrow> bool \<Rightarrow> bool \<Rightarrow> int
    \<Rightarrow> (exn, session, 'a) py \<Rightarrow> (exn, session, 'a) py" where
  "with_lock me n reason unlock_after override now =
     guarded (lock me n reason override now) (unlock me n) unlock_after"

definition with_version_lock :: "process \<Rightarrow> string \<Rightarrow> string option \<Rightarrow> bool \<Rightarrow> bool \<Rightarrow> int
    \<Rightarrow> (exn, session, 'a) py \<Rightarrow> (exn, session, 'a) py" where
  "with_version_lock me uid = with_lock me (version_lock_name uid)"

section \<open>The lock table as an interface\<close>

definition wf_locks :: "database \<Rightarrow> bool" where
  "wf_locks d \<longleftrightarrow> distinct (map lck_name (db_locks d))"

definition holds :: "process \<Rightarrow> string \<Rightarrow> database \<Rightarrow> bool" where
  "holds p n d \<longleftrightarrow> (\<exists>l \<in> set (db_locks d). held_by p n l)"

definition ok :: "(exn + 'a) \<times> 's \<Rightarrow> bool" where
  "ok r \<longleftrightarrow> (case fst r of Inl _ \<Rightarrow> False | Inr _ \<Rightarrow> True)"

text \<open>
  The contract the engine relies on, over any state: an invariant, who holds which name, acquiring without
  override, and releasing.
\<close>

locale lock_service =
  fixes inv :: "'s \<Rightarrow> bool"
    and holder :: "'p \<Rightarrow> 'n \<Rightarrow> 's \<Rightarrow> bool"
    and acquire :: "'p \<Rightarrow> 'n \<Rightarrow> 's \<Rightarrow> bool \<times> 's"
    and release :: "'p \<Rightarrow> 'n \<Rightarrow> 's \<Rightarrow> bool \<times> 's"
  assumes unique: "inv s \<Longrightarrow> holder p n s \<Longrightarrow> holder q n s \<Longrightarrow> p = q"
    and acquire_ok: "inv s \<Longrightarrow> acquire p n s = (True, s') \<Longrightarrow>
          inv s' \<and> (\<forall>q. \<not> holder q n s) \<and> (\<forall>q m. holder q m s' \<longleftrightarrow> holder q m s \<or> q = p \<and> m = n)"
    and acquire_fail: "inv s \<Longrightarrow> acquire p n s = (False, s') \<Longrightarrow> inv s' \<and> (\<forall>q m. holder q m s' \<longleftrightarrow> holder q m s)"
    and release_ok: "inv s \<Longrightarrow> release p n s = (True, s') \<Longrightarrow>
          inv s' \<and> (\<forall>q m. holder q m s' \<longleftrightarrow> holder q m s \<and> \<not> (q = p \<and> m = n))"
    and release_fail: "inv s \<Longrightarrow> release p n s = (False, s') \<Longrightarrow>
          inv s' \<and> \<not> holder p n s \<and> (\<forall>q m. holder q m s' \<longleftrightarrow> holder q m s)"
begin

text \<open>A process acts on what it believes to hold: what it acquired and has not released.\<close>

definition sound :: "('p \<times> 'n) set \<Rightarrow> 's \<Rightarrow> bool" where
  "sound B s \<longleftrightarrow> inv s \<and> (\<forall>(p, n) \<in> B. holder p n s)"

lemma sound_exclusive: "sound B s \<Longrightarrow> (p, n) \<in> B \<Longrightarrow> (q, n) \<in> B \<Longrightarrow> p = q"
  unfolding sound_def by (blast intro: unique)

lemma sound_acquire:
  assumes "sound B s" and "acquire p n s = (r, s')"
  shows "sound (if r then insert (p, n) B else B) s'"
  using assms acquire_ok [of s p n s'] acquire_fail [of s p n s'] by (cases r) (auto simp: sound_def)

lemma sound_release:
  assumes "sound B s" and "release p n s = (r, s')"
  shows "sound (if r then B - {(p, n)} else B) s'"
  using assms release_ok [of s p n s'] release_fail [of s p n s'] by (cases r) (auto simp: sound_def)

lemma believed_release: "sound B s \<Longrightarrow> (p, n) \<in> B \<Longrightarrow> fst (release p n s)"
  using release_fail [of s p n] by (cases "release p n s") (fastforce simp: sound_def)

end

section \<open>The code's lock table\<close>

text \<open>A method call by one process: its session reads the committed table and commits or rolls back.\<close>

definition session_on :: "database \<Rightarrow> session" where
  "session_on d = \<lparr> working = d, committed = d, clock = (\<lambda>_. 0), tick = 0, last_timed_commit = 0 \<rparr>"

definition call :: "(exn, session, unit) py \<Rightarrow> database \<Rightarrow> bool \<times> database" where
  "call f d = (let r = f (session_on d) in (ok r, committed (snd r)))"

lemma session_on_simps [simp]: "working (session_on d) = d" "committed (session_on d) = d"
  by (simp_all add: session_on_def)

text \<open>Acquiring a free lock, and updating or releasing one that is held, succeed.\<close>

lemma free_names: "n \<notin> set (map lck_name ls) \<Longrightarrow> l \<in> set ls \<Longrightarrow> lck_name l \<noteq> n"
  by auto

lemma lock_free_ok:
  "n \<notin> set (map lck_name (db_locks (working s))) \<Longrightarrow> lock me n (Some r) False now s =
     (Inr (), commit (update_db (\<lambda>d. d\<lparr>db_locks := db_locks d @ [lock_row me n r now]\<rparr>) s))"
  by (auto simp: lock_def Let_def held_by_def)

lemma update_lock_held_ok:
  "holds me n (working s) \<Longrightarrow> update_lock me n (Some r) s = (Inr (), commit (update_db (\<lambda>d. d\<lparr>db_locks :=
     map (\<lambda>l. if held_by me n l then l\<lparr>lck_reason := r\<rparr> else l) (db_locks d)\<rparr>) s))"
  by (simp add: update_lock_def holds_def)

lemma unlock_held_ok:
  "holds me n (working s) \<Longrightarrow> unlock me n s = (Inr (), commit (update_db (\<lambda>d. d\<lparr>db_locks :=
     filter (\<lambda>l. \<not> held_by me n l) (db_locks d)\<rparr>) s))"
  by (simp add: unlock_def holds_def)

lemma held_by_unique: "wf_locks d \<Longrightarrow> holds p n d \<Longrightarrow> holds q n d \<Longrightarrow> p = q"
  unfolding holds_def wf_locks_def held_by_def distinct_map inj_on_def by (cases p, cases q) fastforce

lemma holds_name: "holds p n d \<Longrightarrow> n \<in> set (map lck_name (db_locks d))"
  by (auto simp: holds_def held_by_def)

lemma call_lock_cases:
  "call (lock p n (Some r) False now) d =
     (if n \<in> set (map lck_name (db_locks d)) then (False, d)
      else (True, d\<lparr>db_locks := db_locks d @ [lock_row p n r now]\<rparr>))"
  using holds_name [of p n d] by (auto simp: call_def lock_def ok_def Let_def holds_def)

lemma call_unlock_cases:
  "call (unlock p n) d =
     (if holds p n d then (True, d\<lparr>db_locks := filter (\<lambda>l. \<not> held_by p n l) (db_locks d)\<rparr>) else (False, d))"
  by (auto simp: call_def unlock_def ok_def holds_def)

lemma held_by_lock_row [simp]: "held_by q m (lock_row p n r now) \<longleftrightarrow> q = p \<and> m = n"
  by (cases p, cases q) (auto simp: held_by_def lock_row_def)

lemma held_by_inj: "held_by p n l \<Longrightarrow> held_by q m l \<longleftrightarrow> q = p \<and> m = n"
  by (cases p, cases q) (auto simp: held_by_def)

lemma holds_append: "holds q m (d\<lparr>db_locks := db_locks d @ [l]\<rparr>) \<longleftrightarrow> holds q m d \<or> held_by q m l"
  by (auto simp: holds_def)

lemma holds_filter:
  "holds q m (d\<lparr>db_locks := filter (\<lambda>l. \<not> held_by p n l) (db_locks d)\<rparr>) \<longleftrightarrow> holds q m d \<and> \<not> (q = p \<and> m = n)"
  using held_by_inj by (auto simp: holds_def)

lemma wf_locks_append:
  "wf_locks d \<Longrightarrow> n \<notin> set (map lck_name (db_locks d)) \<Longrightarrow> wf_locks (d\<lparr>db_locks := db_locks d @ [lock_row p n r now]\<rparr>)"
  by (auto simp: wf_locks_def lock_row_def)

lemma wf_locks_filter: "wf_locks d \<Longrightarrow> wf_locks (d\<lparr>db_locks := filter P (db_locks d)\<rparr>)"
  by (simp add: wf_locks_def distinct_map_filter)

interpretation ls: lock_service wf_locks holds "\<lambda>p n. call (lock p n (Some r) False now)" "\<lambda>p n. call (unlock p n)"
  for r now
proof unfold_locales
  fix s p n s'
  show "wf_locks s' \<and> (\<forall>q. \<not> holds q n s) \<and> (\<forall>q m. holds q m s' \<longleftrightarrow> holds q m s \<or> q = p \<and> m = n)"
    if "wf_locks s" "call (lock p n (Some r) False now) s = (True, s')"
    using that holds_name by (auto simp: call_lock_cases holds_append wf_locks_append simp del: set_map split: if_splits)
  show "wf_locks s' \<and> (\<forall>q m. holds q m s' \<longleftrightarrow> holds q m s)"
    if "wf_locks s" "call (lock p n (Some r) False now) s = (False, s')"
    using that by (simp add: call_lock_cases split: if_splits)
  show "wf_locks s' \<and> (\<forall>q m. holds q m s' \<longleftrightarrow> holds q m s \<and> \<not> (q = p \<and> m = n))"
    if "wf_locks s" "call (unlock p n) s = (True, s')"
    using that by (auto simp: call_unlock_cases holds_filter wf_locks_filter split: if_splits)
  show "wf_locks s' \<and> \<not> holds p n s \<and> (\<forall>q m. holds q m s' \<longleftrightarrow> holds q m s)"
    if "wf_locks s" "call (unlock p n) s = (False, s')"
    using that by (simp add: call_unlock_cases split: if_splits)
qed (rule held_by_unique)

section \<open>Interleaved processes\<close>

datatype lock_event =
    Acquire process string "string option" int
  | Release process string
  | Touch process string "string option"
  | Release_All process

type_synonym lock_system = "database \<times> (process \<times> string) set"

fun lock_step :: "lock_event \<Rightarrow> lock_system \<Rightarrow> lock_system" where
  "lock_step (Acquire p n reason now) (d, B) =
     (case call (lock p n reason False now) d of (r, d') \<Rightarrow> (d', if r then insert (p, n) B else B))"
| "lock_step (Release p n) (d, B) =
     (case call (unlock p n) d of (r, d') \<Rightarrow> (d', if r then B - {(p, n)} else B))"
| "lock_step (Touch p n reason) (d, B) = (snd (call (update_lock p n reason) d), B)"
| "lock_step (Release_All p) (d, B) =
     (committed (unlock_all p (session_on d)), {(q, n) \<in> B. q \<noteq> p})"

inductive lock_reach :: "lock_system \<Rightarrow> bool" where
  init: "db_locks d = [] \<Longrightarrow> lock_reach (d, {})"
| step: "lock_reach c \<Longrightarrow> lock_reach (lock_step e c)"

lemma holds_map: "(\<And>l. held_by q m (f l) = held_by q m l) \<Longrightarrow> holds q m (d\<lparr>db_locks := map f (db_locks d)\<rparr>) = holds q m d"
  by (simp add: holds_def)

lemma holds_update: "holds q m (snd (call (update_lock p n reason) d)) \<longleftrightarrow> holds q m d"
proof -
  have "held_by q m (if held_by p n l then l\<lparr>lck_reason := r\<rparr> else l) = held_by q m l" for l r
    by (cases "held_by p n l") (simp_all add: held_by_def)
  then have "holds q m (d\<lparr>db_locks := map (\<lambda>l. if held_by p n l then l\<lparr>lck_reason := r\<rparr> else l) (db_locks d)\<rparr>) = holds q m d" for r
    by (rule holds_map)
  then show ?thesis by (auto simp: call_def update_lock_def split: option.splits)
qed

lemma merge_lock_mem: "l \<in> set (merge_lock l ls)"
  by (auto simp: merge_lock_def image_iff)

lemma merge_lock_holds: "\<exists>l \<in> set (merge_lock (lock_row me n r now) ls). held_by me n l"
  using merge_lock_mem [of "lock_row me n r now" ls] by (rule bexI [rotated]) simp

lemma lock_ok_holds: "lock me n reason override now s = (Inr u, s1) \<Longrightarrow> holds me n (working s1)"
  by (auto simp: lock_def Let_def holds_def merge_lock_holds split: if_splits option.splits)

lemma wf_locks_update: "wf_locks d \<Longrightarrow> wf_locks (snd (call (update_lock p n reason) d))"
  by (auto simp: call_def update_lock_def wf_locks_def comp_def if_distrib split: option.splits cong: if_cong)

lemma unlock_all_holds:
  "holds q m (committed (unlock_all p (session_on d))) \<longleftrightarrow> holds q m d \<and> q \<noteq> p"
  by (cases p, cases q) (auto simp: unlock_all_def holds_def held_by_def)

lemma wf_locks_unlock_all: "wf_locks d \<Longrightarrow> wf_locks (committed (unlock_all p (session_on d)))"
  by (simp add: unlock_all_def wf_locks_def distinct_map_filter)

lemma lock_none: "call (lock p n None False now) d = (False, d)"
  by (auto simp: call_def lock_def ok_def Let_def)

lemma lock_reach_sound:
  "lock_reach c \<Longrightarrow> ls.sound (snd c) (fst c)"
proof (induction rule: lock_reach.induct)
  case (init d)
  then have "wf_locks d" by (simp add: wf_locks_def)
  then show ?case by (simp add: ls.sound_def)
next
  case (step c e)
  obtain d B where c: "c = (d, B)" by force
  with step.IH have IH: "ls.sound B d" by simp
  show ?case
  proof (cases e)
    case (Acquire p n reason now)
    obtain r d' where r: "call (lock p n reason False now) d = (r, d')" by force
    show ?thesis
    proof (cases reason)
      case None
      with r have "r = False" "d' = d" by (simp_all add: lock_none)
      with IH r show ?thesis by (simp add: c Acquire)
    next
      case (Some x)
      with r ls.sound_acquire [OF IH, of p n x now r d'] show ?thesis by (simp add: c Acquire)
    qed
  next
    case (Release p n)
    obtain r d' where r: "call (unlock p n) d = (r, d')" by force
    with ls.sound_release [OF IH r] show ?thesis by (simp add: c Release)
  next
    case (Touch p n reason)
    with IH show ?thesis by (auto simp: c ls.sound_def holds_update wf_locks_update)
  next
    case (Release_All p)
    with IH show ?thesis by (auto simp: c ls.sound_def unlock_all_holds wf_locks_unlock_all)
  qed
qed

section \<open>What locking guarantees\<close>

text \<open>C23: Whatever the interleaving of the processes' calls (acquiring without override, updating,
  releasing one or all locks), no two processes that acquired the same lock and have not released it exist, and
  the one that has can release it without an error.\<close>

theorem lock_mutual_exclusion:
  assumes "lock_reach (d, B)" and "(p, n) \<in> B"
  shows "(\<forall>q. (q, n) \<in> B \<longrightarrow> q = p) \<and> fst (call (unlock p n) d)"
proof -
  have B: "ls.sound B d" using lock_reach_sound [OF assms(1)] by simp
  show ?thesis using ls.sound_exclusive [OF B _ assms(2)] ls.believed_release [OF B assms(2)] by blast
qed

definition demo_process :: process where
  "demo_process = \<lparr> host = ''h'', process_id = ''1'' \<rparr>"

theorem lock_mutual_exclusion_witness:
  "fst (call (unlock demo_process ''NBD'') (fst (lock_step (Acquire demo_process ''NBD'' (Some ''r'') 0) (demo_db, {}))))"
proof -
  have "lock_reach (demo_db, {})" by (rule lock_reach.init) (simp add: demo_db_def)
  then have r: "lock_reach (lock_step (Acquire demo_process ''NBD'' (Some ''r'') 0) (demo_db, {}))"
    by (rule lock_reach.step)
  obtain d B where dB: "lock_step (Acquire demo_process ''NBD'' (Some ''r'') 0) (demo_db, {}) = (d, B)" by force
  then have "(demo_process, ''NBD'') \<in> B" by (auto simp: call_lock_cases demo_db_def)
  with lock_mutual_exclusion [of d B demo_process "''NBD''"] r dB show ?thesis by simp
qed

text \<open>\<open>with_lock\<close> releases the lock on every path of a body that leaves the lock table alone: if
  the lock could not be taken the body does not run, otherwise the outcome is the body's, raised or
  returned, and afterwards the process no longer holds the lock in the committed table.\<close>

theorem with_lock_releases:
  assumes "\<And>t. db_locks (working (snd (body t))) = db_locks (working t)"
    and "with_lock me n reason True override now body s = (r, s')"
  shows "(\<exists>e. lock me n reason override now s = (Inl e, s') \<and> r = Inl e) \<or>
         (\<exists>s1. lock me n reason override now s = (Inr (), s1) \<and> r = fst (body s1) \<and>
            \<not> holds me n (committed s') \<and> working s' = committed s')"
proof (cases "lock me n reason override now s")
  case (Pair a s1)
  show ?thesis
  proof (cases a)
    case (Inl e)
    with Pair assms(2) show ?thesis by (simp add: with_lock_def guarded_def)
  next
    case (Inr u)
    have "holds me n (working s1)"
      using lock_ok_holds Pair Inr by blast
    then have h: "holds me n (working (snd (body s1)))" using assms(1) [of s1] by (simp add: holds_def)
    obtain b s2 where b: "body s1 = (b, s2)" by force
    have "unlock me n s2 = (Inr (), commit (update_db (\<lambda>d. d\<lparr>db_locks := filter (\<lambda>l. \<not> held_by me n l) (db_locks d)\<rparr>) s2))"
      using h b by (auto simp: unlock_def holds_def)
    with assms(2) Pair Inr b have "r = b" and
      s': "s' = commit (update_db (\<lambda>d. d\<lparr>db_locks := filter (\<lambda>l. \<not> held_by me n l) (db_locks d)\<rparr>) s2)"
      by (auto simp: with_lock_def guarded_def split: sum.splits)
    with Pair Inr b show ?thesis by (auto simp: holds_def)
  qed
qed

theorem with_lock_releases_witness:
  "\<not> holds demo_process ''V'' (committed (snd (with_lock demo_process ''V'' (Some ''r'') True False 0
      (raiseS KeyError :: (exn, session, unit) py) (session_on demo_db))))"
proof -
  let ?w = "with_lock demo_process ''V'' (Some ''r'') True False 0 (raiseS KeyError :: (exn, session, unit) py) (session_on demo_db)"
  have "db_locks (working (snd ((raiseS KeyError :: (exn, session, unit) py) t))) = db_locks (working t)" for t by simp
  note w = with_lock_releases [OF this surjective_pairing [of ?w]]
  have "lock demo_process ''V'' (Some ''r'') False 0 (session_on demo_db) \<noteq> (Inl e, t)" for e t
    by (simp add: lock_def demo_db_def)
  with w show ?thesis by blast
qed
end
