(* ===== verification/File_Storage.thy ===== *)
theory File_Storage
  imports Storage "HOL-Library.Countable"
begin

text \<open>
  The file storage meets the backend contract, and what follows for the blocks and the version metadata it holds:
  round trips, isolation of blocks from each other, and the outcomes of a removal.
\<close>

section \<open>The file storage meets the contract\<close>

definition fs_content :: "fs \<Rightarrow> string \<Rightarrow> bytes option" where
  "fs_content s k = dict_get (fs_files s) k"

lemmas file_defs = file_backend_def file_write_def file_read_def file_read_length_def file_rm_def fs_step_def fs_content_def

interpretation fobj: object_store file_backend fs_content
  by unfold_locales
    (auto simp: file_defs fun_eq_iff update_conv delete_conv' split: option.splits if_splits)

interpretation fwr: object_writes file_backend fs_content
  by unfold_locales

text \<open>Without faults of the environment every access succeeds.\<close>

definition calm :: "fs \<Rightarrow> bool" where
  "calm s \<longleftrightarrow> fs_fault s = (\<lambda>_. None)"

lemma calm_write: "calm s \<Longrightarrow> \<exists>s'. be_write file_backend k d s = (Inr (), s') \<and> calm s' \<and> fs_content s' = (fs_content s)(k \<mapsto> d)"
  by (simp add: file_defs calm_def fun_eq_iff update_conv)

lemma calm_read: "calm s \<Longrightarrow> fs_content s k = Some d \<Longrightarrow> \<exists>s'. be_read file_backend k s = (Inr d, s') \<and> calm s' \<and> fs_content s' = fs_content s"
  by (simp add: file_defs calm_def fun_eq_iff)

lemma calm_rm: "calm s \<Longrightarrow> fs_content s k = Some d \<Longrightarrow> \<exists>s'. be_rm file_backend k s = (Inr (), s') \<and> calm s' \<and> fs_content s' = (fs_content s)(k := None)"
  by (simp add: file_defs calm_def fun_eq_iff delete_conv')

lemma calm_missing: "fs_content s k = None \<Longrightarrow> calm s \<Longrightarrow>
  \<exists>s'. be_read file_backend k s = (Inl FileNotFoundError, s') \<and> calm s' \<and> fs_content s' = fs_content s"
  by (simp add: file_defs calm_def fun_eq_iff)

lemma calm_write_pair:
  assumes "calm s"
  obtains s' where "write_pair file_backend key d mj s = (Inr (), s')" "calm s'"
    "fs_content s' = (fs_content s)(key \<mapsto> d, key @ META_SUFFIX \<mapsto> mj)"
proof -
  obtain s1 where s1: "be_write file_backend key d s = (Inr (), s1)" "calm s1" "fs_content s1 = (fs_content s)(key \<mapsto> d)"
    using calm_write [OF assms] by blast
  obtain s2 where s2: "be_write file_backend (key @ META_SUFFIX) mj s1 = (Inr (), s2)" "calm s2"
    "fs_content s2 = (fs_content s1)(key @ META_SUFFIX \<mapsto> mj)"
    using calm_write [OF s1(2)] by blast
  have "write_pair file_backend key d mj s = (Inr (), s2)"
    using s1(1) s2(1) by (simp add: write_pair_def py_defs)
  with s1 s2 that show thesis by metis
qed

lemma calm_check_write:
  assumes "calm s" and "fs_content s key = Some d" and "fs_content s (key @ META_SUFFIX) = Some mj"
    and "decode_metadata cf mj (int (length d)) = Inr m"
  obtains s' where "check_write cf file_backend key d s = (Inr (), s')" "calm s'" "fs_content s' = fs_content s"
proof -
  obtain s1 where s1: "be_read file_backend key s = (Inr d, s1)" "calm s1" "fs_content s1 = fs_content s"
    using calm_read [OF assms(1,2)] by blast
  obtain s2 where s2: "be_read file_backend (key @ META_SUFFIX) s1 = (Inr mj, s2)" "calm s2" "fs_content s2 = fs_content s1"
    using calm_read [OF s1(2)] s1(3) assms(3) by metis
  have "check_write cf file_backend key d s = (Inr (), s2)"
    using s1(1) s2(1) assms(4) by (simp add: check_write_def py_defs)
  with s1 s2 that show thesis by metis
qed

lemma calm_storage_write:
  assumes "good_conf cf" and "calm s" and "key_uid (blk_uid blk)"
  obtains s' where "storage_write cf file_backend ts rnd blk data s = (Inr blk, s')" "calm s'"
proof -
  obtain d tm where enc: "encapsulate cf rnd data = (d, tm)" by force
  obtain m' mj where bm: "build_metadata cf ts (blk_size blk) (int (length d)) tm (blk_checksum blk) = (m', mj)" by force
  obtain key where key: "block_to_path (md5_hex cf) (blk_uid blk) = Inr key"
    using block_to_path_Inr [OF assms(3)] by blast
  obtain s1 where s1: "write_pair file_backend key d mj s = (Inr (), s1)" "calm s1"
    "fs_content s1 = (fs_content s)(key \<mapsto> d, key @ META_SUFFIX \<mapsto> mj)"
    by (rule calm_write_pair [OF assms(2)])
  obtain m where "decode_metadata cf mj (int (length d)) = Inr m" using decode_build_metadata [OF assms(1) bm] by blast
  moreover have "fs_content s1 key = Some d" "fs_content s1 (key @ META_SUFFIX) = Some mj"
    by (simp_all add: s1(3) META_SUFFIX_def)
  ultimately obtain s2 where s2: "check_write cf file_backend key d s1 = (Inr (), s2)" "calm s2"
    using calm_check_write [OF s1(2)] by blast
  show thesis
    by (rule that [of "if consistency_check_writes cf then s2 else s1"])
       (use s1(1,2) s2 in \<open>simp_all add: storage_write_def enc bm key py_defs\<close>)
qed

lemma calm_storage_read:
  assumes "calm s" and "stored cf (fs_content s) blk data"
  obtains m s' where "storage_read cf file_backend blk False s = (Inr (blk, Some data, m), s')" "calm s'"
    "fs_content s' = fs_content s" "check_block_metadata blk (Some (int (length data))) m = Inr ()"
proof -
  obtain key d mj m where key: "block_to_path (md5_hex cf) (blk_uid blk) = Inr key"
    and c: "fs_content s key = Some d" "fs_content s (key @ META_SUFFIX) = Some mj"
    and m: "decode_metadata cf mj (int (length d)) = Inr m" "dict_get m ''checksum'' \<noteq> None"
      "(case dict_get m ''transforms'' of None \<Rightarrow> Inr d | Some tm \<Rightarrow> decapsulate cf d tm) = Inr data"
    and chk: "check_block_metadata blk (Some (int (length data))) m = Inr ()"
    using assms(2) unfolding stored_def by blast
  obtain s1 where s1: "be_read file_backend key s = (Inr d, s1)" "calm s1" "fs_content s1 = fs_content s"
    using calm_read [OF assms(1) c(1)] by blast
  obtain s2 where s2: "be_read file_backend (key @ META_SUFFIX) s1 = (Inr mj, s2)" "calm s2" "fs_content s2 = fs_content s1"
    using calm_read [OF s1(2)] s1(3) c(2) by metis
  have "storage_read cf file_backend blk False s = (Inr (blk, Some data, m), s2)"
    using s1(1) s2(1) m by (auto simp: storage_read_def key py_defs split: option.splits)
  with s1 s2 chk that show thesis by metis
qed

section \<open>A concrete configuration\<close>

text \<open>An injective serialisation, a fixed digest and no transforms; zstd and AES follow in \<open>Transforms\<close>.\<close>

instance json :: countable
  by countable_datatype

definition demo_conf :: storage_conf where
  "demo_conf = \<lparr> active_transforms = [], get_transform = (\<lambda>_. Inl ConfigurationError), dict_hmac = Some (\<lambda>s. s),
     consistency_check_writes = True, json_dumps = (\<lambda>j. replicate (to_nat j) 0), json_loads = (\<lambda>b. Inr (from_nat (length b))),
     version_supported = (\<lambda>_. Inr True), current_version = ''2.0.0'', md5_hex = (\<lambda>_. ''abcd'') \<rparr>"

lemma good_demo_conf: "good_conf demo_conf"
  by (simp add: good_conf_def demo_conf_def hex_chars_def)

definition demo_fs :: fs where
  "demo_fs = \<lparr> fs_files = [], fs_fault = (\<lambda>_. None), fs_tick = 0 \<rparr>"

definition demo_stored_block :: "int \<Rightarrow> block" where
  "demo_stored_block i = \<lparr> blk_version_id = 1, blk_idx = i, blk_uid = BlockUid (Some 1) (Some (i + 1)),
     blk_checksum = Some ''c'', blk_size = 2, blk_valid = True \<rparr>"

lemma calm_demo_fs: "calm demo_fs"
  by (simp add: calm_def demo_fs_def)

lemma demo_block_facts:
  "0 \<le> i \<Longrightarrow> key_uid (blk_uid (demo_stored_block i))" "blk_checksum (demo_stored_block i) = Some ''c''"
  "blk_size (demo_stored_block i) = 2"
  by (simp_all add: demo_stored_block_def key_uid_def half_def)

section \<open>Removing a block\<close>

lemma rm_block_cases:
  assumes "block_to_path (md5_hex cf) u = Inr key" and "rm_block cf file_backend u s = (r, s')"
  shows "(r = Inr u \<and> fs_content s key \<noteq> None \<and> fs_content s' = (fs_content s)(key := None, key @ META_SUFFIX := None)) \<or>
     (r = Inl (BlockNotFoundError u) \<and> fs_content s key = None \<and> fs_content s' = (fs_content s)(key @ META_SUFFIX := None)) \<or>
     r = Inl OSError"
proof -
  obtain r1 s1 where r1: "be_rm file_backend key s = (r1, s1)" by force
  let ?meta = "exceptS (be_rm file_backend (key @ META_SUFFIX)) (\<lambda>e. if e = FileNotFoundError then returnS () else raiseS e)"
  obtain q s2 where q: "?meta s1 = (q, s2)" by force
  have key: "fs_content s1 (key @ META_SUFFIX) = fs_content s (key @ META_SUFFIX)"
    by (rule keepsD [OF fobj.keeps_rm r1]) (simp add: META_SUFFIX_def)
  have "r1 = Inr () \<or> r1 = Inl FileNotFoundError \<or> r1 = Inl OSError"
    using fobj.rm_fail [of key s _ s1] r1 by (cases r1) (auto split: if_splits)
  moreover have "q = Inr () \<or> q = Inl OSError" using fobj.rm_meta [OF q] by blast
  moreover have "r = (case q of Inl e \<Rightarrow> Inl e | Inr _ \<Rightarrow> (case r1 of Inr _ \<Rightarrow> Inr u
      | Inl e \<Rightarrow> Inl (if e = FileNotFoundError then BlockNotFoundError u else e)))" and "q = Inr () \<Longrightarrow> s' = s2"
    using assms r1 q by (auto simp: rm_block_def rm_pair_def py_defs split: sum.splits)
  moreover have "q = Inr () \<Longrightarrow> fs_content s2 = (fs_content s1)(key @ META_SUFFIX := None)"
    using fobj.rm_meta [OF q] by auto
  moreover have "r1 = Inr () \<Longrightarrow> fs_content s key \<noteq> None \<and> fs_content s1 = (fs_content s)(key := None)"
    using fobj.rm_ok r1 by auto
  moreover have "r1 = Inl FileNotFoundError \<Longrightarrow> fs_content s key = None \<and> fs_content s1 = fs_content s"
    using fobj.rm_fail [of key s FileNotFoundError s1] r1 by (auto split: if_splits)
  ultimately show ?thesis by auto
qed

lemma rm_block_keeps_missing:
  assumes "fs_content s k = None" and "rm_block cf file_backend u s = (r, s')"
  shows "fs_content s' k = None"
proof -
  have rm: "fs_content (snd (be_rm file_backend k' t)) k = None" if "fs_content t k = None" for k' t
    using that by (auto simp: file_defs delete_conv' split: option.splits)
  show ?thesis
  proof (cases "block_to_path (md5_hex cf) u")
    case (Inr key)
    let ?t = "snd (be_rm file_backend key s)"
    have "s' = snd (be_rm file_backend (key @ META_SUFFIX) ?t)"
      using assms(2) Inr by (auto simp: rm_block_def rm_pair_def py_defs split: prod.splits sum.splits if_splits)
    with rm [OF rm [OF assms(1)]] show ?thesis by simp
  qed (use assms in \<open>simp add: rm_block_def bindS_def\<close>)
qed

section \<open>What the storage guarantees\<close>

text \<open>C17: On the file storage, with any stack of transforms that can undo what they did, with or without
  HMAC and consistency checks, and no fault of the environment: writing a block succeeds, and reading it back returns the
  same data with metadata that passes \<open>check_block_metadata\<close>.\<close>

theorem block_write_read:
  assumes "good_conf cf" and "calm s" and "key_uid (blk_uid blk)" and "blk_checksum blk = Some c" and "c \<noteq> []"
    and "int (length data) = blk_size blk"
  shows "\<exists>s1 m s2. storage_write cf file_backend ts rnd blk data s = (Inr blk, s1) \<and>
     storage_read cf file_backend blk False s1 = (Inr (blk, Some data, m), s2) \<and>
     check_block_metadata blk (Some (int (length data))) m = Inr ()"
proof -
  obtain s1 where s1: "storage_write cf file_backend ts rnd blk data s = (Inr blk, s1)" "calm s1"
    by (rule calm_storage_write [OF assms(1-3)])
  have "stored cf (fs_content s1) blk data"
    using fobj.write_stores [OF assms(1,3-6) s1(1)] by simp
  then obtain m s2 where "storage_read cf file_backend blk False s1 = (Inr (blk, Some data, m), s2)"
    "check_block_metadata blk (Some (int (length data))) m = Inr ()"
    by (rule calm_storage_read [OF s1(2)])
  with s1(1) show ?thesis by blast
qed

theorem block_write_read_witness:
  "\<exists>s1 m s2. storage_write demo_conf file_backend ''t'' 0 (demo_stored_block 0) [7, 8] demo_fs = (Inr (demo_stored_block 0), s1) \<and>
     storage_read demo_conf file_backend (demo_stored_block 0) False s1 = (Inr (demo_stored_block 0, Some [7, 8], m), s2) \<and>
     check_block_metadata (demo_stored_block 0) (Some (int (length [7, 8 :: 8 word]))) m = Inr ()"
  by (rule block_write_read [OF good_demo_conf calm_demo_fs, where c = "''c''"]) (simp_all add: demo_block_facts)

text \<open>Whatever fails meanwhile, writing one block or removing one never damages another: a stored block stays
  stored (its objects decode, authenticate and decapsulate to the same data), and reading it afterwards either returns
  that data or reports an error of the environment, never an invalid block.\<close>

theorem other_blocks_safe:
  assumes "good_conf cf" and "stored cf (fs_content s) blk data" and "key_uid (blk_uid blk)"
    and "key_uid (blk_uid b)" and "blk_uid b \<noteq> blk_uid blk"
    and "storage_write cf file_backend ts rnd b d s = (r1, s1)" and "rm_block cf file_backend (blk_uid b) s1 = (r2, s2)"
    and "storage_read cf file_backend blk False s2 = (r, s3)"
  shows "stored cf (fs_content s1) blk data \<and> stored cf (fs_content s2) blk data \<and>
     (r = Inl OSError \<or> (\<exists>m. r = Inr (blk, Some data, m) \<and> check_block_metadata blk (Some (int (length data))) m = Inr ()))"
proof -
  have 1: "stored cf (fs_content s1) blk data"
    by (rule fobj.write_keeps_stored [OF assms(1-6)])
  moreover have 2: "stored cf (fs_content s2) blk data"
    by (rule fobj.rm_keeps_stored [OF assms(1) 1 assms(3,4,5,7)])
  ultimately show ?thesis using fobj.read_stored [OF 2 assms(8)] by simp
qed

theorem other_blocks_safe_witness:
  "\<exists>s1 s2. stored demo_conf (fs_content s1) (demo_stored_block 0) [7, 8] \<and> stored demo_conf (fs_content s2) (demo_stored_block 0) [7, 8]"
proof -
  let ?a = "demo_stored_block 0" and ?b = "demo_stored_block 1"
  obtain s where s: "storage_write demo_conf file_backend ''t'' 0 ?a [7, 8] demo_fs = (Inr ?a, s)" "calm s"
    by (rule calm_storage_write [OF good_demo_conf calm_demo_fs, of ?a]) (simp_all add: demo_block_facts)
  have st: "stored demo_conf (fs_content s) ?a [7, 8]"
    using fobj.write_stores [OF good_demo_conf _ _ _ _ s(1), of "''c''"] by (simp add: demo_block_facts)
  obtain r1 s1 where w: "storage_write demo_conf file_backend ''t'' 0 ?b [9, 9] s = (r1, s1)" by force
  obtain r2 s2 where m: "rm_block demo_conf file_backend (blk_uid ?b) s1 = (r2, s2)" by force
  obtain r s3 where rd: "storage_read demo_conf file_backend ?a False s2 = (r, s3)" by force
  have "key_uid (blk_uid ?a)" "key_uid (blk_uid ?b)" by (simp_all add: demo_block_facts)
  moreover have "blk_uid ?b \<noteq> blk_uid ?a" by (simp add: demo_stored_block_def)
  ultimately show ?thesis using other_blocks_safe [OF good_demo_conf st _ _ _ w m rd] by blast
qed

text \<open>The outcome of removing a block: if its data object is there, removing it deletes both objects (or
  reports an environment error); if it is missing, \<open>BlockNotFoundError\<close> with its UID is raised, unless removing the
  metadata object fails, and the metadata object is gone as well.\<close>

theorem rm_block_outcome:
  assumes "block_to_path (md5_hex cf) u = Inr key" and "rm_block cf file_backend u s = (r, s')"
  shows "(r = Inr u \<and> fs_content s key \<noteq> None \<and> fs_content s' = (fs_content s)(key := None, key @ META_SUFFIX := None)) \<or>
     (r = Inl (BlockNotFoundError u) \<and> fs_content s key = None \<and> fs_content s' = (fs_content s)(key @ META_SUFFIX := None)) \<or>
     r = Inl OSError"
  by (rule rm_block_cases [OF assms])

theorem rm_block_outcome_witness:
  "\<exists>key. block_to_path (md5_hex demo_conf) (BlockUid (Some 1) (Some 1)) = Inr key \<and>
     (fst (rm_block demo_conf file_backend (BlockUid (Some 1) (Some 1)) demo_fs) = Inr (BlockUid (Some 1) (Some 1)) \<or>
      fst (rm_block demo_conf file_backend (BlockUid (Some 1) (Some 1)) demo_fs) = Inl (BlockNotFoundError (BlockUid (Some 1) (Some 1))) \<or>
      fst (rm_block demo_conf file_backend (BlockUid (Some 1) (Some 1)) demo_fs) = Inl OSError)"
proof -
  have "key_uid (BlockUid (Some 1) (Some 1))" by (simp add: key_uid_def half_def)
  then obtain key where key: "block_to_path (md5_hex demo_conf) (BlockUid (Some 1) (Some 1)) = Inr key"
    by (rule block_to_path_Inr)
  from rm_block_outcome [OF key surjective_pairing] key show ?thesis by blast
qed

lemma calm_write_version:
  assumes "good_conf cf" and "calm s" and "VersionUid uid = Inr uid"
  obtains t key d mj m where "write_version cf file_backend ts rnd uid text True s = (Inr (), t)" "calm t"
    "version_to_path (md5_hex cf) uid = Inr key" "fs_content t key = Some d" "fs_content t (key @ META_SUFFIX) = Some mj"
    "decode_metadata cf mj (int (length d)) = Inr m" "dict_get m ''size'' = Some (JInt (int (length (encode_utf8 text))))"
    "(case dict_get m ''transforms'' of Some tm \<Rightarrow> decapsulate cf d tm | None \<Rightarrow> Inr d) = Inr (encode_utf8 text)"
proof -
  let ?p = "encode_utf8 text"
  obtain d tm where enc: "encapsulate cf rnd ?p = (d, tm)" by force
  obtain m' mj where bm: "build_metadata cf ts (int (length ?p)) (int (length d)) tm None = (m', mj)" by force
  have "is_version_uid uid" using assms(3) by (auto simp: VersionUid_def split: if_splits)
  then have "encode_ascii uid = Inr uid" by (intro encode_ascii_ok version_uid_ascii)
  then obtain key where key: "version_to_path (md5_hex cf) uid = Inr key"
    by (simp add: version_to_path_def to_path_def Let_def)
  obtain s1 where s1: "write_pair file_backend key d mj s = (Inr (), s1)" "calm s1"
    "fs_content s1 = (fs_content s)(key \<mapsto> d, key @ META_SUFFIX \<mapsto> mj)"
    by (rule calm_write_pair [OF assms(2)])
  obtain m where m: "decode_metadata cf mj (int (length d)) = Inr m" "dict_get m ''size'' = Some (JInt (int (length ?p)))"
    "dict_get m ''transforms'' = (if tm = [] then None else Some (JList tm))"
    using decode_build_metadata [OF assms(1) bm] by blast
  have c1: "fs_content s1 key = Some d" "fs_content s1 (key @ META_SUFFIX) = Some mj"
    by (simp_all add: s1(3) META_SUFFIX_def)
  obtain s2 where s2: "check_write cf file_backend key d s1 = (Inr (), s2)" "calm s2" "fs_content s2 = fs_content s1"
    by (rule calm_check_write [OF s1(2) c1 m(1)])
  define t where "t = (if consistency_check_writes cf then s2 else s1)"
  have t: "calm t" "fs_content t key = Some d" "fs_content t (key @ META_SUFFIX) = Some mj"
    using s1(2) s2(2,3) c1 by (simp_all add: t_def)
  have w: "write_version cf file_backend ts rnd uid text True s = (Inr (), t)"
    using s1(1) s2(1) by (simp add: write_version_def key enc bm py_defs t_def)
  have "(case dict_get m ''transforms'' of Some tm \<Rightarrow> decapsulate cf d tm | None \<Rightarrow> Inr d) = Inr ?p"
    using decapsulate_encapsulate [OF assms(1) enc] by (cases "tm = []") (simp_all add: m decapsulate_def)
  from that [OF w t(1) key t(2,3) m(1,2) this] show thesis .
qed

text \<open>Version metadata written to a storage is read back unchanged (no fault of the environment).\<close>

theorem version_write_read:
  assumes "good_conf cf" and "calm s" and "VersionUid uid = Inr uid"
  shows "\<exists>s1 s2. write_version cf file_backend ts rnd uid text True s = (Inr (), s1) \<and>
     read_version cf file_backend uid s1 = (Inr text, s2)"
proof -
  obtain t key d mj m where w: "write_version cf file_backend ts rnd uid text True s = (Inr (), t)" "calm t"
    and key: "version_to_path (md5_hex cf) uid = Inr key" and t: "fs_content t key = Some d" "fs_content t (key @ META_SUFFIX) = Some mj"
    and m: "decode_metadata cf mj (int (length d)) = Inr m" "dict_get m ''size'' = Some (JInt (int (length (encode_utf8 text))))"
      "(case dict_get m ''transforms'' of Some tm \<Rightarrow> decapsulate cf d tm | None \<Rightarrow> Inr d) = Inr (encode_utf8 text)"
    by (rule calm_write_version [OF assms])
  obtain t1 where t1: "be_read file_backend key t = (Inr d, t1)" "calm t1" "fs_content t1 = fs_content t"
    using calm_read [OF w(2) t(1)] by blast
  obtain t2 where t2: "be_read file_backend (key @ META_SUFFIX) t1 = (Inr mj, t2)"
    using calm_read [OF t1(2)] t1(3) t(2) by metis
  have "read_version cf file_backend uid t = (Inr text, t2)"
    using t1(1) t2 m by (simp add: read_version_def key py_defs decode_encode_utf8)
  with w show ?thesis by blast
qed

theorem version_write_read_witness:
  "\<exists>s1 s2. write_version demo_conf file_backend ''t'' 0 ''v1'' ''{}'' True demo_fs = (Inr (), s1) \<and>
     read_version demo_conf file_backend ''v1'' s1 = (Inr ''{}'', s2)"
proof (rule version_write_read [OF good_demo_conf calm_demo_fs])
  show "VersionUid ''v1'' = Inr ''v1''" by code_simp
qed

text \<open>Version objects live under another prefix than block objects.\<close>

lemma write_version_keeps_stored:
  assumes "stored cf (fs_content s) blk data" and "write_version cf file_backend ts rnd uid text ow s = (r, s')"
  shows "stored cf (fs_content s') blk data"
proof (cases "version_to_path (md5_hex cf) uid")
  case (Inl e)
  with assms show ?thesis by (simp add: write_version_def bindS_def)
next
  case (Inr key)
  obtain p where p: "block_to_path (md5_hex cf) (blk_uid blk) = Inr p" using assms(1) by (auto simp: stored_def)
  have "\<exists>q. p = ''blocks/'' @ q" using p
    by (auto simp: block_to_path_def to_path_def block_prefix_def Let_def bind_res_def split: sum.splits)
  moreover have "\<exists>q. key = ''versions/'' @ q" using Inr
    by (auto simp: version_to_path_def to_path_def version_prefix_def Let_def bind_res_def split: sum.splits)
  ultimately have ne: "p \<noteq> key" "p \<noteq> key @ META_SUFFIX" "p @ META_SUFFIX \<noteq> key" "p @ META_SUFFIX \<noteq> key @ META_SUFFIX" by auto
  have "fs_content s' k = fs_content s k" if "k \<noteq> key" "k \<noteq> key @ META_SUFFIX" for k
  proof -
    have rd: "keeps (\<lambda>s. fs_content s k) (be_read file_backend key)" using fobj.keeps_read by (simp add: keeps_def)
    have "keeps (\<lambda>s. fs_content s k) (write_version cf file_backend ts rnd uid text ow)"
      unfolding write_version_def Inr Let_def using that
      by (auto split: prod.split intro!: keeps_bind_lift keeps_intros fobj.keeps_write_pair fobj.keeps_check_write_at rd)
    from keepsD [OF this assms(2)] show ?thesis .
  qed
  with ne assms(1) p show ?thesis by (simp add: stored_def)
qed

end
