(* ===== verification/Cleanup.thy ===== *)
theory Cleanup
  imports Locking File_Storage
begin

text \<open>
  Garbage collection: \<open>DeletedBlock.get_unused_block_uids\<close> of \<open>database.py\<close> and \<open>Benji.cleanup\<close>, \<open>Benji.clean\<close> of
  \<open>benji.py\<close>. The engine state is the database session together with the file storages by name; the
  configurations of the storages are the parameter \<open>cf\<close>.

  The generator and its consumer are one loop here: the consumer runs at each \<open>yield\<close>. The removal jobs of a storage
  are all queued before the first result is read; they run in queue order. The sets of UIDs are lists in the
  order in which the code happens to iterate over them.
\<close>

record engine =
  ses :: session
  stores :: "string \<Rightarrow> fs"

definition on_session :: "(exn, session, 'a) py \<Rightarrow> (exn, engine, 'a) py" where
  "on_session m e = (case m (ses e) of (r, s') \<Rightarrow> (r, e\<lparr>ses := s'\<rparr>))"

definition on_store :: "string \<Rightarrow> (exn, fs, 'a) py \<Rightarrow> (exn, engine, 'a) py" where
  "on_store n m e = (case m (stores e n) of (r, s') \<Rightarrow> (r, e\<lparr>stores := (stores e)(n := s')\<rparr>))"

section \<open>One round of the generator\<close>

type_synonym hit_list = "(string, block_uid list) dict"

text \<open>\<open>if storage_id:\<close> is false for \<open>None\<close> and for 0; only then does the cut-off date count.\<close>

definition delete_candidates :: "int \<Rightarrow> int option \<Rightarrow> database \<Rightarrow> deleted_block list" where
  "delete_candidates cut_off storage_id d =
     (case storage_id of
        Some i \<Rightarrow> if i \<noteq> 0 then filter (\<lambda>r. del_storage_id r = i) (db_deleted d)
                  else take 250 (filter (\<lambda>r. del_date r < cut_off) (db_deleted d))
      | None \<Rightarrow> take 250 (filter (\<lambda>r. del_date r < cut_off) (db_deleted d)))"

definition referenced :: "database \<Rightarrow> block_uid \<Rightarrow> bool" where
  "referenced d uid \<longleftrightarrow> (\<exists>b \<in> set (db_blocks d). blk_uid b = uid)"

definition storage_name :: "database \<Rightarrow> int \<Rightarrow> string res" where
  "storage_name d i =
     (case find (\<lambda>r. sto_id r = i) (db_storages d) of Some r \<Rightarrow> Inr (sto_name r) | None \<Rightarrow> Inl AttributeError)"

definition add_hit :: "string \<Rightarrow> block_uid \<Rightarrow> hit_list \<Rightarrow> hit_list" where
  "add_hit n uid h = dict_set h n (List.insert uid (case dict_get h n of Some us \<Rightarrow> us | None \<Rightarrow> []))"

fun classify :: "database \<Rightarrow> deleted_block list \<Rightarrow> block_uid list \<Rightarrow> hit_list \<Rightarrow> (block_uid list \<times> hit_list) res" where
  "classify d [] fp h = Inr (fp, h)"
| "classify d (c # cs) fp h =
     (if referenced d (del_uid c) then classify d cs (List.insert (del_uid c) fp) h
      else bind_res (storage_name d (del_storage_id c)) (\<lambda>n. classify d cs fp (add_hit n (del_uid c) h)))"

definition hit_uids :: "hit_list \<Rightarrow> block_uid list" where
  "hit_uids h = concat (map snd h)"

definition forget :: "block_uid list \<Rightarrow> database \<Rightarrow> database" where
  "forget uids d = d\<lparr>db_deleted := filter (\<lambda>r. del_uid r \<notin> set uids) (db_deleted d)\<rparr>"

section \<open>The consumer\<close>

fun rm_jobs :: "storage_conf \<Rightarrow> block_uid list \<Rightarrow> fs \<Rightarrow> (exn + block_uid) list \<times> fs" where
  "rm_jobs cf [] s = ([], s)"
| "rm_jobs cf (u # us) s =
     (case rm_block cf file_backend u s of (r, s1) \<Rightarrow> case rm_jobs cf us s1 of (rs, s2) \<Rightarrow> (r # rs, s2))"

text \<open>The loop over \<open>rm_get_completed()\<close>: missing blocks are tolerated, the first other error is raised.\<close>

fun first_error :: "(exn + block_uid) list \<Rightarrow> unit res" where
  "first_error [] = Inr ()"
| "first_error (Inr u # rs) = first_error rs"
| "first_error (Inl e # rs) = (case e of BlockNotFoundError u \<Rightarrow> first_error rs | _ \<Rightarrow> Inl e)"

definition rm_storage :: "(string \<Rightarrow> storage_conf) \<Rightarrow> string \<times> block_uid list \<Rightarrow> (exn, string \<Rightarrow> fs, unit) py" where
  "rm_storage cf hit st =
     (case hit of (n, uids) \<Rightarrow> case rm_jobs (cf n) uids (st n) of (rs, s') \<Rightarrow> (first_error rs, st(n := s')))"

definition rm_hits :: "(string \<Rightarrow> storage_conf) \<Rightarrow> hit_list \<Rightarrow> (exn, string \<Rightarrow> fs, unit) py" where
  "rm_hits cf h = for_each (rm_storage cf) h"

section \<open>The loop\<close>

function collect :: "(string \<Rightarrow> storage_conf) \<Rightarrow> int \<Rightarrow> int option \<Rightarrow> engine \<Rightarrow> (exn + unit) \<times> engine" where
  "collect cf cut_off storage_id e =
     (let d = working (ses e); cands = delete_candidates cut_off storage_id d in
      if cands = [] then (Inr (), e\<lparr>ses := commit (ses e)\<rparr>)
      else
        (case classify d cands [] [] of
           Inl x \<Rightarrow> (Inl x, e)
         | Inr (fp, h) \<Rightarrow>
             let e1 = e\<lparr>ses := update_db (forget (hit_uids h)) (update_db (forget fp) (ses e))\<rparr> in
             if h = [] then collect cf cut_off storage_id e1
             else
               (case rm_hits cf h (stores e1) of
                  (Inl x, st) \<Rightarrow> (Inl x, e1\<lparr>stores := st\<rparr>)
                | (Inr _, st) \<Rightarrow> collect cf cut_off storage_id (e1\<lparr>stores := st, ses := commit (ses e1)\<rparr>))))"
  by pat_completeness auto

section \<open>What a round finds\<close>

definition hit :: "hit_list \<Rightarrow> string \<Rightarrow> block_uid \<Rightarrow> bool" where
  "hit h n u \<longleftrightarrow> (\<exists>us. dict_get h n = Some us \<and> u \<in> set us)"

lemma hit_Nil [simp]: "\<not> hit [] n u"
  by (simp add: hit_def)

lemma hit_add: "hit (add_hit n u h) m v \<longleftrightarrow> hit h m v \<or> m = n \<and> v = u"
  by (cases "dict_get h n") (auto simp: hit_def add_hit_def update_conv)

lemma distinct_add_hit: "distinct (dict_keys h) \<Longrightarrow> distinct (dict_keys (add_hit n u h))"
  by (simp add: add_hit_def distinct_update)

lemma set_hit_uids: "distinct (dict_keys h) \<Longrightarrow> u \<in> set (hit_uids h) \<longleftrightarrow> (\<exists>n. hit h n u)"
  by (force simp: hit_uids_def hit_def)

lemma classify_step:
  assumes "classify d (c # cs) fp h = Inr r"
  obtains (false_positive) "referenced d (del_uid c)" "classify d cs (List.insert (del_uid c) fp) h = Inr r"
    | (hit) n where "\<not> referenced d (del_uid c)" "storage_name d (del_storage_id c) = Inr n"
        "classify d cs fp (add_hit n (del_uid c) h) = Inr r"
  using assms by (auto simp: bind_res_eq_Inr split: if_splits)

lemma classify_keys: "classify d cs fp h = Inr (fp', h') \<Longrightarrow> distinct (dict_keys h) \<Longrightarrow> distinct (dict_keys h')"
proof (induction cs arbitrary: fp h)
  case (Cons c cs)
  from Cons.prems(1) show ?case by (rule classify_step) (use Cons distinct_add_hit in blast)+
qed simp

lemma classify_false_positives:
  "classify d cs fp h = Inr (fp', h') \<Longrightarrow>
     set fp' = set fp \<union> {u. referenced d u \<and> u \<in> del_uid ` set cs}"
proof (induction cs arbitrary: fp h)
  case (Cons c cs)
  from Cons.prems(1) show ?case
  proof (rule classify_step)
    assume "referenced d (del_uid c)" "classify d cs (List.insert (del_uid c) fp) h = Inr (fp', h')"
    then show ?thesis using Cons.IH by auto
  next
    fix n assume "\<not> referenced d (del_uid c)" "classify d cs fp (add_hit n (del_uid c) h) = Inr (fp', h')"
    then show ?thesis using Cons.IH by auto
  qed
qed simp

lemma classify_hits:
  "classify d cs fp h = Inr (fp', h') \<Longrightarrow>
     hit h' n u \<longleftrightarrow> hit h n u \<or> (\<exists>c \<in> set cs. \<not> referenced d u \<and> del_uid c = u \<and> storage_name d (del_storage_id c) = Inr n)"
proof (induction cs arbitrary: fp h)
  case (Cons c cs)
  from Cons.prems(1) show ?case
  proof (rule classify_step)
    assume "referenced d (del_uid c)" "classify d cs (List.insert (del_uid c) fp) h = Inr (fp', h')"
    then show ?thesis using Cons.IH by auto
  next
    fix m assume "\<not> referenced d (del_uid c)" "storage_name d (del_storage_id c) = Inr m"
      "classify d cs fp (add_hit m (del_uid c) h) = Inr (fp', h')"
    then show ?thesis using Cons.IH by (auto simp: hit_add)
  qed
qed simp

lemma classify_named:
  "classify d cs fp h = Inr (fp', h') \<Longrightarrow> c \<in> set cs \<Longrightarrow> \<not> referenced d (del_uid c) \<Longrightarrow>
     \<exists>n. storage_name d (del_storage_id c) = Inr n"
proof (induction cs arbitrary: fp h)
  case (Cons x cs)
  from Cons.prems(1) show ?case by (rule classify_step) (use Cons in auto)
qed simp

text \<open>Every candidate is either a false positive or a hit, so each round shrinks the table.\<close>

lemma classify_covers:
  assumes "classify d cs [] [] = Inr (fp, h)" and "c \<in> set cs"
  shows "del_uid c \<in> set fp \<union> set (hit_uids h)"
proof (cases "referenced d (del_uid c)")
  case True
  then show ?thesis using classify_false_positives [OF assms(1)] assms(2) by auto
next
  case False
  then obtain n where "storage_name d (del_storage_id c) = Inr n" using classify_named [OF assms] by blast
  then have "hit h n (del_uid c)" using classify_hits [OF assms(1)] False assms(2) by auto
  then show ?thesis using set_hit_uids [OF classify_keys [OF assms(1)]] by auto
qed

lemma candidates_subset: "set (delete_candidates cut_off sid d) \<subseteq> set (db_deleted d)"
  by (auto simp: delete_candidates_def split: option.splits if_splits dest: in_set_takeD)

lemma forget_less:
  assumes "c \<in> set (db_deleted d)" and "del_uid c \<in> set us"
  shows "length (db_deleted (forget us d)) < length (db_deleted d)"
  using assms by (auto simp: forget_def intro: length_filter_less)

lemma forget_le: "length (db_deleted (forget us d)) \<le> length (db_deleted d)"
  by (simp add: forget_def)

lemma forget_forget: "forget us (forget vs d) = forget (us @ vs) d"
  by (simp add: forget_def conj_commute)

lemma round_shrinks:
  assumes "delete_candidates cut_off sid d \<noteq> []" and "classify d (delete_candidates cut_off sid d) [] [] = Inr (fp, h)"
  shows "length (db_deleted (forget (hit_uids h) (forget fp d))) < length (db_deleted d)"
proof -
  obtain c where c: "c \<in> set (delete_candidates cut_off sid d)" using assms(1) by (cases "delete_candidates cut_off sid d") auto
  then have "del_uid c \<in> set (hit_uids h @ fp)" using classify_covers [OF assms(2) c] by auto
  then show ?thesis unfolding forget_forget using forget_less c candidates_subset by blast
qed

termination collect
  by (relation "measure (\<lambda>(cf, cut_off, sid, e). length (db_deleted (working (ses e))))")
     (auto simp: round_shrinks)

declare collect.simps [simp del]

section \<open>Entry points\<close>

text \<open>\<open>Benji.cleanup\<close> and \<open>Benji.clean\<close>; \<open>now\<close> is the local time, \<open>dt\<close> the age in seconds a candidate must have.\<close>

definition cleanup :: "process \<Rightarrow> (string \<Rightarrow> storage_conf) \<Rightarrow> int \<Rightarrow> int \<Rightarrow> bool \<Rightarrow> (exn, engine, unit) py" where
  "cleanup me cf now dt override =
     guarded (on_session (lock me ''cleanup'' (Some ''Cleanup'') override now)) (on_session (unlock me ''cleanup''))
       True (collect cf (now - dt) None)"

definition clean :: "process \<Rightarrow> (string \<Rightarrow> storage_conf) \<Rightarrow> int \<Rightarrow> storage_row \<Rightarrow> int \<Rightarrow> bool \<Rightarrow> (exn, engine, unit) py" where
  "clean me cf now storage dt override =
     (let n = ''Cleanup #'' @ sto_name storage in
      guarded (on_session (lock me n (Some n) override now)) (on_session (unlock me n))
        True (collect cf (now - dt) (Some (sto_id storage))))"

section \<open>Removals\<close>

lemma rm_jobs_stored:
  assumes "good_conf cf" and "stored cf (fs_content s) b data" and "key_uid (blk_uid b)"
    and "\<forall>u \<in> set us. key_uid u \<and> u \<noteq> blk_uid b" and "rm_jobs cf us s = (rs, s')"
  shows "stored cf (fs_content s') b data"
  using assms(2,4,5)
proof (induction us arbitrary: s rs)
  case (Cons u us)
  obtain r s1 where r: "rm_block cf file_backend u s = (r, s1)" by force
  obtain rs2 where rs2: "rm_jobs cf us s1 = (rs2, s')" using Cons.prems(3) r by (auto split: prod.splits)
  have "stored cf (fs_content s1) b data"
    using fobj.rm_keeps_stored [OF assms(1) Cons.prems(1) assms(3) _ _ r] Cons.prems(2) by simp
  with Cons.IH [OF _ _ rs2] Cons.prems(2) show ?case by simp
qed simp

lemma rm_jobs_missing:
  assumes "fs_content s k = None" and "rm_jobs cf us s = (rs, s')"
  shows "fs_content s' k = None"
  using assms
proof (induction us arbitrary: s rs)
  case (Cons u us)
  obtain r s1 where r: "rm_block cf file_backend u s = (r, s1)" by force
  obtain rs2 where rs2: "rm_jobs cf us s1 = (rs2, s')" using Cons.prems(2) r by (auto split: prod.splits)
  from Cons.IH [OF rm_block_keeps_missing [OF Cons.prems(1) r] rs2] show ?case .
qed simp

lemma first_error_Cons: "first_error (r # rs) = Inr () \<longleftrightarrow> (\<exists>u. r = Inr u \<or> r = Inl (BlockNotFoundError u)) \<and> first_error rs = Inr ()"
  by (cases r) (auto split: exn.splits)

lemma rm_jobs_gone:
  assumes "rm_jobs cf us s = (rs, s')" and "first_error rs = Inr ()" and "u \<in> set us"
    and "block_to_path (md5_hex cf) u = Inr key"
  shows "fs_content s' key = None"
  using assms(1-3)
proof (induction us arbitrary: s rs)
  case (Cons v us)
  obtain r s1 where r: "rm_block cf file_backend v s = (r, s1)" by force
  obtain rs2 where rs2: "rm_jobs cf us s1 = (rs2, s')" and eq: "rs = r # rs2"
    using Cons.prems(1) r by (auto split: prod.splits)
  have ok: "(\<exists>u. r = Inr u \<or> r = Inl (BlockNotFoundError u))" "first_error rs2 = Inr ()"
    using Cons.prems(2) by (simp_all add: eq first_error_Cons)
  show ?case
  proof (cases "u = v")
    case True
    have "fs_content s1 key = None"
      using rm_block_cases [OF assms(4) r [folded True]] ok(1) by (auto simp: META_SUFFIX_def)
    then show ?thesis using rm_jobs_missing [OF _ rs2] eq by simp
  next
    case False
    with Cons rs2 ok eq show ?thesis by auto
  qed
qed simp

lemma rm_hits_stored:
  assumes "good_conf (cf n)" and "stored (cf n) (fs_content (st n)) b data" and "key_uid (blk_uid b)"
    and "\<forall>u \<in> set (hit_uids h). key_uid u \<and> u \<noteq> blk_uid b" and "rm_hits cf h st = (r, st')"
  shows "stored (cf n) (fs_content (st' n)) b data"
proof -
  have "stored (cf n) (fs_content ((snd (for_each (rm_storage cf) h st)) n)) b data"
  proof (rule for_each_invariant [where P = "\<lambda>st. stored (cf n) (fs_content (st n)) b data"])
    fix x s assume x: "x \<in> set h" and s: "stored (cf n) (fs_content (s n)) b data"
    obtain m us where m: "x = (m, us)" by force
    have us: "\<forall>u \<in> set us. key_uid u \<and> u \<noteq> blk_uid b" using assms(4) x m by (force simp: hit_uids_def)
    obtain rs s' where rs: "rm_jobs (cf m) us (s m) = (rs, s')" by force
    show "stored (cf n) (fs_content (snd (rm_storage cf x s) n)) b data"
      using s rm_jobs_stored [OF assms(1) _ assms(3) us] rs by (cases "m = n") (simp_all add: rm_storage_def m)
  qed (rule assms(2))
  then show ?thesis using assms(5) by (simp add: rm_hits_def)
qed

lemma rm_hits_missing:
  assumes "fs_content (st n) k = None" and "rm_hits cf h st = (r, st')"
  shows "fs_content (st' n) k = None"
proof -
  have "fs_content ((snd (for_each (rm_storage cf) h st)) n) k = None"
  proof (rule for_each_invariant [where P = "\<lambda>st. fs_content (st n) k = None"])
    fix x s assume "x \<in> set h" and s: "fs_content (s n) k = None"
    obtain m us where m: "x = (m, us)" by force
    obtain rs s' where rs: "rm_jobs (cf m) us (s m) = (rs, s')" by force
    show "fs_content (snd (rm_storage cf x s) n) k = None"
      using s rm_jobs_missing rs by (cases "m = n") (simp_all add: rm_storage_def m)
  qed (rule assms(1))
  then show ?thesis using assms(2) by (simp add: rm_hits_def)
qed

lemma rm_hits_gone:
  assumes "rm_hits cf h st = (Inr x, st')" and "(n, us) \<in> set h" and "u \<in> set us"
    and "block_to_path (md5_hex (cf n)) u = Inr key"
  shows "fs_content (st' n) key = None"
  using assms(1,2)
proof (induction h arbitrary: st)
  case (Cons a h)
  obtain r st1 where r: "rm_storage cf a st = (r, st1)" by force
  with Cons.prems(1) have ok: "r = Inr ()" "rm_hits cf h st1 = (Inr x, st')"
    by (auto simp: rm_hits_def split: sum.splits)
  show ?case
  proof (cases "a = (n, us)")
    case True
    obtain rs s' where rs: "rm_jobs (cf n) us (st n) = (rs, s')" by force
    have "st1 = st(n := s')" "first_error rs = Inr ()" using r ok(1) rs by (simp_all add: rm_storage_def True)
    then have "fs_content (st1 n) key = None" using rm_jobs_gone [OF rs _ assms(3,4)] by simp
    then show ?thesis by (rule rm_hits_missing [OF _ ok(2)])
  next
    case False
    with Cons ok(2) show ?thesis by auto
  qed
qed simp

section \<open>The whole collection\<close>

lemma collect_cases:
  assumes "collect cf cut_off sid e = (r, e')"
  obtains (finished) "delete_candidates cut_off sid (working (ses e)) = []" "r = Inr ()" "e' = e\<lparr>ses := commit (ses e)\<rparr>"
    | (unnamed) x where "r = Inl x" "e' = e"
    | (no_hits) fp where "delete_candidates cut_off sid (working (ses e)) \<noteq> []"
        "classify (working (ses e)) (delete_candidates cut_off sid (working (ses e))) [] [] = Inr (fp, [])"
        "collect cf cut_off sid (e\<lparr>ses := update_db (forget (hit_uids [])) (update_db (forget fp) (ses e))\<rparr>) = (r, e')"
    | (failed) fp h x st where
        "classify (working (ses e)) (delete_candidates cut_off sid (working (ses e))) [] [] = Inr (fp, h)"
        "rm_hits cf h (stores e) = (Inl x, st)" "r = Inl x"
        "e' = e\<lparr>ses := update_db (forget (hit_uids h)) (update_db (forget fp) (ses e)), stores := st\<rparr>"
    | (round) fp h st where "delete_candidates cut_off sid (working (ses e)) \<noteq> []"
        "classify (working (ses e)) (delete_candidates cut_off sid (working (ses e))) [] [] = Inr (fp, h)"
        "rm_hits cf h (stores e) = (Inr (), st)"
        "collect cf cut_off sid (e\<lparr>stores := st,
           ses := commit (update_db (forget (hit_uids h)) (update_db (forget fp) (ses e)))\<rparr>) = (r, e')"
  using assms
  by (subst (asm) collect.simps) (auto simp: Let_def split: if_splits sum.splits prod.splits)

lemma hits_unreferenced:
  assumes "classify d cs [] [] = Inr (fp, h)" and "u \<in> set (hit_uids h)"
  shows "\<not> referenced d u \<and> u \<in> del_uid ` set cs"
  using assms set_hit_uids [OF classify_keys [OF assms(1)]] classify_hits [OF assms(1)] by auto

lemma forget_simps [simp]:
  "db_blocks (forget us d) = db_blocks d" "db_storages (forget us d) = db_storages d" "db_versions (forget us d) = db_versions d"
  "set (db_deleted (forget us d)) = {r \<in> set (db_deleted d). del_uid r \<notin> set us}"
  by (auto simp: forget_def)

lemma collect_keeps_blocks:
  "collect cf cut_off sid e = (r, e') \<Longrightarrow>
     db_blocks (working (ses e')) = db_blocks (working (ses e)) \<and> db_versions (working (ses e')) = db_versions (working (ses e))"
proof (induction "length (db_deleted (working (ses e)))" arbitrary: e rule: less_induct)
  case less
  from less.prems show ?case
  proof (cases rule: collect_cases)
    case (no_hits fp)
    from less.hyps [OF _ no_hits(3)] round_shrinks [OF no_hits(1,2)] show ?thesis by simp
  next
    case (round fp h st)
    from less.hyps [OF _ round(4)] round_shrinks [OF round(1,2)] show ?thesis by simp
  qed simp_all
qed

lemma collect_stored:
  assumes "good_conf (cf n)" and "key_uid (blk_uid b)" and "collect cf cut_off sid e = (r, e')"
    and "b \<in> set (db_blocks (working (ses e)))" and "stored (cf n) (fs_content (stores e n)) b data"
    and "\<forall>x \<in> set (db_deleted (working (ses e))). key_uid (del_uid x)"
  shows "stored (cf n) (fs_content (stores e' n)) b data"
  using assms(3-6)
proof (induction "length (db_deleted (working (ses e)))" arbitrary: e rule: less_induct)
  case less
  have hits: "\<forall>u \<in> set (hit_uids h). key_uid u \<and> u \<noteq> blk_uid b"
    if "classify (working (ses e)) (delete_candidates cut_off sid (working (ses e))) [] [] = Inr (fp, h)" for fp h
    using hits_unreferenced [OF that] less.prems(2,4) candidates_subset by (fastforce simp: referenced_def)
  from less.prems(1) show ?case
  proof (cases rule: collect_cases)
    case (no_hits fp)
    from less.hyps [OF _ no_hits(3)] round_shrinks [OF no_hits(1,2)] less.prems show ?thesis by simp
  next
    case (failed fp h x st)
    from rm_hits_stored [OF assms(1) less.prems(3) assms(2) hits [OF failed(1)] failed(2)] failed(4) show ?thesis by simp
  next
    case (round fp h st)
    have "stored (cf n) (fs_content (st n)) b data"
      by (rule rm_hits_stored [OF assms(1) less.prems(3) assms(2) hits [OF round(2)] round(3)])
    with less.hyps [OF _ round(4)] round_shrinks [OF round(1,2)] less.prems show ?thesis by simp
  qed (use less.prems in simp_all)
qed

lemma collect_missing:
  "collect cf cut_off sid e = (r, e') \<Longrightarrow> fs_content (stores e n) k = None \<Longrightarrow> fs_content (stores e' n) k = None"
proof (induction "length (db_deleted (working (ses e)))" arbitrary: e rule: less_induct)
  case less
  from less.prems(1) show ?case
  proof (cases rule: collect_cases)
    case (no_hits fp)
    from less.hyps [OF _ no_hits(3)] round_shrinks [OF no_hits(1,2)] less.prems show ?thesis by simp
  next
    case (failed fp h x st)
    from rm_hits_missing [OF less.prems(2) failed(2)] failed(4) show ?thesis by simp
  next
    case (round fp h st)
    from less.hyps [OF _ round(4)] round_shrinks [OF round(1,2)] rm_hits_missing [OF less.prems(2) round(3)]
    show ?thesis by simp
  qed (use less.prems in simp_all)
qed

text \<open>A UID belongs to one storage: its left half is the id of the version that first wrote it.\<close>

definition uid_storage_unique :: "database \<Rightarrow> bool" where
  "uid_storage_unique d \<longleftrightarrow>
     (\<forall>x \<in> set (db_deleted d). \<forall>y \<in> set (db_deleted d). del_uid x = del_uid y \<longrightarrow> del_storage_id x = del_storage_id y)"

lemma collect_done:
  "collect cf cut_off sid e = (Inr (), e') \<Longrightarrow>
     delete_candidates cut_off sid (committed (ses e')) = [] \<and> working (ses e') = committed (ses e')"
proof (induction "length (db_deleted (working (ses e)))" arbitrary: e rule: less_induct)
  case less
  from less.prems show ?case
  proof (cases rule: collect_cases)
    case (no_hits fp)
    from less.hyps [OF _ no_hits(3)] round_shrinks [OF no_hits(1,2)] show ?thesis by simp
  next
    case (round fp h st)
    from less.hyps [OF _ round(4)] round_shrinks [OF round(1,2)] show ?thesis by simp
  qed simp_all
qed

lemma row_in_round:
  assumes "classify d cands [] [] = Inr (fp, h)" and "set cands \<subseteq> set (db_deleted d)" and "uid_storage_unique d"
    and "row \<in> set (db_deleted d)" and "storage_name d (del_storage_id row) = Inr n"
  obtains (kept) "row \<in> set (db_deleted (forget (hit_uids h) (forget fp d)))"
    | (referenced) "referenced d (del_uid row)"
    | (hit) us where "(n, us) \<in> set h" "del_uid row \<in> set us"
proof -
  consider "del_uid row \<notin> set fp \<union> set (hit_uids h)" | "del_uid row \<in> set fp" | "del_uid row \<in> set (hit_uids h)" by blast
  then show thesis
  proof cases
    case 1
    then show thesis using kept assms(4) by simp
  next
    case 2
    then show thesis using referenced classify_false_positives [OF assms(1)] by auto
  next
    case 3
    then obtain m where "hit h m (del_uid row)" using set_hit_uids [OF classify_keys [OF assms(1)]] by auto
    moreover then obtain c where "c \<in> set cands" "del_uid c = del_uid row" "storage_name d (del_storage_id c) = Inr m"
      using classify_hits [OF assms(1)] by auto
    then have "del_storage_id c = del_storage_id row" using assms(2-4) unfolding uid_storage_unique_def by blast
    then have "m = n" using \<open>storage_name d (del_storage_id c) = Inr m\<close> assms(5) by simp
    ultimately show thesis using hit by (auto simp: hit_def dest: map_of_SomeD)
  qed
qed

lemma collect_complete:
  assumes "collect cf cut_off sid e = (Inr (), e')" and "uid_storage_unique (working (ses e))"
    and "row \<in> set (db_deleted (working (ses e)))" and "storage_name (working (ses e)) (del_storage_id row) = Inr n"
    and "block_to_path (md5_hex (cf n)) (del_uid row) = Inr key"
  shows "row \<in> set (db_deleted (committed (ses e'))) \<or> referenced (working (ses e)) (del_uid row) \<or>
     fs_content (stores e' n) key = None"
  using assms(1-4)
proof (induction "length (db_deleted (working (ses e)))" arbitrary: e rule: less_induct)
  case less
  let ?d = "working (ses e)"
  have forget: "uid_storage_unique d \<Longrightarrow> uid_storage_unique (forget us d)" "storage_name (forget us d) = storage_name d"
    "referenced (forget us d) = referenced d" for us d
    by (auto simp: uid_storage_unique_def storage_name_def referenced_def fun_eq_iff)
  from less.prems(1) show ?case
  proof (cases rule: collect_cases)
    case finished
    then show ?thesis using less.prems(3) by simp
  next
    case (no_hits fp)
    from no_hits(2) candidates_subset less.prems(2-4) show ?thesis
    proof (rule row_in_round)
      assume "row \<in> set (db_deleted (forget (hit_uids []) (forget fp ?d)))"
      with less.hyps [OF _ no_hits(3)] round_shrinks [OF no_hits(1,2)] less.prems(2,4) show ?thesis by (simp add: forget)
    qed simp_all
  next
    case (round fp h st)
    from round(2) candidates_subset less.prems(2-4) show ?thesis
    proof (rule row_in_round)
      assume "row \<in> set (db_deleted (forget (hit_uids h) (forget fp ?d)))"
      with less.hyps [OF _ round(4)] round_shrinks [OF round(1,2)] less.prems(2,4) show ?thesis by (simp add: forget)
    next
      fix us assume "(n, us) \<in> set h" "del_uid row \<in> set us"
      from rm_hits_gone [OF round(3) this assms(5)] have "fs_content (st n) key = None" .
      with collect_missing [OF round(4)] show ?thesis by simp
    qed simp
  qed simp_all
qed

section \<open>What garbage collection guarantees\<close>

lemma lock_keeps_tables:
  assumes "lock me n reason override now s = (Inr u, s1)"
  shows "db_blocks (working s1) = db_blocks (working s)" "db_deleted (working s1) = db_deleted (working s)"
    "db_storages (working s1) = db_storages (working s)"
  using assms by (auto simp: lock_def Let_def split: if_splits option.splits)

lemma unlock_ok_tables:
  assumes "unlock me n s = (Inr u, s1)"
  shows "db_deleted (committed s1) = db_deleted (working s)"
  using assms by (auto simp: unlock_def split: if_splits)

lemma guarded_collect:
  assumes "guarded (on_session (lock me n reason override now)) (on_session (unlock me n)) True (collect cf c sid) e = (r, e')"
  obtains (not_locked) "stores e' = stores e" "\<exists>x. r = Inl x"
    | (ran) s1 r2 e2 where "lock me n reason override now (ses e) = (Inr (), s1)"
        "collect cf c sid (e\<lparr>ses := s1\<rparr>) = (r2, e2)" "stores e' = stores e2"
        "r = Inr () \<Longrightarrow> r2 = Inr () \<and> (\<exists>u. unlock me n (ses e2) = (Inr u, ses e'))"
  using assms
  by (auto simp: guarded_def on_session_def split: prod.splits sum.splits)

text \<open>C15: Whatever the faults of the storages and whatever the outcome, \<open>cleanup\<close> and \<open>clean\<close> never damage a block a
  version still refers to: an object that was stored for such a block is stored afterwards, with the same data.\<close>

theorem cleanup_keeps_referenced_blocks:
  assumes "good_conf (cf n)" and "b \<in> set (db_blocks (working (ses e)))" and "key_uid (blk_uid b)"
    and "stored (cf n) (fs_content (stores e n)) b data"
    and "\<forall>x \<in> set (db_deleted (working (ses e))). key_uid (del_uid x)"
  shows "stored (cf n) (fs_content (stores (snd (cleanup me cf now dt override e)) n)) b data \<and>
         stored (cf n) (fs_content (stores (snd (clean me cf now storage dt override e)) n)) b data"
proof -
  have main: "stored (cf n) (fs_content (stores e' n)) b data"
    if "guarded (on_session (lock me m reason override now)) (on_session (unlock me m)) True (collect cf c sid) e = (r, e')"
    for m reason c sid r e'
    using that
  proof (rule guarded_collect)
    assume "stores e' = stores e" then show ?thesis using assms(4) by simp
  next
    fix s1 r2 e2 assume l: "lock me m reason override now (ses e) = (Inr (), s1)"
      and c: "collect cf c sid (e\<lparr>ses := s1\<rparr>) = (r2, e2)" and "stores e' = stores e2"
    from collect_stored [OF assms(1,3) c] lock_keeps_tables [OF l] assms(2,4,5) this(3) show ?thesis by simp
  qed
  show ?thesis unfolding cleanup_def clean_def Let_def by (intro conjI main [OF surjective_pairing])
qed

definition demo_engine :: "fs \<Rightarrow> engine" where
  "demo_engine f = \<lparr> ses = session_on (demo_db\<lparr>db_blocks := [demo_stored_block 0],
       db_deleted := [\<lparr> del_date = 0, del_storage_id = 1, del_uid = BlockUid (Some 1) (Some 9) \<rparr>],
       db_storages := [\<lparr> sto_id = 1, sto_name = ''s'', sto_module = ''file'' \<rparr>]\<rparr>),
     stores = (\<lambda>_. f) \<rparr>"

lemma demo_engine_simps [simp]:
  "db_blocks (working (ses (demo_engine f))) = [demo_stored_block 0]"
  "db_deleted (working (ses (demo_engine f))) = [\<lparr> del_date = 0, del_storage_id = 1, del_uid = BlockUid (Some 1) (Some 9) \<rparr>]"
  "stores (demo_engine f) n = f"
  by (simp_all add: demo_engine_def)

theorem cleanup_keeps_referenced_blocks_witness:
  "\<exists>f. stored demo_conf (fs_content f) (demo_stored_block 0) [7, 8] \<and>
       stored demo_conf (fs_content (stores (snd (cleanup demo_process (\<lambda>_. demo_conf) 9999 10 False (demo_engine f))) ''s''))
         (demo_stored_block 0) [7, 8]"
proof -
  obtain f where w: "storage_write demo_conf file_backend ''t'' 0 (demo_stored_block 0) [7, 8] demo_fs = (Inr (demo_stored_block 0), f)" "calm f"
    by (rule calm_storage_write [OF good_demo_conf calm_demo_fs, of "demo_stored_block 0"]) (simp_all add: demo_block_facts)
  have st: "stored demo_conf (fs_content f) (demo_stored_block 0) [7, 8]"
    using fobj.write_stores [OF good_demo_conf _ _ _ _ w(1), of "''c''"] by (simp add: demo_block_facts)
  have "key_uid (BlockUid (Some 1) (Some 9))" by (simp add: key_uid_def half_def)
  with cleanup_keeps_referenced_blocks [of "\<lambda>_. demo_conf" "''s''" "demo_stored_block 0" "demo_engine f" "[7, 8]" demo_process 9999 10 False]
    good_demo_conf st show ?thesis by (auto simp: demo_block_facts)
qed

text \<open>C16: When \<open>cleanup\<close> returns, no delete candidate older than the given age is left, and each
  one it consumed is accounted for: a version still refers to the block, or the block's object is gone from its storage.\<close>

theorem cleanup_complete:
  assumes "cleanup me cf now dt override e = (Inr (), e')" and "uid_storage_unique (working (ses e))"
    and "row \<in> set (db_deleted (working (ses e)))" and "del_date row < now - dt"
    and "storage_name (working (ses e)) (del_storage_id row) = Inr n"
    and "block_to_path (md5_hex (cf n)) (del_uid row) = Inr key"
  shows "filter (\<lambda>x. del_date x < now - dt) (db_deleted (committed (ses e'))) = [] \<and>
         (referenced (working (ses e)) (del_uid row) \<or> fs_content (stores e' n) key = None)"
  using assms(1) unfolding cleanup_def
proof (rule guarded_collect)
  fix s1 r2 e2 assume l: "lock me ''cleanup'' (Some ''Cleanup'') override now (ses e) = (Inr (), s1)"
    and c: "collect cf (now - dt) None (e\<lparr>ses := s1\<rparr>) = (r2, e2)" and st: "stores e' = stores e2"
    and "Inr () = Inr () \<Longrightarrow> r2 = Inr () \<and> (\<exists>u. unlock me ''cleanup'' (ses e2) = (Inr u, ses e'))"
  then obtain u where r2: "r2 = Inr ()" and u: "unlock me ''cleanup'' (ses e2) = (Inr u, ses e')" by auto
  note t = lock_keeps_tables [OF l]
  have d: "db_deleted (committed (ses e')) = db_deleted (committed (ses e2))"
    using unlock_ok_tables [OF u] collect_done [OF c [unfolded r2]] by simp
  have none: "filter (\<lambda>x. del_date x < now - dt) (db_deleted (committed (ses e2))) = []"
    using collect_done [OF c [unfolded r2]] by (simp add: delete_candidates_def)
  then have "row \<notin> set (db_deleted (committed (ses e2)))" using assms(4) by (auto simp: filter_empty_conv)
  moreover have "uid_storage_unique s" if "db_deleted s = db_deleted (working (ses e))" for s
    using assms(2) that by (simp only: uid_storage_unique_def)
  ultimately have "referenced (working s1) (del_uid row) \<or> fs_content (stores e2 n) key = None"
    using collect_complete [OF c [unfolded r2], of row n key] t assms(3,5,6) by (simp add: storage_name_def)
  with none d t(1) st show ?thesis by (simp add: referenced_def)
qed simp_all

definition block_key_9 :: string where
  "block_key_9 = ''blocks/ab/cd/0000000000000001-0000000000000009''"

lemma demo_cleanup_run:
  "cleanup demo_process (\<lambda>_. demo_conf) 9999 10 False (demo_engine demo_fs) =
     (Inr (), snd (cleanup demo_process (\<lambda>_. demo_conf) 9999 10 False (demo_engine demo_fs)))"
proof -
  have "fst (cleanup demo_process (\<lambda>_. demo_conf) 9999 10 False (demo_engine demo_fs)) = Inr ()" by code_simp
  then show ?thesis by (metis prod.collapse)
qed

theorem cleanup_complete_witness:
  "fs_content (stores (snd (cleanup demo_process (\<lambda>_. demo_conf) 9999 10 False (demo_engine demo_fs))) ''s'') block_key_9 = None"
proof -
  have "block_to_path (md5_hex demo_conf) (BlockUid (Some 1) (Some 9)) = Inr block_key_9" by code_simp
  with cleanup_complete [OF demo_cleanup_run, of "\<lparr> del_date = 0, del_storage_id = 1, del_uid = BlockUid (Some 1) (Some 9) \<rparr>" "''s''" block_key_9]
  show ?thesis
    by (auto simp: uid_storage_unique_def storage_name_def referenced_def demo_engine_def demo_stored_block_def)
qed

text \<open>A removal that fails makes \<open>cleanup\<close> raise, but releasing the lock on the way out commits the pending
  deletion of the delete candidates: the block's object is still in the storage and no candidate refers to it any more,
  so no later run will remove it.\<close>

theorem cleanup_failure_loses_candidates:
  "\<exists>f. (case cleanup demo_process (\<lambda>_. demo_conf) 9999 10 False (demo_engine f) of
      (r, e') \<Rightarrow> r = Inl OSError \<and> db_deleted (committed (ses e')) = [] \<and>
                fs_content (stores e' ''s'') block_key_9 = Some [1])"
proof -
  let ?f = "\<lparr> fs_files = [(block_key_9, [1])], fs_fault = (\<lambda>_. Some 0), fs_tick = 0 \<rparr>"
  have "fst (cleanup demo_process (\<lambda>_. demo_conf) 9999 10 False (demo_engine ?f)) = Inl OSError"
    by code_simp
  moreover have "db_deleted (committed (ses (snd (cleanup demo_process (\<lambda>_. demo_conf) 9999 10 False (demo_engine ?f))))) = []"
    by code_simp
  moreover have "fs_content (stores (snd (cleanup demo_process (\<lambda>_. demo_conf) 9999 10 False (demo_engine ?f))) ''s'') block_key_9 = Some [1]"
    by code_simp
  ultimately show ?thesis by (intro exI [of _ ?f]) (simp add: case_prod_beta)
qed
end
