(* ===== verification/Hints.thy ===== *)
theory Hints
  imports Benji_Types
begin

text \<open>
  Hints about the source of a backup: \<open>hints_from_rbd_diff\<close> of \<open>utils.py\<close> and \<open>Benji._blocks_from_hints\<close> of
  \<open>benji.py\<close>. A hint \<open>(offset, length, exists)\<close> says that a byte range holds data or is a hole.
\<close>

type_synonym hint = "int \<times> int \<times> bool"

text \<open>The value of the key \<open>exists\<close> of a diff entry: a JSON string or a boolean.\<close>

datatype exists_value = ExStr string | ExBool bool

definition exists_flag :: "exists_value \<Rightarrow> bool" where
  "exists_flag x =
     (case x of ExStr s \<Rightarrow> \<not> (s = ''false'' \<or> s = []) | ExBool b \<Rightarrow> \<not> \<not> b)"

definition hints_from_rbd_diff :: "(int \<times> int \<times> exists_value) list \<Rightarrow> hint list" where
  "hints_from_rbd_diff data = map (\<lambda>(off, len, x). (off, len, exists_flag x)) data"

text \<open>The two sets grow hint by hint; sets are lists here, read through membership.\<close>

fun hint_step :: "int \<Rightarrow> hint \<Rightarrow> int list \<times> int list \<Rightarrow> int list \<times> int list" where
  "hint_step bs (off, len, ex) (sparse, rd) =
     (let start_block = off div bs; end_block = (off + len - 1) div bs in
      if ex then (sparse, rd @ py_range start_block (end_block + 1))
      else
        (sparse @ py_range start_block (end_block + 1),
         rd @ (if off mod bs > 0 then [start_block] else [])
            @ (if (off + len) mod bs > 0 then [end_block] else [])))"

definition blocks_from_hints :: "hint list \<Rightarrow> int \<Rightarrow> int list \<times> int list" where
  "blocks_from_hints hints bs = fold (hint_step bs) hints ([], [])"

definition hint_sparse :: "int \<Rightarrow> hint \<Rightarrow> int \<Rightarrow> bool" where
  "hint_sparse bs h i \<longleftrightarrow> (case h of (off, len, ex) \<Rightarrow> \<not> ex \<and> off div bs \<le> i \<and> i \<le> (off + len - 1) div bs)"

definition hint_read :: "int \<Rightarrow> hint \<Rightarrow> int \<Rightarrow> bool" where
  "hint_read bs h i \<longleftrightarrow> (case h of (off, len, ex) \<Rightarrow>
     if ex then off div bs \<le> i \<and> i \<le> (off + len - 1) div bs
     else off mod bs > 0 \<and> i = off div bs \<or> (off + len) mod bs > 0 \<and> i = (off + len - 1) div bs)"

lemma fold_hints:
  "set (fst (fold (hint_step bs) hints (sp, rd))) = set sp \<union> {i. \<exists>h \<in> set hints. hint_sparse bs h i}"
  "set (snd (fold (hint_step bs) hints (sp, rd))) = set rd \<union> {i. \<exists>h \<in> set hints. hint_read bs h i}"
proof (induction hints arbitrary: sp rd)
  case (Cons h hints)
  obtain off len ex where h: "h = (off, len, ex)" by (cases h) auto
  { case 1 show ?case unfolding fold.simps comp_apply
      by (simp add: h Cons.IH Let_def hint_sparse_def) auto }
  { case 2 show ?case unfolding fold.simps comp_apply
      by (simp add: h Cons.IH Let_def hint_read_def) auto }
qed simp_all

lemma blocks_from_hints_sets:
  assumes "blocks_from_hints hints bs = (sparse, rd)"
  shows "i \<in> set sparse \<longleftrightarrow> (\<exists>h \<in> set hints. hint_sparse bs h i)"
    and "i \<in> set rd \<longleftrightarrow> (\<exists>h \<in> set hints. hint_read bs h i)"
  using fold_hints [of bs hints "[]" "[]"] assms by (simp_all add: blocks_from_hints_def)

lemma hint_hole_covers:
  assumes "0 < bs" and "hint_sparse bs (off, len, ex) i" and "\<not> hint_read bs (off, len, ex) i"
  shows "\<not> ex \<and> off \<le> i * bs \<and> (i + 1) * bs \<le> off + len"
proof -
  have ex: "\<not> ex" and r: "off div bs \<le> i" "i \<le> (off + len - 1) div bs"
    and n: "off mod bs > 0 \<longrightarrow> i \<noteq> off div bs" "(off + len) mod bs > 0 \<longrightarrow> i \<noteq> (off + len - 1) div bs"
    using assms(2,3) by (auto simp: hint_sparse_def hint_read_def)
  have m: "0 \<le> off mod bs" "off mod bs < bs" "0 \<le> (off + len) mod bs" "(off + len) mod bs < bs"
    using assms(1) by simp_all
  have o: "off = off div bs * bs + off mod bs" by simp
  have "off \<le> i * bs"
  proof (cases "i = off div bs")
    case True
    then have "off mod bs = 0" using n(1) m(1) by linarith
    then show ?thesis using o True by simp
  next
    case False
    then have "(off div bs + 1) * bs \<le> i * bs" using r(1) assms(1) by (intro mult_right_mono) auto
    then have "off div bs * bs + bs \<le> i * bs" by (simp add: distrib_right)
    then show ?thesis using o m(2) by linarith
  qed
  moreover have "(i + 1) * bs \<le> off + len"
  proof (cases "i = (off + len - 1) div bs")
    case True
    then have z: "(off + len) mod bs = 0" using n(2) m(3) by linarith
    define q where "q = (off + len) div bs"
    have q: "off + len = q * bs" using z by (metis add.right_neutral mult.commute mult_div_mod_eq q_def)
    have "(off + len - 1) div bs = q - 1"
      by (rule int_div_pos_eq [where r = "bs - 1"]) (use assms(1) q in \<open>auto simp: algebra_simps\<close>)
    then show ?thesis using q True by simp
  next
    case False
    then have "i + 1 \<le> (off + len - 1) div bs" using r(2) by simp
    then have "(i + 1) * bs \<le> (off + len - 1) div bs * bs" using assms(1) by (intro mult_right_mono) auto
    also have "\<dots> \<le> off + len - 1"
      using div_mult_mod_eq [of "off + len - 1" bs] pos_mod_sign [OF assms(1), of "off + len - 1"] by linarith
    finally show ?thesis by simp
  qed
  ultimately show ?thesis using ex by simp
qed

text \<open>A block the backup declares sparse without reading it (in the sparse set and not in the read set) lies entirely
  inside a hole some hint reports, and every byte a hint reports as data lies in a block that is read.\<close>

theorem hints_are_respected:
  assumes "0 < bs" and "blocks_from_hints hints bs = (sparse, rd)"
  shows "(\<forall>i. i \<in> set sparse \<and> i \<notin> set rd \<longrightarrow>
           (\<exists>off len. (off, len, False) \<in> set hints \<and> off \<le> i * bs \<and> (i + 1) * bs \<le> off + len)) \<and>
         (\<forall>off len p. (off, len, True) \<in> set hints \<and> off \<le> p \<and> p < off + len \<longrightarrow> p div bs \<in> set rd)"
proof (intro conjI allI impI)
  fix i assume i: "i \<in> set sparse \<and> i \<notin> set rd"
  then obtain h where h: "h \<in> set hints" "hint_sparse bs h i" "\<not> hint_read bs h i"
    using blocks_from_hints_sets [OF assms(2)] by blast
  obtain off len ex where "h = (off, len, ex)" by (cases h) auto
  with h hint_hole_covers [OF assms(1), of off len ex i]
  show "\<exists>off len. (off, len, False) \<in> set hints \<and> off \<le> i * bs \<and> (i + 1) * bs \<le> off + len" by auto
next
  fix off len p assume p: "(off, len, True) \<in> set hints \<and> off \<le> p \<and> p < off + len"
  then have "off div bs \<le> p div bs" "p div bs \<le> (off + len - 1) div bs" using assms(1) by (auto intro: zdiv_mono1)
  with p show "p div bs \<in> set rd"
    unfolding blocks_from_hints_sets(2) [OF assms(2)] by (intro bexI [of _ "(off, len, True)"]) (simp_all add: hint_read_def)
qed

theorem hints_are_respected_witness:
  "\<exists>off len. (off, len, False) \<in> set [(1 :: int, 20 :: int, False), (30, 2, True)] \<and> off \<le> 1 * 8 \<and> (1 + 1) * 8 \<le> off + len"
proof -
  have "blocks_from_hints [(1, 20, False), (30, 2, True)] 8 = ([0, 1, 2], [0, 2, 3])" by code_simp
  from hints_are_respected [OF _ this] show ?thesis by simp
qed

end
