(* ===== verification/File_IO.thy ===== *)
theory File_IO
  imports Storage
begin

text \<open>
  \<open>io/file.py\<close>: the source of a backup and the target of a restore as a file. A block is read and written at the offset
  \<open>idx * block_size\<close>. A target is \<open>None\<close> while the file does not exist.
\<close>

definition io_size :: "bytes \<Rightarrow> int" where
  "io_size src = int (length src)"

text \<open>\<open>f.read(n)\<close> returns what is there; only an empty result is an error.\<close>

definition io_read :: "int \<Rightarrow> bytes \<Rightarrow> block \<Rightarrow> (block \<times> bytes) res" where
  "io_read block_size src b =
     (let off = nat (blk_idx b * block_size); data = py_slice off (off + nat (blk_size b)) src
      in if data = [] then Inl EOFError else Inr (b, data))"

text \<open>\<open>seek(size - 1)\<close> with size 0 is an invalid argument.\<close>

definition io_open_w :: "int \<Rightarrow> bool \<Rightarrow> bytes option \<Rightarrow> bytes res" where
  "io_open_w sz force target =
     (case target of
        Some t \<Rightarrow>
          if \<not> force then Inl FileExistsError
          else if sz > io_size t then Inl OSError else Inr t
      | None \<Rightarrow> if sz \<le> 0 then Inl OSError else Inr (replicate (nat sz) 0))"

text \<open>Writing beyond the end fills the gap with zeros.\<close>

definition write_at :: "nat \<Rightarrow> 'a::zero list \<Rightarrow> 'a list \<Rightarrow> 'a list" where
  "write_at off data t =
     (let t' = t @ replicate (off - length t) 0 in take off t' @ data @ drop (off + length data) t')"

definition io_write :: "int \<Rightarrow> block \<Rightarrow> bytes \<Rightarrow> bytes \<Rightarrow> bytes" where
  "io_write block_size b data t = write_at (nat (blk_idx b * block_size)) data t"

lemma length_write_at: "length (write_at off d t) = max (length t) (off + length d)"
  by (auto simp: write_at_def Let_def)

lemma nth_write_at:
  assumes "off + length d \<le> length t" and "k < length t"
  shows "write_at off d t ! k = (if off \<le> k \<and> k < off + length d then d ! (k - off) else t ! k)"
  using assms by (auto simp: write_at_def Let_def nth_append)

text \<open>Reading back what was written, and what another block's write leaves alone.\<close>

lemma slice_write_at_same:
  "off + length d \<le> length t \<Longrightarrow> py_slice off (off + length d) (write_at off d t) = d"
  by (simp add: write_at_def Let_def py_slice_def)

lemma slice_write_at_other:
  assumes "off + length d \<le> length t" and "a + l \<le> length t" and "a + l \<le> off \<or> off + length d \<le> a"
  shows "py_slice a (a + l) (write_at off d t) = py_slice a (a + l) t"
proof (rule nth_equalityI)
  show "length (py_slice a (a + l) (write_at off d t)) = length (py_slice a (a + l) t)"
    using assms by (simp add: length_write_at)
  fix k assume "k < length (py_slice a (a + l) (write_at off d t))"
  then have k: "k < l" "a + k < length t" using assms by (auto simp: length_write_at)
  then show "py_slice a (a + l) (write_at off d t) ! k = py_slice a (a + l) t ! k"
    using assms by (auto simp: py_slice_def nth_write_at length_write_at)
qed

end
