(* ===== verification/Backup.thy ===== *)
theory Backup
  imports Cleanup Hints File_IO
begin

text \<open>
  \<open>Benji.update_version\<close>, \<open>Benji.backup\<close> and \<open>Benji.metadata_backup\<close> of \<open>benji.py\<close>.

  Reads of the source and writes to the storage are jobs of thread pools whose results arrive in any order. The order is the
  parameter \<open>sched\<close>: in which order the queued reads complete, which of the pending writes have completed at each
  poll, and in which order the rest completes when the code waits for all of them. A write runs when its result is
  taken; nothing reads the storage meanwhile. The source does not change during the backup.
\<close>

record sched =
  read_order :: "block list \<Rightarrow> block list"
  poll_writes :: "nat \<Rightarrow> (block \<times> bytes) list \<Rightarrow> (block \<times> bytes) list \<times> (block \<times> bytes) list"
  wait_writes :: "(block \<times> bytes) list \<Rightarrow> (block \<times> bytes) list"

definition fair_sched :: "sched \<Rightarrow> bool" where
  "fair_sched sc \<longleftrightarrow>
     (\<forall>xs. mset (read_order sc xs) = mset xs) \<and>
     (\<forall>k xs. mset (fst (poll_writes sc k xs)) + mset (snd (poll_writes sc k xs)) = mset xs) \<and>
     (\<forall>xs. mset (wait_writes sc xs) = mset xs)"

text \<open>
  The process, the storage configurations, the block hash of \<open>utils.BlockHash\<close>, the clock, the sample of the sanity check
  (\<open>random.sample\<close>) and the JSON text \<open>Database.export\<close> produces for a version.
\<close>

record env =
  env_me :: process
  env_cf :: "string \<Rightarrow> storage_conf"
  env_hash :: "bytes \<Rightarrow> string"
  env_now :: int
  env_timestamp :: string
  env_sample :: "int list \<Rightarrow> nat \<Rightarrow> int list"
  env_export :: "version \<Rightarrow> database \<Rightarrow> string"
  env_sched :: sched

section \<open>Preparing the version\<close>

text \<open>The rows of the new version, index by index, from the blocks of the base version while there are any.\<close>

fun prepare_rows :: "version \<Rightarrow> int list \<Rightarrow> block list \<Rightarrow> block list res" where
  "prepare_rows v [] olds = Inr []"
| "prepare_rows v (i # is) olds =
     (let sz = min (ver_block_size v) (ver_size v - i * ver_block_size v);
          row = (\<lambda>uid cs bsz vld.
            if bsz \<noteq> sz then \<lparr> blk_version_id = ver_id v, blk_idx = i, blk_uid = SparseBlockUid, blk_checksum = None,
                                 blk_size = sz, blk_valid = False \<rparr>
            else \<lparr> blk_version_id = ver_id v, blk_idx = i, blk_uid = uid, blk_checksum = cs, blk_size = bsz, blk_valid = vld \<rparr>)
      in case olds of
           [] \<Rightarrow> bind_res (prepare_rows v is []) (\<lambda>rs. Inr (row SparseBlockUid None (ver_block_size v) True # rs))
         | b # bs \<Rightarrow>
             if blk_idx b \<noteq> i then Inl AssertionError
             else bind_res (prepare_rows v is bs) (\<lambda>rs. Inr (row (blk_uid b) (blk_checksum b) (blk_size b) (blk_valid b) # rs)))"

text \<open>\<open>create_blocks\<close> per work package of 10000 rows, then once for the rest.\<close>

function create_packages :: "nat \<Rightarrow> version \<Rightarrow> block list \<Rightarrow> (exn, session, unit) py" where
  "create_packages k v rows s =
     (if k = 0 \<or> length rows < k then create_blocks v rows s
      else (case create_blocks v (take k rows) s of
          (Inl e, s1) \<Rightarrow> (Inl e, s1)
        | (Inr _, s1) \<Rightarrow> create_packages k v (drop k rows) s1))"
  by pat_completeness auto
termination by (relation "measure (\<lambda>(k, v, rows, s). length rows)") auto

declare create_packages.simps [simp del]

definition set_version_size :: "version \<Rightarrow> database \<Rightarrow> database" where
  "set_version_size v d =
     d\<lparr>db_versions := map (\<lambda>w. if ver_id w = ver_id v
        then w\<lparr>ver_size := ver_size v, ver_block_size := ver_block_size v\<rparr> else w) (db_versions d)\<rparr>"

text \<open>The checks on the base version.\<close>

definition check_base :: "version \<Rightarrow> int \<Rightarrow> string \<Rightarrow> session \<Rightarrow> version res" where
  "check_base v block_size base s =
     bind_res (get_by_uid base (working s)) (\<lambda>old.
       if \<not> is_valid (ver_status old) then Inl UsageError
       else if ver_block_size old \<noteq> block_size then Inl UsageError
       else if ver_storage_id old \<noteq> ver_storage_id v then Inl UsageError
       else Inr old)"

definition unlock_if_locked :: "process \<Rightarrow> string \<Rightarrow> (exn, session, unit) py" where
  "unlock_if_locked me uid s = (if is_version_locked uid s then unlock_version me uid s else (Inr (), s))"

definition update_version :: "env \<Rightarrow> version \<Rightarrow> int \<Rightarrow> int \<Rightarrow> string option \<Rightarrow> (exn, session, version) py" where
  "update_version E v block_size sz base =
     bindS (case base of
         None \<Rightarrow> returnS None
       | Some b \<Rightarrow> (\<lambda>s. (map_sum id Some (check_base v block_size b s), s))) (\<lambda>old.
     let v' = v\<lparr>ver_size := sz, ver_block_size := block_size\<rparr>; me = env_me E in
     thenS (\<lambda>s. (Inr (), update_db (set_version_size v') s))
     (finallyS
       (exceptS
         (thenS (case base of Some b \<Rightarrow> lock_version me b (Some ''Base version cloning'') False (env_now E) | None \<Rightarrow> returnS ())
         (thenS (lock_version me (ver_uid v) (Some ''Preparing version'') False (env_now E))
         (bindS (\<lambda>s. (prepare_rows v' (py_range 0 (blocks_count v')) (case old of Some w \<Rightarrow> blocks w (working s) | None \<Rightarrow> []), s)) (\<lambda>rows.
          thenS (create_packages 10000 v' rows)
          (\<lambda>s. (Inr v', commit s))))))
         (\<lambda>e. thenS (unlock_if_locked me (ver_uid v)) (raiseS e)))
       (case base of Some b \<Rightarrow> unlock_if_locked me b | None \<Rightarrow> returnS ())))"

section \<open>Copying the blocks\<close>

record bk =
  bk_eng :: engine
  bk_pending :: "(block \<times> bytes) list"
  bk_polls :: nat
  bk_done_read :: nat
  bk_write_jobs :: nat
  bk_done_write :: nat
  bk_bytes_read :: int
  bk_bytes_written :: int
  bk_bytes_deduplicated :: int
  bk_bytes_sparse :: int

abbreviation bk_db :: "bk \<Rightarrow> database" where
  "bk_db k \<equiv> working (ses (bk_eng k))"

definition bk_set_block :: "version \<Rightarrow> int \<Rightarrow> block_uid \<Rightarrow> string option \<Rightarrow> int \<Rightarrow> bool \<Rightarrow> bk \<Rightarrow> bk" where
  "bk_set_block v i uid cs sz vld k = k\<lparr>bk_eng := (bk_eng k)\<lparr>ses := set_block v i uid cs sz vld (ses (bk_eng k))\<rparr>\<rparr>"

text \<open>The loop over \<open>version.blocks\<close> that queues reads and declares hinted holes sparse.\<close>

fun queue_blocks :: "version \<Rightarrow> (int \<Rightarrow> bool) \<Rightarrow> (int \<Rightarrow> bool) \<Rightarrow> block list \<Rightarrow> bk \<Rightarrow> block list res \<times> bk" where
  "queue_blocks v in_sparse in_read [] k = (Inr [], k)"
| "queue_blocks v in_sparse in_read (b # bs) k =
     (if in_read (blk_idx b) \<or> \<not> blk_valid b then
        (case queue_blocks v in_sparse in_read bs k of (Inl e, k') \<Rightarrow> (Inl e, k') | (Inr q, k') \<Rightarrow> (Inr (b # q), k'))
      else if in_sparse (blk_idx b) then
        (if uid_bool (blk_uid b) then
           queue_blocks v in_sparse in_read bs
             ((bk_set_block v (blk_idx b) SparseBlockUid None (blk_size b) True k)
                \<lparr>bk_bytes_sparse := bk_bytes_sparse k + blk_size b\<rparr>)
         else if blk_checksum b \<noteq> None then (Inl AssertionError, k)
         else queue_blocks v in_sparse in_read bs (k\<lparr>bk_bytes_sparse := bk_bytes_sparse k + blk_size b\<rparr>))
      else queue_blocks v in_sparse in_read bs k)"

text \<open>A completed write: the storage job's result is taken and recorded in the database.\<close>

definition finish_write :: "env \<Rightarrow> string \<Rightarrow> version \<Rightarrow> block \<times> bytes \<Rightarrow> (exn, bk, unit) py" where
  "finish_write E n v job k =
     (case job of (b, data) \<Rightarrow>
      case storage_write (env_cf E n) file_backend (env_timestamp E) (bk_done_write k) b data (stores (bk_eng k) n) of
        (r, f) \<Rightarrow>
          let k1 = k\<lparr>bk_eng := (bk_eng k)\<lparr>stores := (stores (bk_eng k))(n := f)\<rparr>\<rparr> in
          (case r of
             Inl e \<Rightarrow> (Inl e, k1)
           | Inr w \<Rightarrow>
               if blk_version_id w \<noteq> ver_id v then (Inl AssertionError, k1)
               else (Inr (), (bk_set_block v (blk_idx w) (blk_uid w) (blk_checksum w) (blk_size w) True k1)
                       \<lparr>bk_done_write := bk_done_write k + 1, bk_bytes_written := bk_bytes_written k + blk_size w\<rparr>)))"

text \<open>One result of \<open>io.read_get_completed()\<close>: sparse, known or new.\<close>

definition take_block :: "env \<Rightarrow> version \<Rightarrow> block \<Rightarrow> bytes \<Rightarrow> bk \<Rightarrow> bk" where
  "take_block E v b data k0 =
     (let k = k0\<lparr>bk_bytes_read := bk_bytes_read k0 + int (length data)\<rparr>;
          cs = env_hash E data
      in if cs = env_hash E (replicate (nat (ver_block_size v)) 0) \<and> blk_size b = ver_block_size v then
           (bk_set_block v (blk_idx b) SparseBlockUid None (blk_size b) True k)
             \<lparr>bk_bytes_sparse := bk_bytes_sparse k + blk_size b\<rparr>
         else
           (case get_block_by_checksum v (Some cs) (bk_db k) of
              Some ex \<Rightarrow>
                if blk_size ex = blk_size b then
                  (bk_set_block v (blk_idx b) (blk_uid ex) (blk_checksum ex) (blk_size ex) True k)
                    \<lparr>bk_bytes_deduplicated := bk_bytes_deduplicated k + int (length data)\<rparr>
                else k\<lparr>bk_pending := bk_pending k @ [(b\<lparr>blk_uid := BlockUid (Some (ver_id v)) (Some (blk_idx b + 1)),
                         blk_checksum := Some cs\<rparr>, data)], bk_write_jobs := bk_write_jobs k + 1\<rparr>
            | None \<Rightarrow> k\<lparr>bk_pending := bk_pending k @ [(b\<lparr>blk_uid := BlockUid (Some (ver_id v)) (Some (blk_idx b + 1)),
                         blk_checksum := Some cs\<rparr>, data)], bk_write_jobs := bk_write_jobs k + 1\<rparr>))"

definition poll :: "env \<Rightarrow> string \<Rightarrow> version \<Rightarrow> (exn, bk, unit) py" where
  "poll E n v k =
     (case poll_writes (env_sched E) (bk_polls k) (bk_pending k) of
        (done, later) \<Rightarrow> for_each (finish_write E n v) done (k\<lparr>bk_pending := later, bk_polls := bk_polls k + 1\<rparr>))"

definition copy_block :: "env \<Rightarrow> string \<Rightarrow> version \<Rightarrow> bytes \<Rightarrow> block \<Rightarrow> (exn, bk, unit) py" where
  "copy_block E n v src b k =
     (case io_read (ver_block_size v) src b of
        Inl e \<Rightarrow> (Inl e, k)
      | Inr (b', data) \<Rightarrow>
          let k1 = take_block E v b' data k in poll E n v (k1\<lparr>bk_done_read := bk_done_read k1 + 1\<rparr>))"

definition drain :: "env \<Rightarrow> string \<Rightarrow> version \<Rightarrow> (exn, bk, unit) py" where
  "drain E n v k =
     for_each (finish_write E n v) (wait_writes (env_sched E) (bk_pending k)) (k\<lparr>bk_pending := []\<rparr>)"

text \<open>The \<open>try\<close> block of \<open>do_create_backup\<close>; the result is the number of queued reads.\<close>

definition copy_blocks :: "env \<Rightarrow> string \<Rightarrow> version \<Rightarrow> bytes \<Rightarrow> (int \<Rightarrow> bool) \<Rightarrow> (int \<Rightarrow> bool) \<Rightarrow> (exn, bk, nat) py" where
  "copy_blocks E n v src in_sparse in_read k =
     (case queue_blocks v in_sparse in_read (blocks v (bk_db k)) k of
        (Inl e, k1) \<Rightarrow> (Inl e, k1)
      | (Inr queue, k1) \<Rightarrow>
          bindS (thenS (for_each (copy_block E n v src) (read_order (env_sched E) queue)) (drain E n v))
            (\<lambda>_. returnS (length queue)) k1)"

section \<open>The backup\<close>

definition storage_name_of :: "database \<Rightarrow> version \<Rightarrow> string res" where
  "storage_name_of d v = storage_name d (ver_storage_id v)"

definition empty_bk :: "engine \<Rightarrow> bk" where
  "empty_bk e = \<lparr> bk_eng = e, bk_pending = [], bk_polls = 0, bk_done_read = 0, bk_write_jobs = 0, bk_done_write = 0,
     bk_bytes_read = 0, bk_bytes_written = 0, bk_bytes_deduplicated = 0, bk_bytes_sparse = 0 \<rparr>"

text \<open>Which blocks to read: the hints are refused when they reach beyond the source.\<close>

definition choose_blocks :: "version \<Rightarrow> int \<Rightarrow> hint list option \<Rightarrow> (int list \<times> int list) res" where
  "choose_blocks v src_size hints =
     (case hints of
        None \<Rightarrow> Inr ([], py_range 0 (blocks_count v))
      | Some [] \<Rightarrow> Inr ([], [])
      | Some hs \<Rightarrow>
          if (\<exists>(off, len, ex) \<in> set hs. off + len > src_size) then Inl InputDataError
          else Inr (blocks_from_hints hs (ver_block_size v)))"

text \<open>The sanity check of the blocks outside the hints; a mismatch removes the version.\<close>

definition check_ignored :: "env \<Rightarrow> version \<Rightarrow> bytes \<Rightarrow> int list \<Rightarrow> int list \<Rightarrow> database \<Rightarrow> bool res" where
  "check_ignored E v src sparse rd d =
     (let ignored = filter (\<lambda>i. i \<notin> set rd \<and> i \<notin> set sparse) (py_range 0 (blocks_count v));
          cnt = max (min (length ignored) 10) (length ignored div 1000);
          idxs = remdups (take (cnt div 2) ignored @ env_sample E ignored (cnt div 2));
          bs = filter (\<lambda>b. uid_bool (blk_uid b) \<and> blk_valid b) (map (\<lambda>i. get_block_by_idx v i d) idxs)
      in bind_res (map_res (io_read (ver_block_size v) src) (read_order (env_sched E) bs)) (\<lambda>entries.
           Inr (\<forall>(b, data) \<in> set entries. blk_checksum b = Some (env_hash E data))))"

definition sanity_check :: "env \<Rightarrow> version \<Rightarrow> bytes \<Rightarrow> int list \<Rightarrow> int list \<Rightarrow> (exn, engine, unit) py" where
  "sanity_check E v src sparse rd e =
     (case check_ignored E v src sparse rd (working (ses e)) of
        Inl x \<Rightarrow> (Inl x, e)
      | Inr same \<Rightarrow>
          if same then (Inr (), e)
          else thenS (on_session (thenS (\<lambda>s. (Inr (), snd (remove (env_now E) v s))) (unlock_version (env_me E) (ver_uid v))))
                 (raiseS InputDataError) e)"

definition metadata_backup :: "env \<Rightarrow> string \<Rightarrow> version \<Rightarrow> (exn, engine, unit) py" where
  "metadata_backup E n v e =
     (case get_by_uid (ver_uid v) (working (ses e)) of
        Inl x \<Rightarrow> (Inl x, e)
      | Inr w \<Rightarrow>
          on_store n (write_version (env_cf E n) file_backend (env_timestamp E) 0 (ver_uid w)
            (env_export E w (working (ses e))) True) e)"

text \<open>The part after the \<open>try\<close> statement; the result is the final state of the counters.\<close>

definition conclude :: "env \<Rightarrow> string \<Rightarrow> version \<Rightarrow> nat \<Rightarrow> bk \<Rightarrow> (exn, engine, unit) py" where
  "conclude E n v read_jobs k =
     (if read_jobs \<noteq> bk_done_read k then raiseS InternalError
      else if bk_write_jobs k \<noteq> bk_done_write k then raiseS InternalError
      else
        thenS (on_session (\<lambda>s. (Inr (), set_version v (Some valid) None s)))
        (thenS (metadata_backup E n v)
        (thenS (on_session (\<lambda>s. (Inr (), set_stats v (bk_bytes_read k) (bk_bytes_written k) (bk_bytes_deduplicated k)
                                   (bk_bytes_sparse k) 0 s)))
         (on_session (unlock_version (env_me E) (ver_uid v))))))"

definition do_create_backup :: "env \<Rightarrow> version \<Rightarrow> bytes \<Rightarrow> hint list option \<Rightarrow> string option \<Rightarrow> (exn, engine, unit) py" where
  "do_create_backup E v src hints base =
     thenS (on_session (update_version_lock (env_me E) (ver_uid v) (Some ''Backing up'')))
     (bindS (liftS (choose_blocks v (io_size src) hints)) (\<lambda>(sparse, rd).
      thenS (if base \<noteq> None \<and> hints \<noteq> None then sanity_check E v src sparse rd else returnS ())
      (\<lambda>e.
        case storage_name_of (working (ses e)) v of
          Inl x \<Rightarrow> thenS (on_session (unlock_version (env_me E) (ver_uid v))) (raiseS x) e
        | Inr n \<Rightarrow>
            (case copy_blocks E n v src (\<lambda>i. i \<in> set sparse) (\<lambda>i. i \<in> set rd) (empty_bk e) of
               (Inl x, k) \<Rightarrow>
                 (case on_session (unlock_version (env_me E) (ver_uid v)) (bk_eng k) of
                    (Inl x', e1) \<Rightarrow> (Inl x', e1\<lparr>ses := commit (ses e1)\<rparr>)
                  | (Inr _, e1) \<Rightarrow> (Inl x, e1\<lparr>ses := commit (ses e1)\<rparr>))
             | (Inr read_jobs, k) \<Rightarrow>
                 conclude E n v read_jobs k ((bk_eng k)\<lparr>ses := commit (ses (bk_eng k))\<rparr>)))))"

definition backup :: "env \<Rightarrow> int \<Rightarrow> version \<Rightarrow> bytes \<Rightarrow> hint list option \<Rightarrow> string option \<Rightarrow> (exn, engine, version) py" where
  "backup E default_block_size v src hints base =
     (let bs = (if ver_block_size v \<noteq> 0 then ver_block_size v else default_block_size) in
      bindS (on_session (update_version E v bs (io_size src) base)) (\<lambda>v'.
      thenS (do_create_backup E v' src hints base) (returnS v')))"

end
