(* ===== verification/Backup_Correct.thy ===== *)
theory Backup_Correct
  imports Backup
begin

text \<open>
  The copy loop of a backup is correct for every order in which reads and writes complete: an invariant over the
  blocks still to be read and the writes in flight.
\<close>

section \<open>What a row promises\<close>

text \<open>The bytes of the source that belong to an index.\<close>

definition source_block :: "version \<Rightarrow> bytes \<Rightarrow> int \<Rightarrow> bytes" where
  "source_block v src i = py_slice (nat (i * ver_block_size v)) (nat (i * ver_block_size v) + nat (ver_block_size v)) src"

text \<open>A row with a UID promises an intact object with the data, a row without one zeros.\<close>

definition block_holds :: "(bytes \<Rightarrow> string) \<Rightarrow> storage_conf \<Rightarrow> fs \<Rightarrow> block \<Rightarrow> bytes \<Rightarrow> bool" where
  "block_holds hash cf f b data \<longleftrightarrow> blk_size b = int (length data) \<and>
     (if uid_bool (blk_uid b)
      then key_uid (blk_uid b) \<and> stored cf (fs_content f) b data \<and> blk_checksum b = Some (hash data)
      else set data \<subseteq> {0})"

text \<open>
  Deduplication looks at every valid row with a checksum in the same storage: each must be backed by an object whose
  data is in \<open>U\<close>, the set of data on which the hash has no collisions.
\<close>

definition sound_rows :: "(bytes \<Rightarrow> string) \<Rightarrow> storage_conf \<Rightarrow> bytes set \<Rightarrow> version \<Rightarrow> fs \<Rightarrow> database \<Rightarrow> bool" where
  "sound_rows hash cf U v f d \<longleftrightarrow>
     (\<forall>r \<in> set (db_blocks d). blk_valid r \<longrightarrow> blk_checksum r \<noteq> None \<longrightarrow>
        (\<exists>w \<in> set (db_versions d). ver_id w = blk_version_id r \<and> ver_storage_id w = ver_storage_id v) \<longrightarrow>
        uid_bool (blk_uid r) \<and> (\<exists>data \<in> U. block_holds hash cf f r data))"

text \<open>The UID a new block of the version gets.\<close>

definition new_uid :: "version \<Rightarrow> int \<Rightarrow> block_uid" where
  "new_uid v i = BlockUid (Some (ver_id v)) (Some (i + 1))"

definition no_uid :: "version \<Rightarrow> int set \<Rightarrow> database \<Rightarrow> bool" where
  "no_uid v I d \<longleftrightarrow> (\<forall>r \<in> set (db_blocks d). \<forall>i \<in> I. blk_uid r \<noteq> new_uid v i)"

lemma stored_cong:
  "blk_uid b = blk_uid c \<Longrightarrow> blk_size b = blk_size c \<Longrightarrow> blk_checksum b = blk_checksum c \<Longrightarrow>
     stored cf m b data = stored cf m c data"
  by (simp add: stored_def check_block_metadata_def)

lemma block_holds_cong:
  "blk_uid b = blk_uid c \<Longrightarrow> blk_size b = blk_size c \<Longrightarrow> blk_checksum b = blk_checksum c \<Longrightarrow>
     block_holds hash cf f b data = block_holds hash cf f c data"
  using stored_cong [of b c cf] by (simp add: block_holds_def)

lemma rows_put_block:
  "r \<in> set (db_blocks (put_block v i uid cs sz vld d)) \<Longrightarrow> r \<in> set (db_blocks d) \<or>
     r = \<lparr> blk_version_id = ver_id v, blk_idx = i, blk_uid = uid, blk_checksum = cs, blk_size = sz, blk_valid = vld \<rparr>"
  by (auto simp: put_block_def Let_def split: option.splits if_splits)

lemma rows_set_block:
  "r \<in> set (db_blocks (working (set_block v i uid cs sz vld s))) \<Longrightarrow> r \<in> set (db_blocks (working s)) \<or>
     r = \<lparr> blk_version_id = ver_id v, blk_idx = i, blk_uid = uid, blk_checksum = cs, blk_size = sz, blk_valid = vld \<rparr>"
  using rows_put_block by (fastforce simp: set_block_def Let_def delete_block_def split: if_splits)

lemma versions_set_block [simp]: "db_versions (working (set_block v i uid cs sz vld s)) = db_versions (working s)"
  by (simp add: set_block_def Let_def put_block_def delete_block_def split: option.splits)

lemma storages_set_block [simp]: "db_storages (working (set_block v i uid cs sz vld s)) = db_storages (working s)"
  by (simp add: set_block_def Let_def put_block_def delete_block_def split: option.splits)

lemma row_of_get: "uid_bool (blk_uid (get_block_by_idx v i d)) \<Longrightarrow> get_block_by_idx v i d \<in> set (db_blocks d)"
  by (auto simp: get_block_by_idx_def create_sparse_block_def dest: query_blockD split: option.splits)

text \<open>Setting a row to something that is backed keeps every row backed.\<close>

lemma sound_set_block:
  assumes "sound_rows hash cf U v f (working s)"
    and "cs \<noteq> None \<Longrightarrow> uid_bool uid \<and> (\<exists>data \<in> U. block_holds hash cf f
       \<lparr> blk_version_id = ver_id v, blk_idx = i, blk_uid = uid, blk_checksum = cs, blk_size = sz, blk_valid = True \<rparr> data)"
  shows "sound_rows hash cf U v f (working (set_block v i uid cs sz True s))"
  unfolding sound_rows_def
proof (intro ballI impI)
  fix r assume r: "r \<in> set (db_blocks (working (set_block v i uid cs sz True s)))" "blk_valid r" "blk_checksum r \<noteq> None"
    "\<exists>w \<in> set (db_versions (working (set_block v i uid cs sz True s))). ver_id w = blk_version_id r \<and> ver_storage_id w = ver_storage_id v"
  from rows_set_block [OF r(1)] show "uid_bool (blk_uid r) \<and> (\<exists>data \<in> U. block_holds hash cf f r data)"
  proof
    assume "r \<in> set (db_blocks (working s))"
    with assms(1) r show ?thesis by (simp add: sound_rows_def)
  next
    assume "r = \<lparr> blk_version_id = ver_id v, blk_idx = i, blk_uid = uid, blk_checksum = cs, blk_size = sz, blk_valid = True \<rparr>"
    with assms(2) r(3) show ?thesis by simp
  qed
qed

lemma no_uid_set_block:
  "no_uid v I (working s) \<Longrightarrow> (\<And>j. j \<in> I \<Longrightarrow> uid \<noteq> new_uid v j) \<Longrightarrow> no_uid v I (working (set_block v i uid cs sz vld s))"
  unfolding no_uid_def using rows_set_block by fastforce

lemma no_uid_subset: "no_uid v I d \<Longrightarrow> J \<subseteq> I \<Longrightarrow> no_uid v J d"
  by (auto simp: no_uid_def)

text \<open>A write under a UID no row uses keeps what the rows promise.\<close>

lemma holds_write_other:
  assumes "good_conf cf" and "block_holds hash cf f r data" and "key_uid (blk_uid b)" and "blk_uid b \<noteq> blk_uid r"
    and "storage_write cf file_backend ts rnd b d f = (res, f')"
  shows "block_holds hash cf f' r data"
  using assms(2) fobj.write_keeps_stored [OF assms(1) _ _ assms(3,4,5), of data] by (auto simp: block_holds_def)

lemma key_new_uid: "0 \<le> ver_id v \<Longrightarrow> 0 \<le> i \<Longrightarrow> key_uid (new_uid v i)"
  by (simp add: key_uid_def new_uid_def half_def)

lemma new_uid_inj [simp]: "new_uid v i = new_uid v j \<longleftrightarrow> i = j"
  by (simp add: new_uid_def)

lemma bool_new_uid [simp]: "uid_bool (new_uid v i)"
  by (simp add: new_uid_def)

section \<open>The invariant of the copy loop\<close>

text \<open>
  What a run relies on: a configuration whose transforms can be undone, a scheduler that loses nothing, a version that
  covers the source, and a hash without collisions on the data in play.
\<close>

definition run_ok :: "env \<Rightarrow> string \<Rightarrow> version \<Rightarrow> bytes \<Rightarrow> bytes set \<Rightarrow> bool" where
  "run_ok E n v src U \<longleftrightarrow> good_conf (env_cf E n) \<and> fair_sched (env_sched E) \<and> 0 \<le> ver_id v \<and> 0 < ver_block_size v \<and>
     ver_size v = io_size src \<and> inj_on (env_hash E) U \<and> (\<forall>x \<in> U. env_hash E x \<noteq> []) \<and>
     replicate (nat (ver_block_size v)) 0 \<in> U \<and> (\<forall>i \<in> {0..<blocks_count v}. source_block v src i \<in> U)"

text \<open>A block to be read has the size of its part of the source.\<close>

definition read_ok :: "version \<Rightarrow> bytes \<Rightarrow> block \<Rightarrow> bool" where
  "read_ok v src b \<longleftrightarrow> blk_version_id b = ver_id v \<and> blk_idx b \<in> {0..<blocks_count v} \<and>
     blk_size b = int (length (source_block v src (blk_idx b)))"

text \<open>A write in flight carries the data of its index under the index's new UID.\<close>

definition job_ok :: "env \<Rightarrow> version \<Rightarrow> bytes \<Rightarrow> block \<times> bytes \<Rightarrow> bool" where
  "job_ok E v src job \<longleftrightarrow> (case job of (b, data) \<Rightarrow> read_ok v src b \<and> data = source_block v src (blk_idx b) \<and>
     blk_uid b = new_uid v (blk_idx b) \<and> blk_checksum b = Some (env_hash E data))"

abbreviation job_idx :: "block \<times> bytes \<Rightarrow> int" where
  "job_idx job \<equiv> blk_idx (fst job)"

text \<open>
  \<open>Q\<close>: reads not yet taken; \<open>J\<close>: writes taken off the pending list whose results are being handled. Every other index
  already promises its part of the source.
\<close>

definition table_inv :: "env \<Rightarrow> string \<Rightarrow> version \<Rightarrow> bytes \<Rightarrow> bytes set \<Rightarrow> int set \<Rightarrow> database \<Rightarrow> fs \<Rightarrow> bool" where
  "table_inv E n v src U I d f \<longleftrightarrow>
     wf_blocks d \<and> sound_rows (env_hash E) (env_cf E n) U v f d \<and> no_uid v I d \<and>
     (\<forall>i \<in> {0..<blocks_count v} - I. block_holds (env_hash E) (env_cf E n) f (get_block_by_idx v i d) (source_block v src i))"

abbreviation open_idxs :: "block list \<Rightarrow> (block \<times> bytes) list \<Rightarrow> int list" where
  "open_idxs Q jobs \<equiv> map blk_idx Q @ map job_idx jobs"

definition bk_inv :: "env \<Rightarrow> string \<Rightarrow> version \<Rightarrow> bytes \<Rightarrow> bytes set \<Rightarrow> block list \<Rightarrow> (block \<times> bytes) list \<Rightarrow> bk \<Rightarrow> bool" where
  "bk_inv E n v src U Q J k \<longleftrightarrow>
     table_inv E n v src U (set (open_idxs Q (J @ bk_pending k))) (bk_db k) (stores (bk_eng k) n) \<and>
     distinct (open_idxs Q (J @ bk_pending k)) \<and>
     bk_write_jobs k = bk_done_write k + length (J @ bk_pending k) \<and>
     (\<forall>b \<in> set Q. read_ok v src b) \<and> (\<forall>job \<in> set (J @ bk_pending k). job_ok E v src job)"

lemma source_block_nonempty:
  assumes "run_ok E n v src U" and "read_ok v src b" and "blk_idx b = i"
  shows "source_block v src i \<noteq> [] \<and> io_read (ver_block_size v) src b = Inr (b, source_block v src i)"
proof -
  have "i * ver_block_size v < int (length src)" "0 < ver_block_size v" "0 \<le> i"
    using assms less_ceil_div_iff [of "ver_block_size v" i "ver_size v"]
    by (auto simp: run_ok_def read_ok_def blocks_count_def io_size_def)
  then have less: "nat (i * ver_block_size v) < length src" and pos: "0 < nat (ver_block_size v)"
    by (auto simp: nat_less_iff)
  have ne: "source_block v src i \<noteq> []"
    using less pos by (simp add: source_block_def py_slice_def)
  have "py_slice a (a + length (py_slice a (a + m) src)) src = py_slice a (a + m) src" for a m
    by (simp add: py_slice_def min_def)
  then have "py_slice (nat (i * ver_block_size v)) (nat (i * ver_block_size v) + nat (blk_size b)) src = source_block v src i"
    using assms(2,3) by (simp add: read_ok_def source_block_def)
  with ne assms(3) show ?thesis by (simp add: io_read_def Let_def)
qed

lemma bk_inv_perm:
  assumes "bk_inv E n v src U Q J k" and "mset Q = mset Q'" and "mset (J @ bk_pending k) = mset (J' @ bk_pending k')"
    and "bk_eng k' = bk_eng k" "bk_write_jobs k' = bk_write_jobs k" "bk_done_write k' = bk_done_write k"
  shows "bk_inv E n v src U Q' J' k'"
proof -
  have "mset (open_idxs Q (J @ bk_pending k)) = mset (open_idxs Q' (J' @ bk_pending k'))"
    using assms(2,3) by (metis mset_append mset_map)
  then have i: "distinct (open_idxs Q' (J' @ bk_pending k')) = distinct (open_idxs Q (J @ bk_pending k))"
    "set (open_idxs Q' (J' @ bk_pending k')) = set (open_idxs Q (J @ bk_pending k))"
    by (metis mset_eq_imp_distinct_iff, metis set_mset_mset)
  have s: "set Q' = set Q" "set (J' @ bk_pending k') = set (J @ bk_pending k)"
    using assms(2,3) by (metis set_mset_mset)+
  have l: "length (J' @ bk_pending k') = length (J @ bk_pending k)" using assms(3) by (metis size_mset)
  show ?thesis using assms(1) unfolding bk_inv_def i s l assms(4-6) .
qed

section \<open>Steps on the table and the storage\<close>

text \<open>A row is set to something that promises the data of its index: the index is settled.\<close>

lemma table_settle:
  assumes inv: "table_inv E n v src U I (working s) f"
    and cs: "cs \<noteq> None \<Longrightarrow> uid_bool uid" and uid: "\<And>j. j \<in> I - {i} \<Longrightarrow> uid \<noteq> new_uid v j"
    and new: "block_holds (env_hash E) (env_cf E n) f (stored_block v i uid cs sz True) (source_block v src i)"
    and U: "source_block v src i \<in> U"
  shows "table_inv E n v src U (I - {i}) (working (set_block v i uid cs sz True s)) f"
proof -
  note I = inv [unfolded table_inv_def]
  have "sound_rows (env_hash E) (env_cf E n) U v f (working (set_block v i uid cs sz True s))"
  proof (rule sound_set_block)
    assume "cs \<noteq> None"
    then show "uid_bool uid \<and> (\<exists>data \<in> U. block_holds (env_hash E) (env_cf E n) f
       \<lparr> blk_version_id = ver_id v, blk_idx = i, blk_uid = uid, blk_checksum = cs, blk_size = sz, blk_valid = True \<rparr> data)"
      using cs new U by (auto simp: stored_block_def)
  qed (use I in blast)
  moreover have "no_uid v (I - {i}) (working (set_block v i uid cs sz True s))"
    by (rule no_uid_set_block) (use I no_uid_subset uid in blast)+
  ultimately show ?thesis using I new by (auto simp: table_inv_def wf_set_block get_set_block)
qed

lemma table_write:
  assumes inv: "table_inv E n v src U I d f" and run: "run_ok E n v src U"
    and b: "blk_uid b = new_uid v i" "i \<in> I" "0 \<le> i"
    and w: "storage_write (env_cf E n) file_backend ts rnd b data f = (r, f')"
  shows "table_inv E n v src U I d f'"
proof -
  note I = inv [unfolded table_inv_def]
  have good: "good_conf (env_cf E n)" and key: "key_uid (blk_uid b)"
    using run b key_new_uid by (auto simp: run_ok_def)
  have keep: "block_holds (env_hash E) (env_cf E n) f' x dat" if "block_holds (env_hash E) (env_cf E n) f x dat"
    "uid_bool (blk_uid x) \<Longrightarrow> x \<in> set (db_blocks d)" for x dat
  proof (cases "uid_bool (blk_uid x)")
    case True
    then have "blk_uid x \<noteq> new_uid v i" using that(2) I b(2) by (simp add: no_uid_def)
    then have "blk_uid b \<noteq> blk_uid x" using b(1) by simp
    from holds_write_other [OF good that(1) key this w] show ?thesis .
  qed (use that(1) in \<open>simp add: block_holds_def\<close>)
  have "sound_rows (env_hash E) (env_cf E n) U v f' d"
    using I keep unfolding sound_rows_def by meson
  moreover have "block_holds (env_hash E) (env_cf E n) f' (get_block_by_idx v i d) (source_block v src i)"
    if "i \<in> {0..<blocks_count v} - I" for i
    using I that by (intro keep row_of_get) auto
  ultimately show ?thesis using I by (simp add: table_inv_def)
qed

section \<open>Steps of the loop\<close>

lemma holds_new_row:
  assumes "good_conf (env_cf E n)" and "run_ok E n v src U" and "job_ok E v src (b, data)"
    and "storage_write (env_cf E n) file_backend ts rnd b data f = (Inr w, f')"
  shows "w = b \<and> block_holds (env_hash E) (env_cf E n) f'
     (stored_block v (blk_idx b) (blk_uid b) (blk_checksum b) (blk_size b) True) (source_block v src (blk_idx b))"
proof -
  have j: "data = source_block v src (blk_idx b)" "blk_uid b = new_uid v (blk_idx b)" "blk_checksum b = Some (env_hash E data)"
    "blk_size b = int (length data)" "blk_idx b \<in> {0..<blocks_count v}"
    using assms(3) by (auto simp: job_ok_def read_ok_def)
  then have "env_hash E data \<noteq> []" "key_uid (blk_uid b)" using assms(2) key_new_uid by (auto simp: run_ok_def)
  with fobj.write_stores [OF assms(1) _ j(3) _ _ assms(4)] j(4)
  have "w = b" "stored (env_cf E n) (fs_content f') b data" by auto
  with \<open>key_uid (blk_uid b)\<close> j show ?thesis
    using stored_cong [of b "stored_block v (blk_idx b) (blk_uid b) (blk_checksum b) (blk_size b) True"]
    by (simp add: block_holds_def stored_block_def)
qed

lemma finish_write_inv:
  assumes run: "run_ok E n v src U" and inv: "bk_inv E n v src U Q (job # J) k"
    and step: "finish_write E n v job k = (r, k')"
  shows "r = Inr () \<and> bk_inv E n v src U Q J k' \<and> bk_pending k' = bk_pending k \<and> bk_done_read k' = bk_done_read k \<and>
      (calm (stores (bk_eng k) n) \<longrightarrow> calm (stores (bk_eng k') n)) \<or>
    (\<exists>e. r = Inl e) \<and> \<not> calm (stores (bk_eng k) n)"
proof -
  obtain b data where job: "job = (b, data)" by force
  let ?f = "stores (bk_eng k) n" and ?i = "blk_idx b"
  obtain q f' where w: "storage_write (env_cf E n) file_backend (env_timestamp E) (bk_done_write k) b data ?f = (q, f')" by force
  have good: "good_conf (env_cf E n)" using run by (simp add: run_ok_def)
  have jok: "job_ok E v src (b, data)" using inv by (simp add: bk_inv_def job)
  then have b: "blk_uid b = new_uid v ?i" "?i \<in> {0..<blocks_count v}" "key_uid (blk_uid b)" "blk_version_id b = ver_id v"
    using run key_new_uid by (auto simp: job_ok_def read_ok_def run_ok_def)
  have calm: "calm ?f \<Longrightarrow> q = Inr b \<and> calm f'"
    using calm_storage_write [OF good _ b(3)] w by (metis prod.inject)
  show ?thesis
  proof (cases q)
    case (Inl e)
    then have "\<exists>e. r = Inl e" using step w by (auto simp: finish_write_def job Let_def)
    with calm Inl show ?thesis by auto
  next
    case (Inr w')
    with holds_new_row [OF good run jok] w
    have q: "q = Inr b" and new: "block_holds (env_hash E) (env_cf E n) f'
       (stored_block v ?i (blk_uid b) (blk_checksum b) (blk_size b) True) (source_block v src ?i)" by auto
    let ?I = "set (open_idxs Q (job # J @ bk_pending k))" and ?J = "set (open_idxs Q (J @ bk_pending k))"
    have k': "r = Inr ()" "bk_db k' = working (set_block v ?i (blk_uid b) (blk_checksum b) (blk_size b) True (ses (bk_eng k)))"
      "stores (bk_eng k') n = f'" "bk_pending k' = bk_pending k" "bk_done_read k' = bk_done_read k"
      "bk_write_jobs k' = bk_write_jobs k" "bk_done_write k' = bk_done_write k + 1"
      using step w q b(4) by (auto simp: finish_write_def job Let_def bk_set_block_def)
    have d: "distinct (open_idxs Q (job # J @ bk_pending k))" using inv by (simp add: bk_inv_def)
    then have I: "?I - {?i} = ?J" by (auto simp: job)
    have "table_inv E n v src U ?I (bk_db k) f'"
      by (rule table_write [OF _ run b(1) _ _ w]) (use inv b in \<open>auto simp: bk_inv_def job\<close>)
    from table_settle [OF this _ _ new] have "table_inv E n v src U (?I - {?i}) (bk_db k') f'"
      using b run by (auto simp: k' run_ok_def)
    then have "table_inv E n v src U ?J (bk_db k') f'" unfolding I .
    then have "bk_inv E n v src U Q J k'" using inv d by (simp add: bk_inv_def k')
    with calm q k' show ?thesis by simp
  qed
qed

lemma take_block_inv:
  assumes run: "run_ok E n v src U" and inv: "bk_inv E n v src U (b # Q) [] k" and data: "data = source_block v src (blk_idx b)"
  shows "bk_inv E n v src U Q [] (take_block E v b data k)"
proof -
  let ?f = "stores (bk_eng k) n" and ?i = "blk_idx b" and ?cs = "env_hash E data"
  let ?I = "set (open_idxs (b # Q) (bk_pending k))" and ?J = "set (open_idxs Q (bk_pending k))"
  have ro: "read_ok v src b" and d: "distinct (open_idxs (b # Q) (bk_pending k))"
    and t: "table_inv E n v src U ?I (bk_db k) ?f" using inv by (simp_all add: bk_inv_def)
  have I: "?I - {?i} = ?J" using d by auto
  have sz: "blk_size b = int (length data)" "?i \<in> {0..<blocks_count v}" using ro data by (auto simp: read_ok_def)
  have U: "data \<in> U" using run sz(2) by (auto simp: run_ok_def data)
  have inj: "x = data" if "x \<in> U" "env_hash E x = ?cs" for x
    using run U that by (auto simp: run_ok_def dest: inj_onD)
  have settle: "bk_inv E n v src U Q [] k'"
    if "table_inv E n v src U (?I - {?i}) (bk_db k') ?f" "stores (bk_eng k') n = ?f" "bk_pending k' = bk_pending k"
      "bk_write_jobs k' = bk_write_jobs k" "bk_done_write k' = bk_done_write k" for k'
    using that inv unfolding I by (simp add: bk_inv_def)
  have fresh: "bk_inv E n v src U Q [] k'"
    if "bk_eng k' = bk_eng k" "bk_pending k' = bk_pending k @ [(b\<lparr>blk_uid := new_uid v ?i, blk_checksum := Some ?cs\<rparr>, data)]"
      "bk_write_jobs k' = bk_write_jobs k + 1" "bk_done_write k' = bk_done_write k" for k'
    using that inv data by (auto simp: bk_inv_def job_ok_def read_ok_def insert_commute)
  consider (sparse) "?cs = env_hash E (replicate (nat (ver_block_size v)) 0)" "blk_size b = ver_block_size v"
    | (known) ex where "\<not> (?cs = env_hash E (replicate (nat (ver_block_size v)) 0) \<and> blk_size b = ver_block_size v)"
        "get_block_by_checksum v (Some ?cs) (bk_db k) = Some ex" "blk_size ex = blk_size b"
    | (new) "\<not> (?cs = env_hash E (replicate (nat (ver_block_size v)) 0) \<and> blk_size b = ver_block_size v)"
        "\<And>ex. get_block_by_checksum v (Some ?cs) (bk_db k) = Some ex \<Longrightarrow> blk_size ex \<noteq> blk_size b"
    by metis
  then show ?thesis
  proof cases
    case sparse
    have "replicate (nat (ver_block_size v)) 0 = data" using run sparse(1) by (intro inj) (auto simp: run_ok_def)
    then have "block_holds (env_hash E) (env_cf E n) ?f (stored_block v ?i SparseBlockUid None (blk_size b) True) data"
      using sparse(2) run by (auto simp: block_holds_def stored_block_def create_sparse_block_def run_ok_def)
    from table_settle [OF t _ _ this [unfolded data]] U
    have "table_inv E n v src U (?I - {?i}) (working (set_block v ?i SparseBlockUid None (blk_size b) True (ses (bk_eng k)))) ?f"
      by (auto simp: data new_uid_def SparseBlockUid_def)
    then show ?thesis using sparse by (intro settle) (simp_all add: take_block_def Let_def bk_set_block_def)
  next
    case known
    have ex: "blk_checksum ex = Some ?cs" "blk_valid ex" "ex \<in> set (db_blocks (bk_db k))"
      "\<exists>w \<in> set (db_versions (bk_db k)). ver_id w = blk_version_id ex \<and> ver_storage_id w = ver_storage_id v"
      using find_SomeD [OF known(2) [unfolded get_block_by_checksum_def]] by auto
    with t obtain x where x: "uid_bool (blk_uid ex)" "x \<in> U" "block_holds (env_hash E) (env_cf E n) ?f ex x"
      unfolding table_inv_def sound_rows_def by blast
    then have "x = data" using ex(1) by (intro inj) (auto simp: block_holds_def)
    then have h: "block_holds (env_hash E) (env_cf E n) ?f (stored_block v ?i (blk_uid ex) (blk_checksum ex) (blk_size ex) True) data"
      using x block_holds_cong [of ex "stored_block v ?i (blk_uid ex) (blk_checksum ex) (blk_size ex) True"]
      by (simp add: stored_block_def)
    have other: "blk_uid ex \<noteq> new_uid v j" if "j \<in> ?I - {?i}" for j
      using t ex(3) that by (auto simp: table_inv_def no_uid_def)
    have "table_inv E n v src U (?I - {?i})
        (working (set_block v ?i (blk_uid ex) (blk_checksum ex) (blk_size ex) True (ses (bk_eng k)))) ?f"
      by (rule table_settle [OF t x(1) other h [unfolded data] U [unfolded data]])
    then show ?thesis using known by (intro settle) (auto simp: take_block_def Let_def bk_set_block_def)
  next
    case new
    then show ?thesis
      by (intro fresh) (auto simp: take_block_def Let_def new_uid_def split: option.splits)
  qed
qed

text \<open>Handling a list of completed writes, in any order.\<close>

lemma finish_writes_inv:
  assumes "run_ok E n v src U" and "bk_inv E n v src U Q J k" and "for_each (finish_write E n v) J k = (r, k')"
  shows "r = Inr () \<and> bk_inv E n v src U Q [] k' \<and> bk_pending k' = bk_pending k \<and> bk_done_read k' = bk_done_read k \<and>
      (calm (stores (bk_eng k) n) \<longrightarrow> calm (stores (bk_eng k') n)) \<or>
    (\<exists>e. r = Inl e) \<and> \<not> calm (stores (bk_eng k) n)"
  using assms(2,3)
proof (induction J arbitrary: k)
  case (Cons job J)
  obtain q k1 where q: "finish_write E n v job k = (q, k1)" by force
  from finish_write_inv [OF assms(1) Cons.prems(1) q] show ?case
  proof
    assume ok: "q = Inr () \<and> bk_inv E n v src U Q J k1 \<and> bk_pending k1 = bk_pending k \<and> bk_done_read k1 = bk_done_read k \<and>
      (calm (stores (bk_eng k) n) \<longrightarrow> calm (stores (bk_eng k1) n))"
    then have "for_each (finish_write E n v) J k1 = (r, k')" using Cons.prems(2) q by simp
    with Cons.IH [of k1] ok show ?thesis by auto
  next
    assume "(\<exists>e. q = Inl e) \<and> \<not> calm (stores (bk_eng k) n)"
    with Cons.prems(2) q show ?thesis by auto
  qed
qed auto

lemma poll_inv:
  assumes "run_ok E n v src U" and "bk_inv E n v src U Q [] k" and "poll E n v k = (r, k')"
  shows "r = Inr () \<and> bk_inv E n v src U Q [] k' \<and> bk_done_read k' = bk_done_read k \<and>
      (calm (stores (bk_eng k) n) \<longrightarrow> calm (stores (bk_eng k') n)) \<or>
    (\<exists>e. r = Inl e) \<and> \<not> calm (stores (bk_eng k) n)"
proof -
  obtain fin later where p: "poll_writes (env_sched E) (bk_polls k) (bk_pending k) = (fin, later)" by force
  let ?k = "k\<lparr>bk_pending := later, bk_polls := bk_polls k + 1\<rparr>"
  have "mset fin + mset later = mset (bk_pending k)"
    using assms(1) p by (metis fair_sched_def fst_conv run_ok_def snd_conv)
  then have "bk_inv E n v src U Q fin ?k"
    by (intro bk_inv_perm [OF assms(2)]) simp_all
  from finish_writes_inv [OF assms(1) this, of r k'] assms(3) p show ?thesis by (auto simp: poll_def)
qed

lemma copy_block_inv:
  assumes run: "run_ok E n v src U" and inv: "bk_inv E n v src U (b # Q) [] k" and step: "copy_block E n v src b k = (r, k')"
  shows "r = Inr () \<and> bk_inv E n v src U Q [] k' \<and> bk_done_read k' = bk_done_read k + 1 \<and>
      (calm (stores (bk_eng k) n) \<longrightarrow> calm (stores (bk_eng k') n)) \<or>
    (\<exists>e. r = Inl e) \<and> \<not> calm (stores (bk_eng k) n)"
proof -
  have "read_ok v src b" using inv by (simp add: bk_inv_def)
  then have rd: "io_read (ver_block_size v) src b = Inr (b, source_block v src (blk_idx b))"
    using source_block_nonempty [OF run _ refl] by blast
  define k1 where "k1 = take_block E v b (source_block v src (blk_idx b)) k"
  let ?k = "k1\<lparr>bk_done_read := bk_done_read k1 + 1\<rparr>"
  have same: "stores (bk_eng k1) = stores (bk_eng k)" "bk_done_read k1 = bk_done_read k"
    by (simp_all add: k1_def take_block_def Let_def bk_set_block_def split: option.splits)
  have "bk_inv E n v src U Q [] ?k"
    by (rule bk_inv_perm [OF take_block_inv [OF run inv refl, folded k1_def]]) simp_all
  moreover have "poll E n v ?k = (r, k')" using step rd by (simp add: copy_block_def Let_def k1_def)
  ultimately show ?thesis using poll_inv [OF run, of Q ?k r k'] by (auto simp: same)
qed

lemma copy_reads_inv:
  assumes "run_ok E n v src U" and "bk_inv E n v src U Q [] k" and "for_each (copy_block E n v src) Q k = (r, k')"
  shows "r = Inr () \<and> bk_inv E n v src U [] [] k' \<and> bk_done_read k' = bk_done_read k + length Q \<and>
      (calm (stores (bk_eng k) n) \<longrightarrow> calm (stores (bk_eng k') n)) \<or>
    (\<exists>e. r = Inl e) \<and> \<not> calm (stores (bk_eng k) n)"
  using assms(2,3)
proof (induction Q arbitrary: k)
  case (Cons b Q)
  obtain q k1 where q: "copy_block E n v src b k = (q, k1)" by force
  from copy_block_inv [OF assms(1) Cons.prems(1) q] show ?case
  proof
    assume ok: "q = Inr () \<and> bk_inv E n v src U Q [] k1 \<and> bk_done_read k1 = bk_done_read k + 1 \<and>
      (calm (stores (bk_eng k) n) \<longrightarrow> calm (stores (bk_eng k1) n))"
    then have "for_each (copy_block E n v src) Q k1 = (r, k')" using Cons.prems(2) q by simp
    with Cons.IH [of k1] ok show ?thesis by auto
  next
    assume "(\<exists>e. q = Inl e) \<and> \<not> calm (stores (bk_eng k) n)"
    with Cons.prems(2) q show ?thesis by auto
  qed
qed auto

lemma drain_inv:
  assumes "run_ok E n v src U" and "bk_inv E n v src U [] [] k" and "drain E n v k = (r, k')"
  shows "r = Inr () \<and> bk_inv E n v src U [] [] k' \<and> bk_pending k' = [] \<and> bk_done_read k' = bk_done_read k \<and>
      (calm (stores (bk_eng k) n) \<longrightarrow> calm (stores (bk_eng k') n)) \<or>
    (\<exists>e. r = Inl e) \<and> \<not> calm (stores (bk_eng k) n)"
proof -
  have "mset (wait_writes (env_sched E) (bk_pending k)) = mset (bk_pending k)"
    using assms(1) by (simp add: fair_sched_def run_ok_def)
  then have "bk_inv E n v src U [] (wait_writes (env_sched E) (bk_pending k)) (k\<lparr>bk_pending := []\<rparr>)"
    by (intro bk_inv_perm [OF assms(2)]) simp_all
  from finish_writes_inv [OF assms(1) this, of r k'] assms(3) show ?thesis by (simp add: drain_def)
qed

section \<open>Queueing the reads\<close>

text \<open>What the code relies on for a block it does not read: a hinted hole is zero in the source, any other holds the data.\<close>

definition unread_ok :: "env \<Rightarrow> string \<Rightarrow> version \<Rightarrow> bytes \<Rightarrow> (int \<Rightarrow> bool) \<Rightarrow> (int \<Rightarrow> bool) \<Rightarrow> fs \<Rightarrow> block \<Rightarrow> bool" where
  "unread_ok E n v src in_sparse in_read f b \<longleftrightarrow>
     in_read (blk_idx b) \<or> \<not> blk_valid b \<or>
     (if in_sparse (blk_idx b)
      then set (source_block v src (blk_idx b)) \<subseteq> {0} \<and>
           (\<not> uid_bool (blk_uid b) \<longrightarrow> blk_checksum b = None)
      else block_holds (env_hash E) (env_cf E n) f b (source_block v src (blk_idx b)))"

lemma table_drop:
  assumes "table_inv E n v src U I d f"
    and "block_holds (env_hash E) (env_cf E n) f (get_block_by_idx v i d) (source_block v src i)"
  shows "table_inv E n v src U (I - {i}) d f"
  using assms no_uid_subset [of v I d "I - {i}"] by (auto simp: table_inv_def)

lemma queue_blocks_inv:
  assumes run: "run_ok E n v src U" and "bk_inv E n v src U (q0 @ bs) [] k" and "bk_pending k = []"
    and "\<forall>b \<in> set bs. get_block_by_idx v (blk_idx b) (bk_db k) = b \<and> unread_ok E n v src S R (stores (bk_eng k) n) b"
    and "queue_blocks v S R bs k = (r, k')"
  shows "\<exists>q. r = Inr q \<and> bk_inv E n v src U (q0 @ q) [] k' \<and> stores (bk_eng k') = stores (bk_eng k) \<and>
    bk_done_read k' = bk_done_read k"
  using assms(2-5)
proof (induction bs arbitrary: q0 k r k')
  case (Cons b bs)
  let ?i = "blk_idx b" and ?f = "stores (bk_eng k) n" and ?src = "source_block v src (blk_idx b)"
  let ?I = "set (open_idxs (q0 @ b # bs) [])"
  have d: "distinct (open_idxs (q0 @ b # bs) [])" and t: "table_inv E n v src U ?I (bk_db k) ?f"
    and ro: "read_ok v src b" using Cons.prems(1,2) by (simp_all add: bk_inv_def)
  have I: "?I - {?i} = set (open_idxs (q0 @ bs) [])" using d by auto
  have sz: "blk_size b = int (length ?src)" "?i \<in> {0..<blocks_count v}" and U: "?src \<in> U"
    using ro run by (auto simp: read_ok_def run_ok_def)
  have b: "get_block_by_idx v ?i (bk_db k) = b" and un: "unread_ok E n v src S R ?f b" using Cons.prems(3) by auto
  have drop: "bk_inv E n v src U (q0 @ bs) [] k1"
    if "table_inv E n v src U (?I - {?i}) (bk_db k1) ?f" "stores (bk_eng k1) n = ?f" "bk_pending k1 = []"
      "bk_write_jobs k1 = bk_write_jobs k" "bk_done_write k1 = bk_done_write k" for k1
    using that Cons.prems(1,2) unfolding I by (simp add: bk_inv_def)
  consider (read) "R ?i \<or> \<not> blk_valid b" | (hole) "\<not> R ?i" "blk_valid b" "S ?i" "uid_bool (blk_uid b)"
    | (sparse) "\<not> R ?i" "blk_valid b" "S ?i" "\<not> uid_bool (blk_uid b)" | (keep) "\<not> R ?i" "blk_valid b" "\<not> S ?i" by blast
  then show ?case
  proof cases
    case read
    obtain q1 k1 where q: "queue_blocks v S R bs k = (q1, k1)" by force
    have "bk_inv E n v src U ((q0 @ [b]) @ bs) [] k" using Cons.prems(1) by simp
    from Cons.IH [OF this Cons.prems(2) _ q] Cons.prems(3)
    obtain q where "q1 = Inr q" "bk_inv E n v src U (q0 @ b # q) [] k1" "stores (bk_eng k1) = stores (bk_eng k)"
      "bk_done_read k1 = bk_done_read k" by auto
    with read q Cons.prems(4) show ?thesis by auto
  next
    case hole
    let ?k = "(bk_set_block v ?i SparseBlockUid None (blk_size b) True k)\<lparr>bk_bytes_sparse := bk_bytes_sparse k + blk_size b\<rparr>"
    have q: "queue_blocks v S R bs ?k = (r, k')" using hole Cons.prems(4) by simp
    have z: "set ?src \<subseteq> {0}" using un hole by (simp add: unread_ok_def)
    then have h: "block_holds (env_hash E) (env_cf E n) ?f (stored_block v ?i SparseBlockUid None (blk_size b) True) ?src"
      using sz by (auto simp: block_holds_def stored_block_def create_sparse_block_def)
    have t': "table_inv E n v src U (?I - {?i}) (bk_db ?k) ?f"
      using table_settle [OF t _ _ h U] by (simp add: bk_set_block_def new_uid_def SparseBlockUid_def)
    have inv: "bk_inv E n v src U (q0 @ bs) [] ?k"
      by (rule drop [OF t']) (simp_all add: bk_set_block_def Cons.prems(2))
    have "\<forall>c \<in> set bs. get_block_by_idx v (blk_idx c) (bk_db ?k) = c \<and> unread_ok E n v src S R (stores (bk_eng ?k) n) c"
    proof
      fix c assume c: "c \<in> set bs"
      then have "blk_idx c \<noteq> ?i" using d by (auto dest: sym [of "blk_idx c"])
      moreover have "get_block_by_idx v (blk_idx c) (bk_db k) = c \<and> unread_ok E n v src S R ?f c" using Cons.prems(3) c by simp
      ultimately show "get_block_by_idx v (blk_idx c) (bk_db ?k) = c \<and> unread_ok E n v src S R (stores (bk_eng ?k) n) c"
        by (simp add: bk_set_block_def get_set_block)
    qed
    from Cons.IH [OF inv _ this q] Cons.prems(2) show ?thesis by (auto simp: bk_set_block_def)
  next
    case sparse
    let ?k = "k\<lparr>bk_bytes_sparse := bk_bytes_sparse k + blk_size b\<rparr>"
    have z: "set ?src \<subseteq> {0}" and c: "blk_checksum b = None" using un sparse by (auto simp: unread_ok_def)
    have q: "queue_blocks v S R bs ?k = (r, k')" using sparse c Cons.prems(4) by simp
    have "block_holds (env_hash E) (env_cf E n) ?f b ?src" using z sz sparse by (auto simp: block_holds_def)
    from table_drop [OF t, of ?i, unfolded b, OF this]
    have inv: "bk_inv E n v src U (q0 @ bs) [] ?k" by (intro drop) (simp_all add: Cons.prems(2))
    from Cons.IH [OF inv _ _ q] Cons.prems(2,3) show ?thesis by auto
  next
    case keep
    then have q: "queue_blocks v S R bs k = (r, k')" using Cons.prems(4) by simp
    have "block_holds (env_hash E) (env_cf E n) ?f b ?src" using un keep by (auto simp: unread_ok_def)
    from table_drop [OF t, of ?i, unfolded b, OF this]
    have inv: "bk_inv E n v src U (q0 @ bs) [] k" by (intro drop) (simp_all add: Cons.prems(2))
    from Cons.IH [OF inv Cons.prems(2) _ q] Cons.prems(3) show ?thesis by auto
  qed
qed (auto intro: exI [of _ "[]"])

section \<open>The whole loop\<close>

text \<open>The state the loop starts from: sound rows, no object under a UID of the new version, and rows of the right size.\<close>

definition ready :: "env \<Rightarrow> string \<Rightarrow> version \<Rightarrow> bytes \<Rightarrow> bytes set \<Rightarrow> database \<Rightarrow> fs \<Rightarrow> bool" where
  "ready E n v src U d f \<longleftrightarrow> wf_blocks d \<and> sound_rows (env_hash E) (env_cf E n) U v f d \<and> no_uid v {0..<blocks_count v} d \<and>
     (\<forall>i \<in> {0..<blocks_count v}. blk_size (get_block_by_idx v i d) = int (length (source_block v src i)))"

lemma get_block_key: "blk_idx (get_block_by_idx v i d) = i" "blk_version_id (get_block_by_idx v i d) = ver_id v"
  by (auto simp: get_block_by_idx_def create_sparse_block_def dest: query_blockD split: option.splits)

lemma blocks_of_run:
  assumes "run_ok E n v src U" and "wf_blocks d"
  shows "blocks v d = map (\<lambda>i. get_block_by_idx v i d) (py_range 0 (blocks_count v))"
  by (rule blocks_eq [OF assms(2)]) (use assms(1) in \<open>auto simp: run_ok_def io_size_def\<close>)

lemma bk_inv_start:
  assumes run: "run_ok E n v src U" and ready: "ready E n v src U (working (ses e)) (stores e n)"
  shows "bk_inv E n v src U (blocks v (working (ses e))) [] (empty_bk e)"
proof -
  let ?d = "working (ses e)"
  have bs: "blocks v ?d = map (\<lambda>i. get_block_by_idx v i ?d) (py_range 0 (blocks_count v))"
    using blocks_of_run [OF run] ready by (simp add: ready_def)
  then have "map blk_idx (blocks v ?d) = py_range 0 (blocks_count v)" by (simp add: comp_def get_block_key)
  with bs ready show ?thesis
    by (auto simp: bk_inv_def table_inv_def ready_def empty_bk_def read_ok_def get_block_key)
qed

lemma copy_blocks_inv:
  assumes run: "run_ok E n v src U" and ready: "ready E n v src U (working (ses e)) (stores e n)"
    and un: "\<forall>b \<in> set (blocks v (working (ses e))). unread_ok E n v src S R (stores e n) b"
    and step: "copy_blocks E n v src S R (empty_bk e) = (r, k')"
  shows "(\<exists>N. r = Inr N \<and> bk_inv E n v src U [] [] k' \<and> bk_pending k' = [] \<and> bk_done_read k' = N \<and>
      (calm (stores e n) \<longrightarrow> calm (stores (bk_eng k') n))) \<or> (\<exists>x. r = Inl x) \<and> \<not> calm (stores e n)"
proof -
  let ?d = "working (ses e)" and ?k = "empty_bk e"
  have k: "bk_eng ?k = e" "bk_pending ?k = []" "bk_done_read ?k = 0" by (simp_all add: empty_bk_def)
  have bs: "\<forall>b \<in> set (blocks v ?d). get_block_by_idx v (blk_idx b) (bk_db ?k) = b \<and> unread_ok E n v src S R (stores (bk_eng ?k) n) b"
    using blocks_of_run [OF run] ready un by (auto simp: k ready_def get_block_key)
  obtain q k1 where q: "queue_blocks v S R (blocks v ?d) ?k = (q, k1)" by force
  from queue_blocks_inv [OF run _ k(2) bs q, of "[]"] bk_inv_start [OF run ready]
  obtain Q where Q: "q = Inr Q" "bk_inv E n v src U Q [] k1" "stores (bk_eng k1) = stores e" "bk_done_read k1 = 0"
    by (auto simp: k)
  let ?Q = "read_order (env_sched E) Q"
  have perm: "mset ?Q = mset Q" using run by (simp add: run_ok_def fair_sched_def)
  have inv: "bk_inv E n v src U ?Q [] k1" by (rule bk_inv_perm [OF Q(2) perm [symmetric]]) simp_all
  have len: "length ?Q = length Q" by (rule mset_eq_length [OF perm])
  obtain q2 k2 where q2: "for_each (copy_block E n v src) ?Q k1 = (q2, k2)" by force
  obtain q3 k3 where q3: "drain E n v k2 = (q3, k3)" by force
  have res: "(r, k') = (case q2 of Inl x \<Rightarrow> (Inl x, k2) | Inr _ \<Rightarrow> (case q3 of Inl x \<Rightarrow> (Inl x, k3) | Inr _ \<Rightarrow> (Inr (length Q), k3)))"
    using step q Q(1) q2 q3 by (auto simp: copy_blocks_def k py_defs split: sum.splits)
  from copy_reads_inv [OF run inv q2] show ?thesis
  proof
    assume c: "q2 = Inr () \<and> bk_inv E n v src U [] [] k2 \<and> bk_done_read k2 = bk_done_read k1 + length ?Q \<and>
      (calm (stores (bk_eng k1) n) \<longrightarrow> calm (stores (bk_eng k2) n))"
    then have inv2: "bk_inv E n v src U [] [] k2" by blast
    from drain_inv [OF run inv2 q3] show ?thesis
    proof
      assume "q3 = Inr () \<and> bk_inv E n v src U [] [] k3 \<and> bk_pending k3 = [] \<and> bk_done_read k3 = bk_done_read k2 \<and>
        (calm (stores (bk_eng k2) n) \<longrightarrow> calm (stores (bk_eng k3) n))"
      with c res Q(3,4) len show ?thesis by simp
    next
      assume "(\<exists>e. q3 = Inl e) \<and> \<not> calm (stores (bk_eng k2) n)"
      with c res Q(3) show ?thesis by auto
    qed
  next
    assume "(\<exists>e. q2 = Inl e) \<and> \<not> calm (stores (bk_eng k1) n)"
    with res Q(3) show ?thesis by auto
  qed
qed

end
