(* ===== verification/Backup_Theorems.thy ===== *)
theory Backup_Theorems
  imports Backup_Correct
begin

text \<open>
  A full backup from the first lock to the last: preparing the rows, the copy loop, and the conclusion that marks the
  version valid, stores its metadata and releases the lock.
\<close>

section \<open>Locks that are free or held\<close>

text \<open>The version is locked, by this process.\<close>

definition own_lock :: "env \<Rightarrow> version \<Rightarrow> database \<Rightarrow> bool" where
  "own_lock E v d \<longleftrightarrow> holds (env_me E) (version_lock_name (ver_uid v)) d \<and>
     (\<forall>l \<in> set (db_locks d). lck_name l = version_lock_name (ver_uid v) \<longrightarrow> held_by (env_me E) (version_lock_name (ver_uid v)) l)"

section \<open>Preparing the rows of a new version\<close>

definition part_size :: "version \<Rightarrow> int \<Rightarrow> int" where
  "part_size v i = min (ver_block_size v) (ver_size v - i * ver_block_size v)"

definition fresh_row :: "version \<Rightarrow> int \<Rightarrow> block" where
  "fresh_row v i = \<lparr> blk_version_id = ver_id v, blk_idx = i, blk_uid = SparseBlockUid, blk_checksum = None,
     blk_size = part_size v i, blk_valid = (part_size v i = ver_block_size v) \<rparr>"

lemma prepare_fresh: "prepare_rows v is [] = Inr (map (fresh_row v) is)"
  by (induction "is") (auto simp: fresh_row_def part_size_def Let_def)

definition kept_rows :: "version \<Rightarrow> block list \<Rightarrow> block list" where
  "kept_rows v bs = map (\<lambda>b. b\<lparr>blk_version_id := ver_id v\<rparr>) (filter (\<lambda>b. uid_left (blk_uid b) \<noteq> None \<or>
     uid_right (blk_uid b) \<noteq> None \<or> blk_size b \<noteq> ver_block_size v) bs)"

lemma kept_rows_append: "kept_rows v (xs @ ys) = kept_rows v xs @ kept_rows v ys"
  by (simp add: kept_rows_def)

definition add_rows :: "block list \<Rightarrow> database \<Rightarrow> database" where
  "add_rows bs d = d\<lparr>db_blocks := db_blocks d @ bs\<rparr>"

lemma add_rows_simps [simp]:
  "db_blocks (add_rows bs d) = db_blocks d @ bs" "db_versions (add_rows bs d) = db_versions d"
  "db_locks (add_rows bs d) = db_locks d" "db_storages (add_rows bs d) = db_storages d"
  "add_rows ys (add_rows xs d) = add_rows (xs @ ys) d"
  by (simp_all add: add_rows_def)

lemma create_blocks_ok:
  assumes "wf_blocks (add_rows (kept_rows v bs) (working s))"
  shows "create_blocks v bs s = (Inr (), timed_commit (update_db (add_rows (kept_rows v bs)) s))"
  using assms by (auto simp: create_blocks_def Let_def kept_rows_def wf_blocks_def add_rows_def [abs_def])

lemma wf_add_prefix: "wf_blocks (add_rows (xs @ ys) d) \<Longrightarrow> wf_blocks (add_rows xs d)"
  by (auto simp: wf_blocks_def)

lemma create_packages_ok:
  "wf_blocks (add_rows (kept_rows v bs) (working s)) \<Longrightarrow>
     \<exists>s'. create_packages k v bs s = (Inr (), s') \<and> working s' = add_rows (kept_rows v bs) (working s)"
proof (induction k v bs s rule: create_packages.induct)
  case (1 k v bs s)
  show ?case
  proof (cases "k = 0 \<or> length bs < k")
    case True
    then show ?thesis using create_blocks_ok [OF "1.prems"] by (simp add: create_packages.simps [of k v bs s])
  next
    case False
    let ?s = "timed_commit (update_db (add_rows (kept_rows v (take k bs))) s)"
    have split: "kept_rows v (take k bs) @ kept_rows v (drop k bs) = kept_rows v bs"
      by (simp flip: kept_rows_append)
    have c: "create_blocks v (take k bs) s = (Inr (), ?s)"
      using "1.prems" wf_add_prefix [of "kept_rows v (take k bs)" "kept_rows v (drop k bs)"]
      by (intro create_blocks_ok) (simp add: split)
    have "wf_blocks (add_rows (kept_rows v (drop k bs)) (working ?s))" using "1.prems" by (simp add: split)
    from "1.IH" [OF False c [symmetric] refl this] c False show ?thesis
      by (simp add: create_packages.simps [of k v bs s] split)
  qed
qed

lemma find_fresh: "find (\<lambda>b. blk_version_id b = ver_id v \<and> blk_idx b = i) (map (fresh_row v) is) =
  (if i \<in> set is then Some (fresh_row v i) else None)"
  by (induction "is") (auto simp: fresh_row_def)

lemma kept_fresh: "kept_rows v (map (fresh_row v) is) =
  map (fresh_row v) (filter (\<lambda>i. part_size v i \<noteq> ver_block_size v) is)"
  by (induction "is") (auto simp: kept_rows_def fresh_row_def SparseBlockUid_def)

text \<open>After the preparation each index has a sparse block of the right size; a short last one is marked for reading.\<close>

lemma get_fresh_row:
  assumes "\<forall>r \<in> set (db_blocks d). blk_version_id r \<noteq> ver_id v" and "i \<in> {0..<blocks_count v}"
  shows "get_block_by_idx v i (add_rows (kept_rows v (map (fresh_row v) (py_range 0 (blocks_count v)))) d) = fresh_row v i"
proof -
  have "find (\<lambda>b. blk_version_id b = ver_id v \<and> blk_idx b = i) (db_blocks d) = None"
    using assms(1) by (auto simp: find_None_iff)
  then show ?thesis using assms(2)
    by (auto simp: get_block_by_idx_def query_block_def find_append kept_fresh find_fresh create_sparse_block_def fresh_row_def)
qed

lemma wf_add_fresh:
  assumes "wf_blocks d" and "\<forall>r \<in> set (db_blocks d). blk_version_id r \<noteq> ver_id v" and "distinct is"
  shows "wf_blocks (add_rows (kept_rows v (map (fresh_row v) is)) d)"
  using assms by (auto simp: wf_blocks_def kept_fresh block_key_def fresh_row_def comp_def distinct_map inj_on_def)

lemma part_size_source:
  assumes "run_ok E n v src U" and "i \<in> {0..<blocks_count v}"
  shows "part_size v i = int (length (source_block v src i))"
proof -
  have "i * ver_block_size v < ver_size v" "0 < ver_block_size v" "ver_size v = int (length src)" "0 \<le> i"
    using assms less_ceil_div_iff [of "ver_block_size v" i "ver_size v"]
    by (auto simp: run_ok_def blocks_count_def io_size_def)
  moreover from this obtain a m where "i * ver_block_size v = int a" "ver_block_size v = int m"
    by (metis mult_nonneg_nonneg nonneg_int_cases order_less_imp_le)
  ultimately show ?thesis by (simp add: part_size_def source_block_def)
qed

lemma set_version_size_simps [simp]:
  "db_blocks (set_version_size v d) = db_blocks d" "db_locks (set_version_size v d) = db_locks d"
  "db_storages (set_version_size v d) = db_storages d"
  by (simp_all add: set_version_size_def)

lemma update_version_fresh:
  assumes wf: "wf_blocks (working s)" and new: "\<forall>r \<in> set (db_blocks (working s)). blk_version_id r \<noteq> ver_id v"
    and free: "version_lock_name (ver_uid v) \<notin> set (map lck_name (db_locks (working s)))"
    and v': "v' = v\<lparr>ver_size := sz, ver_block_size := bs\<rparr>"
  obtains s' where "update_version E v bs sz None s = (Inr v', s')" "working s' = committed s'"
    "own_lock E v (working s')"
    "db_blocks (working s') = db_blocks (working s) @ kept_rows v' (map (fresh_row v') (py_range 0 (blocks_count v')))"
    "db_versions (working s') = db_versions (set_version_size v' (working s))" "db_storages (working s') = db_storages (working s)"
proof -
  let ?rows = "map (fresh_row v') (py_range 0 (blocks_count v'))"
  define s1 where "s1 = update_db (set_version_size v') s"
  have s1: "working s1 = set_version_size v' (working s)" by (simp add: s1_def)
  define s2 where "s2 = commit (update_db (\<lambda>d. d\<lparr>db_locks := db_locks d @ [lock_row (env_me E) (version_lock_name (ver_uid v))
     ''Preparing version'' (env_now E)]\<rparr>) s1)"
  have s2: "lock_version (env_me E) (ver_uid v) (Some ''Preparing version'') False (env_now E) s1 = (Inr (), s2)"
    unfolding lock_version_def s2_def by (rule lock_free_ok) (use free in \<open>simp add: s1\<close>)
  have w2: "working s2 = (set_version_size v' (working s))\<lparr>db_locks := db_locks (working s) @ [lock_row (env_me E) (version_lock_name (ver_uid v))
     ''Preparing version'' (env_now E)]\<rparr>" by (simp add: s2_def s1)
  have "wf_blocks (add_rows (kept_rows v' ?rows) (working s2))"
    using wf new by (intro wf_add_fresh) (simp_all add: w2 wf_blocks_def v')
  from create_packages_ok [OF this, of 10000]
  obtain s3 where s3: "create_packages 10000 v' ?rows s2 = (Inr (), s3)" "working s3 = add_rows (kept_rows v' ?rows) (working s2)"
    by blast
  show thesis
  proof (rule that [of "commit s3"])
    show "update_version E v bs sz None s = (Inr v', commit s3)"
      using s2 s3(1) by (simp add: update_version_def py_defs Let_def v' [symmetric] prepare_fresh s1_def)
    show "own_lock E v (working (commit s3))"
      using free_names [OF free] by (auto simp: s3 w2 own_lock_def holds_append holds_def)
  qed (simp_all add: s3 w2)
qed

section \<open>What the copy loop leaves alone\<close>

definition frame :: "version \<Rightarrow> database \<Rightarrow> version list \<times> lock list \<times> storage_row list \<times> (version \<Rightarrow> int \<Rightarrow> block option)" where
  "frame v d = (db_versions d, db_locks d, db_storages d,
     \<lambda>w i. if ver_id w = ver_id v then None else Some (get_block_by_idx w i d))"

lemma frame_set_block [simp]: "frame v (working (set_block v i uid cs sz vld s)) = frame v (working s)"
proof -
  have "db_locks (working (set_block v i uid cs sz vld s)) = db_locks (working s)"
    by (simp add: set_block_def Let_def put_block_def delete_block_def split: option.splits)
  then show ?thesis by (auto simp: frame_def fun_eq_iff get_set_block_other)
qed

lemma keeps_for_each [keeps_intros]:
  assumes "\<And>x. keeps obs (f x)" shows "keeps obs (for_each f xs)"
  unfolding keeps_def
proof
  fix s show "obs (snd (for_each f xs s)) = obs s"
    by (rule for_each_invariant [where P = "\<lambda>t. obs t = obs s"]) (use assms in \<open>simp_all add: keeps_def\<close>)
qed

lemma keeps_finish_write: "keeps (\<lambda>k. frame v (bk_db k)) (finish_write E n v job)"
  by (rule keepsI) (auto simp: finish_write_def Let_def bk_set_block_def split: prod.splits sum.splits if_splits)

lemma keeps_finish_writes: "keeps (\<lambda>k. frame v (bk_db k)) (for_each (finish_write E n v) jobs)"
  by (intro keeps_intros keeps_finish_write)

lemma keeps_copy_block: "keeps (\<lambda>k. frame v (bk_db k)) (copy_block E n v src b)"
proof (rule keepsI)
  fix k r k' assume c: "copy_block E n v src b k = (r, k')"
  have t: "frame v (bk_db (take_block E v b' data k)) = frame v (bk_db k)" for b' data
    by (simp add: take_block_def Let_def bk_set_block_def split: option.splits)
  have p: "frame v (bk_db (snd (poll E n v k1))) = frame v (bk_db k1)" for k1
    using keeps_finish_writes [of v E n]
    by (auto simp: poll_def keeps_def split: prod.split)
  from c t p [of "(\<lambda>k1. k1\<lparr>bk_done_read := bk_done_read k1 + 1\<rparr>) (take_block E v (fst (projr (io_read (ver_block_size v) src b))) (snd (projr (io_read (ver_block_size v) src b))) k)"]
  show "frame v (bk_db k') = frame v (bk_db k)"
    by (auto simp: copy_block_def Let_def split: sum.splits prod.splits)
qed

lemma keeps_queue_blocks: "keeps (\<lambda>k. frame v (bk_db k)) (queue_blocks v S R bs)"
proof (induction bs)
  case (Cons b bs)
  then have ih: "frame v (bk_db (snd (queue_blocks v S R bs k))) = frame v (bk_db k)" for k by (simp add: keeps_def)
  show ?case
  proof (rule keepsI)
    fix k r k' assume "queue_blocks v S R (b # bs) k = (r, k')"
    then show "frame v (bk_db k') = frame v (bk_db k)"
      using ih [of k] ih [of "(bk_set_block v (blk_idx b) SparseBlockUid None (blk_size b) True k)\<lparr>bk_bytes_sparse := bk_bytes_sparse k + blk_size b\<rparr>"]
        ih [of "k\<lparr>bk_bytes_sparse := bk_bytes_sparse k + blk_size b\<rparr>"]
      by (auto simp: bk_set_block_def split: if_splits prod.splits sum.splits)
  qed
qed (simp add: keeps_def)

lemma copy_blocks_frame:
  assumes "copy_blocks E n v src S R k = (r, k')"
  shows "frame v (bk_db k') = frame v (bk_db k)"
proof -
  have "keeps (\<lambda>k. frame v (bk_db k)) (drain E n v)"
    using keeps_finish_writes [of v E n] by (simp add: drain_def keeps_def)
  then have rest: "keeps (\<lambda>k. frame v (bk_db k)) (bindS (thenS (for_each (copy_block E n v src) q) (drain E n v)) (\<lambda>_. returnS m))" for q m
    by (intro keeps_intros keeps_copy_block)
  obtain q k1 where q: "queue_blocks v S R (blocks v (bk_db k)) k = (q, k1)" by force
  note queued = keepsD [OF keeps_queue_blocks q]
  show ?thesis
  proof (cases q)
    case (Inr b)
    with assms q keepsD [OF rest, of "read_order (env_sched E) b" "length b" k1 r k'] queued
    show ?thesis by (simp add: copy_blocks_def)
  qed (use assms q queued in \<open>simp add: copy_blocks_def\<close>)
qed

section \<open>The conclusion\<close>

text \<open>
  When the version and its lock are there, the only thing that can go wrong after the copy is writing the version
  metadata.
\<close>

definition same_version :: "version \<Rightarrow> version \<Rightarrow> bool" where
  "same_version v w \<longleftrightarrow> ver_id w = ver_id v \<and> ver_uid w = ver_uid v \<and> ver_size w = ver_size v \<and>
     ver_block_size w = ver_block_size v \<and> ver_storage_id w = ver_storage_id v"

lemma get_by_uid_map:
  assumes "\<And>w. ver_uid (f w) = ver_uid w" and "db_versions d' = map f (db_versions d)" and "get_by_uid uid d = Inr w"
  shows "get_by_uid uid d' = Inr (f w)"
  using assms find_map_same [of "\<lambda>v. ver_uid v = uid" f "db_versions d"] by (auto simp: get_by_uid_def split: option.splits)

lemma set_version_simps [simp]:
  "db_blocks (working (set_version v st pr s)) = db_blocks (working s)" "db_locks (working (set_version v st pr s)) = db_locks (working s)"
  "db_storages (working (set_version v st pr s)) = db_storages (working s)"
  by (simp_all add: set_version_def)

lemma set_stats_simps [simp]:
  "db_blocks (working (set_stats v a b c d e s)) = db_blocks (working s)" "db_locks (working (set_stats v a b c d e s)) = db_locks (working s)"
  "db_storages (working (set_stats v a b c d e s)) = db_storages (working s)"
  by (simp_all add: set_stats_def)

lemma set_attrs_simps [simp]:
  "ver_id (set_attrs st pr w) = ver_id w" "ver_uid (set_attrs st pr w) = ver_uid w" "ver_size (set_attrs st pr w) = ver_size w"
  "ver_block_size (set_attrs st pr w) = ver_block_size w" "ver_storage_id (set_attrs st pr w) = ver_storage_id w"
  by (auto simp: set_attrs_def Let_def split: option.splits)

lemma version_set_valid:
  assumes "get_by_uid (ver_uid v) (working s) = Inr w" and "same_version v w"
  obtains w' where "get_by_uid (ver_uid v) (working (set_version v (Some valid) None s)) = Inr w'" "same_version v w'" "ver_status w' = valid"
proof (rule that)
  show "get_by_uid (ver_uid v) (working (set_version v (Some valid) None s)) = Inr ((\<lambda>w. if ver_id w = ver_id v then set_attrs (Some valid) None w else w) w)"
    by (rule get_by_uid_map [OF _ _ assms(1)]) (simp_all add: set_version_def)
qed (use assms(2) in \<open>auto simp: same_version_def set_attrs_def\<close>)

lemma version_set_stats:
  assumes "get_by_uid (ver_uid v) (working s) = Inr w" and "same_version v w" and "ver_status w = valid"
  obtains w' where "get_by_uid (ver_uid v) (working (set_stats v a b c d e s)) = Inr w'" "same_version v w'" "ver_status w' = valid"
proof (rule that)
  let ?f = "\<lambda>w. if ver_id w = ver_id v then w\<lparr>ver_bytes_read := Some a, ver_bytes_written := Some b, ver_bytes_deduplicated := Some c,
      ver_bytes_sparse := Some d, ver_duration := Some e\<rparr> else w"
  show "get_by_uid (ver_uid v) (working (set_stats v a b c d e s)) = Inr (?f w)"
    by (rule get_by_uid_map [OF _ _ assms(1)]) (simp_all add: set_stats_def)
qed (use assms(2,3) in \<open>auto simp: same_version_def\<close>)

text \<open>What a finished backup has achieved.\<close>

definition concluded :: "env \<Rightarrow> version \<Rightarrow> database \<Rightarrow> bool" where
  "concluded E v d \<longleftrightarrow> (\<exists>w. get_by_uid (ver_uid v) d = Inr w \<and> same_version v w \<and> ver_status w = valid) \<and>
     version_lock_name (ver_uid v) \<notin> set (map lck_name (db_locks d))"

lemma conclude_ok:
  assumes jobs: "bk_done_read k = N" "bk_write_jobs k = bk_done_write k" and good: "good_conf (env_cf E n)"
    and there: "get_by_uid (ver_uid v) (working (ses e)) = Inr w0" "same_version v w0" "VersionUid (ver_uid v) = Inr (ver_uid v)"
    and held: "own_lock E v (working (ses e))"
    and run: "conclude E n v N k e = (r, e')"
  shows "(calm (stores e n) \<longrightarrow> r = Inr () \<and> calm (stores e' n)) \<and>
    (r = Inr () \<longrightarrow> working (ses e') = committed (ses e') \<and> concluded E v (working (ses e')) \<and>
       db_blocks (working (ses e')) = db_blocks (working (ses e)) \<and> db_storages (working (ses e')) = db_storages (working (ses e)) \<and>
       (\<forall>b data. stored (env_cf E n) (fs_content (stores e n)) b data \<longrightarrow> stored (env_cf E n) (fs_content (stores e' n)) b data))"
proof -
  let ?n = "version_lock_name (ver_uid v)"
  define s1 where "s1 = set_version v (Some valid) None (ses e)"
  obtain w where w: "get_by_uid (ver_uid v) (working s1) = Inr w" "same_version v w" "ver_status w = valid"
    unfolding s1_def by (rule version_set_valid [OF there(1,2)])
  then have uid: "ver_uid w = ver_uid v" by (simp add: same_version_def)
  obtain q f where q: "write_version (env_cf E n) file_backend (env_timestamp E) 0 (ver_uid v) (env_export E w (working s1)) True (stores e n) = (q, f)"
    by force
  have calm: "calm (stores e n) \<longrightarrow> q = Inr () \<and> calm f"
    using q calm_write_version [OF good _ there(3)] by (metis Pair_inject)
  define s2 where "s2 = set_stats v (bk_bytes_read k) (bk_bytes_written k) (bk_bytes_deduplicated k) (bk_bytes_sparse k) 0 s1"
  obtain w2 where w2: "get_by_uid (ver_uid v) (working s2) = Inr w2" "same_version v w2" "ver_status w2 = valid"
    unfolding s2_def by (rule version_set_stats [OF w])
  have l2: "db_locks (working s2) = db_locks (working (ses e))" by (simp add: s2_def s1_def)
  define s3 where "s3 = commit (update_db (\<lambda>d. d\<lparr>db_locks := filter (\<lambda>l. \<not> held_by (env_me E) ?n l) (db_locks d)\<rparr>) s2)"
  have u: "unlock_version (env_me E) (ver_uid v) s2 = (Inr (), s3)"
    unfolding unlock_version_def s3_def by (rule unlock_held_ok) (use held in \<open>simp add: own_lock_def holds_def l2\<close>)
  have res: "(r, e') = (case q of Inl x \<Rightarrow> (Inl x, e\<lparr>ses := s1, stores := (stores e)(n := f)\<rparr>)
     | Inr _ \<Rightarrow> (Inr (), e\<lparr>ses := s3, stores := (stores e)(n := f)\<rparr>))"
    using run jobs w(1) uid q u by (auto simp: conclude_def py_defs on_session_def on_store_def metadata_backup_def s1_def [symmetric] s2_def split: sum.splits)
  have "stored (env_cf E n) (fs_content f) b data" if "stored (env_cf E n) (fs_content (stores e n)) b data" for b data
    by (rule write_version_keeps_stored [OF that q])
  moreover have "concluded E v (working s3)"
    using w2 held by (auto simp: concluded_def s3_def own_lock_def l2 get_by_uid_def)
  moreover have "working s3 = committed s3" "db_blocks (working s3) = db_blocks (working (ses e))" "db_storages (working s3) = db_storages (working (ses e))"
    by (simp_all add: s3_def s2_def s1_def)
  ultimately show ?thesis using res calm by (auto split: sum.splits)
qed

section \<open>A full backup\<close>

text \<open>The version to back up: no row and no object of it exists, its row and its storage do, nobody has locked it.\<close>

definition new_version :: "version \<Rightarrow> string \<Rightarrow> database \<Rightarrow> bool" where
  "new_version v n d \<longleftrightarrow> get_by_uid (ver_uid v) d = Inr v \<and> storage_name d (ver_storage_id v) = Inr n \<and>
     VersionUid (ver_uid v) = Inr (ver_uid v) \<and>
     version_lock_name (ver_uid v) \<notin> set (map lck_name (db_locks d)) \<and>
     (\<forall>r \<in> set (db_blocks d). blk_version_id r \<noteq> ver_id v \<and> uid_left (blk_uid r) \<noteq> Some (ver_id v))"

definition sized :: "version \<Rightarrow> int \<Rightarrow> int \<Rightarrow> version" where
  "sized v sz dflt = v\<lparr>ver_size := sz, ver_block_size := (if ver_block_size v \<noteq> 0 then ver_block_size v else dflt)\<rparr>"

lemma sized_simps [simp]:
  "ver_id (sized v sz bs) = ver_id v" "ver_uid (sized v sz bs) = ver_uid v" "ver_storage_id (sized v sz bs) = ver_storage_id v"
  by (simp_all add: sized_def)

lemma ready_fresh:
  assumes run: "run_ok E n v' src U" and v': "ver_id v' = ver_id v" "ver_storage_id v' = ver_storage_id v"
    and wf: "wf_blocks d" and new: "new_version v n d" and sound: "sound_rows (env_hash E) (env_cf E n) U v f d"
    and d': "db_blocks d' = db_blocks d @ kept_rows v' (map (fresh_row v') (py_range 0 (blocks_count v')))"
      "db_versions d' = db_versions (set_version_size v' d)"
  shows "ready E n v' src U d' f"
proof -
  let ?rows = "kept_rows v' (map (fresh_row v') (py_range 0 (blocks_count v')))"
  have none: "\<forall>r \<in> set (db_blocks d). blk_version_id r \<noteq> ver_id v'" using new by (simp add: new_version_def v')
  have same: "db_blocks d' = db_blocks (add_rows ?rows d)" by (simp add: d')
  have "wf_blocks d'" using wf_add_fresh [OF wf none distinct_py_range] by (simp add: wf_blocks_def d')
  moreover have "get_block_by_idx v' i d' = fresh_row v' i" if "i \<in> {0..<blocks_count v'}" for i
    using get_fresh_row [OF none that] by (simp add: get_block_by_idx_def query_block_def d')
  then have "\<forall>i \<in> {0..<blocks_count v'}. blk_size (get_block_by_idx v' i d') = int (length (source_block v' src i))"
    using part_size_source [OF run] by (simp add: fresh_row_def)
  moreover have "no_uid v' {0..<blocks_count v'} d'"
    using new by (auto simp: no_uid_def d' new_uid_def new_version_def v' kept_fresh fresh_row_def SparseBlockUid_def)
  moreover have "sound_rows (env_hash E) (env_cf E n) U v' f d'"
    unfolding sound_rows_def
  proof (intro ballI impI)
    fix r assume r: "r \<in> set (db_blocks d')" "blk_valid r" "blk_checksum r \<noteq> None"
      "\<exists>w \<in> set (db_versions d'). ver_id w = blk_version_id r \<and> ver_storage_id w = ver_storage_id v'"
    then have "r \<in> set (db_blocks d)" by (auto simp: d' kept_fresh fresh_row_def)
    moreover have "\<exists>w \<in> set (db_versions d). ver_id w = blk_version_id r \<and> ver_storage_id w = ver_storage_id v"
      using r(4) by (auto simp: d' set_version_size_def v')
    ultimately show "uid_bool (blk_uid r) \<and> (\<exists>data \<in> U. block_holds (env_hash E) (env_cf E n) f r data)"
      using sound r(2,3) by (simp add: sound_rows_def)
  qed
  ultimately show ?thesis by (simp add: ready_def)
qed

lemma get_block_cong: "db_blocks d = db_blocks d' \<Longrightarrow> get_block_by_idx v i d = get_block_by_idx v i d'"
  by (simp add: get_block_by_idx_def query_block_def)

definition backed_up :: "env \<Rightarrow> string \<Rightarrow> version \<Rightarrow> bytes \<Rightarrow> engine \<Rightarrow> bool" where
  "backed_up E n v src e \<longleftrightarrow> working (ses e) = committed (ses e) \<and> concluded E v (working (ses e)) \<and> wf_blocks (working (ses e)) \<and>
     (\<forall>i \<in> {0..<blocks_count v}. block_holds (env_hash E) (env_cf E n) (stores e n)
        (get_block_by_idx v i (working (ses e))) (source_block v src i))"

lemma block_holds_mono:
  assumes "block_holds hash cf f b data"
    and "stored cf (fs_content f) b data \<Longrightarrow> stored cf (fs_content f') b data"
  shows "block_holds hash cf f' b data"
  using assms by (simp add: block_holds_def split: if_splits)

lemma own_lock_update:
  "own_lock E v d \<Longrightarrow> own_lock E v (d\<lparr>db_locks := map (\<lambda>l. if held_by (env_me E) (version_lock_name (ver_uid v)) l
     then l\<lparr>lck_reason := x\<rparr> else l) (db_locks d)\<rparr>)"
  by (auto simp: own_lock_def holds_map held_by_def)

lemma full_copy:
  assumes run: "run_ok E n v src U" and ready: "ready E n v src U (working (ses e)) (stores e n)"
    and there: "get_by_uid (ver_uid v) (working (ses e)) = Inr w0" "same_version v w0" "VersionUid (ver_uid v) = Inr (ver_uid v)"
    and name: "storage_name (working (ses e)) (ver_storage_id v) = Inr n"
    and held: "own_lock E v (working (ses e))"
    and step: "do_create_backup E v src None None e = (r, e')"
  shows "(calm (stores e n) \<longrightarrow> r = Inr () \<and> calm (stores e' n)) \<and> (r = Inr () \<longrightarrow> backed_up E n v src e' \<and>
     db_storages (working (ses e')) = db_storages (working (ses e)) \<and>
     (\<forall>w i. ver_id w \<noteq> ver_id v \<longrightarrow> get_block_by_idx w i (working (ses e')) = get_block_by_idx w i (working (ses e))))"
proof -
  define s1 where "s1 = commit (update_db (\<lambda>d. d\<lparr>db_locks := map (\<lambda>l. if held_by (env_me E) (version_lock_name (ver_uid v)) l
     then l\<lparr>lck_reason := ''Backing up''\<rparr> else l) (db_locks d)\<rparr>) (ses e))"
  have l: "update_version_lock (env_me E) (ver_uid v) (Some ''Backing up'') (ses e) = (Inr (), s1)"
    unfolding update_version_lock_def s1_def by (rule update_lock_held_ok) (use held in \<open>simp add: own_lock_def\<close>)
  define e1 where "e1 = e\<lparr>ses := s1\<rparr>"
  have e1: "db_blocks (working (ses e1)) = db_blocks (working (ses e))" "db_versions (working (ses e1)) = db_versions (working (ses e))"
    "db_storages (working (ses e1)) = db_storages (working (ses e))" "stores e1 = stores e"
    by (simp_all add: e1_def s1_def)
  have held1: "own_lock E v (working (ses e1))" using own_lock_update [OF held] by (simp add: e1_def s1_def)
  have ready1: "ready E n v src U (working (ses e1)) (stores e1 n)"
    using ready by (simp add: ready_def wf_blocks_def sound_rows_def no_uid_def e1 get_block_cong [OF e1(1)])
  let ?R = "\<lambda>i. i \<in> set (py_range 0 (blocks_count v))" and ?S = "\<lambda>i::int. i \<in> set []"
  have un: "\<forall>b \<in> set (blocks v (working (ses e1))). unread_ok E n v src ?S ?R (stores e1 n) b"
    using blocks_of_run [OF run, of "working (ses e1)"] ready1 by (auto simp: unread_ok_def ready_def get_block_key)
  obtain q k where q: "copy_blocks E n v src ?S ?R (empty_bk e1) = (q, k)" by force
  have fr: "frame v (bk_db k) = frame v (working (ses e1))" using copy_blocks_frame [OF q] by (simp add: empty_bk_def)
  define e2 where "e2 = (bk_eng k)\<lparr>ses := commit (ses (bk_eng k))\<rparr>"
  have w2: "working (ses e2) = bk_db k" "stores e2 = stores (bk_eng k)" by (simp_all add: e2_def)
  have held2: "own_lock E v (working (ses e2))" using held1 fr by (simp add: frame_def own_lock_def holds_def w2)
  have there2: "get_by_uid (ver_uid v) (working (ses e2)) = Inr w0" using there(1) fr by (simp add: frame_def get_by_uid_def w2 e1)
  have name1: "storage_name_of (working (ses e1)) v = Inr n" using name by (simp add: storage_name_of_def storage_name_def e1)
  have step1: "do_create_backup E v src None None e = (case q of
       Inl x \<Rightarrow> (case on_session (unlock_version (env_me E) (ver_uid v)) (bk_eng k) of
          (Inl x', e3) \<Rightarrow> (Inl x', e3\<lparr>ses := commit (ses e3)\<rparr>) | (Inr _, e3) \<Rightarrow> (Inl x, e3\<lparr>ses := commit (ses e3)\<rparr>))
     | Inr N \<Rightarrow> conclude E n v N k e2)"
    using l name1 q by (simp add: do_create_backup_def py_defs on_session_def choose_blocks_def e1_def [symmetric] e2_def split: sum.split)
  from copy_blocks_inv [OF run ready1 un q] show ?thesis
  proof
    assume "\<exists>N. q = Inr N \<and> bk_inv E n v src U [] [] k \<and> bk_pending k = [] \<and> bk_done_read k = N \<and>
      (calm (stores e1 n) \<longrightarrow> calm (stores (bk_eng k) n))"
    then obtain N where N: "q = Inr N" "bk_inv E n v src U [] [] k" "bk_pending k = []" "bk_done_read k = N"
      "calm (stores e1 n) \<longrightarrow> calm (stores (bk_eng k) n)" by blast
    have c: "conclude E n v N k e2 = (r, e')" using step step1 N(1) by simp
    have jobs: "bk_write_jobs k = bk_done_write k" using N(2,3) by (simp add: bk_inv_def)
    have good: "good_conf (env_cf E n)" using run by (simp add: run_ok_def)
    note C = conclude_ok [OF N(4) jobs good there2 there(2,3) held2 c, unfolded w2]
    have "backed_up E n v src e' \<and> db_storages (working (ses e')) = db_storages (working (ses e)) \<and>
       (\<forall>w i. ver_id w \<noteq> ver_id v \<longrightarrow> get_block_by_idx w i (working (ses e')) = get_block_by_idx w i (working (ses e)))" if r: "r = Inr ()"
    proof -
      from C r have b: "db_blocks (working (ses e')) = db_blocks (bk_db k)" by blast
      have "block_holds (env_hash E) (env_cf E n) (stores e' n) (get_block_by_idx v i (working (ses e'))) (source_block v src i)"
        if "i \<in> {0..<blocks_count v}" for i
        unfolding get_block_cong [OF b]
        by (rule block_holds_mono [of _ _ "stores (bk_eng k) n"])
          (use N(2,3) that C r in \<open>simp_all add: bk_inv_def table_inv_def\<close>)
      moreover have "wf_blocks (working (ses e'))" using N(2) b by (simp add: bk_inv_def table_inv_def wf_blocks_def)
      moreover have "get_block_by_idx w i (working (ses e')) = get_block_by_idx w i (working (ses e))"
        if "ver_id w \<noteq> ver_id v" for w i
      proof -
        have "get_block_by_idx w i (bk_db k) = get_block_by_idx w i (working (ses e1))"
          using fr that by (simp add: frame_def fun_eq_iff) (metis option.inject)
        with get_block_cong [OF b] get_block_cong [OF e1(1)] show ?thesis by metis
      qed
      moreover from C r have "db_storages (working (ses e')) = db_storages (bk_db k)" by blast
      then have "db_storages (working (ses e')) = db_storages (working (ses e))" using fr by (simp add: frame_def e1)
      moreover have "working (ses e') = committed (ses e')" "concluded E v (working (ses e'))" using C r by blast+
      ultimately show ?thesis unfolding backed_up_def by blast
    qed
    then show ?thesis using C N(5) by (simp add: e1)
  next
    assume "(\<exists>x. q = Inl x) \<and> \<not> calm (stores e1 n)"
    then show ?thesis using step step1 by (auto simp: e1 split: prod.splits sum.splits)
  qed
qed

lemma full_backup_result:
  assumes v': "v' = sized v (io_size src) bs" and run: "run_ok E n v' src U"
    and wf: "wf_blocks (working (ses e))" and new: "new_version v n (working (ses e))"
    and sound: "sound_rows (env_hash E) (env_cf E n) U v (stores e n) (working (ses e))"
    and step: "backup E bs v src None None e = (r, e')"
  shows "(calm (stores e n) \<longrightarrow> r = Inr v' \<and> calm (stores e' n)) \<and>
    (\<forall>x. r = Inr x \<longrightarrow> x = v' \<and> backed_up E n v' src e' \<and> storage_name (working (ses e')) (ver_storage_id v) = Inr n \<and>
       (\<forall>w i. ver_id w \<noteq> ver_id v \<longrightarrow> get_block_by_idx w i (working (ses e')) = get_block_by_idx w i (working (ses e))))"
proof -
  let ?d = "working (ses e)"
  have none: "\<forall>r \<in> set (db_blocks ?d). blk_version_id r \<noteq> ver_id v"
    and free: "version_lock_name (ver_uid v) \<notin> set (map lck_name (db_locks ?d))" using new by (auto simp: new_version_def)
  have v'eq: "v' = v\<lparr>ver_size := ver_size v', ver_block_size := ver_block_size v'\<rparr>" by (simp add: v' sized_def)
  obtain s1 where s1: "update_version E v (ver_block_size v') (ver_size v') None (ses e) = (Inr v', s1)"
    and h1: "own_lock E v (working s1)"
    and d1: "db_blocks (working s1) = db_blocks ?d @ kept_rows v' (map (fresh_row v') (py_range 0 (blocks_count v')))"
      "db_versions (working s1) = db_versions (set_version_size v' ?d)" "db_storages (working s1) = db_storages ?d"
    by (rule update_version_fresh [OF wf none free v'eq])
  define e1 where "e1 = e\<lparr>ses := s1\<rparr>"
  have ready: "ready E n v' src U (working (ses e1)) (stores e1 n)"
    using ready_fresh [OF run _ _ wf new sound d1(1,2)] by (simp add: v' e1_def)
  have "get_by_uid (ver_uid v) (working s1) = Inr ((\<lambda>w. if ver_id w = ver_id v'
        then w\<lparr>ver_size := ver_size v', ver_block_size := ver_block_size v'\<rparr> else w) v)"
    by (rule get_by_uid_map [of _ _ ?d]) (use new in \<open>simp_all add: d1 set_version_size_def new_version_def\<close>)
  then have there: "get_by_uid (ver_uid v') (working (ses e1)) = Inr v'" "same_version v' v'"
    using v'eq by (simp_all add: e1_def v' sized_def same_version_def)
  have vu: "VersionUid (ver_uid v') = Inr (ver_uid v')" and nm: "storage_name (working (ses e1)) (ver_storage_id v') = Inr n"
    and h1': "own_lock E v' (working (ses e1))"
    using new h1 by (simp_all add: new_version_def v' e1_def storage_name_def d1 own_lock_def)
  obtain q e2 where q: "do_create_backup E v' src None None e1 = (q, e2)" by force
  have "ver_block_size v' = (if ver_block_size v \<noteq> 0 then ver_block_size v else bs)" "ver_size v' = io_size src"
    by (simp_all add: v' sized_def)
  with s1 step q have r: "e2 = e'" "r = map_sum id (\<lambda>_. v') q"
    by (auto simp: backup_def Let_def py_defs on_session_def e1_def split: sum.splits)
  have F: "(calm (stores e1 n) \<longrightarrow> q = Inr () \<and> calm (stores e' n)) \<and> (q = Inr () \<longrightarrow> backed_up E n v' src e' \<and>
     db_storages (working (ses e')) = db_storages (working (ses e1)) \<and>
     (\<forall>w i. ver_id w \<noteq> ver_id v' \<longrightarrow> get_block_by_idx w i (working (ses e')) = get_block_by_idx w i (working (ses e1))))"
    using full_copy [OF run ready there vu nm h1' q] r(1) by simp
  have other: "get_block_by_idx w i (working (ses e1)) = get_block_by_idx w i ?d" if "ver_id w \<noteq> ver_id v" for w i
    using that by (auto simp: get_block_by_idx_def query_block_def e1_def d1 find_append kept_fresh fresh_row_def v'
        find_None_iff split: option.splits dest!: find_SomeD)
  show ?thesis
  proof (cases q)
    case (Inr u)
    then have "backed_up E n v' src e'" "storage_name (working (ses e')) (ver_storage_id v) = Inr n" "\<forall>w i. ver_id w \<noteq> ver_id v \<longrightarrow>
        get_block_by_idx w i (working (ses e')) = get_block_by_idx w i ?d" using F other nm by (simp_all add: v' storage_name_def)
    then show ?thesis using F r(2) Inr by (simp add: e1_def)
  qed (use F r(2) in \<open>auto simp: e1_def\<close>)
qed

text \<open>C3: A full backup of any source, whatever the order in which reads and writes complete: it can
  only fail because of a fault of the storage, and when it returns, the committed rows of the version promise the source
  exactly: every index is a sparse block over zeros or a UID under which the storage holds an intact object with those bytes
  (written, or found by deduplication). The version is valid, its lock is released, and no other version's rows changed.\<close>

theorem full_backup_correct:
  assumes "v' = sized v (io_size src) bs" and "run_ok E n v' src U"
    and "wf_blocks (working (ses e))" and "new_version v n (working (ses e))"
    and "sound_rows (env_hash E) (env_cf E n) U v (stores e n) (working (ses e))"
    and "backup E bs v src None None e = (r, e')"
  shows "(calm (stores e n) \<longrightarrow> r = Inr v') \<and>
    (\<forall>x. r = Inr x \<longrightarrow> x = v' \<and> backed_up E n v' src e' \<and>
       (\<forall>w i. ver_id w \<noteq> ver_id v \<longrightarrow> get_block_by_idx w i (working (ses e')) = get_block_by_idx w i (working (ses e))))"
  using full_backup_result [OF assms] by blast

definition demo_hash :: "bytes \<Rightarrow> string" where
  "demo_hash bs = CHR ''h'' # map (\<lambda>b. char_of (unat b)) bs"

lemma inj_demo_hash: "inj demo_hash"
proof (rule inj_on_inverseI [where g = "\<lambda>s. map (\<lambda>c. word_of_nat (of_char c)) (tl s)"])
  fix x :: bytes
  have "unat b mod 256 = unat b" for b :: "8 word" using unsigned_less [of b, where 'a = nat] by simp
  then show "map (\<lambda>c. word_of_nat (of_char c)) (tl (demo_hash x)) = x"
    by (simp add: demo_hash_def comp_def)
qed

definition demo_sched :: sched where
  "demo_sched = \<lparr> read_order = rev, poll_writes = (\<lambda>k js. (take 1 js, drop 1 js)), wait_writes = rev \<rparr>"

definition demo_env :: env where
  "demo_env = \<lparr> env_me = demo_process, env_cf = (\<lambda>_. demo_conf), env_hash = demo_hash, env_now = 0, env_timestamp = ''t'',
     env_sample = (\<lambda>xs k. take k xs), env_export = (\<lambda>v d. ''{}''), env_sched = demo_sched \<rparr>"

definition demo_new_version :: version where
  "demo_new_version = demo_version\<lparr>ver_size := 0, ver_block_size := 0, ver_status := incomplete\<rparr>"

definition demo_new_engine :: engine where
  "demo_new_engine = \<lparr> ses = session_on \<lparr> db_versions = [demo_new_version], db_blocks = [], db_labels = [], db_deleted = [],
     db_locks = [], db_storages = [\<lparr> sto_id = 1, sto_name = ''s'', sto_module = ''file'' \<rparr>] \<rparr>, stores = (\<lambda>_. demo_fs) \<rparr>"

lemma demo_run_ok:
  "0 < bs \<Longrightarrow> run_ok demo_env n (sized demo_new_version (io_size src) bs) src UNIV"
  by (auto simp: run_ok_def demo_env_def good_demo_conf fair_sched_def demo_sched_def sized_def demo_new_version_def
      demo_version_def inj_demo_hash demo_hash_def simp flip: mset_append)

lemma demo_new: "new_version demo_new_version ''s'' (working (ses demo_new_engine))"
proof -
  have "VersionUid ''v1'' = Inr ''v1''" by code_simp
  then show ?thesis by (simp add: new_version_def get_by_uid_def demo_new_engine_def demo_new_version_def demo_version_def storage_name_def)
qed

theorem full_backup_correct_witness:
  "\<exists>e'. backup demo_env 2 demo_new_version [1, 2, 0, 0, 7] None None demo_new_engine =
      (Inr (sized demo_new_version 5 2), e') \<and> backed_up demo_env ''s'' (sized demo_new_version 5 2) [1, 2, 0, 0, 7] e'"
proof -
  let ?src = "[1, 2, 0, 0, 7] :: bytes"
  obtain r e' where b: "backup demo_env 2 demo_new_version ?src None None demo_new_engine = (r, e')" by force
  have w: "wf_blocks (working (ses demo_new_engine))" and c: "calm (stores demo_new_engine ''s'')"
    and s: "sound_rows (env_hash demo_env) (env_cf demo_env ''s'') UNIV demo_new_version (stores demo_new_engine ''s'') (working (ses demo_new_engine))"
    by (simp_all add: demo_new_engine_def wf_blocks_def calm_demo_fs sound_rows_def)
  have sz: "io_size ?src = 5" by (simp add: io_size_def)
  have bs: "0 < (2 :: int)" by simp
  from full_backup_correct [OF refl demo_run_ok [OF bs] w demo_new s b] c
  have "r = Inr (sized demo_new_version (io_size ?src) 2)" "backed_up demo_env ''s'' (sized demo_new_version (io_size ?src) 2) ?src e'"
    by blast+
  with b show ?thesis unfolding sz by blast
qed

end
