(* ===== verification/Restore.thy ===== *)
theory Restore
  imports Backup_Theorems
begin

text \<open>
  \<open>Benji.restore\<close> of \<open>benji.py\<close>. Sparse blocks are written first (unless the target is restored sparsely), then the blocks
  read from the storage, in the order in which the reads complete. As in \<open>Backup\<close>, a queued write runs when its result is taken;
  the loop variable \<open>block\<close> survives from one loop into the next, as in the code. Faults of the target file are not modelled.
\<close>

record rst =
  rs_eng :: engine
  rs_target :: "bytes option"
  rs_pending :: "(block \<times> bytes) list"
  rs_polls :: nat
  rs_block :: "block option"
  rs_read_jobs :: nat
  rs_done_read :: nat
  rs_write_jobs :: nat
  rs_done_write :: nat

definition rs_session :: "(exn, session, 'a) py \<Rightarrow> (exn, rst, 'a) py" where
  "rs_session m k = (case on_session m (rs_eng k) of (r, e) \<Rightarrow> (r, k\<lparr>rs_eng := e\<rparr>))"

definition mark_invalid :: "block_uid \<Rightarrow> rst \<Rightarrow> rst" where
  "mark_invalid uid k =
     k\<lparr>rs_eng := (rs_eng k)\<lparr>ses := snd (set_block_valid uid False (ses (rs_eng k)))\<rparr>\<rparr>"

text \<open>\<open>io.open_w\<close>: a new file is created before seeking to its end fails.\<close>

definition open_target :: "int \<Rightarrow> bool \<Rightarrow> (exn, rst, unit) py" where
  "open_target sz force k =
     (case io_open_w sz force (rs_target k) of
        Inl x \<Rightarrow> (Inl x, k\<lparr>rs_target := Some (case rs_target k of Some t \<Rightarrow> t | None \<Rightarrow> [])\<rparr>)
      | Inr t \<Rightarrow> (Inr (), k\<lparr>rs_target := Some t\<rparr>))"

text \<open>A write to the target completes.\<close>

definition target_write :: "int \<Rightarrow> block \<times> bytes \<Rightarrow> rst \<Rightarrow> rst" where
  "target_write block_size job k =
     k\<lparr>rs_target := map_option (io_write block_size (fst job) (snd job)) (rs_target k), rs_done_write := rs_done_write k + 1\<rparr>"

definition io_submit :: "block \<Rightarrow> bytes \<Rightarrow> rst \<Rightarrow> rst" where
  "io_submit b data k = k\<lparr>rs_pending := rs_pending k @ [(b, data)], rs_write_jobs := rs_write_jobs k + 1\<rparr>"

text \<open>\<open>handle_sparse_write_completed\<close> and \<open>handle_write_completed\<close> with timeout 0, and waiting for all.\<close>

definition take_completed :: "env \<Rightarrow> version \<Rightarrow> rst \<Rightarrow> rst" where
  "take_completed E v k =
     (case poll_writes (env_sched E) (rs_polls k) (rs_pending k) of
        (fin, later) \<Rightarrow> fold (target_write (ver_block_size v)) fin (k\<lparr>rs_pending := later, rs_polls := rs_polls k + 1\<rparr>))"

definition wait_completed :: "env \<Rightarrow> version \<Rightarrow> rst \<Rightarrow> rst" where
  "wait_completed E v k =
     fold (target_write (ver_block_size v)) (wait_writes (env_sched E) (rs_pending k)) (k\<lparr>rs_pending := []\<rparr>)"

text \<open>The loop over \<open>version.blocks\<close>; the result is the list of queued reads.\<close>

fun queue_restore :: "env \<Rightarrow> version \<Rightarrow> bool \<Rightarrow> block list \<Rightarrow> rst \<Rightarrow> block list \<times> rst" where
  "queue_restore E v sparse [] k = ([], k)"
| "queue_restore E v sparse (b # bs) k =
     (let k1 = k\<lparr>rs_block := Some b\<rparr>;
          k2 = (if uid_bool (blk_uid b) then k1\<lparr>rs_read_jobs := rs_read_jobs k1 + 1\<rparr>
                else if \<not> sparse then io_submit b (replicate (nat (ver_block_size v)) 0) k1
                else k1);
          k3 = (if sparse then k2 else take_completed E v k2)
      in case queue_restore E v sparse bs k3 of
           (q, k4) \<Rightarrow> (if uid_bool (blk_uid b) then b # q else q, k4))"

text \<open>
  One entry of \<open>storage.read_get_completed()\<close>. The handler for a failed read marks the block of the loop variable, which is
  still the one of the previous entry. What was read is written before it is checked.
\<close>

definition restore_entry :: "env \<Rightarrow> string \<Rightarrow> version \<Rightarrow> block \<Rightarrow> (exn, rst, unit) py" where
  "restore_entry E n v b k =
     (case on_store n (storage_read (env_cf E n) file_backend b False) (rs_eng k) of
        (r, e) \<Rightarrow>
          let k1 = k\<lparr>rs_eng := e, rs_done_read := rs_done_read k + 1\<rparr> in
          (case r of
             Inl x \<Rightarrow>
               if is_key_or_value_error x
               then (case rs_block k1 of Some b0 \<Rightarrow> (Inr (), mark_invalid (blk_uid b0) k1) | None \<Rightarrow> (Inl AttributeError, k1))
               else (Inl x, k1)
           | Inr (b', data, m) \<Rightarrow>
               let d = (case data of Some d \<Rightarrow> d | None \<Rightarrow> []);
                   k2 = io_submit b' d (k1\<lparr>rs_block := Some b'\<rparr>)
               in case check_block_metadata b' (Some (int (length d))) m of
                    Inl x \<Rightarrow> (Inr (), mark_invalid (blk_uid b') k2)
                  | Inr _ \<Rightarrow>
                      (Inr (), take_completed E v
                         (if blk_checksum b' \<noteq> Some (env_hash E d) then mark_invalid (blk_uid b') k2 else k2))))"

text \<open>The second \<open>try\<close> block.\<close>

definition restore_blocks :: "env \<Rightarrow> version \<Rightarrow> bool \<Rightarrow> (exn, rst, unit) py" where
  "restore_blocks E v sparse k =
     (case storage_name_of (working (ses (rs_eng k))) v of
        Inl x \<Rightarrow> (Inl x, k)
      | Inr n \<Rightarrow>
          (case queue_restore E v sparse (blocks v (working (ses (rs_eng k)))) k of
             (reads, k1) \<Rightarrow>
               let k2 = wait_completed E v k1 in
               if rs_write_jobs k2 \<noteq> rs_done_write k2 then (Inl InternalError, k2)
               else
                 (case for_each (restore_entry E n v) (read_order (env_sched E) reads)
                    (k2\<lparr>rs_done_read := 0, rs_write_jobs := 0, rs_done_write := 0\<rparr>) of
                    (Inl x, k3) \<Rightarrow> (Inl x, k3)
                  | (Inr _, k3) \<Rightarrow> (Inr (), wait_completed E v k3))))"

definition restore :: "env \<Rightarrow> string \<Rightarrow> bool \<Rightarrow> bool \<Rightarrow> (exn, rst, unit) py" where
  "restore E uid sparse force =
     thenS (rs_session (lock_version (env_me E) uid (Some ''Restoring version'') False (env_now E)))
     (bindS
       (exceptS
         (bindS (\<lambda>k. (get_by_uid uid (working (ses (rs_eng k))), k)) (\<lambda>v.
          thenS (open_target (ver_size v) force) (returnS v)))
         (\<lambda>x. thenS (rs_session (unlock_version (env_me E) uid)) (raiseS x)))
       (\<lambda>v.
     thenS (finallyS (restore_blocks E v sparse) (rs_session (unlock_version (env_me E) uid)))
     (\<lambda>k. if rs_read_jobs k \<noteq> rs_done_read k then (Inl InternalError, k)
           else if rs_write_jobs k \<noteq> rs_done_write k then (Inl InternalError, k)
           else (Inr (), k))))"

definition start_restore :: "engine \<Rightarrow> bytes option \<Rightarrow> rst" where
  "start_restore e target = \<lparr> rs_eng = e, rs_target = target, rs_pending = [], rs_polls = 0, rs_block = None, rs_read_jobs = 0,
     rs_done_read = 0, rs_write_jobs = 0, rs_done_write = 0 \<rparr>"

section \<open>Regions of the target\<close>

definition region :: "version \<Rightarrow> int \<Rightarrow> bytes \<Rightarrow> bytes" where
  "region v i t = py_slice (nat (i * ver_block_size v)) (nat (i * ver_block_size v) + nat (part_size v i)) t"

lemma py_slice_write_other:
  assumes "a + l \<le> length t" and "off \<le> length t" and "a + l \<le> off \<or> off + length d \<le> a"
  shows "py_slice a (a + l) (write_at off d t) = py_slice a (a + l) t"
proof -
  have w: "write_at off d t = take off t @ d @ drop (off + length d) t" using assms(2) by (simp add: write_at_def)
  from assms(3) show ?thesis
  proof
    assume "a + l \<le> off"
    then show ?thesis using assms(1,2) by (simp add: w py_slice_def drop_take take_append)
  next
    assume "off + length d \<le> a"
    then show ?thesis using assms(1,2) by (simp add: w py_slice_def add.commute)
  qed
qed

lemma py_slice_write_same:
  assumes "off \<le> length t" and "l \<le> length d"
  shows "py_slice off (off + l) (write_at off d t) = take l d"
  using assms by (simp add: write_at_def py_slice_def)

text \<open>An index of the version in natural numbers: its offset and length lie inside the version.\<close>

lemma index_bounds:
  assumes "0 < ver_block_size v" and "i \<in> {0..<blocks_count v}"
  obtains a l m where "nat (i * ver_block_size v) = a" "nat (part_size v i) = l" "nat (ver_block_size v) = m"
    "a + l \<le> nat (ver_size v)" "a < nat (ver_size v)" "l \<le> m" "a = nat i * m" "0 < m" "0 < l"
    "l = min m (nat (ver_size v) - a)"
proof -
  have lt: "i * ver_block_size v < ver_size v" and i: "0 \<le> i"
    using assms less_ceil_div_iff [OF assms(1), of i "ver_size v"] by (auto simp: blocks_count_def)
  obtain a where a: "i * ver_block_size v = int a"
    using i assms(1) by (metis mult_nonneg_nonneg nonneg_int_cases order_less_imp_le)
  obtain m where m: "ver_block_size v = int m" using assms(1) by (metis nonneg_int_cases order_less_imp_le)
  have "0 \<le> ver_size v" using lt a by linarith
  then obtain z where z: "ver_size v = int z" by (rule nonneg_int_cases)
  have l: "nat (part_size v i) = min m (z - a)" unfolding part_size_def a unfolding m z by linarith
  have am: "a = nat i * m" using a i m by (metis nat_int nat_mult_distrib)
  have az: "a < z" "0 < m" using lt a z m assms(1) by simp_all
  have "nat (i * ver_block_size v) = a" by (simp only: a nat_int)
  moreover have "a + min m (z - a) \<le> nat (ver_size v)" "a < nat (ver_size v)" "0 < min m (z - a)"
    "min m (z - a) = min m (nat (ver_size v) - a)" using az z by simp_all
  ultimately show thesis using l m am az(2) by (intro that [of a "min m (z - a)" m]) (simp_all only: nat_int min.cobounded1)
qed

lemma region_write_other:
  assumes "0 < ver_block_size v" and "i \<in> {0..<blocks_count v}" and "blk_idx b \<in> {0..<blocks_count v}" and "blk_idx b \<noteq> i"
    and "nat (ver_size v) \<le> length t" and "length data \<le> nat (ver_block_size v)"
  shows "region v i (io_write (ver_block_size v) b data t) = region v i t"
proof -
  obtain a l m where i: "nat (i * ver_block_size v) = a" "nat (part_size v i) = l" "nat (ver_block_size v) = m"
    "a + l \<le> nat (ver_size v)" "l \<le> m" "a = nat i * m" by (rule index_bounds [OF assms(1,2)])
  obtain off where j: "nat (blk_idx b * ver_block_size v) = off" "off < nat (ver_size v)" "off = nat (blk_idx b) * m"
    using index_bounds [OF assms(1,3)] i(3) by metis
  have "nat (blk_idx b) \<noteq> nat i" using assms(2-4) by auto
  then have "nat (blk_idx b) + 1 \<le> nat i \<or> nat i + 1 \<le> nat (blk_idx b)" by linarith
  then have "(nat (blk_idx b) + 1) * m \<le> nat i * m \<or> (nat i + 1) * m \<le> nat (blk_idx b) * m"
    using mult_le_mono1 by blast
  then have "a + l \<le> off \<or> off + length data \<le> a" using i(3,5,6) j(3) assms(6) by auto
  with i j assms(5) show ?thesis
    by (simp add: region_def io_write_def) (intro py_slice_write_other, simp_all)
qed

lemma region_write_same:
  assumes "0 < ver_block_size v" and "blk_idx b \<in> {0..<blocks_count v}"
    and "nat (ver_size v) \<le> length t" and "nat (part_size v (blk_idx b)) \<le> length data"
  shows "region v (blk_idx b) (io_write (ver_block_size v) b data t) = take (nat (part_size v (blk_idx b))) data"
proof -
  obtain a l where i: "nat (blk_idx b * ver_block_size v) = a" "nat (part_size v (blk_idx b)) = l" "a < nat (ver_size v)"
    by (rule index_bounds [OF assms(1,2)])
  then show ?thesis using py_slice_write_same [of a t l data] assms(3,4) by (simp add: region_def io_write_def)
qed

lemma length_io_write: "length t \<le> length (io_write bs b data t)"
  by (simp add: io_write_def length_write_at)

text \<open>Two files that agree on every region agree on the size of the version.\<close>

lemma regions_determine:
  assumes bs: "0 < ver_block_size v" and "0 \<le> ver_size v" and len: "nat (ver_size v) \<le> length t" "nat (ver_size v) \<le> length u"
    and eq: "\<forall>i \<in> {0..<blocks_count v}. region v i t = region v i u"
  shows "take (nat (ver_size v)) t = take (nat (ver_size v)) u"
proof (rule nth_equalityI)
  fix k assume "k < length (take (nat (ver_size v)) t)"
  then have k: "k < nat (ver_size v)" "k < length t" "k < length u" using len by auto
  define m where "m = nat (ver_block_size v)"
  have m: "int m = ver_block_size v" "0 < m" using bs by (simp_all add: m_def)
  define i where "i = int (k div m)"
  have km: "k = k div m * m + k mod m" "k mod m < m" using m by simp_all
  have dm: "k div m * m + k mod m = k" "k div m * m \<le> k" by simp_all
  have off: "i * ver_block_size v = int (k div m * m)" by (simp add: i_def flip: m(1))
  have "int (k div m * m) \<le> int k" using km(1) by linarith
  then have "i * ver_block_size v < ver_size v" using k(1) off by linarith
  then have i: "i \<in> {0..<blocks_count v}" using less_ceil_div_iff [OF bs] by (simp add: blocks_count_def i_def)
  have "int (k mod m) < ver_block_size v" using km(2) m(1) by linarith
  moreover have "int (k mod m) < ver_size v - i * ver_block_size v" unfolding off using km(1) k(1) by linarith
  ultimately have "k mod m < nat (part_size v i)" by (simp add: part_size_def zless_nat_eq_int_zless)
  moreover have "nat (i * ver_block_size v) = k div m * m" by (simp only: off nat_int)
  ultimately have r: "region v i x ! (k mod m) = x ! k" if "k < length x" for x :: bytes
    using that dm le_trans [OF dm(2) less_imp_le [OF that]] by (simp add: region_def py_slice_def)
  have "region v i t = region v i u" using eq i by blast
  then have "t ! k = u ! k" using r [OF k(2)] r [OF k(3)] by simp
  then show "take (nat (ver_size v)) t ! k = take (nat (ver_size v)) u ! k" using k(1) by simp
qed (use len in simp)

section \<open>The invariant of the restore\<close>

text \<open>
  \<open>R\<close>: indices whose block has not been read yet. Every index that is neither open nor pending already has its bytes in the
  target. When no write reaches beyond its region (\<open>exact\<close>), the target keeps its length.
\<close>

definition covers :: "version \<Rightarrow> bytes \<Rightarrow> bool" where
  "covers v src \<longleftrightarrow> 0 < ver_block_size v \<and> ver_size v = io_size src"

definition target_inv :: "version \<Rightarrow> bytes \<Rightarrow> bool \<Rightarrow> nat \<Rightarrow> int set \<Rightarrow> bytes \<Rightarrow> bool" where
  "target_inv v src exact L I t \<longleftrightarrow> length src \<le> length t \<and> (exact \<longrightarrow> length t = L) \<and>
     (\<forall>i \<in> {0..<blocks_count v} - I. region v i t = region v i src)"

definition io_job_ok :: "version \<Rightarrow> bytes \<Rightarrow> bool \<Rightarrow> block \<times> bytes \<Rightarrow> bool" where
  "io_job_ok v src exact job \<longleftrightarrow> (case job of (b, data) \<Rightarrow> blk_idx b \<in> {0..<blocks_count v} \<and>
     nat (part_size v (blk_idx b)) \<le> length data \<and> length data \<le> nat (ver_block_size v) \<and>
     (exact \<longrightarrow> length data = nat (part_size v (blk_idx b))) \<and>
     take (nat (part_size v (blk_idx b))) data = region v (blk_idx b) src)"

definition rst_inv :: "version \<Rightarrow> bytes \<Rightarrow> bool \<Rightarrow> nat \<Rightarrow> int set \<Rightarrow> rst \<Rightarrow> bool" where
  "rst_inv v src exact L R k \<longleftrightarrow> (\<exists>t. rs_target k = Some t \<and> target_inv v src exact L (R \<union> job_idx ` set (rs_pending k)) t) \<and>
     (\<forall>job \<in> set (rs_pending k). io_job_ok v src exact job) \<and> rs_write_jobs k = rs_done_write k + length (rs_pending k)"

lemma target_inv_mono: "target_inv v src exact L I t \<Longrightarrow> I \<subseteq> J \<Longrightarrow> target_inv v src exact L J t"
  by (auto simp: target_inv_def)

lemma target_inv_write:
  assumes cov: "covers v src" and inv: "target_inv v src exact L I t" and job: "io_job_ok v src exact (b, data)"
  shows "target_inv v src exact L (I - {blk_idx b}) (io_write (ver_block_size v) b data t)"
proof -
  have bs: "0 < ver_block_size v" and len: "nat (ver_size v) \<le> length t"
    using cov inv by (simp_all add: covers_def target_inv_def io_size_def)
  have j: "blk_idx b \<in> {0..<blocks_count v}" "nat (part_size v (blk_idx b)) \<le> length data" "length data \<le> nat (ver_block_size v)"
    "take (nat (part_size v (blk_idx b))) data = region v (blk_idx b) src"
    using job by (simp_all add: io_job_ok_def)
  have "region v i (io_write (ver_block_size v) b data t) = region v i src" if "i \<in> {0..<blocks_count v} - (I - {blk_idx b})" for i
  proof (cases "i = blk_idx b")
    case True
    then show ?thesis using region_write_same [OF bs j(1) len j(2)] j(4) by simp
  next
    case False
    then show ?thesis using region_write_other [OF bs _ j(1) _ len j(3), of i] that inv by (auto simp: target_inv_def)
  qed
  moreover have "length (io_write (ver_block_size v) b data t) = length t" if "exact"
  proof -
    obtain a l where "nat (blk_idx b * ver_block_size v) = a" "nat (part_size v (blk_idx b)) = l" "a + l \<le> nat (ver_size v)"
      by (rule index_bounds [OF bs j(1)])
    then show ?thesis using job that len by (simp add: io_write_def length_write_at io_job_ok_def)
  qed
  ultimately show ?thesis using inv length_io_write [of t "ver_block_size v" b data] by (auto simp: target_inv_def)
qed

lemma target_writes:
  assumes cov: "covers v src" and "\<forall>job \<in> set jobs. io_job_ok v src exact job"
    and "rs_target k = Some t" and "target_inv v src exact L (I \<union> job_idx ` set jobs) t"
  shows "\<exists>t'. fold (target_write (ver_block_size v)) jobs k =
      k\<lparr>rs_target := Some t', rs_done_write := rs_done_write k + length jobs\<rparr> \<and> target_inv v src exact L I t'"
  using assms(2-4)
proof (induction jobs arbitrary: k t)
  case Nil
  then show ?case by (intro exI [of _ t], cases k) simp
next
  case (Cons job jobs)
  obtain b data where job: "job = (b, data)" by force
  let ?t = "io_write (ver_block_size v) b data t"
  have "target_inv v src exact L ((I \<union> job_idx ` set (job # jobs)) - {blk_idx b}) ?t"
    using Cons.prems by (intro target_inv_write [OF cov]) (simp_all add: job)
  then have "target_inv v src exact L (I \<union> job_idx ` set jobs) ?t" by (rule target_inv_mono) (auto simp: job)
  from Cons.IH [OF _ _ this, of "target_write (ver_block_size v) job k"] Cons.prems
  show ?case by (auto simp: target_write_def job)
qed

lemma rst_inv_flush:
  assumes cov: "covers v src" and inv: "rst_inv v src exact L R k"
    and perm: "mset fin + mset later = mset (rs_pending k)"
  shows "\<exists>t'. fold (target_write (ver_block_size v)) fin (k\<lparr>rs_pending := later, rs_polls := p\<rparr>) =
      k\<lparr>rs_pending := later, rs_polls := p, rs_target := Some t', rs_done_write := rs_done_write k + length fin\<rparr> \<and>
    rst_inv v src exact L R (k\<lparr>rs_pending := later, rs_polls := p, rs_target := Some t', rs_done_write := rs_done_write k + length fin\<rparr>)"
proof -
  obtain t where t: "rs_target k = Some t" "target_inv v src exact L (R \<union> job_idx ` set (rs_pending k)) t"
    and ok: "\<forall>job \<in> set (rs_pending k). io_job_ok v src exact job" and cnt: "rs_write_jobs k = rs_done_write k + length (rs_pending k)"
    using inv by (auto simp: rst_inv_def)
  have st: "set (rs_pending k) = set fin \<union> set later" and ln: "length (rs_pending k) = length fin + length later"
    using perm by (metis set_mset_mset set_mset_union, metis size_mset size_union)
  have "target_inv v src exact L ((R \<union> job_idx ` set later) \<union> job_idx ` set fin) t"
    using t(2) by (rule target_inv_mono) (auto simp: st)
  from target_writes [OF cov _ _ this, of "k\<lparr>rs_pending := later, rs_polls := p\<rparr>"] ok t(1)
  obtain t' where "fold (target_write (ver_block_size v)) fin (k\<lparr>rs_pending := later, rs_polls := p\<rparr>) =
      k\<lparr>rs_pending := later, rs_polls := p, rs_target := Some t', rs_done_write := rs_done_write k + length fin\<rparr>"
    "target_inv v src exact L (R \<union> job_idx ` set later) t'" by (auto simp: st)
  then show ?thesis using ok cnt by (intro exI [of _ t']) (auto simp: rst_inv_def st ln)
qed

lemma take_completed_inv:
  assumes "covers v src" and "rst_inv v src exact L R k" and "fair_sched (env_sched E)"
  shows "rst_inv v src exact L R (take_completed E v k) \<and> rs_eng (take_completed E v k) = rs_eng k \<and>
     rs_read_jobs (take_completed E v k) = rs_read_jobs k \<and> rs_done_read (take_completed E v k) = rs_done_read k"
proof -
  obtain fin later where p: "poll_writes (env_sched E) (rs_polls k) (rs_pending k) = (fin, later)" by force
  have "mset fin + mset later = mset (rs_pending k)" using assms(3) p by (metis fair_sched_def fst_conv snd_conv)
  from rst_inv_flush [OF assms(1,2) this, of "rs_polls k + 1"] p show ?thesis by (auto simp: take_completed_def)
qed

lemma wait_completed_inv:
  assumes "covers v src" and "rst_inv v src exact L R k" and "fair_sched (env_sched E)"
  shows "rst_inv v src exact L R (wait_completed E v k) \<and> rs_pending (wait_completed E v k) = [] \<and> rs_eng (wait_completed E v k) = rs_eng k \<and>
     rs_read_jobs (wait_completed E v k) = rs_read_jobs k \<and> rs_done_read (wait_completed E v k) = rs_done_read k"
proof -
  have "mset (wait_writes (env_sched E) (rs_pending k)) + mset [] = mset (rs_pending k)" using assms(3) by (simp add: fair_sched_def)
  from rst_inv_flush [OF assms(1,2) this, of "rs_polls k"]
  have "\<exists>t'. wait_completed E v k = k\<lparr>rs_pending := [], rs_target := Some t',
      rs_done_write := rs_done_write k + length (wait_writes (env_sched E) (rs_pending k))\<rparr> \<and>
    rst_inv v src exact L R (k\<lparr>rs_pending := [], rs_target := Some t',
      rs_done_write := rs_done_write k + length (wait_writes (env_sched E) (rs_pending k))\<rparr>)"
    by (simp add: wait_completed_def)
  then show ?thesis by auto
qed

lemma submit_inv:
  assumes "rst_inv v src exact L (insert (blk_idx b) R) k" and "io_job_ok v src exact (b, data)"
  shows "rst_inv v src exact L R (io_submit b data k)"
proof -
  have "target_inv v src exact L (R \<union> job_idx ` set (rs_pending k @ [(b, data)])) t"
    if "target_inv v src exact L (insert (blk_idx b) R \<union> job_idx ` set (rs_pending k)) t" for t
    using that by (rule target_inv_mono) auto
  with assms show ?thesis by (auto simp: rst_inv_def io_submit_def)
qed

lemma rst_inv_same:
  "rst_inv v src exact L R k \<Longrightarrow> rs_target k' = rs_target k \<Longrightarrow> rs_pending k' = rs_pending k \<Longrightarrow>
     rs_write_jobs k' = rs_write_jobs k \<Longrightarrow> rs_done_write k' = rs_done_write k \<Longrightarrow> rst_inv v src exact L R k'"
  by (simp add: rst_inv_def)

lemma rst_inv_mono: "rst_inv v src exact L R k \<Longrightarrow> R \<subseteq> R' \<Longrightarrow> rst_inv v src exact L R' k"
  unfolding rst_inv_def by (meson Un_mono order_refl target_inv_mono)

text \<open>Queueing: the sparse blocks are submitted as zeros, the others stay open.\<close>

definition zero_ok :: "version \<Rightarrow> bytes \<Rightarrow> bool \<Rightarrow> block \<Rightarrow> bool" where
  "zero_ok v src exact b \<longleftrightarrow> blk_idx b \<in> {0..<blocks_count v} \<and> (uid_bool (blk_uid b) \<or> set (region v (blk_idx b) src) \<subseteq> {0} \<and>
     (exact \<longrightarrow> part_size v (blk_idx b) = ver_block_size v))"

lemma length_region:
  assumes "covers v src" and "i \<in> {0..<blocks_count v}"
  shows "length (region v i src) = nat (part_size v i)" and "nat (part_size v i) \<le> nat (ver_block_size v)"
proof -
  obtain a l m where "nat (i * ver_block_size v) = a" "nat (part_size v i) = l" "nat (ver_block_size v) = m"
    "a + l \<le> nat (ver_size v)" "l \<le> m" using assms by (metis covers_def index_bounds)
  then show "length (region v i src) = nat (part_size v i)" "nat (part_size v i) \<le> nat (ver_block_size v)"
    using assms(1) by (auto simp: region_def covers_def io_size_def)
qed

lemma zero_job_ok:
  assumes "covers v src" and "zero_ok v src exact b" and "\<not> uid_bool (blk_uid b)"
  shows "io_job_ok v src exact (b, replicate (nat (ver_block_size v)) 0)"
proof -
  have z: "set (region v (blk_idx b) src) \<subseteq> {0}" and i: "blk_idx b \<in> {0..<blocks_count v}" using assms(2,3) by (auto simp: zero_ok_def)
  then have "region v (blk_idx b) src = replicate (length (region v (blk_idx b) src)) 0"
    by (intro replicate_eqI) auto
  with length_region [OF assms(1) i] i assms(2,3) show ?thesis
    by (auto simp: io_job_ok_def zero_ok_def min_def)
qed

lemma queue_restore_inv:
  assumes cov: "covers v src" and fair: "fair_sched (env_sched E)"
    and "\<forall>b \<in> set bs. sparse \<or> zero_ok v src exact b"
    and "rst_inv v src exact L (R \<union> blk_idx ` {b \<in> set bs. uid_bool (blk_uid b) \<or> \<not> sparse}) k"
    and "queue_restore E v sparse bs k = (q, k')"
  shows "q = filter (\<lambda>b. uid_bool (blk_uid b)) bs \<and> rst_inv v src exact L (R \<union> blk_idx ` set q) k' \<and> rs_eng k' = rs_eng k \<and>
     rs_read_jobs k' = rs_read_jobs k + length q"
  using assms(3-5)
proof (induction bs arbitrary: R k q k')
  case (Cons b bs)
  let ?O = "\<lambda>bs. blk_idx ` {b \<in> set bs. uid_bool (blk_uid b) \<or> \<not> sparse}"
  define k1 where "k1 = k\<lparr>rs_block := Some b\<rparr>"
  define k2 where "k2 = (if uid_bool (blk_uid b) then k1\<lparr>rs_read_jobs := rs_read_jobs k1 + 1\<rparr>
    else if \<not> sparse then io_submit b (replicate (nat (ver_block_size v)) 0) k1 else k1)"
  define k3 where "k3 = (if sparse then k2 else take_completed E v k2)"
  obtain q4 k4 where q4: "queue_restore E v sparse bs k3 = (q4, k4)" by force
  have res: "q = (if uid_bool (blk_uid b) then b # q4 else q4)" "k' = k4"
    using Cons.prems(3) q4 unfolding k3_def k2_def k1_def queue_restore.simps Let_def by auto
  let ?R = "if uid_bool (blk_uid b) then insert (blk_idx b) R else R"
  have inv1: "rst_inv v src exact L (R \<union> ?O (b # bs)) k1" by (rule rst_inv_same [OF Cons.prems(2)]) (simp_all add: k1_def)
  have "rst_inv v src exact L (?R \<union> ?O bs) k2"
  proof (cases "uid_bool (blk_uid b)")
    case True
    have "rst_inv v src exact L (?R \<union> ?O bs) k1" using inv1 by (rule rst_inv_mono) (use True in auto)
    then show ?thesis by (rule rst_inv_same) (simp_all add: k2_def True)
  next
    case False
    show ?thesis
    proof (cases sparse)
      case True
      have "rst_inv v src exact L (?R \<union> ?O bs) k1" using inv1 by (rule rst_inv_mono) (use True False in auto)
      then show ?thesis by (simp add: k2_def True False)
    next
      case nsp: False
      have "rst_inv v src exact L (insert (blk_idx b) (R \<union> ?O bs)) k1" using inv1 by (rule rst_inv_mono) auto
      moreover have "io_job_ok v src exact (b, replicate (nat (ver_block_size v)) 0)"
        using Cons.prems(1) nsp False by (intro zero_job_ok [OF cov]) auto
      ultimately show ?thesis using submit_inv by (simp add: k2_def False nsp)
    qed
  qed
  then have inv3: "rst_inv v src exact L (?R \<union> ?O bs) k3" and e3: "rs_eng k3 = rs_eng k2" "rs_read_jobs k3 = rs_read_jobs k2"
    using take_completed_inv [OF cov _ fair] by (auto simp: k3_def)
  have e2: "rs_eng k2 = rs_eng k" "rs_read_jobs k2 = rs_read_jobs k + (if uid_bool (blk_uid b) then 1 else 0)"
    by (simp_all add: k2_def k1_def io_submit_def)
  have "\<forall>b \<in> set bs. sparse \<or> zero_ok v src exact b" using Cons.prems(1) by auto
  from Cons.IH [OF this inv3 q4] have q: "q4 = filter (\<lambda>b. uid_bool (blk_uid b)) bs"
    and inv: "rst_inv v src exact L (?R \<union> blk_idx ` set q4) k4" and e4: "rs_eng k4 = rs_eng k3" "rs_read_jobs k4 = rs_read_jobs k3 + length q4"
    by blast+
  have "rst_inv v src exact L (R \<union> blk_idx ` set q) k'" using inv unfolding res by (rule rst_inv_mono) auto
  then show ?case using q res e2 e3 e4 by simp
qed simp

section \<open>Reading the blocks back\<close>

lemma region_source: "covers v src \<Longrightarrow> i \<in> {0..<blocks_count v} \<Longrightarrow> region v i src = source_block v src i"
proof -
  assume a: "covers v src" "i \<in> {0..<blocks_count v}"
  obtain z l m where i: "nat (i * ver_block_size v) = z" "nat (part_size v i) = l" "nat (ver_block_size v) = m"
    "l = min m (nat (ver_size v) - z)" using a by (metis covers_def index_bounds)
  then have "l = min m (length src - z)" using a(1) by (simp add: covers_def io_size_def)
  then show ?thesis by (simp add: region_def source_block_def i py_slice_def min_def)
qed

text \<open>What the loop relies on: every queued block is backed by an object with the bytes of its index.\<close>

definition readable :: "env \<Rightarrow> string \<Rightarrow> version \<Rightarrow> bytes \<Rightarrow> engine \<Rightarrow> block \<Rightarrow> bool" where
  "readable E n v src e b \<longleftrightarrow> blk_idx b \<in> {0..<blocks_count v} \<and>
     stored (env_cf E n) (fs_content (stores e n)) b (source_block v src (blk_idx b)) \<and>
     blk_checksum b = Some (env_hash E (source_block v src (blk_idx b)))"

lemma restore_entry_inv:
  assumes cov: "covers v src" and fair: "fair_sched (env_sched E)" and rd: "readable E n v src (rs_eng k) b"
    and inv: "rst_inv v src exact L (insert (blk_idx b) R) k" and step: "restore_entry E n v b k = (r, k')"
  shows "ses (rs_eng k') = ses (rs_eng k) \<and> fs_content (stores (rs_eng k') n) = fs_content (stores (rs_eng k) n) \<and>
    rs_read_jobs k' = rs_read_jobs k \<and>
    (r = Inr () \<and> rst_inv v src exact L R k' \<and> rs_done_read k' = rs_done_read k + 1 \<and>
       (calm (stores (rs_eng k) n) \<longrightarrow> calm (stores (rs_eng k') n)) \<or>
     (\<exists>x. r = Inl x) \<and> \<not> calm (stores (rs_eng k) n))"
proof -
  let ?s = "stores (rs_eng k) n" and ?d = "source_block v src (blk_idx b)"
  have st: "stored (env_cf E n) (fs_content ?s) b ?d" and i: "blk_idx b \<in> {0..<blocks_count v}"
    and cs: "blk_checksum b = Some (env_hash E ?d)" using rd by (auto simp: readable_def)
  obtain q s1 where q: "storage_read (env_cf E n) file_backend b False ?s = (q, s1)" by force
  note R = fobj.read_stored [OF st q]
  have calm: "calm ?s \<Longrightarrow> (\<exists>m. q = Inr (b, Some ?d, m)) \<and> calm s1"
    using calm_storage_read [OF _ st] q by (metis Pair_inject)
  define k1 where "k1 = k\<lparr>rs_eng := (rs_eng k)\<lparr>stores := (stores (rs_eng k))(n := s1)\<rparr>, rs_done_read := rs_done_read k + 1\<rparr>"
  show ?thesis
  proof (cases q)
    case (Inl x)
    then have "x = OSError" using R by auto
    then have "r = Inl OSError" "k' = k1"
      using step q Inl by (simp_all add: restore_entry_def on_store_def k1_def Let_def)
    then show ?thesis using R calm Inl by (auto simp: k1_def)
  next
    case (Inr y)
    then obtain m where y: "q = Inr (b, Some ?d, m)" "check_block_metadata b (Some (int (length ?d))) m = Inr ()" using R by auto
    define k2 where "k2 = io_submit b ?d (k1\<lparr>rs_block := Some b\<rparr>)"
    have k': "r = Inr ()" "k' = take_completed E v k2"
      using step q y cs by (simp_all add: restore_entry_def on_store_def k1_def k2_def Let_def)
    have "io_job_ok v src exact (b, ?d)"
      using length_region [OF cov i] i region_source [OF cov i] by (simp add: io_job_ok_def)
    moreover have "rst_inv v src exact L (insert (blk_idx b) R) (k1\<lparr>rs_block := Some b\<rparr>)"
      by (rule rst_inv_same [OF inv]) (simp_all add: k1_def)
    ultimately have "rst_inv v src exact L R k2" unfolding k2_def by (intro submit_inv)
    from take_completed_inv [OF cov this fair] k' R calm show ?thesis by (simp add: k2_def k1_def io_submit_def)
  qed
qed

lemma restore_entries_inv:
  assumes cov: "covers v src" and fair: "fair_sched (env_sched E)" and "\<forall>b \<in> set Q. readable E n v src (rs_eng k) b"
    and "rst_inv v src exact L (blk_idx ` set Q) k" and "for_each (restore_entry E n v) Q k = (r, k')"
  shows "ses (rs_eng k') = ses (rs_eng k) \<and> rs_read_jobs k' = rs_read_jobs k \<and>
    (r = Inr () \<and> rst_inv v src exact L {} k' \<and> rs_done_read k' = rs_done_read k + length Q \<or>
     (\<exists>x. r = Inl x) \<and> \<not> calm (stores (rs_eng k) n))"
  using assms(3-5)
proof (induction Q arbitrary: k)
  case (Cons b Q)
  obtain q k1 where q: "restore_entry E n v b k = (q, k1)" by force
  have "readable E n v src (rs_eng k) b" "rst_inv v src exact L (insert (blk_idx b) (blk_idx ` set Q)) k" using Cons.prems by simp_all
  note S = restore_entry_inv [OF cov fair this q]
  have rd: "\<forall>b \<in> set Q. readable E n v src (rs_eng k1) b" using Cons.prems(1) S by (simp add: readable_def)
  show ?case
  proof (cases "q = Inr ()")
    case True
    then have "for_each (restore_entry E n v) Q k1 = (r, k')" using Cons.prems(3) q by simp
    with Cons.IH [OF rd] S True show ?thesis by auto
  next
    case False
    with S Cons.prems(3) q show ?thesis by auto
  qed
qed auto

section \<open>The whole restore\<close>

text \<open>A version whose committed rows promise the bytes \<open>src\<close>.\<close>

definition promises :: "env \<Rightarrow> string \<Rightarrow> version \<Rightarrow> bytes \<Rightarrow> database \<Rightarrow> fs \<Rightarrow> bool" where
  "promises E n v src d f \<longleftrightarrow> covers v src \<and> wf_blocks d \<and> get_by_uid (ver_uid v) d = Inr v \<and> storage_name d (ver_storage_id v) = Inr n \<and>
     (\<forall>i \<in> {0..<blocks_count v}. block_holds (env_hash E) (env_cf E n) f (get_block_by_idx v i d) (source_block v src i))"

text \<open>No sparse block is shorter than the block size.\<close>

definition full_holes :: "version \<Rightarrow> database \<Rightarrow> bool" where
  "full_holes v d \<longleftrightarrow> (\<forall>b \<in> set (blocks v d). uid_bool (blk_uid b) \<or> blk_size b = ver_block_size v)"

text \<open>The target: a new file, or a large enough one that is overwritten completely.\<close>

definition target_ok :: "bytes \<Rightarrow> bool \<Rightarrow> bool \<Rightarrow> bytes option \<Rightarrow> bool" where
  "target_ok src sparse force target \<longleftrightarrow>
     (case target of None \<Rightarrow> src \<noteq> [] | Some t \<Rightarrow> force \<and> \<not> sparse \<and> length src \<le> length t)"

definition opened :: "bytes \<Rightarrow> bytes option \<Rightarrow> bytes" where
  "opened src target = (case target of None \<Rightarrow> replicate (length src) 0 | Some t \<Rightarrow> t)"

lemma blocks_of_promise:
  assumes "promises E n v src d f"
  shows "blocks v d = map (\<lambda>i. get_block_by_idx v i d) (py_range 0 (blocks_count v))"
  using assms by (intro blocks_eq) (auto simp: promises_def covers_def io_size_def)

lemma promise_blocks:
  assumes "promises E n v src d f" and "b \<in> set (blocks v d)"
  shows "blk_idx b \<in> {0..<blocks_count v}" "block_holds (env_hash E) (env_cf E n) f b (source_block v src (blk_idx b))"
  using assms blocks_of_promise [OF assms(1)] by (auto simp: promises_def get_block_key)

lemma zeros_eq: "set xs \<subseteq> {0} \<Longrightarrow> set ys \<subseteq> {0} \<Longrightarrow> length xs = length ys \<Longrightarrow> xs = ys"
  by (induction xs ys rule: list_induct2') auto

lemma restore_blocks_correct:
  assumes prom: "promises E n v src (working (ses (rs_eng k))) (stores (rs_eng k) n)" and fair: "fair_sched (env_sched E)"
    and k: "rs_target k = Some t" "rs_pending k = []" "rs_read_jobs k = 0" "rs_write_jobs k = rs_done_write k"
    and t: "length src \<le> length t" "sparse \<Longrightarrow> set t \<subseteq> {0}"
    and exact: "exact \<Longrightarrow> sparse \<or> full_holes v (working (ses (rs_eng k)))"
    and step: "restore_blocks E v sparse k = (r, k')"
  shows "ses (rs_eng k') = ses (rs_eng k) \<and> (calm (stores (rs_eng k) n) \<longrightarrow> r = Inr ()) \<and>
    (r = Inr () \<longrightarrow> rst_inv v src exact (length t) {} k' \<and> rs_pending k' = [] \<and> rs_done_read k' = rs_read_jobs k')"
proof -
  let ?d = "working (ses (rs_eng k))" and ?L = "length t"
  let ?bs = "blocks v ?d"
  have cov: "covers v src" and name: "storage_name_of ?d v = Inr n" using prom by (simp_all add: promises_def storage_name_of_def)
  note B = promise_blocks [OF prom]
  have len: "length (source_block v src (blk_idx b)) = nat (part_size v (blk_idx b))" if "b \<in> set ?bs" for b
    using length_region [OF cov B(1) [OF that]] region_source [OF cov B(1) [OF that]] by simp
  have pos: "0 < part_size v (blk_idx b)" if "b \<in> set ?bs" for b
    using index_bounds [OF _ B(1) [OF that]] cov by (metis covers_def zero_less_nat_eq)
  have zero: "\<forall>b \<in> set ?bs. sparse \<or> zero_ok v src exact b"
  proof
    fix b assume b: "b \<in> set ?bs"
    have "blk_size b = part_size v (blk_idx b)" using B(2) [OF b] len [OF b] pos [OF b] by (simp add: block_holds_def)
    moreover have "blk_size b = ver_block_size v" if "exact" "\<not> sparse" "\<not> uid_bool (blk_uid b)"
      using exact [OF that(1)] that b by (auto simp: full_holes_def)
    ultimately show "sparse \<or> zero_ok v src exact b"
      using B [OF b] region_source [OF cov B(1) [OF b]] by (auto simp: zero_ok_def block_holds_def)
  qed
  have "region v i t = region v i src" if "i \<in> {0..<blocks_count v} - blk_idx ` {b \<in> set ?bs. uid_bool (blk_uid b) \<or> \<not> sparse}" for i
  proof -
    let ?b = "get_block_by_idx v i ?d"
    have i: "i \<in> {0..<blocks_count v}" using that by simp
    have b: "?b \<in> set ?bs" "blk_idx ?b = i" using i blocks_of_promise [OF prom] by (simp_all add: get_block_key)
    with that have sp: "sparse" "\<not> uid_bool (blk_uid ?b)" by force+
    have "set (region v i src) \<subseteq> {0}" using B(2) [OF b(1)] sp(2) b(2) region_source [OF cov i] by (simp add: block_holds_def)
    moreover have "set (region v i t) \<subseteq> {0}"
      using t(2) [OF sp(1)] by (auto simp: region_def py_slice_def dest!: in_set_takeD in_set_dropD)
    moreover obtain a l where "nat (i * ver_block_size v) = a" "nat (part_size v i) = l" "a + l \<le> nat (ver_size v)"
      using index_bounds [OF _ i] cov by (metis covers_def)
    then have "length (region v i t) = length (region v i src)" using t(1) cov by (simp add: region_def covers_def io_size_def)
    ultimately show ?thesis by (intro zeros_eq)
  qed
  then have inv0: "rst_inv v src exact ?L ({} \<union> blk_idx ` {b \<in> set ?bs. uid_bool (blk_uid b) \<or> \<not> sparse}) k"
    using k t by (simp add: rst_inv_def target_inv_def)
  obtain q k1 where q: "queue_restore E v sparse ?bs k = (q, k1)" by force
  have Qs: "q = filter (\<lambda>b. uid_bool (blk_uid b)) ?bs" and inv1: "rst_inv v src exact ?L ({} \<union> blk_idx ` set q) k1"
    and e1: "rs_eng k1 = rs_eng k" "rs_read_jobs k1 = rs_read_jobs k + length q"
    using queue_restore_inv [OF cov fair zero inv0 q] by blast+
  define k2 where "k2 = wait_completed E v k1"
  note W = wait_completed_inv [OF cov inv1 fair, folded k2_def]
  define k3 where "k3 = k2\<lparr>rs_done_read := 0, rs_write_jobs := 0, rs_done_write := 0\<rparr>"
  have e3: "rs_eng k3 = rs_eng k" "rs_read_jobs k3 = length q" "rs_done_read k3 = 0" using W e1 k(3) by (simp_all add: k3_def)
  have jobs: "rs_write_jobs k2 = rs_done_write k2" using W by (simp add: rst_inv_def)
  have inv3: "rst_inv v src exact ?L (blk_idx ` set q) k3" using W by (auto simp: rst_inv_def k3_def)
  let ?q = "read_order (env_sched E) q"
  have perm: "mset ?q = mset q" using fair by (simp add: fair_sched_def)
  have sq: "set ?q = set q" using perm by (metis set_mset_mset)
  have lq: "length ?q = length q" by (rule mset_eq_length [OF perm])
  have rd: "\<forall>b \<in> set ?q. readable E n v src (rs_eng k3) b"
    unfolding sq
  proof
    fix b assume "b \<in> set q"
    then have "b \<in> set ?bs" "uid_bool (blk_uid b)" by (simp_all add: Qs)
    with B [of b] show "readable E n v src (rs_eng k3) b" by (simp add: readable_def e3 block_holds_def)
  qed
  obtain p k4 where p: "for_each (restore_entry E n v) ?q k3 = (p, k4)" by force
  have inv3': "rst_inv v src exact ?L (blk_idx ` set ?q) k3" using inv3 by (simp only: sq)
  note F = restore_entries_inv [OF cov fair rd inv3' p]
  have res: "(r, k') = (case p of Inl x \<Rightarrow> (Inl x, k4) | Inr _ \<Rightarrow> (Inr (), wait_completed E v k4))"
    using step name q jobs p by (simp add: restore_blocks_def k2_def [symmetric] k3_def [symmetric] Let_def split: sum.splits)
  show ?thesis
  proof (cases "p = Inr ()")
    case True
    then have "rst_inv v src exact ?L {} k4" "rs_done_read k4 = rs_read_jobs k4" using F e3 lq by auto
    with wait_completed_inv [OF cov _ fair, of exact ?L "{}" k4] res True F e3 show ?thesis by simp
  next
    case False
    with F res e3 show ?thesis by auto
  qed
qed

lemma io_open_ok:
  assumes "target_ok src sparse force target"
  shows "io_open_w (io_size src) force target = Inr (opened src target)"
  using assms by (auto simp: io_open_w_def target_ok_def opened_def io_size_def split: option.splits)

lemma restored_bytes:
  assumes cov: "covers v src" and inv: "rst_inv v src exact L {} k" and "rs_pending k = []"
  shows "\<exists>t. rs_target k = Some t \<and> take (length src) t = src \<and> (exact \<longrightarrow> length t = L)"
proof -
  obtain t where t: "rs_target k = Some t" "target_inv v src exact L {} t" using inv assms(3) by (auto simp: rst_inv_def)
  have "take (nat (ver_size v)) t = take (nat (ver_size v)) src"
    using cov t(2) by (intro regions_determine) (auto simp: covers_def target_inv_def io_size_def)
  then show ?thesis using t cov by (auto simp: covers_def io_size_def target_inv_def)
qed

lemma restore_result:
  assumes prom: "promises E n v src (working (ses e)) (stores e n)" and fair: "fair_sched (env_sched E)"
    and free: "version_lock_name (ver_uid v) \<notin> set (map lck_name (db_locks (working (ses e))))"
    and tgt: "target_ok src sparse force target"
    and step: "restore E (ver_uid v) sparse force (start_restore e target) = (r, k)"
  shows "(calm (stores e n) \<longrightarrow> r = Inr ()) \<and> working (ses (rs_eng k)) = committed (ses (rs_eng k)) \<and>
    committed (ses (rs_eng k)) = working (ses e) \<and>
    (r = Inr () \<longrightarrow> (\<exists>t. rs_target k = Some t \<and> take (length src) t = src \<and>
       (sparse \<or> full_holes v (working (ses e)) \<longrightarrow> length t = length (opened src target))))"
proof -
  let ?me = "env_me E" and ?n = "version_lock_name (ver_uid v)" and ?d = "working (ses e)"
  let ?exact = "sparse \<or> full_holes v ?d"
  define s1 where "s1 = commit (update_db (\<lambda>d. d\<lparr>db_locks := db_locks d @ [lock_row ?me ?n ''Restoring version'' (env_now E)]\<rparr>) (ses e))"
  have l: "lock_version ?me (ver_uid v) (Some ''Restoring version'') False (env_now E) (ses e) = (Inr (), s1)"
    unfolding lock_version_def s1_def by (rule lock_free_ok [OF free])
  have w1: "working s1 = ?d\<lparr>db_locks := db_locks ?d @ [lock_row ?me ?n ''Restoring version'' (env_now E)]\<rparr>" by (simp add: s1_def)
  define k1 where "k1 = (start_restore e target)\<lparr>rs_eng := e\<lparr>ses := s1\<rparr>, rs_target := Some (opened src target)\<rparr>"
  have sz: "ver_size v = io_size src" and cov: "covers v src" and uid: "get_by_uid (ver_uid v) (working s1) = Inr v"
    using prom by (simp_all add: promises_def covers_def get_by_uid_def w1)
  have prom1: "promises E n v src (working (ses (rs_eng k1))) (stores (rs_eng k1) n)"
    using prom by (simp add: promises_def k1_def w1 wf_blocks_def get_by_uid_def storage_name_def get_block_by_idx_def query_block_def)
  have fh: "full_holes v (working (ses (rs_eng k1))) = full_holes v ?d"
    using blocks_of_promise [OF prom1] blocks_of_promise [OF prom]
    by (simp add: full_holes_def k1_def w1 get_block_by_idx_def query_block_def)
  obtain q k2 where q: "restore_blocks E v sparse k1 = (q, k2)" by force
  have t: "length src \<le> length (opened src target)" "sparse \<Longrightarrow> set (opened src target) \<subseteq> {0}"
    using tgt by (auto simp: target_ok_def opened_def split: option.splits)
  have B: "ses (rs_eng k2) = s1 \<and> (calm (stores e n) \<longrightarrow> q = Inr ()) \<and>
    (q = Inr () \<longrightarrow> rst_inv v src ?exact (length (opened src target)) {} k2 \<and> rs_pending k2 = [] \<and> rs_done_read k2 = rs_read_jobs k2)"
    using restore_blocks_correct [OF prom1 fair _ _ _ _ t _ q, where exact = ?exact] fh
    by (simp add: k1_def start_restore_def)
  define s2 where "s2 = commit (update_db (\<lambda>d. d\<lparr>db_locks := filter (\<lambda>l. \<not> held_by ?me ?n l) (db_locks d)\<rparr>) s1)"
  have u: "unlock_version ?me (ver_uid v) s1 = (Inr (), s2)"
    unfolding unlock_version_def s2_def by (rule unlock_held_ok) (simp add: w1 holds_append)
  have "filter (\<lambda>l. \<not> held_by ?me ?n l) (db_locks ?d) = db_locks ?d"
    using free_names [OF free] by (intro filter_True) (auto simp: held_by_def)
  then have w2: "working s2 = ?d" "committed s2 = ?d" by (simp_all add: s2_def w1)
  define k3 where "k3 = k2\<lparr>rs_eng := (rs_eng k2)\<lparr>ses := s2\<rparr>\<rparr>"
  have open1: "open_target (ver_size v) force ((start_restore e target)\<lparr>rs_eng := e\<lparr>ses := s1\<rparr>\<rparr>) = (Inr (), k1)"
    using io_open_ok [OF tgt] by (simp add: open_target_def sz k1_def start_restore_def)
  have res: "(r, k) = (case q of Inl x \<Rightarrow> (Inl x, k3) | Inr _ \<Rightarrow>
     if rs_read_jobs k3 \<noteq> rs_done_read k3 then (Inl InternalError, k3)
     else if rs_write_jobs k3 \<noteq> rs_done_write k3 then (Inl InternalError, k3) else (Inr (), k3))"
    using step l uid open1 q u B
    by (auto simp: restore_def py_defs rs_session_def on_session_def start_restore_def k3_def split: sum.splits)
  have k3: "ses (rs_eng k3) = s2" "rs_target k3 = rs_target k2" "rs_write_jobs k3 = rs_write_jobs k2" "rs_done_write k3 = rs_done_write k2"
    "rs_read_jobs k3 = rs_read_jobs k2" "rs_done_read k3 = rs_done_read k2" by (simp_all add: k3_def)
  show ?thesis
  proof (cases q)
    case (Inr x)
    then have inv: "rst_inv v src ?exact (length (opened src target)) {} k2" "rs_pending k2 = []" "rs_done_read k2 = rs_read_jobs k2"
      using B by auto
    then have "r = Inr ()" "k = k3" using res Inr by (auto simp: k3 rst_inv_def split: if_splits)
    with restored_bytes [OF cov inv(1,2)] show ?thesis by (simp add: k3 w2)
  qed (use res B in \<open>auto simp: k3 w2\<close>)
qed

text \<open>C5: Restoring a version whose rows promise the bytes \<open>src\<close>, whatever the order in which
  reads and writes complete: only a fault of the storage can make it fail, the database is left as it was (no block is marked
  invalid, the lock is released), and when it returns, the target starts with exactly \<open>src\<close>. The length of the target is
  unchanged when the restore is sparse or no sparse block is shorter than the block size.\<close>

theorem restore_correct:
  assumes "promises E n v src (working (ses e)) (stores e n)" and "fair_sched (env_sched E)"
    and "version_lock_name (ver_uid v) \<notin> set (map lck_name (db_locks (working (ses e))))"
    and "target_ok src sparse force target"
    and "restore E (ver_uid v) sparse force (start_restore e target) = (r, k)"
  shows "(calm (stores e n) \<longrightarrow> r = Inr ()) \<and> working (ses (rs_eng k)) = committed (ses (rs_eng k)) \<and>
    committed (ses (rs_eng k)) = working (ses e) \<and>
    (r = Inr () \<longrightarrow> (\<exists>t. rs_target k = Some t \<and> take (length src) t = src \<and>
       (sparse \<or> full_holes v (working (ses e)) \<longrightarrow> length t = length (opened src target))))"
  by (rule restore_result [OF assms])

text \<open>A version with one short hole, at the end: the situation a hint for the end of a source leads to.\<close>

definition hole_version :: version where
  "hole_version = demo_version\<lparr>ver_size := 3, ver_block_size := 2\<rparr>"

definition hole_block :: block where
  "hole_block = \<lparr> blk_version_id = 1, blk_idx = 1, blk_uid = SparseBlockUid, blk_checksum = None, blk_size = 1, blk_valid = True \<rparr>"

definition hole_engine :: engine where
  "hole_engine = \<lparr> ses = session_on \<lparr> db_versions = [hole_version], db_blocks = [hole_block], db_labels = [], db_deleted = [],
     db_locks = [], db_storages = [\<lparr> sto_id = 1, sto_name = ''s'', sto_module = ''file'' \<rparr>] \<rparr>, stores = (\<lambda>_. demo_fs) \<rparr>"

lemmas hole_defs = hole_version_def hole_block_def hole_engine_def demo_version_def

lemma hole_promises: "promises demo_env ''s'' hole_version [0, 0, 0] (working (ses hole_engine)) (stores hole_engine ''s'')"
proof -
  have "blocks_count hole_version = 2" by (simp add: blocks_count_def hole_defs ceil_div_def)
  moreover have "{0..<2} = {0, 1 :: int}" by auto
  ultimately show ?thesis
    by (simp add: promises_def covers_def io_size_def hole_defs wf_blocks_def get_by_uid_def storage_name_def
        get_block_by_idx_def query_block_def create_sparse_block_def block_holds_def source_block_def py_slice_def)
qed

lemma demo_fair: "fair_sched (env_sched demo_env)"
  by (auto simp: demo_env_def fair_sched_def demo_sched_def simp flip: mset_append)

theorem restore_correct_witness:
  "\<exists>k. restore demo_env ''v1'' True False (start_restore hole_engine None) = (Inr (), k) \<and> rs_target k = Some [0, 0, 0]"
proof -
  obtain r k where k: "restore demo_env (ver_uid hole_version) True False (start_restore hole_engine None) = (r, k)" by force
  have c: "calm (stores hole_engine ''s'')" by (simp add: hole_engine_def calm_demo_fs)
  have "r = Inr ()" and "\<exists>t. rs_target k = Some t \<and> take (length [0, 0, 0 :: 8 word]) t = [0, 0, 0] \<and> length t = length [0, 0, 0 :: 8 word]"
    using restore_correct [OF hole_promises demo_fair _ _ k] c
    by (simp_all add: hole_engine_def target_ok_def opened_def)
  then have "rs_target k = Some [0, 0, 0]" by (metis take_all_iff order_refl)
  then show ?thesis using k \<open>r = Inr ()\<close> by (auto simp: hole_defs)
qed

text \<open>A hole shorter than the block size is restored as a whole block of zeros: a non-sparse restore of
  a 3-byte version with block size 2 makes a file of 4 bytes.\<close>

theorem restore_overshoots_short_hole:
  "let (r, k) = restore demo_env ''v1'' False False (start_restore hole_engine None)
   in r = Inr () \<and> rs_target k = Some [0, 0, 0, 0] \<and> ver_size hole_version = 3"
  by code_simp

section \<open>What a backup made can be restored\<close>

lemma same_version_blocks:
  assumes "same_version v w"
  shows "blocks_count w = blocks_count v" "get_block_by_idx w i d = get_block_by_idx v i d" "source_block w src i = source_block v src i"
  using assms by (simp_all add: same_version_def blocks_count_def get_block_by_idx_def query_block_def create_sparse_block_def source_block_def split: option.split)

lemma backed_up_promises:
  assumes up: "backed_up E n v src e" and run: "run_ok E n v src U" and name: "storage_name (working (ses e)) (ver_storage_id v) = Inr n"
  obtains w where "promises E n w src (working (ses e)) (stores e n)" "ver_uid w = ver_uid v"
proof -
  obtain w where w: "get_by_uid (ver_uid v) (working (ses e)) = Inr w" "same_version v w"
    using up by (auto simp: backed_up_def concluded_def)
  have "promises E n w src (working (ses e)) (stores e n)"
    using up run name w same_version_blocks [OF w(2)]
    by (auto simp: promises_def backed_up_def covers_def run_ok_def same_version_def)
  with w(2) that show thesis by (simp add: same_version_def)
qed

end
