(* ===== verification/Nbd_Store.thy ===== *)
theory Nbd_Store
  imports Restore
begin

text \<open>
  The classes \<open>_BlockStore\<close> and \<open>BenjiStore\<close> of \<open>benji.py\<close>: byte-addressed reads and copy-on-write writes on a version, for the
  NBD server. The copy-on-write files are a map from file names to contents; the block cache is the third-party package
  \<open>diskcache\<close>, a parameter that may forget entries at any time.
\<close>

declare dict_get_set [simp]

section \<open>The copy-on-write store\<close>

text \<open>\<open>os.path.join(dir, p)\<close> for a relative \<open>p\<close> is \<open>join_prefix dir @ p\<close>.\<close>

definition join_prefix :: "string \<Rightarrow> string" where
  "join_prefix dir = (if dir = [] \<or> last dir = CHR ''/'' then dir else dir @ ''/'')"

definition cache_filename :: "string \<Rightarrow> (string \<Rightarrow> string) \<Rightarrow> block_uid \<Rightarrow> string res" where
  "cache_filename dir md5 uid = bind_res (block_to_key uid) (to_path md5 (join_prefix dir))"

record block_store =
  cs_files :: "(string, bytes) dict"
  cs_present :: "block_uid list"

text \<open>\<open>f.read(n)\<close> reads to the end of the file when \<open>n\<close> is negative.\<close>

definition file_range :: "int \<Rightarrow> int option \<Rightarrow> bytes \<Rightarrow> bytes" where
  "file_range off len f =
     (case len of
        None \<Rightarrow> drop (nat off) f
      | Some n \<Rightarrow> if n < 0 then drop (nat off) f else take (nat n) (drop (nat off) f))"

definition cs_read :: "string \<Rightarrow> (string \<Rightarrow> string) \<Rightarrow> block_uid \<Rightarrow> int \<Rightarrow> int option \<Rightarrow> block_store \<Rightarrow> bytes res" where
  "cs_read dir md5 uid off len c =
     bind_res (cache_filename dir md5 uid) (\<lambda>name.
       case dict_get (cs_files c) name of None \<Rightarrow> Inl FileNotFoundError | Some f \<Rightarrow> Inr (file_range off len f))"

definition cs_write :: "string \<Rightarrow> (string \<Rightarrow> string) \<Rightarrow> block_uid \<Rightarrow> bytes \<Rightarrow> block_store \<Rightarrow> block_store res" where
  "cs_write dir md5 uid data c =
     bind_res (cache_filename dir md5 uid) (\<lambda>name.
       Inr (c\<lparr>cs_files := dict_set (cs_files c) name data, cs_present := List.insert uid (cs_present c)\<rparr>))"

definition cs_update :: "string \<Rightarrow> (string \<Rightarrow> string) \<Rightarrow> block_uid \<Rightarrow> int \<Rightarrow> bytes \<Rightarrow> block_store \<Rightarrow> block_store res" where
  "cs_update dir md5 uid off data c =
     bind_res (cache_filename dir md5 uid) (\<lambda>name.
       case dict_get (cs_files c) name of
         None \<Rightarrow> Inl FileNotFoundError
       | Some f \<Rightarrow> Inr (c\<lparr>cs_files := dict_set (cs_files c) name (write_at (nat off) data f)\<rparr>))"

definition cs_rm :: "string \<Rightarrow> (string \<Rightarrow> string) \<Rightarrow> block_uid \<Rightarrow> (exn, block_store, unit) py" where
  "cs_rm dir md5 uid c =
     (let c1 = c\<lparr>cs_present := removeAll uid (cs_present c)\<rparr> in
      case cache_filename dir md5 uid of
        Inl x \<Rightarrow> (Inl x, c1)
      | Inr name \<Rightarrow> (Inr (), c1\<lparr>cs_files := dict_del (cs_files c) name\<rparr>))"

definition cs_present_in :: "block_uid \<Rightarrow> block_store \<Rightarrow> bool" where
  "cs_present_in uid c \<longleftrightarrow> uid \<in> set (cs_present c)"

section \<open>The store\<close>

record 'c cache_ops =
  c_get :: "string \<Rightarrow> 'c \<Rightarrow> bytes option \<times> 'c"
  c_put :: "string \<Rightarrow> bytes \<Rightarrow> 'c \<Rightarrow> 'c"

record 'c nbd =
  nb_eng :: engine
  nb_cow :: "(string, (int, block) dict) dict"
  nb_store :: block_store
  nb_cache :: 'c

record 'c nbd_env =
  nb_env :: env
  nb_dir :: string
  nb_md5 :: "string \<Rightarrow> string"
  nb_ops :: "'c cache_ops"

text \<open>
  \<open>_block_list\<close>. \<open>get_block_by_idx\<close> never returns \<open>None\<close>: beyond the last block it synthesises sparse ones, so the branch
  for that case is dead. \<open>None\<close> is a loop that does not end.
\<close>

partial_function (option) block_list :: "version \<Rightarrow> database \<Rightarrow> int \<Rightarrow> int \<Rightarrow> int \<Rightarrow> (block \<times> int \<times> int) list option" where
  "block_list v d block_idx block_offset len =
     (let b = get_block_by_idx v block_idx d;
          length_in_block = min (blk_size b - block_offset) len
      in if len - length_in_block = 0 then Some [(b, block_offset, length_in_block)]
         else Option.bind (block_list v d (block_idx + 1) 0 (len - length_in_block))
                (\<lambda>cs. Some ((b, block_offset, length_in_block) # cs)))"

declare block_list.simps [code]

definition chunks :: "version \<Rightarrow> database \<Rightarrow> int \<Rightarrow> int \<Rightarrow> (block \<times> int \<times> int) list option" where
  "chunks v d off len = block_list v d (off div ver_block_size v) (off mod ver_block_size v) len"

definition cow_of :: "string option \<Rightarrow> 'c nbd \<Rightarrow> (int, block) dict option res" where
  "cow_of cow_version st =
     (case cow_version of
        None \<Rightarrow> Inr None
      | Some uid \<Rightarrow> (case dict_get (nb_cow st) uid of None \<Rightarrow> Inl KeyError | Some c \<Rightarrow> Inr (Some c)))"

text \<open>One chunk of a read: from the copy-on-write store, sparse, from the cache, or from the storage and into the cache.\<close>

definition read_chunk :: "'c nbd_env \<Rightarrow> version \<Rightarrow> (int, block) dict option \<Rightarrow> block \<times> int \<times> int \<Rightarrow> (exn, 'c nbd, bytes) py" where
  "read_chunk N v cow c st =
     (case c of (b, off, len) \<Rightarrow>
      case (case cow of None \<Rightarrow> None | Some m \<Rightarrow> dict_get m (blk_idx b)) of
        Some cb \<Rightarrow>
          if \<not> cs_present_in (blk_uid cb) (nb_store st) then (Inl AssertionError, st)
          else (cs_read (nb_dir N) (nb_md5 N) (blk_uid cb) off (Some len) (nb_store st), st)
      | None \<Rightarrow>
          if \<not> uid_bool (blk_uid b) then (Inr (replicate (nat len) 0), st)
          else
            (case c_get (nb_ops N) (uid_str (blk_uid b)) (nb_cache st) of
               (Some f, c1) \<Rightarrow> (Inr (file_range off (Some len) f), st\<lparr>nb_cache := c1\<rparr>)
             | (None, c1) \<Rightarrow>
                 (case storage_name_of (working (ses (nb_eng st))) v of
                    Inl x \<Rightarrow> (Inl x, st\<lparr>nb_cache := c1\<rparr>)
                  | Inr n \<Rightarrow>
                      (case on_store n (storage_read (env_cf (nb_env N) n) file_backend b False) (nb_eng st) of
                         (Inl x, e) \<Rightarrow> (Inl x, st\<lparr>nb_eng := e, nb_cache := c1\<rparr>)
                       | (Inr (_, data, _), e) \<Rightarrow>
                           let f = (case data of Some f \<Rightarrow> f | None \<Rightarrow> []) in
                           (Inr (py_slice (nat off) (nat (off + len)) f),
                            st\<lparr>nb_eng := e, nb_cache := c_put (nb_ops N) (uid_str (blk_uid b)) f c1\<rparr>)))))"

fun read_chunks :: "'c nbd_env \<Rightarrow> version \<Rightarrow> (int, block) dict option \<Rightarrow> (block \<times> int \<times> int) list \<Rightarrow> (exn, 'c nbd, bytes) py" where
  "read_chunks N v cow [] st = (Inr [], st)"
| "read_chunks N v cow (c # cs) st =
     (case read_chunk N v cow c st of
        (Inl x, st1) \<Rightarrow> (Inl x, st1)
      | (Inr d, st1) \<Rightarrow>
          (case read_chunks N v cow cs st1 of (Inl x, st2) \<Rightarrow> (Inl x, st2) | (Inr ds, st2) \<Rightarrow> (Inr (d @ ds), st2)))"

definition nbd_read :: "'c nbd_env \<Rightarrow> version \<Rightarrow> string option \<Rightarrow> int \<Rightarrow> int \<Rightarrow> 'c nbd \<Rightarrow> ((exn + bytes) \<times> 'c nbd) option" where
  "nbd_read N v cow_version off len st =
     (case cow_of cow_version st of
        Inl x \<Rightarrow> Some (Inl x, st)
      | Inr cow \<Rightarrow>
          map_option (\<lambda>cs. read_chunks N v cow cs st) (chunks v (working (ses (nb_eng st))) off len))"

text \<open>One chunk of a write: the block is copied first unless that was done before.\<close>

definition write_chunk :: "'c nbd_env \<Rightarrow> version \<Rightarrow> block \<times> int \<times> int \<Rightarrow> bytes \<Rightarrow> (exn, 'c nbd, unit) py" where
  "write_chunk N v c data st =
     (case c of (b, off, len) \<Rightarrow>
      case dict_get (nb_cow st) (ver_uid v) of
        None \<Rightarrow> (Inl KeyError, st)
      | Some cow \<Rightarrow>
      (case dict_get cow (blk_idx b) of
        Some cb \<Rightarrow>
          (case cs_update (nb_dir N) (nb_md5 N) (blk_uid cb) off data (nb_store st) of
             Inl x \<Rightarrow> (Inl x, st) | Inr s \<Rightarrow> (Inr (), st\<lparr>nb_store := s\<rparr>))
      | None \<Rightarrow>
          (case (if uid_bool (blk_uid b)
                 then bindS (\<lambda>e. (storage_name_of (working (ses e)) v, e)) (\<lambda>n.
                        bindS (on_store n (storage_read (env_cf (nb_env N) n) file_backend b False))
                          (\<lambda>(_, d, _). returnS (case d of Some f \<Rightarrow> f | None \<Rightarrow> [])))
                 else returnS (replicate (nat (ver_block_size v)) 0)) (nb_eng st) of
             (Inl x, e) \<Rightarrow> (Inl x, st\<lparr>nb_eng := e\<rparr>)
           | (Inr orig, e) \<Rightarrow>
               let nb = b\<lparr>blk_uid := BlockUid (Some (ver_id v)) (Some (blk_idx b + 1)), blk_checksum := None\<rparr> in
               (case cs_write (nb_dir N) (nb_md5 N) (blk_uid nb) (write_at (nat off) data orig) (nb_store st) of
                  Inl x \<Rightarrow> (Inl x, st\<lparr>nb_eng := e\<rparr>)
                | Inr s \<Rightarrow> (Inr (), st\<lparr>nb_eng := e, nb_store := s,
                                     nb_cow := dict_set (nb_cow st) (ver_uid v) (dict_set cow (blk_idx b) nb)\<rparr>)))))"

text \<open>\<open>data[a:b]\<close> where a negative position counts from the end.\<close>

definition py_index :: "int \<Rightarrow> nat \<Rightarrow> nat" where
  "py_index a n = nat (if a < 0 then a + int n else a)"

definition py_slice_int :: "int \<Rightarrow> int \<Rightarrow> 'a list \<Rightarrow> 'a list" where
  "py_slice_int a b xs = py_slice (py_index a (length xs)) (py_index b (length xs)) xs"

text \<open>The data is cut along the chunks; \<open>pos\<close> is \<open>position_in_data\<close>.\<close>

fun write_chunks :: "'c nbd_env \<Rightarrow> version \<Rightarrow> (block \<times> int \<times> int) list \<Rightarrow> bytes \<Rightarrow> int \<Rightarrow> (exn, 'c nbd, unit) py" where
  "write_chunks N v [] data pos st = (Inr (), st)"
| "write_chunks N v (c # cs) data pos st =
     (case write_chunk N v c (py_slice_int pos (pos + snd (snd c)) data) st of
        (Inl x, st1) \<Rightarrow> (Inl x, st1)
      | (Inr _, st1) \<Rightarrow> write_chunks N v cs data (pos + snd (snd c)) st1)"

definition nbd_write :: "'c nbd_env \<Rightarrow> version \<Rightarrow> int \<Rightarrow> bytes \<Rightarrow> 'c nbd \<Rightarrow> ((exn + unit) \<times> 'c nbd) option" where
  "nbd_write N v off data st =
     (case dict_get (nb_cow st) (ver_uid v) of
        None \<Rightarrow> Some (Inl KeyError, st)
      | Some _ \<Rightarrow>
          map_option (\<lambda>cs. write_chunks N v cs data 0 st)
            (chunks v (working (ses (nb_eng st))) off (int (length data))))"

text \<open>\<open>fixate\<close>: every copied block goes to the storage and into the rows of the version.\<close>

definition fixate_row :: "'c nbd_env \<Rightarrow> version \<Rightarrow> int \<Rightarrow> block_uid \<Rightarrow> block_uid \<Rightarrow> string option \<Rightarrow> int \<Rightarrow> (exn, 'c nbd, unit) py" where
  "fixate_row N v idx old uid cs sz st =
     (case cs_rm (nb_dir N) (nb_md5 N) old (nb_store st) of
        (Inl x, c) \<Rightarrow> (Inl x, st\<lparr>nb_store := c\<rparr>)
      | (Inr _, c) \<Rightarrow>
          (Inr (), st\<lparr>nb_store := c, nb_eng := (nb_eng st)\<lparr>ses := set_block v idx uid cs sz True (ses (nb_eng st))\<rparr>\<rparr>))"

definition fixate_block :: "'c nbd_env \<Rightarrow> string \<Rightarrow> version \<Rightarrow> block \<Rightarrow> (exn, 'c nbd, unit) py" where
  "fixate_block N n v b st =
     (case cs_read (nb_dir N) (nb_md5 N) (blk_uid b) 0 None (nb_store st) of
        Inl x \<Rightarrow> (Inl x, st)
      | Inr data \<Rightarrow>
          let cs = env_hash (nb_env N) data; sz = int (length data) in
          if cs = env_hash (nb_env N) (replicate (nat (ver_block_size v)) 0)
          then fixate_row N v (blk_idx b) (blk_uid b) SparseBlockUid None sz st
          else
            (case on_store n (storage_write (env_cf (nb_env N) n) file_backend (env_timestamp (nb_env N)) 0
                    (b\<lparr>blk_checksum := Some cs\<rparr>) data) (nb_eng st) of
               (Inl x, e) \<Rightarrow> (Inl x, st\<lparr>nb_eng := e\<rparr>)
             | (Inr _, e) \<Rightarrow> fixate_row N v (blk_idx b) (blk_uid b) (blk_uid b) (Some cs) sz (st\<lparr>nb_eng := e\<rparr>)))"

definition nb_engine :: "(exn, engine, 'a) py \<Rightarrow> (exn, 'c nbd, 'a) py" where
  "nb_engine m st = (case m (nb_eng st) of (r, e) \<Rightarrow> (r, st\<lparr>nb_eng := e\<rparr>))"

definition fixate :: "'c nbd_env \<Rightarrow> version \<Rightarrow> (exn, 'c nbd, unit) py" where
  "fixate N v st =
     (case dict_get (nb_cow st) (ver_uid v) of
        None \<Rightarrow> (Inl KeyError, st)
      | Some cow \<Rightarrow>
          (case storage_name_of (working (ses (nb_eng st))) v of
             Inl x \<Rightarrow> (Inl x, st)
           | Inr n \<Rightarrow>
               thenS (for_each (fixate_block N n v) (map snd cow))
               (thenS (nb_engine (thenS (on_session (\<lambda>s. (Inr (), set_version v (Some valid) (Some True) (commit s))))
                  (thenS (metadata_backup (nb_env N) n v)
                         (on_session (unlock_version (env_me (nb_env N)) (ver_uid v))))))
               (\<lambda>t. (Inr (), t\<lparr>nb_cow := dict_del (nb_cow t) (ver_uid v)\<rparr>))) st))"

definition nbd_open :: "'c nbd_env \<Rightarrow> version \<Rightarrow> (exn, 'c nbd, unit) py" where
  "nbd_open N v = nb_engine (on_session (lock_version (env_me (nb_env N)) (ver_uid v) (Some ''NBD'') False (env_now (nb_env N))))"

definition nbd_close :: "'c nbd_env \<Rightarrow> version \<Rightarrow> (exn, 'c nbd, unit) py" where
  "nbd_close N v = nb_engine (on_session (unlock_version (env_me (nb_env N)) (ver_uid v)))"

section \<open>The device the store stands for\<close>

text \<open>The block cache may forget, but it never returns anything but what was put under the key.\<close>

definition good_cache :: "'c cache_ops \<Rightarrow> ('c \<Rightarrow> string \<Rightarrow> bytes option) \<Rightarrow> bool" where
  "good_cache ops view \<longleftrightarrow>
     (\<forall>k c r c'. c_get ops k c = (r, c') \<longrightarrow> r \<in> {None, view c k} \<and> (\<forall>k'. view c' k' \<in> {None, view c k'})) \<and>
     (\<forall>k d c. view (c_put ops k d c) k \<in> {None, Some d} \<and> (\<forall>k'. k' \<noteq> k \<longrightarrow> view (c_put ops k d c) k' \<in> {None, view c k'}))"

text \<open>Whatever is cached for a UID is the data of its object.\<close>

definition cache_sound :: "storage_conf \<Rightarrow> ('c \<Rightarrow> string \<Rightarrow> bytes option) \<Rightarrow> 'c \<Rightarrow> (string \<Rightarrow> bytes option) \<Rightarrow> bool" where
  "cache_sound cf view c content \<longleftrightarrow>
     (\<forall>b data f. key_uid (blk_uid b) \<longrightarrow> stored cf content b data \<longrightarrow> view c (uid_str (blk_uid b)) = Some f \<longrightarrow> f = data)"

text \<open>
  \<open>device_rel N n view v cv cow st D\<close>: the store, reading version \<open>v\<close> through the copy-on-write version \<open>cv\<close> with the copied
  blocks \<open>cow\<close>, stands for the bytes \<open>D\<close>.
\<close>

definition cow_file :: "'c nbd_env \<Rightarrow> version \<Rightarrow> 'c nbd \<Rightarrow> int \<Rightarrow> block \<Rightarrow> bytes \<Rightarrow> bool" where
  "cow_file N cv st i cb f \<longleftrightarrow> blk_uid cb = new_uid cv i \<and> cs_present_in (blk_uid cb) (nb_store st) \<and>
     (\<exists>name. cache_filename (nb_dir N) (nb_md5 N) (blk_uid cb) = Inr name \<and> dict_get (cs_files (nb_store st)) name = Some f)"

definition device_rel :: "'c nbd_env \<Rightarrow> string \<Rightarrow> ('c \<Rightarrow> string \<Rightarrow> bytes option) \<Rightarrow> version \<Rightarrow> version \<Rightarrow> (int, block) dict \<Rightarrow> 'c nbd \<Rightarrow> bytes \<Rightarrow> bool" where
  "device_rel N n view v cv cow st D \<longleftrightarrow>
     (let d = working (ses (nb_eng st)); f = stores (nb_eng st) n; cf = env_cf (nb_env N) n in
      covers v D \<and> ver_size cv = ver_size v \<and> ver_block_size cv = ver_block_size v \<and> 0 \<le> ver_id cv \<and>
      storage_name_of d v = Inr n \<and> storage_name_of d cv = Inr n \<and> cache_sound cf view (nb_cache st) (fs_content f) \<and>
      (\<forall>i \<in> {0..<blocks_count v}. blk_size (get_block_by_idx v i d) = part_size v i \<and> blk_size (get_block_by_idx cv i d) = part_size v i \<and>
         (case dict_get cow i of
            None \<Rightarrow> block_holds (env_hash (nb_env N)) cf f (get_block_by_idx v i d) (region v i D) \<and>
                    block_holds (env_hash (nb_env N)) cf f (get_block_by_idx cv i d) (region v i D)
          | Some cb \<Rightarrow> \<exists>c. cow_file N cv st i cb c \<and> nat (part_size v i) \<le> length c \<and> take (nat (part_size v i)) c = region v i D)))"

section \<open>The chunks of an access\<close>

text \<open>The chunks tile the byte range from \<open>pos\<close>, each inside one block.\<close>

fun tiles :: "version \<Rightarrow> database \<Rightarrow> int \<Rightarrow> int \<Rightarrow> (block \<times> int \<times> int) list \<Rightarrow> bool" where
  "tiles v d pos len [] \<longleftrightarrow> len = 0"
| "tiles v d pos len ((b, off, l) # cs) \<longleftrightarrow>
     (\<exists>i \<in> {0..<blocks_count v}. b = get_block_by_idx v i d \<and> pos = i * ver_block_size v + off \<and> 0 \<le> off \<and> 0 < l \<and>
        off + l \<le> part_size v i) \<and> tiles v d (pos + l) (len - l) cs"

lemma block_list_tiles:
  assumes bs: "0 < ver_block_size v" and sizes: "\<forall>i \<in> {0..<blocks_count v}. blk_size (get_block_by_idx v i d) = part_size v i"
    and "i \<in> {0..<blocks_count v}" and "0 \<le> off" and "off < part_size v i" and "0 < len"
    and "i * ver_block_size v + off + len \<le> ver_size v"
  shows "\<exists>cs. block_list v d i off len = Some cs \<and> tiles v d (i * ver_block_size v + off) len cs"
  using assms(3-7)
proof (induction "nat len" arbitrary: i off len rule: less_induct)
  case less
  let ?b = "get_block_by_idx v i d" and ?l = "min (part_size v i - off) len"
  have sz: "blk_size ?b = part_size v i" using sizes less.prems(1) by blast
  have l: "0 < ?l" "off + ?l \<le> part_size v i" using less.prems by auto
  show ?case
  proof (cases "len - ?l = 0")
    case True
    then show ?thesis using l less.prems by (subst block_list.simps) (auto simp: sz Let_def)
  next
    case False
    then have m: "?l = part_size v i - off" and rest: "0 < len - ?l" by (auto simp: min_def split: if_splits)
    have full: "part_size v i = ver_block_size v" using less.prems(5) m False by (auto simp: part_size_def min_def split: if_splits)
    have next_i: "(i + 1) * ver_block_size v = i * ver_block_size v + ver_block_size v" by (simp add: algebra_simps)
    have fits: "(i + 1) * ver_block_size v + 0 + (len - ?l) \<le> ver_size v" using less.prems(5) m full next_i by simp
    then have i: "i + 1 \<in> {0..<blocks_count v}"
      using rest less.prems(1) less_ceil_div_iff [OF bs, of "i + 1" "ver_size v"] by (auto simp: blocks_count_def)
    have p: "0 < part_size v (i + 1)" using fits rest bs by (simp add: part_size_def)
    have "nat (len - ?l) < nat len" using l(1) less.prems(4) by linarith
    from less.hyps [OF this i order_refl p rest fits] obtain cs where
      cs: "block_list v d (i + 1) 0 (len - ?l) = Some cs" "tiles v d ((i + 1) * ver_block_size v + 0) (len - ?l) cs" by blast
    have "block_list v d i off len = Some ((?b, off, ?l) # cs)"
      by (subst block_list.simps) (use rest cs(1) in \<open>auto simp: sz Let_def\<close>)
    moreover have "tiles v d (i * ver_block_size v + off) len ((?b, off, ?l) # cs)"
      using cs(2) l less.prems(1,2) next_i m full by (auto simp: algebra_simps)
    ultimately show ?thesis by blast
  qed
qed

lemma chunks_tile:
  assumes bs: "0 < ver_block_size v" and sizes: "\<forall>i \<in> {0..<blocks_count v}. blk_size (get_block_by_idx v i d) = part_size v i"
    and "0 \<le> off" and "0 < len" and "off + len \<le> ver_size v"
  shows "\<exists>cs. chunks v d off len = Some cs \<and> tiles v d off len cs"
proof -
  let ?i = "off div ver_block_size v" and ?o = "off mod ver_block_size v"
  have off: "?i * ver_block_size v + ?o = off" by simp
  have o: "0 \<le> ?o" "?o < ver_block_size v" using bs by simp_all
  have "0 \<le> ?i" using assms(3) bs by (simp add: pos_imp_zdiv_nonneg_iff)
  moreover have "?i * ver_block_size v < ver_size v" using off o assms(4,5) by linarith
  ultimately have i: "?i \<in> {0..<blocks_count v}" using less_ceil_div_iff [OF bs] by (simp add: blocks_count_def)
  have "?o < ver_size v - ?i * ver_block_size v" using off assms(4,5) by linarith
  then have "?o < part_size v ?i" using o(2) by (simp add: part_size_def)
  from block_list_tiles [OF bs sizes i o(1) this assms(4)] assms(5) show ?thesis unfolding chunks_def off by blast
qed

section \<open>Reading\<close>

lemma stored_unique:
  assumes "stored cf c b data" and "stored cf c b' data'" and "blk_uid b = blk_uid b'"
  shows "data = data'"
  using assms unfolding stored_def by (metis (no_types, lifting) Inr_inject option.inject)

lemma uid_str_inj:
  assumes "key_uid u" and "key_uid w" and "uid_str u = uid_str w"
  shows "u = w"
proof -
  obtain l r where u: "u = BlockUid (Some l) (Some r)" "0 \<le> l" "0 \<le> r" by (rule key_uid_cases [OF assms(1)])
  obtain l' r' where w: "w = BlockUid (Some l') (Some r')" "0 \<le> l'" "0 \<le> r'" by (rule key_uid_cases [OF assms(2)])
  have no: "CHR ''-'' \<notin> set (format_x 0 n)" if "0 \<le> n" for n
    using format_x_chars [OF that, of 0] by (auto simp: hex_chars_def)
  have str: "format_x 0 l @ CHR ''-'' # format_x 0 r = format_x 0 l' @ CHR ''-'' # format_x 0 r'"
    using assms(3) by (simp add: uid_str_def u w half_def)
  then have "split_on (CHR ''-'') (format_x 0 l @ CHR ''-'' # format_x 0 r) = split_on (CHR ''-'') (format_x 0 l' @ CHR ''-'' # format_x 0 r')"
    by simp
  then have "format_x 0 l = format_x 0 l'" "format_x 0 r = format_x 0 r'"
    using u w no by (simp_all add: split_on_append split_on_no_sep)
  then have "l = l'" "r = r'" using int16_format_x u w by (metis Inr_inject)+
  then show ?thesis by (simp add: u w)
qed

lemma file_range_slice: "0 \<le> off \<Longrightarrow> 0 \<le> len \<Longrightarrow> file_range off (Some len) f = py_slice (nat off) (nat (off + len)) f"
  by (simp add: file_range_def py_slice_def nat_add_distrib)

lemma slice_take: "a + l \<le> m \<Longrightarrow> py_slice a (a + l) (take m f) = py_slice a (a + l) f"
  by (simp add: py_slice_def drop_take min_def)

lemma slice_append: "py_slice a (a + k) D @ py_slice (a + k) (a + (k + m)) D = py_slice a (a + (k + m)) D"
  by (simp add: py_slice_def take_add add.commute)

lemma slice_region:
  assumes "covers v D" and "i \<in> {0..<blocks_count v}" and "0 \<le> off" and "0 \<le> l" and "off + l \<le> part_size v i"
  shows "py_slice (nat off) (nat (off + l)) (region v i D) =
    py_slice (nat (i * ver_block_size v + off)) (nat (i * ver_block_size v + off + l)) D"
proof -
  have "0 \<le> i * ver_block_size v" using assms(1,2) by (simp add: covers_def)
  then obtain a where a: "i * ver_block_size v = int a" by (rule nonneg_int_cases)
  obtain o' where o: "off = int o'" using assms(3) by (rule nonneg_int_cases)
  obtain k where k: "l = int k" using assms(4) by (rule nonneg_int_cases)
  have "o' + k \<le> nat (part_size v i)" using assms(5) o k by simp
  then show ?thesis
    by (simp add: region_def a o k nat_add_distrib py_slice_def take_drop add.commute add.left_commute flip: drop_drop take_drop)
       (simp add: drop_take min_def add.commute)
qed

lemma cache_sound_get:
  assumes "good_cache ops view" and "cache_sound cf view c content" and "c_get ops k c = (r, c')"
  shows "cache_sound cf view c' content"
  using assms unfolding good_cache_def cache_sound_def by (metis insert_iff option.distinct(1) singletonD)

lemma cache_sound_put:
  assumes good: "good_cache ops view" and snd: "cache_sound cf view c content"
    and b: "stored cf content b data" "key_uid (blk_uid b)"
  shows "cache_sound cf view (c_put ops (uid_str (blk_uid b)) data c) content"
  unfolding cache_sound_def
proof (intro allI impI)
  fix b' data' f
  assume h: "key_uid (blk_uid b')" "stored cf content b' data'" "view (c_put ops (uid_str (blk_uid b)) data c) (uid_str (blk_uid b')) = Some f"
  show "f = data'"
  proof (cases "uid_str (blk_uid b') = uid_str (blk_uid b)")
    case True
    then have "blk_uid b' = blk_uid b" using uid_str_inj h(1) b(2) by blast
    then have "data' = data" using stored_unique h(2) b(1) by blast
    moreover have "f = data" using good h(3) True unfolding good_cache_def by (metis insert_iff option.distinct(1) option.inject singletonD)
    ultimately show ?thesis by simp
  next
    case False
    then have "view c (uid_str (blk_uid b')) = Some f"
      using good h(3) unfolding good_cache_def by (metis insert_iff option.distinct(1) singletonD)
    then show ?thesis using snd h(1,2) by (simp add: cache_sound_def)
  qed
qed

lemma device_rel_same:
  assumes "device_rel N n view v cv cow st D" and "ses (nb_eng st') = ses (nb_eng st)"
    and "fs_content (stores (nb_eng st') n) = fs_content (stores (nb_eng st) n)" and "nb_store st' = nb_store st"
    and "cache_sound (env_cf (nb_env N) n) view (nb_cache st') (fs_content (stores (nb_eng st) n))"
  shows "device_rel N n view v cv cow st' D"
proof -
  have bh: "block_holds h cf (stores (nb_eng st') n) = block_holds h cf (stores (nb_eng st) n)" for h cf
    by (intro ext) (simp add: block_holds_def assms(3))
  have cow: "cow_file N cv st' = cow_file N cv st" by (intro ext) (simp add: cow_file_def assms(4))
  show ?thesis using assms(1,5) unfolding device_rel_def Let_def assms(2,3) bh cow by blast
qed

lemma device_block:
  assumes "device_rel N n view v cv cow st D" and "i \<in> {0..<blocks_count v}"
  shows "case dict_get cow i of
      None \<Rightarrow> block_holds (env_hash (nb_env N)) (env_cf (nb_env N) n) (stores (nb_eng st) n) (get_block_by_idx v i (working (ses (nb_eng st)))) (region v i D) \<and>
        block_holds (env_hash (nb_env N)) (env_cf (nb_env N) n) (stores (nb_eng st) n) (get_block_by_idx cv i (working (ses (nb_eng st)))) (region v i D)
    | Some cb \<Rightarrow> \<exists>c. cow_file N cv st i cb c \<and> nat (part_size v i) \<le> length c \<and> take (nat (part_size v i)) c = region v i D"
  using assms unfolding device_rel_def Let_def by blast

lemma read_chunk_ok:
  assumes good: "good_cache (nb_ops N) view" and rel: "device_rel N n view v cv cow st D" and i: "i \<in> {0..<blocks_count v}"
    and b: "b = get_block_by_idx v i (working (ses (nb_eng st)))" and off: "0 \<le> off" "0 < l" "off + l \<le> part_size v i"
    and step: "read_chunk N v (Some cow) (b, off, l) st = (r, st')"
  shows "device_rel N n view v cv cow st' D \<and> ses (nb_eng st') = ses (nb_eng st) \<and> nb_cow st' = nb_cow st \<and>
    (r = Inr (py_slice (nat (i * ver_block_size v + off)) (nat (i * ver_block_size v + off + l)) D) \<and>
       (calm (stores (nb_eng st) n) \<longrightarrow> calm (stores (nb_eng st') n)) \<or> (\<exists>x. r = Inl x) \<and> \<not> calm (stores (nb_eng st) n))"
proof -
  let ?cf = "env_cf (nb_env N) n" and ?f = "stores (nb_eng st) n"
  have cov: "covers v D" and name: "storage_name_of (working (ses (nb_eng st))) v = Inr n"
    and cs: "cache_sound ?cf view (nb_cache st) (fs_content ?f)" using rel by (simp_all add: device_rel_def Let_def)
  have want: "py_slice (nat off) (nat (off + l)) (region v i D) =
      py_slice (nat (i * ver_block_size v + off)) (nat (i * ver_block_size v + off + l)) D"
    using slice_region [OF cov i] off by simp
  have idx: "blk_idx b = i" by (simp add: b get_block_key)
  show ?thesis
  proof (cases "dict_get cow i")
    case (Some cb)
    obtain c where c: "cow_file N cv st i cb c" "take (nat (part_size v i)) c = region v i D"
      using device_block [OF rel i] Some by auto
    have "py_slice (nat off) (nat (off + l)) c = py_slice (nat off) (nat (off + l)) (region v i D)"
      using slice_take [of "nat off" "nat l" "nat (part_size v i)" c] off c(2) by (simp add: nat_add_distrib)
    then have "r = Inr (py_slice (nat off) (nat (off + l)) (region v i D)) \<and> st' = st"
      using step Some c(1) idx off by (auto simp: read_chunk_def cow_file_def cs_read_def file_range_slice)
    then show ?thesis using rel want by simp
  next
    case None
    then have h: "block_holds (env_hash (nb_env N)) ?cf ?f b (region v i D)" using device_block [OF rel i] by (simp add: b)
    show ?thesis
    proof (cases "uid_bool (blk_uid b)")
      case False
      then have "set (region v i D) \<subseteq> {0}" using h by (simp add: block_holds_def)
      then have "set (py_slice (nat off) (nat (off + l)) (region v i D)) \<subseteq> {0}"
        by (auto simp: py_slice_def dest!: in_set_takeD in_set_dropD)
      moreover have "length (py_slice (nat off) (nat (off + l)) (region v i D)) = nat l"
        using length_region [OF cov i] off by (simp add: nat_add_distrib)
      ultimately have "replicate (nat l) 0 = py_slice (nat off) (nat (off + l)) (region v i D)"
        by (intro zeros_eq) auto
      moreover have "r = Inr (replicate (nat l) 0) \<and> st' = st" using step None idx False by (simp add: read_chunk_def)
      ultimately show ?thesis using rel want by simp
    next
      case True
      then have st: "stored ?cf (fs_content ?f) b (region v i D)" "key_uid (blk_uid b)" using h by (simp_all add: block_holds_def)
      obtain g c1 where g: "c_get (nb_ops N) (uid_str (blk_uid b)) (nb_cache st) = (g, c1)" by force
      have cs1: "cache_sound ?cf view c1 (fs_content ?f)" by (rule cache_sound_get [OF good cs g])
      show ?thesis
      proof (cases g)
        case (Some f)
        then have "view (nb_cache st) (uid_str (blk_uid b)) = Some f" using good g unfolding good_cache_def by (metis insert_iff option.distinct(1) singletonD)
        then have "f = region v i D" using cs st by (simp add: cache_sound_def)
        then have "r = Inr (py_slice (nat off) (nat (off + l)) (region v i D))" "st' = st\<lparr>nb_cache := c1\<rparr>"
          using step None idx True g Some off by (simp_all add: read_chunk_def file_range_slice)
        then show ?thesis using want device_rel_same [OF rel, of "st\<lparr>nb_cache := c1\<rparr>"] cs1 by simp
      next
        case gN: None
        obtain q s1 where q: "storage_read ?cf file_backend b False ?f = (q, s1)" by force
        note R = fobj.read_stored [OF st(1) q]
        have calm: "calm ?f \<Longrightarrow> (\<exists>m. q = Inr (b, Some (region v i D), m)) \<and> calm s1"
          using calm_storage_read [OF _ st(1)] q by (metis Pair_inject)
        show ?thesis
        proof (cases q)
          case (Inl x)
          define t where "t = st\<lparr>nb_eng := (nb_eng st)\<lparr>stores := (stores (nb_eng st))(n := s1)\<rparr>, nb_cache := c1\<rparr>"
          have "r = Inl x" "st' = t"
            using step None idx True g gN name q Inl by (simp_all add: read_chunk_def on_store_def t_def)
          moreover have "device_rel N n view v cv cow t D" by (rule device_rel_same [OF rel]) (use R cs1 in \<open>simp_all add: t_def\<close>)
          ultimately show ?thesis using calm Inl by (auto simp: t_def)
        next
          case (Inr y)
          then obtain m where y: "q = Inr (b, Some (region v i D), m)" using R by auto
          define t where "t = st\<lparr>nb_eng := (nb_eng st)\<lparr>stores := (stores (nb_eng st))(n := s1)\<rparr>,
             nb_cache := c_put (nb_ops N) (uid_str (blk_uid b)) (region v i D) c1\<rparr>"
          have "r = Inr (py_slice (nat off) (nat (off + l)) (region v i D))" "st' = t"
            using step None idx True g gN name q y by (simp_all add: read_chunk_def on_store_def t_def Let_def)
          moreover have "device_rel N n view v cv cow t D"
            by (rule device_rel_same [OF rel]) (use R cache_sound_put [OF good cs1 st] in \<open>simp_all add: t_def\<close>)
          ultimately show ?thesis using calm want by (auto simp: t_def)
        qed
      qed
    qed
  qed
qed

lemma read_chunks_ok:
  assumes good: "good_cache (nb_ops N) view"
  shows "device_rel N n view v cv cow st D \<Longrightarrow> tiles v (working (ses (nb_eng st))) pos len cs \<Longrightarrow> 0 \<le> pos \<Longrightarrow>
    read_chunks N v (Some cow) cs st = (r, st') \<Longrightarrow>
    device_rel N n view v cv cow st' D \<and>
    (r = Inr (py_slice (nat pos) (nat (pos + len)) D) \<and> (calm (stores (nb_eng st) n) \<longrightarrow> calm (stores (nb_eng st') n)) \<or>
     (\<exists>x. r = Inl x) \<and> \<not> calm (stores (nb_eng st) n)) \<and> nb_cow st' = nb_cow st"
proof (induction cs arbitrary: st pos len r st')
  case Nil
  then show ?case by (simp add: py_slice_def)
next
  case (Cons c cs)
  obtain b off l where c: "c = (b, off, l)" by (cases c)
  obtain i where i: "i \<in> {0..<blocks_count v}" "b = get_block_by_idx v i (working (ses (nb_eng st)))" "pos = i * ver_block_size v + off"
    "0 \<le> off" "0 < l" "off + l \<le> part_size v i" and tl: "tiles v (working (ses (nb_eng st))) (pos + l) (len - l) cs"
    using Cons.prems(2) by (auto simp: c)
  obtain q st1 where q: "read_chunk N v (Some cow) c st = (q, st1)" by force
  note R = read_chunk_ok [OF good Cons.prems(1) i(1,2,4-6) q [unfolded c]]
  show ?case
  proof (cases q)
    case (Inl x)
    then show ?thesis using R Cons.prems(4) q by auto
  next
    case (Inr d)
    obtain p st2 where p: "read_chunks N v (Some cow) cs st1 = (p, st2)" by force
    have t1: "tiles v (working (ses (nb_eng st1))) (pos + l) (len - l) cs" using tl R by simp
    have "0 \<le> pos + l" using Cons.prems(3) i(5) by simp
    note ih = Cons.IH [OF _ t1 this p]
    have d: "d = py_slice (nat pos) (nat (pos + l)) D" using R Inr i(3) by (simp add: algebra_simps)
    have len: "0 \<le> len - l" using tl
    proof (induction cs arbitrary: pos len l)
      case (Cons c cs)
      then show ?case by (cases c) force
    qed simp
    have app: "py_slice (nat pos) (nat (pos + l)) D @ py_slice (nat (pos + l)) (nat (pos + l + (len - l))) D = py_slice (nat pos) (nat (pos + len)) D"
      using slice_append [of "nat pos" "nat l" D "nat (len - l)"] Cons.prems(3) i(5) len by (simp add: nat_add_distrib nat_diff_distrib)
    show ?thesis using R Inr ih Cons.prems(4) q p d app by (cases p) auto
  qed
qed

section \<open>Writing\<close>

lemma cache_filename_Inr:
  assumes "key_uid u"
  obtains p where "cache_filename dir md5 u = Inr p"
  using assms
proof (cases rule: key_uid_cases)
  case (1 l r)
  then show ?thesis
    using that block_to_key_ascii [of l r]
    by (auto simp: cache_filename_def block_to_key_def to_path_def Let_def)
qed

lemma cache_filename_inj:
  assumes "key_uid u" and "key_uid w" and md5: "\<And>k. 4 \<le> length (md5 k)"
    and "cache_filename dir md5 u = Inr p" and "cache_filename dir md5 w = Inr p"
  shows "u = w"
proof -
  from assms(1) obtain l r where u: "u = BlockUid (Some l) (Some r)" "0 \<le> l" "0 \<le> r" by (rule key_uid_cases)
  from assms(2) obtain l' r' where w: "w = BlockUid (Some l') (Some r')" "0 \<le> l'" "0 \<le> r'" by (rule key_uid_cases)
  have "from_path (join_prefix dir) p = Inr (format_x 16 l @ ''-'' @ format_x 16 r)"
    using assms(4) from_to_path [of md5 _ _ p] md5 u by (simp add: cache_filename_def block_to_key_def)
  moreover have "from_path (join_prefix dir) p = Inr (format_x 16 l' @ ''-'' @ format_x 16 r')"
    using assms(5) from_to_path [of md5 _ _ p] md5 w by (simp add: cache_filename_def block_to_key_def)
  ultimately have "format_x 16 l @ CHR ''-'' # format_x 16 r = format_x 16 l' @ CHR ''-'' # format_x 16 r'" by simp
  then have "format_x 16 l = format_x 16 l' \<and> format_x 16 r = format_x 16 r'" by (rule split_key [OF u(2) w(2)])
  then have "l = l'" "r = r'" using int16_format_x u w by (metis Inr_inject)+
  then show ?thesis by (simp add: u w)
qed

lemma take_write_at:
  assumes "off + length d \<le> m" and "m \<le> length c"
  shows "take m (write_at off d c) = write_at off d (take m c)"
  using assms by (intro nth_equalityI) (auto simp: length_write_at nth_write_at)

lemma write_at_append:
  assumes "off + length d + length e \<le> length t"
  shows "write_at (off + length d) e (write_at off d t) = write_at off (d @ e) t"
  using assms by (intro nth_equalityI) (auto simp: length_write_at nth_write_at nth_append)

lemma region_write_within:
  assumes "covers v D" and i: "i \<in> {0..<blocks_count v}" and "0 \<le> off" and "nat off + length data \<le> nat (part_size v i)"
  shows "region v i (write_at (nat (i * ver_block_size v + off)) data D) = write_at (nat off) data (region v i D)"
proof -
  have bs: "0 < ver_block_size v" "ver_size v = int (length D)" using assms(1) by (simp_all add: covers_def io_size_def)
  obtain a l where a: "nat (i * ver_block_size v) = a" "nat (part_size v i) = l" "a + l \<le> nat (ver_size v)"
    by (rule index_bounds [OF bs(1) i])
  have "0 \<le> i * ver_block_size v" using i bs by simp
  then have off: "nat (i * ver_block_size v + off) = a + nat off" using assms(3) a(1) by (simp add: nat_add_distrib)
  have "a + l \<le> length D" using a(3) bs(2) by simp
  then show ?thesis using assms(4) unfolding region_def a(1,2) off
    by (intro nth_equalityI) (auto simp: length_write_at nth_write_at py_slice_def a(2))
qed

lemma region_write_elsewhere:
  assumes "covers v D" and i: "i \<in> {0..<blocks_count v}" and j: "j \<in> {0..<blocks_count v}" and "i \<noteq> j"
    and "0 \<le> off" and "nat off + length data \<le> nat (part_size v i)"
  shows "region v j (write_at (nat (i * ver_block_size v + off)) data D) = region v j D"
proof -
  have bs: "0 < ver_block_size v" "ver_size v = int (length D)" using assms(1) by (simp_all add: covers_def io_size_def)
  obtain a l m where a: "nat (i * ver_block_size v) = a" "nat (part_size v i) = l" "nat (ver_block_size v) = m"
    "a + l \<le> nat (ver_size v)" "l \<le> m" "a = nat i * m" by (rule index_bounds [OF bs(1) i])
  obtain c k where c: "nat (j * ver_block_size v) = c" "nat (part_size v j) = k" "c + k \<le> nat (ver_size v)" "k \<le> m" "c = nat j * m"
    using index_bounds [OF bs(1) j] a(3) by metis
  have "0 \<le> i * ver_block_size v" using i bs by simp
  then have off: "nat (i * ver_block_size v + off) = a + nat off" using assms(5) a(1) by (simp add: nat_add_distrib)
  have "nat i \<noteq> nat j" using i j assms(4) by auto
  then have "nat i + 1 \<le> nat j \<or> nat j + 1 \<le> nat i" by linarith
  then have "(nat i + 1) * m \<le> nat j * m \<or> (nat j + 1) * m \<le> nat i * m" using mult_le_mono1 by blast
  then have "c + k \<le> a + nat off \<or> a + nat off + length data \<le> c" using a(2,5,6) c(4,5) assms(6) by auto
  then show ?thesis unfolding region_def c(1,2) off
    by (intro py_slice_write_other) (use a c bs assms(6) in auto)
qed

text \<open>Putting a new file for index \<open>i\<close> changes the region of \<open>i\<close> and nothing else.\<close>

lemma device_put:
  assumes rel: "device_rel N n view v cv cow st D" and i: "i \<in> {0..<blocks_count v}" and md5: "\<And>k. 4 \<le> length (nb_md5 N k)"
    and off: "0 \<le> off" "nat off + length data \<le> nat (part_size v i)"
    and same: "ses (nb_eng st') = ses (nb_eng st)" "fs_content (stores (nb_eng st') n) = fs_content (stores (nb_eng st) n)"
      "nb_cache st' = nb_cache st"
    and fl: "cow_file N cv st' i cb (write_at (nat off) data c)" "nat (part_size v i) \<le> length c" "take (nat (part_size v i)) c = region v i D"
    and other: "\<And>j f cb'. 0 \<le> j \<Longrightarrow> j \<noteq> i \<Longrightarrow> cow_file N cv st j cb' f \<Longrightarrow> cow_file N cv st' j cb' f"
    and cow': "dict_get cow' = (dict_get cow)(i := Some cb)"
  shows "device_rel N n view v cv cow' st' (write_at (nat (i * ver_block_size v + off)) data D)"
proof -
  let ?D = "write_at (nat (i * ver_block_size v + off)) data D"
  have cov: "covers v D" using rel by (simp add: device_rel_def Let_def)
  have bs: "0 < ver_block_size v" "ver_size v = int (length D)" using cov by (simp_all add: covers_def io_size_def)
  obtain a l where a: "nat (i * ver_block_size v) = a" "nat (part_size v i) = l" "a + l \<le> nat (ver_size v)"
    by (rule index_bounds [OF bs(1) i])
  have "0 \<le> i * ver_block_size v" using i bs by simp
  then have "nat (i * ver_block_size v + off) = a + nat off" using off(1) a(1) by (simp add: nat_add_distrib)
  then have "length ?D = length D" using a bs(2) off(2) by (simp add: length_write_at)
  then have cov': "covers v ?D" using cov by (simp add: covers_def io_size_def)
  have here: "take (nat (part_size v i)) (write_at (nat off) data c) = region v i ?D"
    using take_write_at [OF off(2) fl(2)] fl(3) region_write_within [OF cov i off] by simp
  have there: "region v j ?D = region v j D" if "j \<in> {0..<blocks_count v}" "j \<noteq> i" for j
    using region_write_elsewhere [OF cov i that(1)] that(2) off by simp
  have bh: "block_holds h cf (stores (nb_eng st') n) = block_holds h cf (stores (nb_eng st) n)" for h cf
    by (intro ext) (simp add: block_holds_def same(2))
  have "case dict_get cow' j of
      None \<Rightarrow> block_holds (env_hash (nb_env N)) (env_cf (nb_env N) n) (stores (nb_eng st) n) (get_block_by_idx v j (working (ses (nb_eng st)))) (region v j ?D) \<and>
        block_holds (env_hash (nb_env N)) (env_cf (nb_env N) n) (stores (nb_eng st) n) (get_block_by_idx cv j (working (ses (nb_eng st)))) (region v j ?D)
    | Some cb \<Rightarrow> \<exists>c. cow_file N cv st' j cb c \<and> nat (part_size v j) \<le> length c \<and> take (nat (part_size v j)) c = region v j ?D"
    if j: "j \<in> {0..<blocks_count v}" for j
  proof (cases "j = i")
    case True
    have "length c \<le> length (write_at (nat off) data c)" by (simp add: length_write_at)
    then have "nat (part_size v i) \<le> length (write_at (nat off) data c)" using fl(2) by (rule le_trans [rotated])
    with here fl(1) True show ?thesis by (auto simp: cow')
  next
    case False
    have "0 \<le> j" using j by simp
    with other [OF this False] device_block [OF rel j] there [OF j False] False show ?thesis
      by (auto simp: cow' split: option.splits)
  qed
  then show ?thesis
    using rel cov' unfolding device_rel_def Let_def same bh by blast
qed

lemma write_chunk_ok:
  assumes rel: "device_rel N n view v cv cow st D" and md5: "\<And>k. 4 \<le> length (nb_md5 N k)" and i: "i \<in> {0..<blocks_count v}"
    and cow: "dict_get (nb_cow st) (ver_uid cv) = Some cow"
    and b: "b = get_block_by_idx cv i (working (ses (nb_eng st)))" and off: "0 \<le> off" "0 < l" "off + l \<le> part_size v i"
    and data: "length data = nat l" and step: "write_chunk N cv (b, off, l) data st = (r, st')"
  shows "ses (nb_eng st') = ses (nb_eng st) \<and> (\<exists>cow'. dict_get (nb_cow st') (ver_uid cv) = Some cow' \<and>
    (r = Inr () \<and> (calm (stores (nb_eng st) n) \<longrightarrow> calm (stores (nb_eng st') n)) \<and>
       device_rel N n view v cv cow' st' (write_at (nat (i * ver_block_size v + off)) data D) \<or>
     (\<exists>x. r = Inl x) \<and> \<not> calm (stores (nb_eng st) n) \<and> device_rel N n view v cv cow' st' D))"
proof -
  let ?cf = "env_cf (nb_env N) n" and ?f = "stores (nb_eng st) n" and ?u = "new_uid cv i"
  have cov: "covers v D" and name: "storage_name_of (working (ses (nb_eng st))) cv = Inr n" and id: "0 \<le> ver_id cv"
    and bsz: "ver_block_size cv = ver_block_size v"
    using rel by (simp_all add: device_rel_def Let_def)
  have bs: "0 < ver_block_size v" using cov by (simp add: covers_def)
  have idx: "blk_idx b = i" by (simp add: b get_block_key)
  have len: "nat off + length data \<le> nat (part_size v i)" using off data by linarith
  have keys: "key_uid (new_uid cv j)" if "0 \<le> j" for j using key_new_uid [OF id that] .
  have i0: "0 \<le> i" using i by simp
  obtain p where p: "cache_filename (nb_dir N) (nb_md5 N) ?u = Inr p" using cache_filename_Inr [OF keys [OF i0]] .
  have apart: "q \<noteq> p" if "0 \<le> j" "j \<noteq> i" "cache_filename (nb_dir N) (nb_md5 N) (new_uid cv j) = Inr q" for j q
    using cache_filename_inj [OF keys [OF that(1)] keys [OF i0] md5 that(3)] p that(2) by (auto simp: new_uid_def)
  have keep: "cow_file N cv t j cb' f"
    if "cow_file N cv st j cb' f" "0 \<le> j" "j \<noteq> i" "cs_files (nb_store t) = dict_set (cs_files (nb_store st)) p x"
      "set (cs_present (nb_store st)) \<subseteq> set (cs_present (nb_store t))" for t j cb' f x
    using that apart [OF that(2,3)] by (auto simp: cow_file_def cs_present_in_def dict_get_set)
  show ?thesis
  proof (cases "dict_get cow i")
    case (Some cb)
    obtain c where c: "cow_file N cv st i cb c" "nat (part_size v i) \<le> length c" "take (nat (part_size v i)) c = region v i D"
      using device_block [OF rel i] Some by auto
    have u: "blk_uid cb = ?u" and fl: "dict_get (cs_files (nb_store st)) p = Some c" and pr: "?u \<in> set (cs_present (nb_store st))"
      using c(1) p by (auto simp: cow_file_def cs_present_in_def)
    define t where "t = st\<lparr>nb_store := (nb_store st)\<lparr>cs_files := dict_set (cs_files (nb_store st)) p (write_at (nat off) data c)\<rparr>\<rparr>"
    have t: "r = Inr ()" "st' = t" using step cow Some idx u p fl by (simp_all add: write_chunk_def cs_update_def t_def)
    have "cow_file N cv t i cb (write_at (nat off) data c)" using u p pr by (simp add: cow_file_def cs_present_in_def t_def)
    moreover have "dict_get cow = (dict_get cow)(i := Some cb)" using Some by auto
    ultimately have "device_rel N n view v cv cow t (write_at (nat (i * ver_block_size v + off)) data D)"
      using device_put [OF rel i md5 off(1) len, of t cb c cow] c(2,3) keep by (simp add: t_def)
    then show ?thesis using t cow by (simp add: t_def)
  next
    case None
    then have h: "block_holds (env_hash (nb_env N)) ?cf ?f b (region v i D)" using device_block [OF rel i] by (simp add: b)
    define nb where "nb = b\<lparr>blk_uid := ?u, blk_checksum := None\<rparr>"
    define t where "t = (\<lambda>e c. st\<lparr>nb_eng := e, nb_store := (nb_store st)\<lparr>cs_files := dict_set (cs_files (nb_store st)) p (write_at (nat off) data c),
        cs_present := List.insert ?u (cs_present (nb_store st))\<rparr>,
      nb_cow := dict_set (nb_cow st) (ver_uid cv) (dict_set cow i nb)\<rparr>)"
    have put: "device_rel N n view v cv (dict_set cow i nb) (t e c) (write_at (nat (i * ver_block_size v + off)) data D)"
      if "ses e = ses (nb_eng st)" "fs_content (stores e n) = fs_content ?f" "nat (part_size v i) \<le> length c"
        "take (nat (part_size v i)) c = region v i D" for e c
    proof -
      have fl: "cow_file N cv (t e c) i nb (write_at (nat off) data c)" using p by (simp add: cow_file_def cs_present_in_def t_def nb_def)
      have ke: "cow_file N cv (t e c) j cb' f" if "0 \<le> j" "j \<noteq> i" "cow_file N cv st j cb' f" for j f cb'
        by (rule keep [OF that(3,1,2)]) (auto simp: t_def)
      have upd: "dict_get (dict_set cow i nb) = (dict_get cow)(i := Some nb)" by auto
      show ?thesis by (rule device_put [OF rel i md5 off(1) len _ _ _ fl that(3,4) ke upd]) (simp_all add: t_def that)
    qed
    have got: "dict_get (nb_cow (t e c)) (ver_uid cv) = Some (dict_set cow i nb)" for e c by (simp add: t_def)
    show ?thesis
    proof (cases "uid_bool (blk_uid b)")
      case False
      let ?z = "replicate (nat (ver_block_size v)) 0"
      have ps: "part_size v i \<le> ver_block_size v" by (simp add: part_size_def)
      have z: "set (region v i D) \<subseteq> {0}" using h False by (simp add: block_holds_def)
      have "take (nat (part_size v i)) ?z = replicate (nat (part_size v i)) 0" using ps by (simp add: min_def)
      also have "... = region v i D" by (rule zeros_eq) (use length_region [OF cov i] z in auto)
      finally have "device_rel N n view v cv (dict_set cow i nb) (t (nb_eng st) ?z) (write_at (nat (i * ver_block_size v + off)) data D)"
        using put [of "nb_eng st" ?z] ps by simp
      moreover have "r = Inr ()" "st' = t (nb_eng st) ?z"
        using step cow None idx False p bsz by (simp_all add: write_chunk_def returnS_def cs_write_def Let_def t_def nb_def new_uid_def)
      ultimately show ?thesis using got by (simp add: t_def)
    next
      case True
      then have st: "stored ?cf (fs_content ?f) b (region v i D)" using h by (simp add: block_holds_def)
      obtain q s1 where q: "storage_read ?cf file_backend b False ?f = (q, s1)" by force
      note R = fobj.read_stored [OF st q]
      have calm: "calm ?f \<Longrightarrow> (\<exists>m. q = Inr (b, Some (region v i D), m)) \<and> calm s1"
        using calm_storage_read [OF _ st] q by (metis Pair_inject)
      define e where "e = (nb_eng st)\<lparr>stores := (stores (nb_eng st))(n := s1)\<rparr>"
      show ?thesis
      proof (cases q)
        case (Inl x)
        have "r = Inl x" "st' = st\<lparr>nb_eng := e\<rparr>"
          using step cow None idx True name q Inl by (simp_all add: write_chunk_def on_store_def e_def bindS_def)
        moreover have "device_rel N n view v cv cow (st\<lparr>nb_eng := e\<rparr>) D"
          by (rule device_rel_same [OF rel]) (use R rel in \<open>simp_all add: e_def device_rel_def Let_def\<close>)
        ultimately show ?thesis using calm Inl cow by (auto simp: e_def)
      next
        case (Inr y)
        then obtain m where y: "q = Inr (b, Some (region v i D), m)" using R by auto
        have "r = Inr ()" "st' = t e (region v i D)"
          using step cow None idx True name q y p
          by (simp_all add: write_chunk_def on_store_def e_def bindS_def returnS_def Let_def cs_write_def t_def nb_def new_uid_def)
        moreover have "device_rel N n view v cv (dict_set cow i nb) (t e (region v i D)) (write_at (nat (i * ver_block_size v + off)) data D)"
          using put [of e "region v i D"] R length_region [OF cov i] by (simp add: e_def)
        ultimately show ?thesis using calm got by (auto simp: t_def e_def)
      qed
    qed
  qed
qed

lemma tiles_len: "tiles v d pos len cs \<Longrightarrow> 0 \<le> len"
proof (induction cs arbitrary: pos len)
  case (Cons c cs)
  then show ?case by (cases c) force
qed simp

lemma tiles_inside: "tiles v d pos len cs \<Longrightarrow> 0 < ver_block_size v \<Longrightarrow> cs \<noteq> [] \<Longrightarrow> pos + len \<le> ver_size v"
proof (induction cs arbitrary: pos len)
  case (Cons c cs)
  obtain b off l where c: "c = (b, off, l)" by (cases c)
  obtain i where i: "pos = i * ver_block_size v + off" "off + l \<le> part_size v i" and tl: "tiles v d (pos + l) (len - l) cs"
    using Cons.prems(1) by (auto simp: c)
  show ?case
  proof (cases "cs = []")
    case True
    then show ?thesis using tl i by (simp add: part_size_def)
  next
    case False
    then show ?thesis using Cons.IH [OF tl Cons.prems(2)] by simp
  qed
qed simp

lemma write_chunks_ok:
  assumes md5: "\<And>k. 4 \<le> length (nb_md5 N k)"
  shows "device_rel N n view v cv cow st D \<Longrightarrow> dict_get (nb_cow st) (ver_uid cv) = Some cow \<Longrightarrow>
    tiles cv (working (ses (nb_eng st))) pos len cs \<Longrightarrow> 0 \<le> pos \<Longrightarrow> 0 \<le> p \<Longrightarrow> p + len = int (length data) \<Longrightarrow>
    pos + len \<le> ver_size v \<Longrightarrow>
    write_chunks N cv cs data p st = (r, st') \<Longrightarrow>
    \<exists>cow'. dict_get (nb_cow st') (ver_uid cv) = Some cow' \<and>
      (r = Inr () \<and> (calm (stores (nb_eng st) n) \<longrightarrow> calm (stores (nb_eng st') n)) \<and>
         device_rel N n view v cv cow' st' (write_at (nat pos) (drop (nat p) data) D) \<or>
       (\<exists>x. r = Inl x) \<and> \<not> calm (stores (nb_eng st) n) \<and> (\<exists>D'. device_rel N n view v cv cow' st' D'))"
proof (induction cs arbitrary: st pos len p cow D)
  case Nil
  then have "drop (nat p) data = []" by simp
  then have "write_at (nat pos) (drop (nat p) data) D = D"
    using Nil.prems(1,4,7) Nil.prems(3) by (auto simp: write_at_def Let_def device_rel_def covers_def io_size_def)
  then show ?case using Nil by auto
next
  case (Cons c cs)
  obtain b off l where c: "c = (b, off, l)" by (cases c)
  have bc: "blocks_count cv = blocks_count v" "ver_block_size cv = ver_block_size v" "part_size cv = part_size v"
    using Cons.prems(1) by (auto simp: device_rel_def Let_def blocks_count_def part_size_def)
  obtain i where i: "i \<in> {0..<blocks_count v}" "b = get_block_by_idx cv i (working (ses (nb_eng st)))" "pos = i * ver_block_size v + off"
    "0 \<le> off" "0 < l" "off + l \<le> part_size v i" and tl: "tiles cv (working (ses (nb_eng st))) (pos + l) (len - l) cs"
    using Cons.prems(3) by (auto simp: c bc)
  have len: "0 \<le> len - l" by (rule tiles_len [OF tl])
  define d where "d = py_slice_int p (p + l) data"
  have d: "d = take (nat l) (drop (nat p) data)" "length d = nat l"
    using Cons.prems(5,6) i(5) len by (auto simp: d_def py_slice_int_def py_index_def py_slice_def nat_add_distrib)
  obtain q st1 where q: "write_chunk N cv (b, off, l) d st = (q, st1)" by force
  note W = write_chunk_ok [OF Cons.prems(1) md5 i(1) Cons.prems(2) i(2,4-6) d(2) q]
  show ?case
  proof (cases q)
    case (Inl x)
    then have "r = Inl x" "st' = st1" using Cons.prems(8) q by (simp_all add: c d_def)
    then show ?thesis using W Inl by blast
  next
    case (Inr u)
    let ?D = "write_at (nat pos) d D"
    obtain cow1 where w: "dict_get (nb_cow st1) (ver_uid cv) = Some cow1" "ses (nb_eng st1) = ses (nb_eng st)"
      "calm (stores (nb_eng st) n) \<longrightarrow> calm (stores (nb_eng st1) n)" "device_rel N n view v cv cow1 st1 ?D"
      using W Inr i(3) by auto
    have t1: "tiles cv (working (ses (nb_eng st1))) (pos + l) (len - l) cs" using tl w(2) by simp
    have s: "write_chunks N cv cs data (p + l) st1 = (r, st')" using Cons.prems(8) q Inr by (simp add: c d_def)
    have sums: "0 \<le> pos + l" "0 \<le> p + l" "p + l + (len - l) = int (length data)" "pos + l + (len - l) \<le> ver_size v"
      using Cons.prems(4-7) i(5) by simp_all
    note ih = Cons.IH [OF w(4,1) t1 sums s]
    have split: "drop (nat p) data = d @ drop (nat (p + l)) data"
      using d(1) Cons.prems(5) i(5) by (simp add: nat_add_distrib add.commute flip: drop_drop)
    have np: "nat (pos + l) = nat pos + length d" using d(2) Cons.prems(4) i(5) by (simp add: nat_add_distrib)
    have "ver_size v = int (length D)" using Cons.prems(1) by (simp add: device_rel_def Let_def covers_def io_size_def)
    then have "nat pos + length d + length (drop (nat (p + l)) data) \<le> length D"
      using Cons.prems(4-7) d(2) len i(5) by (simp add: nat_add_distrib)
    then have "write_at (nat (pos + l)) (drop (nat (p + l)) data) ?D = write_at (nat pos) (drop (nat p) data) D"
      unfolding np split by (rule write_at_append)
    with ih w(3) show ?thesis by auto
  qed
qed

section \<open>The store refines a byte array\<close>

datatype nbd_cmd = CmdRead int int | CmdWrite int bytes
datatype nbd_reply = ReplyData bytes | ReplyDone | ReplyError exn

text \<open>The abstract device.\<close>

fun device_cmd :: "nbd_cmd \<Rightarrow> bytes \<Rightarrow> nbd_reply \<times> bytes" where
  "device_cmd (CmdRead off len) D = (ReplyData (py_slice (nat off) (nat (off + len)) D), D)"
| "device_cmd (CmdWrite off data) D = (ReplyDone, write_at (nat off) data D)"

fun in_device :: "int \<Rightarrow> nbd_cmd \<Rightarrow> bool" where
  "in_device sz (CmdRead off len) \<longleftrightarrow> 0 \<le> off \<and> 0 < len \<and> off + len \<le> sz"
| "in_device sz (CmdWrite off data) \<longleftrightarrow> 0 \<le> off \<and> data \<noteq> [] \<and> off + int (length data) \<le> sz"

text \<open>The same command on the store: reads go to the base version and its copied blocks, writes to the copy-on-write version.\<close>

fun store_cmd :: "'c nbd_env \<Rightarrow> version \<Rightarrow> version \<Rightarrow> nbd_cmd \<Rightarrow> 'c nbd \<Rightarrow> (nbd_reply \<times> 'c nbd) option" where
  "store_cmd N v cv (CmdRead off len) st =
     map_option (\<lambda>(r, st'). (case r of Inl x \<Rightarrow> ReplyError x | Inr d \<Rightarrow> ReplyData d, st')) (nbd_read N v (Some (ver_uid cv)) off len st)"
| "store_cmd N v cv (CmdWrite off data) st =
     map_option (\<lambda>(r, st'). (case r of Inl x \<Rightarrow> ReplyError x | Inr _ \<Rightarrow> ReplyDone, st')) (nbd_write N cv off data st)"

fun device_run :: "nbd_cmd list \<Rightarrow> bytes \<Rightarrow> nbd_reply list \<times> bytes" where
  "device_run [] D = ([], D)"
| "device_run (c # cs) D = (let (r, D1) = device_cmd c D; (rs, D2) = device_run cs D1 in (r # rs, D2))"

fun store_run :: "'c nbd_env \<Rightarrow> version \<Rightarrow> version \<Rightarrow> nbd_cmd list \<Rightarrow> 'c nbd \<Rightarrow> (nbd_reply list \<times> 'c nbd) option" where
  "store_run N v cv [] st = Some ([], st)"
| "store_run N v cv (c # cs) st =
     Option.bind (store_cmd N v cv c st) (\<lambda>(r, st1). map_option (\<lambda>(rs, st2). (r # rs, st2)) (store_run N v cv cs st1))"

definition stands_for :: "'c nbd_env \<Rightarrow> string \<Rightarrow> ('c \<Rightarrow> string \<Rightarrow> bytes option) \<Rightarrow> version \<Rightarrow> version \<Rightarrow> 'c nbd \<Rightarrow> bytes \<Rightarrow> bool" where
  "stands_for N n view v cv st D \<longleftrightarrow> (\<exists>cow. dict_get (nb_cow st) (ver_uid cv) = Some cow \<and> device_rel N n view v cv cow st D)"

lemma device_sizes:
  assumes "device_rel N n view v cv cow st D"
  shows "0 < ver_block_size v" "\<forall>i \<in> {0..<blocks_count v}. blk_size (get_block_by_idx v i (working (ses (nb_eng st)))) = part_size v i"
    "0 < ver_block_size cv" "\<forall>i \<in> {0..<blocks_count cv}. blk_size (get_block_by_idx cv i (working (ses (nb_eng st)))) = part_size cv i"
    "ver_size cv = ver_size v" "ver_size v = int (length D)"
  using assms unfolding device_rel_def Let_def covers_def io_size_def blocks_count_def part_size_def by simp_all

lemma store_cmd_refines:
  assumes good: "good_cache (nb_ops N) view" and md5: "\<And>k. 4 \<le> length (nb_md5 N k)"
    and rel: "stands_for N n view v cv st D" and calm: "calm (stores (nb_eng st) n)" and c: "in_device (ver_size v) c"
  shows "\<exists>st'. store_cmd N v cv c st = Some (fst (device_cmd c D), st') \<and> stands_for N n view v cv st' (snd (device_cmd c D)) \<and>
    calm (stores (nb_eng st') n)"
proof -
  obtain cow where cow: "dict_get (nb_cow st) (ver_uid cv) = Some cow" "device_rel N n view v cv cow st D"
    using rel by (auto simp: stands_for_def)
  note sizes = device_sizes [OF cow(2)]
  show ?thesis
  proof (cases c)
    case (CmdRead off len)
    then have r: "0 \<le> off" "0 < len" "off + len \<le> ver_size v" using c by simp_all
    obtain cs where cs: "chunks v (working (ses (nb_eng st))) off len = Some cs" "tiles v (working (ses (nb_eng st))) off len cs"
      using chunks_tile [OF sizes(1,2) r] by blast
    obtain q st' where q: "read_chunks N v (Some cow) cs st = (q, st')" by force
    note R = read_chunks_ok [OF good cow(2) cs(2) r(1) q]
    have "nbd_read N v (Some (ver_uid cv)) off len st = Some (q, st')" using cow(1) cs(1) q by (simp add: nbd_read_def cow_of_def)
    then show ?thesis using R calm cow(1) by (auto simp: CmdRead stands_for_def)
  next
    case (CmdWrite off data)
    then have r: "0 \<le> off" "0 < int (length data)" "off + int (length data) \<le> ver_size cv" using c sizes(5) by simp_all
    obtain cs where cs: "chunks cv (working (ses (nb_eng st))) off (int (length data)) = Some cs"
      "tiles cv (working (ses (nb_eng st))) off (int (length data)) cs"
      using chunks_tile [OF sizes(3,4) r] by blast
    obtain q st' where q: "write_chunks N cv cs data 0 st = (q, st')" by force
    have "off + int (length data) \<le> ver_size v" using r(3) sizes(5) by simp
    note W = write_chunks_ok [OF md5 cow(2,1) cs(2) r(1) order_refl _ this q]
    have "nbd_write N cv off data st = Some (q, st')" using cow(1) cs(1) q by (simp add: nbd_write_def)
    then show ?thesis using W calm by (auto simp: CmdWrite stands_for_def)
  qed
qed

lemma store_run_refines:
  assumes good: "good_cache (nb_ops N) view" and md5: "\<And>k. 4 \<le> length (nb_md5 N k)"
  shows "stands_for N n view v cv st D \<Longrightarrow> calm (stores (nb_eng st) n) \<Longrightarrow> \<forall>c \<in> set cs. in_device (ver_size v) c \<Longrightarrow>
    \<exists>st'. store_run N v cv cs st = Some (fst (device_run cs D), st') \<and> stands_for N n view v cv st' (snd (device_run cs D))"
proof (induction cs arbitrary: st D)
  case Nil
  then show ?case by simp
next
  case (Cons c cs)
  obtain st1 where st1: "store_cmd N v cv c st = Some (fst (device_cmd c D), st1)"
    "stands_for N n view v cv st1 (snd (device_cmd c D))" "calm (stores (nb_eng st1) n)"
    using store_cmd_refines [OF good md5 Cons.prems(1,2), of c] Cons.prems(3) by auto
  obtain st2 where "store_run N v cv cs st1 = Some (fst (device_run cs (snd (device_cmd c D))), st2)"
    "stands_for N n view v cv st2 (snd (device_run cs (snd (device_cmd c D))))"
    using Cons.IH [OF st1(2,3)] Cons.prems(3) by auto
  with st1(1) show ?case by (auto simp: Let_def split: prod.splits)
qed

text \<open>C6: Any sequence of reads and writes inside the version behaves as on a byte array: every read returns the bytes
  last written or, where nothing was written, those of the version, whatever the block cache keeps or drops; the
  loops end and, as long as the storage has no fault, nothing fails.\<close>

theorem nbd_refines_byte_array:
  assumes "good_cache (nb_ops N) view" and "\<And>k. 4 \<le> length (nb_md5 N k)"
    and "stands_for N n view v cv st D" and "calm (stores (nb_eng st) n)" and "\<forall>c \<in> set cs. in_device (ver_size v) c"
  shows "\<exists>st'. store_run N v cv cs st = Some (fst (device_run cs D), st') \<and> stands_for N n view v cv st' (snd (device_run cs D))"
  by (rule store_run_refines [OF assms])

definition demo_nbd_env :: "unit nbd_env" where
  "demo_nbd_env = \<lparr> nb_env = demo_env, nb_dir = ''/cow'', nb_md5 = (\<lambda>_. ''abcd''),
     nb_ops = \<lparr> c_get = (\<lambda>_ c. (None, c)), c_put = (\<lambda>_ _ c. c) \<rparr> \<rparr>"

definition base_version :: version where
  "base_version = demo_version\<lparr>ver_size := 4, ver_block_size := 2\<rparr>"

definition cow_version :: version where
  "cow_version = base_version\<lparr>ver_id := 2, ver_uid := ''cow''\<rparr>"

definition demo_nbd :: "engine \<Rightarrow> unit nbd" where
  "demo_nbd e = \<lparr> nb_eng = e, nb_cow = [(''cow'', [])], nb_store = \<lparr> cs_files = [], cs_present = [] \<rparr>, nb_cache = () \<rparr>"

lemmas demo_nbd_defs = demo_nbd_env_def base_version_def cow_version_def demo_nbd_def demo_new_engine_def demo_version_def

lemma demo_stands_for: "stands_for demo_nbd_env ''s'' (\<lambda>_ _. None) base_version cow_version (demo_nbd demo_new_engine) [0, 0, 0, 0]"
proof -
  have "blocks_count base_version = 2" by (simp add: blocks_count_def demo_nbd_defs ceil_div_def)
  moreover have "{0..<2} = {0, 1 :: int}" by auto
  ultimately show ?thesis
    by (simp add: stands_for_def device_rel_def covers_def io_size_def demo_nbd_defs storage_name_of_def storage_name_def
        get_block_by_idx_def query_block_def create_sparse_block_def block_holds_def cache_sound_def region_def py_slice_def
        part_size_def)
qed

theorem nbd_refines_byte_array_witness:
  "\<exists>st'. store_run demo_nbd_env base_version cow_version [CmdWrite 1 [7, 8], CmdRead 0 4] (demo_nbd demo_new_engine) =
     Some ([ReplyDone, ReplyData [0, 7, 8, 0]], st')"
proof -
  have "fst (device_run [CmdWrite 1 [7, 8], CmdRead 0 4] [0, 0, 0, 0]) = [ReplyDone, ReplyData [0, 7, 8, 0 :: 8 word]]"
    by (simp add: write_at_def py_slice_def)
  moreover have "\<exists>st'. store_run demo_nbd_env base_version cow_version [CmdWrite 1 [7, 8], CmdRead 0 4] (demo_nbd demo_new_engine) =
      Some (fst (device_run [CmdWrite 1 [7, 8], CmdRead 0 4] [0, 0, 0, 0]), st') \<and>
      stands_for demo_nbd_env ''s'' (\<lambda>_ _. None) base_version cow_version st' (snd (device_run [CmdWrite 1 [7, 8], CmdRead 0 4] [0, 0, 0, 0]))"
    by (rule nbd_refines_byte_array [OF _ _ demo_stands_for])
       (simp_all add: good_cache_def demo_nbd_defs calm_demo_fs)
  ultimately show ?thesis by metis
qed

text \<open>A read of one byte behind a short last block, inside the size the NBD server rounds up to, yields a chunk of
  negative length, and two bytes are returned instead of one.\<close>

theorem nbd_read_behind_short_block:
  "map_option fst (nbd_read demo_nbd_env (hole_version\<lparr>ver_size := 5, ver_block_size := 4\<rparr>) None 6 1 (demo_nbd hole_engine)) = Some (Inr [0, 0])"
  by code_simp

end
