(* ===== verification/Version_Ops.thy ===== *)
theory Version_Ops
  imports Restore Retention
begin

text \<open>
  The remaining operations of \<open>Benji\<close> on whole versions: removal, protection, labels, metadata export and backup, preparing a
  version from scratch, the enforcement of retention policies, and \<open>Version.storage_usage\<close>.
\<close>

section \<open>Removing and changing a version\<close>

text \<open>\<open>(datetime.now() - created_at).days\<close>; times are in seconds here.\<close>

definition age_days :: "int \<Rightarrow> version \<Rightarrow> int" where
  "age_days now v = (now - ver_created_at v) div 86400"

definition rm_allowed :: "int \<Rightarrow> bool \<Rightarrow> int \<Rightarrow> version \<Rightarrow> unit res" where
  "rm_allowed now force min_days v =
     (if ver_protected v then Inl PermissionError
      else if \<not> force \<and> min_days > age_days now v then Inl PermissionError
      else if \<not> force \<and> \<not> is_removable (ver_status v) then Inl PermissionError
      else Inr ())"

definition rm :: "env \<Rightarrow> string \<Rightarrow> bool \<Rightarrow> int \<Rightarrow> bool \<Rightarrow> bool \<Rightarrow> (exn, engine, unit) py" where
  "rm E uid force min_days keep_metadata_backup override =
     guarded (on_session (lock_version (env_me E) uid (Some ''Removing version'') override (env_now E)))
       (on_session (unlock_version (env_me E) uid)) True
       (\<lambda>e. case bind_res (get_by_uid uid (working (ses e))) (\<lambda>v. bind_res (rm_allowed (env_now E) force min_days v) (\<lambda>_. Inr v)) of
           Inl x \<Rightarrow> (Inl x, e)
         | Inr v \<Rightarrow>
             let storage = storage_name_of (working (ses e)) v; e1 = e\<lparr>ses := snd (remove (env_now E) v (ses e))\<rparr> in
             if keep_metadata_backup then (Inr (), e1)
             else exceptS (\<lambda>e2. case storage of Inl x \<Rightarrow> (Inl x, e2) | Inr n \<Rightarrow> on_store n (rm_version (env_cf E n) file_backend uid) e2)
                    (\<lambda>x. if x = FileNotFoundError then returnS () else raiseS x) e1)"

definition protect :: "string \<Rightarrow> bool \<Rightarrow> (exn, session, unit) py" where
  "protect uid b s =
     (case get_by_uid uid (working s) of Inl x \<Rightarrow> (Inl x, s) | Inr v \<Rightarrow> (Inr (), set_version v None (Some b) s))"

definition benji_add_label :: "string \<Rightarrow> string \<Rightarrow> string \<Rightarrow> (exn, session, unit) py" where
  "benji_add_label uid key val s =
     (case get_by_uid uid (working s) of Inl x \<Rightarrow> (Inl x, s) | Inr v \<Rightarrow> add_label v key val s)"

definition benji_rm_label :: "string \<Rightarrow> string \<Rightarrow> (exn, session, unit) py" where
  "benji_rm_label uid key s =
     (case get_by_uid uid (working s) of Inl x \<Rightarrow> (Inl x, s) | Inr v \<Rightarrow> rm_label v key s)"

section \<open>Exporting and backing up metadata\<close>

text \<open>A loop that locks versions one by one, keeping the list of those locked so far, and the body under the locks.\<close>

fun lock_versions :: "env \<Rightarrow> string \<Rightarrow> string list \<Rightarrow> string list \<Rightarrow> engine \<Rightarrow> unit res \<times> string list \<times> engine" where
  "lock_versions E reason [] locked e = (Inr (), locked, e)"
| "lock_versions E reason (u # us) locked e =
     (case on_session (lock_version (env_me E) u (Some reason) False (env_now E)) e of
        (Inl x, e1) \<Rightarrow> (Inl x, locked, e1)
      | (Inr _, e1) \<Rightarrow> lock_versions E reason us (locked @ [u]) e1)"

definition under_locks :: "env \<Rightarrow> string \<Rightarrow> string list \<Rightarrow> (exn, engine, 'a) py \<Rightarrow> (exn, engine, 'a) py" where
  "under_locks E reason uids body e =
     (case lock_versions E reason uids [] e of
        (r, locked, e1) \<Rightarrow>
          finallyS (case r of Inl x \<Rightarrow> raiseS x | Inr _ \<Rightarrow> body)
            (for_each (\<lambda>u. on_session (unlock_version (env_me E) u)) locked) e1)"

text \<open>\<open>Database.export\<close> fetches the versions and hands them to the encoder, which is a parameter.\<close>

definition metadata_export :: "env \<Rightarrow> (version list \<Rightarrow> database \<Rightarrow> string) \<Rightarrow> string list \<Rightarrow> (exn, engine, string) py" where
  "metadata_export E encode uids =
     under_locks E ''Exporting version metadata'' uids
       (\<lambda>e. (bind_res (map_res (\<lambda>u. get_by_uid u (working (ses e))) uids) (\<lambda>vs. Inr (encode vs (working (ses e)))), e))"

definition backup_metadata_of :: "env \<Rightarrow> bool \<Rightarrow> version \<Rightarrow> (exn, engine, unit) py" where
  "backup_metadata_of E overwrite v e =
     (case bind_res (get_by_uid (ver_uid v) (working (ses e))) (\<lambda>w.
            bind_res (storage_name_of (working (ses e)) v) (\<lambda>n. Inr (w, n))) of
        Inl x \<Rightarrow> (Inl x, e)
      | Inr (w, n) \<Rightarrow>
          on_store n (write_version (env_cf E n) file_backend (env_timestamp E) 0 (ver_uid v)
            (env_export E w (working (ses e))) overwrite) e)"

definition metadata_backups :: "env \<Rightarrow> string list \<Rightarrow> bool \<Rightarrow> bool \<Rightarrow> (exn, engine, unit) py" where
  "metadata_backups E uids overwrite locking =
     bindS (\<lambda>e. (map_res (\<lambda>u. get_by_uid u (working (ses e))) uids, e)) (\<lambda>vs.
       under_locks E ''Backing up version metadata'' (if locking then map ver_uid vs else [])
         (for_each (backup_metadata_of E overwrite) vs))"

section \<open>Preparing a version from scratch\<close>

text \<open>
  \<open>create_version\<close> calls \<open>Version.create(version_uid=...)\<close>, but \<open>create\<close> is an instance method of \<open>DatabaseModel\<close> without such
  parameters: the call raises \<open>TypeError\<close> before a row is made, and the \<open>except\<close> clause finds no version to unlock.
  \<open>new_storage\<close> is \<open>None\<close> for an unknown name.
\<close>

definition get_storage_by_name :: "string \<Rightarrow> database \<Rightarrow> storage_row option" where
  "get_storage_by_name n d = find (\<lambda>r. sto_name r = n) (db_storages d)"

definition check_new :: "storage_row option \<Rightarrow> int option \<Rightarrow> int option \<Rightarrow> string option \<Rightarrow> bool \<Rightarrow> session \<Rightarrow> unit res" where
  "check_new storage block_size sz base base_locking s =
     (case base of
        None \<Rightarrow> if sz = None then Inl InternalError else if block_size = None then Inl InternalError else Inr ()
      | Some b \<Rightarrow>
          if \<not> base_locking \<and> \<not> is_version_locked b s then Inl InternalError
          else
            bind_res (get_by_uid b (working s)) (\<lambda>old.
              if \<not> is_valid (ver_status old) then Inl UsageError
              else if block_size \<noteq> None \<and> block_size \<noteq> Some (ver_block_size old) then Inl UsageError
              else (case storage of
                      None \<Rightarrow> Inl AttributeError
                    | Some r \<Rightarrow> if ver_storage_id old \<noteq> sto_id r then Inl UsageError else Inr ())))"

definition version_create_call :: "storage_row option \<Rightarrow> (exn, session, version) py" where
  "version_create_call storage = raiseS (if storage = None then AttributeError else TypeError)"

definition create_version :: "env \<Rightarrow> string \<Rightarrow> string option \<Rightarrow> int option \<Rightarrow> int option \<Rightarrow> string option \<Rightarrow> bool
    \<Rightarrow> (exn, session, version) py" where
  "create_version E default_storage storage_name0 block_size sz base base_locking s =
     (let n = (case storage_name0 of Some x \<Rightarrow> if x = [] then default_storage else x | None \<Rightarrow> default_storage);
          storage = get_storage_by_name n (working s);
          locks = (case base of Some b \<Rightarrow> base_locking | None \<Rightarrow> False)
      in case check_new storage block_size sz base base_locking s of
           Inl x \<Rightarrow> (Inl x, s)
         | Inr _ \<Rightarrow>
             finallyS
               (thenS (if locks then lock_version (env_me E) (the base) (Some ''Base version cloning'') False (env_now E) else returnS ())
                 (version_create_call storage))
               (if locks then unlock_if_locked (env_me E) (the base) else returnS ()) s)"

text \<open>\<open>BenjiStore.create_cow_version\<close> does nothing after the failing call.\<close>

definition create_cow_version :: "env \<Rightarrow> string \<Rightarrow> version \<Rightarrow> (exn, session, version) py" where
  "create_cow_version E default_storage base =
     bindS (create_version E default_storage None None None (Some (ver_uid base)) False) (\<lambda>cow.
       thenS (update_version_lock (env_me E) (ver_uid cow) (Some ''NBD COW'')) (returnS cow))"

section \<open>Retention policies\<close>

text \<open>
  The rows \<open>find_with_filter\<close> returned are grouped by volume. \<open>date\<close> is how the retention filter dates a version: it reads
  \<open>version.date\<close>, an attribute \<open>Version\<close> does not have.
\<close>

definition version_date :: "version \<Rightarrow> datetime res" where
  "version_date v = Inl AttributeError"

definition considered :: "version list \<Rightarrow> version list" where
  "considered vs = filter (\<lambda>v. \<not> ver_protected v \<and> is_removable (ver_status v)) vs"

definition by_volume :: "version list \<Rightarrow> version list list" where
  "by_volume vs = map (\<lambda>vol. filter (\<lambda>v. ver_volume v = vol) vs) (rev (remdups (rev (map ver_volume vs))))"

definition dismissed :: "dateutil \<Rightarrow> datetime \<Rightarrow> string \<Rightarrow> (version \<Rightarrow> datetime res) \<Rightarrow> version list \<Rightarrow> version list res" where
  "dismissed U ref spec date vs =
     bind_res (map_res (\<lambda>slice. bind_res (parse_rules spec) (\<lambda>rules.
         bind_res (rf_filter U ref rules date slice) (\<lambda>(dis, _). Inr dis))) (by_volume (considered vs)))
       (\<lambda>ds. Inr (remdups (concat ds)))"

text \<open>
  With a group label, the labels of the dismissed versions are looked up; as soon as one matches, \<open>Version.find\<close> refers to the
  column \<open>Label.version_uid\<close>, which does not exist.
\<close>

definition group_error :: "database \<Rightarrow> string option \<Rightarrow> version list \<Rightarrow> bool" where
  "group_error d group_label vs \<longleftrightarrow>
     (\<exists>g. group_label = Some g \<and> (\<exists>v \<in> set vs. \<exists>l \<in> set (db_labels d). lbl_version_id l = ver_id v \<and> lbl_name l = g))"

fun enforce_loop :: "env \<Rightarrow> bool \<Rightarrow> version list \<Rightarrow> (exn, engine, version list) py" where
  "enforce_loop E keep [] e = (Inr [], e)"
| "enforce_loop E keep (v # vs) e =
     (case rm E (ver_uid v) True 0 keep False e of
        (r, e1) \<Rightarrow>
          (case r of
             Inl x \<Rightarrow>
               if x = KeyError \<or> x = PermissionError \<or> x = AlreadyLocked then enforce_loop E keep vs e1 else (Inl x, e1)
           | Inr _ \<Rightarrow>
               (case enforce_loop E keep vs e1 of (Inl x, e2) \<Rightarrow> (Inl x, e2) | (Inr rest, e2) \<Rightarrow> (Inr (v # rest), e2))))"

definition enforce_retention_policy :: "env \<Rightarrow> dateutil \<Rightarrow> datetime \<Rightarrow> (version \<Rightarrow> datetime res) \<Rightarrow> version list \<Rightarrow> string \<Rightarrow> bool \<Rightarrow> bool
    \<Rightarrow> string option \<Rightarrow> (exn, engine, version list) py" where
  "enforce_retention_policy E U ref date versions spec dry_run keep group_label e =
     (case dismissed U ref spec date versions of
        Inl x \<Rightarrow> (Inl x, e)
      | Inr dis \<Rightarrow>
          if group_error (working (ses e)) group_label dis then (Inl AttributeError, e)
          else if dry_run then (Inr [], e)
          else enforce_loop E keep dis e)"

section \<open>Usage of the storages\<close>

record usage =
  us_virtual :: int
  us_sparse :: int
  us_shared :: int
  us_exclusive :: int
  us_deduplicated_exclusive :: int

text \<open>The versions of a storage, restricted to the given ids, and their non-sparse block rows.\<close>

definition usage_versions :: "database \<Rightarrow> int list option \<Rightarrow> int \<Rightarrow> version list" where
  "usage_versions d ids sid =
     filter (\<lambda>v. ver_storage_id v = sid \<and> (case ids of Some is \<Rightarrow> ver_id v \<in> set is | None \<Rightarrow> True)) (db_versions d)"

definition usage_rows :: "database \<Rightarrow> int list option \<Rightarrow> int \<Rightarrow> block list" where
  "usage_rows d ids sid =
     filter (\<lambda>b. uid_bool (blk_uid b) \<and> blk_version_id b \<in> set (map ver_id (usage_versions d ids sid))) (db_blocks d)"

text \<open>\<open>GROUP BY\<close> UID and size, with the counts inside the selection and overall.\<close>

definition usage_groups :: "database \<Rightarrow> int list option \<Rightarrow> int \<Rightarrow> (block_uid \<times> int \<times> nat \<times> nat) list" where
  "usage_groups d ids sid =
     (let keys = map (\<lambda>b. (blk_uid b, blk_size b)) (usage_rows d ids sid) in
      map (\<lambda>(uid, sz). (uid, sz, count_list keys (uid, sz), count_list (map blk_uid (usage_rows d None sid)) uid)) (remdups keys))"

definition add_group :: "block_uid \<times> int \<times> nat \<times> nat \<Rightarrow> usage \<Rightarrow> usage" where
  "add_group g u =
     (case g of (uid, sz, inside, overall) \<Rightarrow>
        if overall = inside
        then u\<lparr>us_exclusive := us_exclusive u + sz * int inside, us_deduplicated_exclusive := us_deduplicated_exclusive u + sz\<rparr>
        else u\<lparr>us_shared := us_shared u + sz * int inside\<rparr>)"

definition storage_usage_of :: "database \<Rightarrow> int list option \<Rightarrow> int \<Rightarrow> usage" where
  "storage_usage_of d ids sid =
     (let u0 = \<lparr> us_virtual = sum_list (map ver_size (usage_versions d ids sid)), us_sparse = 0, us_shared = 0, us_exclusive = 0,
                 us_deduplicated_exclusive = 0 \<rparr>;
          u = fold add_group (usage_groups d ids sid) u0
      in u\<lparr>us_sparse := us_virtual u - us_exclusive u - us_shared u\<rparr>)"

definition storage_usage :: "database \<Rightarrow> int list option \<Rightarrow> (string \<times> usage) list" where
  "storage_usage d ids =
     map (\<lambda>r. (sto_name r, storage_usage_of d ids (sto_id r)))
       (filter (\<lambda>r. usage_versions d ids (sto_id r) \<noteq> []) (db_storages d))"

section \<open>What a removal touches\<close>

text \<open>Everything but the locks; and sessions without pending changes.\<close>

definition rest :: "database \<Rightarrow> version list \<times> block list \<times> label list \<times> deleted_block list \<times> storage_row list" where
  "rest d = (db_versions d, db_blocks d, db_labels d, db_deleted d, db_storages d)"

definition settled :: "session \<Rightarrow> bool" where
  "settled s \<longleftrightarrow> committed s = working s"

lemma rest_locks [simp]: "rest (d\<lparr>db_locks := ls\<rparr>) = rest d"
  by (simp add: rest_def)

lemma rollback_settled: "settled s \<Longrightarrow> settled (rollback s) \<and> rest (working (rollback s)) = rest (working s)"
  by (simp add: settled_def rollback_def)

lemma commit_update: "settled (commit (update_db f s))" "working (commit (update_db f s)) = f (working s)"
  by (simp_all add: settled_def commit_def update_db_def)

lemma lock_rest: "settled s \<Longrightarrow> lock me n reason override now s = (r, s') \<Longrightarrow> settled s' \<and> rest (working s') = rest (working s)"
  using rollback_settled [of s]
  by (auto simp: lock_def Let_def commit_update split: if_splits option.splits)

lemma unlock_rest: "settled s \<Longrightarrow> unlock me n s = (r, s') \<Longrightarrow> settled s' \<and> rest (working s') = rest (working s)"
  using rollback_settled [of s]
  by (auto simp: unlock_def commit_update split: if_splits)

lemma on_session_cases: "on_session m e = (r, e') \<Longrightarrow> m (ses e) = (r, ses e') \<and> stores e' = stores e"
  by (auto simp: on_session_def split: prod.splits)

lemma on_store_ses: "on_store n m e = (r, e') \<Longrightarrow> ses e' = ses e"
  by (auto simp: on_store_def split: prod.splits)

text \<open>A guarded body: what lock and unlock leave alone is what the body makes of it.\<close>

lemma guarded_rest:
  assumes "guarded (on_session (lock_version me u reason ov now)) (on_session (unlock_version me u)) True body e = (r, e')"
    and "settled (ses e)"
    and body: "\<And>e1 r2 e2. body e1 = (r2, e2) \<Longrightarrow> settled (ses e1) \<Longrightarrow> rest (working (ses e1)) = rest (working (ses e)) \<Longrightarrow>
      settled (ses e2) \<and> P r2 (rest (working (ses e2)))"
    and init: "\<And>x. P (Inl x) (rest (working (ses e)))"
    and up: "\<And>r2 d x. P r2 d \<Longrightarrow> P (Inl x) d"
  shows "settled (ses e') \<and> P r (rest (working (ses e')))"
proof -
  obtain q e1 where q: "on_session (lock_version me u reason ov now) e = (q, e1)" by force
  have s1: "settled (ses e1)" "rest (working (ses e1)) = rest (working (ses e))"
    using lock_rest [OF assms(2)] on_session_cases [OF q] by (auto simp: lock_version_def)
  show ?thesis
  proof (cases q)
    case (Inl x)
    then show ?thesis using assms(1) q s1 init by (auto simp: guarded_def)
  next
    case (Inr y)
    obtain b e2 where b: "body e1 = (b, e2)" by force
    have s2: "settled (ses e2)" "P b (rest (working (ses e2)))" using body [OF b s1] by simp_all
    obtain p e3 where p: "on_session (unlock_version me u) e2 = (p, e3)" by force
    have s3: "settled (ses e3)" "rest (working (ses e3)) = rest (working (ses e2))"
      using unlock_rest [OF s2(1)] on_session_cases [OF p] by (auto simp: unlock_version_def)
    have "e' = e3 \<and> (r = b \<or> (\<exists>x. r = Inl x))"
      using assms(1) q Inr b p by (auto simp: guarded_def split: sum.splits)
    then have e': "e' = e3" and "P r (rest (working (ses e2)))" using s2(2) up by blast+
    then show ?thesis using s3 by simp
  qed
qed

text \<open>Versions and blocks in two states: \<open>kept d d' w\<close>, the version is there as before, with its blocks.\<close>

type_synonym tables = "version list \<times> block list \<times> label list \<times> deleted_block list \<times> storage_row list"

definition kept :: "tables \<Rightarrow> tables \<Rightarrow> version \<Rightarrow> bool" where
  "kept d d' w \<longleftrightarrow> w \<in> set (fst d') \<and>
     filter (\<lambda>b. blk_version_id b = ver_id w) (fst (snd d')) = filter (\<lambda>b. blk_version_id b = ver_id w) (fst (snd d))"

definition gone :: "tables \<Rightarrow> tables \<Rightarrow> version \<Rightarrow> bool" where
  "gone d d' v \<longleftrightarrow> v \<notin> set (fst d') \<and> (\<forall>b \<in> set (fst (snd d')). blk_version_id b \<noteq> ver_id v) \<and>
     (\<forall>b \<in> set (fst (snd d)). blk_version_id b = ver_id v \<longrightarrow> uid_bool (blk_uid b) \<longrightarrow>
        (ver_storage_id v, blk_uid b) \<in> (\<lambda>r. (del_storage_id r, del_uid r)) ` set (fst (snd (snd (snd d')))))"

lemma rm_result:
  assumes wf: "wf_db (working (ses e))" and settled: "settled (ses e)"
    and step: "rm E uid force min_days keep override e = (r, e')"
  shows "settled (ses e') \<and>
    (\<forall>w \<in> set (db_versions (working (ses e))). ver_uid w \<noteq> uid \<or> ver_protected w \<longrightarrow> kept (rest (working (ses e))) (rest (working (ses e'))) w) \<and>
    (r = Inr () \<longrightarrow> (\<exists>v \<in> set (db_versions (working (ses e))). ver_uid v = uid \<and> \<not> ver_protected v \<and>
       gone (rest (working (ses e))) (rest (working (ses e'))) v)) \<and>
    (rest (working (ses e')) = rest (working (ses e)) \<or> (\<exists>v \<in> set (db_versions (working (ses e))). ver_uid v = uid \<and>
       rest (working (ses e')) = rest (remove_version (env_now E) v (working (ses e)))))"
proof -
  let ?d = "working (ses e)"
  let ?P = "\<lambda>r2 t. (t = rest ?d \<and> r2 \<noteq> Inr ()) \<or> (\<exists>v \<in> set (db_versions ?d). ver_uid v = uid \<and> \<not> ver_protected v \<and> t = rest (remove_version (env_now E) v ?d))"
  have "settled (ses e') \<and> ?P r (rest (working (ses e')))"
  proof (rule guarded_rest [OF step [unfolded rm_def] settled])
    fix e1 r2 e2
    assume b: "(case bind_res (get_by_uid uid (working (ses e1))) (\<lambda>v. bind_res (rm_allowed (env_now E) force min_days v) (\<lambda>_. Inr v)) of
           Inl x \<Rightarrow> (Inl x, e1)
         | Inr v \<Rightarrow>
             let storage = storage_name_of (working (ses e1)) v; e2 = e1\<lparr>ses := snd (remove (env_now E) v (ses e1))\<rparr> in
             if keep then (Inr (), e2)
             else exceptS (\<lambda>e3. case storage of Inl x \<Rightarrow> (Inl x, e3) | Inr n \<Rightarrow> on_store n (rm_version (env_cf E n) file_backend uid) e3)
                    (\<lambda>x. if x = FileNotFoundError then returnS () else raiseS x) e2) = (r2, e2)"
      and s1: "settled (ses e1)" "rest (working (ses e1)) = rest ?d"
    have vs: "db_versions (working (ses e1)) = db_versions ?d" using s1(2) by (simp add: rest_def)
    show "settled (ses e2) \<and> ?P r2 (rest (working (ses e2)))"
    proof (cases "bind_res (get_by_uid uid (working (ses e1))) (\<lambda>v. bind_res (rm_allowed (env_now E) force min_days v) (\<lambda>_. Inr v))")
      case (Inl x)
      then show ?thesis using b s1 by auto
    next
      case (Inr v)
      then have v: "v \<in> set (db_versions ?d)" "ver_uid v = uid" "\<not> ver_protected v"
        using vs by (auto simp: bind_res_eq_Inr get_by_uid_def rm_allowed_def dest!: find_SomeD split: option.splits if_splits)
      have "ses e2 = snd (remove (env_now E) v (ses e1))"
        using b Inr on_store_ses
        by (auto simp: Let_def exceptS_def split: if_splits sum.splits prod.splits) fastforce+
      then have "settled (ses e2)" "rest (working (ses e2)) = rest (remove_version (env_now E) v (working (ses e1)))"
        by (simp_all add: remove_def commit_update)
      moreover have "rest (remove_version (env_now E) v (working (ses e1))) = rest (remove_version (env_now E) v ?d)"
        using s1(2) by (simp add: rest_def remove_version_def version_blocks_def)
      ultimately show ?thesis using v by auto
    qed
  qed auto
  then consider "settled (ses e')" "rest (working (ses e')) = rest ?d" "r \<noteq> Inr ()"
    | v where "settled (ses e')" "v \<in> set (db_versions ?d)" "ver_uid v = uid" "\<not> ver_protected v"
      "rest (working (ses e')) = rest (remove_version (env_now E) v ?d)" by blast
  then show ?thesis
  proof cases
    case 1
    then show ?thesis by (simp add: kept_def rest_def)
  next
    case (2 v)
    have ids: "ver_id w \<noteq> ver_id v" if "w \<in> set (db_versions ?d)" "ver_uid w \<noteq> uid \<or> ver_protected w" for w
      using that 2 wf by (metis (no_types, lifting) distinct_map inj_onD wf_db_def)
    have "kept (rest ?d) (rest (working (ses e'))) w" if w: "w \<in> set (db_versions ?d)" "ver_uid w \<noteq> uid \<or> ver_protected w" for w
      unfolding 2(5) using ids [OF w] w(1) by (auto simp: kept_def rest_def remove_version_def intro!: filter_cong)
    moreover have "gone (rest ?d) (rest (working (ses e'))) v"
      unfolding 2(5) by (force simp: gone_def rest_def remove_version_def version_blocks_def image_iff)
    ultimately show ?thesis using 2 by blast
  qed
qed

text \<open>C9: Whatever options, locks and storage faults: removing a version never touches another version or a protected one, nor
  their blocks. When it returns, a version with the UID is gone with its blocks, and each non-sparse block is a delete
  candidate of its storage.\<close>

theorem rm_touches_only_its_version:
  assumes "wf_db (working (ses e))" and "settled (ses e)" and "rm E uid force min_days keep override e = (r, e')"
  shows "settled (ses e') \<and>
    (\<forall>w \<in> set (db_versions (working (ses e))). ver_uid w \<noteq> uid \<or> ver_protected w \<longrightarrow> kept (rest (working (ses e))) (rest (working (ses e'))) w) \<and>
    (r = Inr () \<longrightarrow> (\<exists>v \<in> set (db_versions (working (ses e))). ver_uid v = uid \<and> \<not> ver_protected v \<and>
       gone (rest (working (ses e))) (rest (working (ses e'))) v))"
  using rm_result [OF assms] by blast

lemma wf_rest: "rest d = rest d' \<Longrightarrow> wf_db d \<Longrightarrow> wf_db d'"
  by (simp add: rest_def wf_db_def wf_blocks_def)

lemma rm_keeps_wf:
  assumes "wf_db (working (ses e))" and "settled (ses e)" and "rm E uid force min_days keep override e = (r, e')"
  shows "wf_db (working (ses e'))"
proof -
  from rm_result [OF assms] consider "rest (working (ses e')) = rest (working (ses e))"
    | v where "rest (working (ses e')) = rest (remove_version (env_now E) v (working (ses e)))" by blast
  then show ?thesis using assms(1) wf_remove_version wf_rest by cases metis+
qed

lemma kept_trans: "kept d d1 w \<Longrightarrow> kept d1 d2 w \<Longrightarrow> kept d d2 w"
  by (simp add: kept_def)

lemma kept_member: "kept d (rest d') w \<Longrightarrow> w \<in> set (db_versions d')"
  by (simp add: kept_def rest_def)

lemma enforce_loop_keeps:
  assumes "wf_db (working (ses e))" and "settled (ses e)" and "enforce_loop E keep vs e = (r, e')"
    and "w \<in> set (db_versions (working (ses e)))" and "ver_uid w \<notin> ver_uid ` set vs \<or> ver_protected w"
  shows "kept (rest (working (ses e))) (rest (working (ses e'))) w"
  using assms
proof (induction vs arbitrary: e r e')
  case Nil
  then show ?case by (simp add: kept_def rest_def)
next
  case (Cons v vs)
  obtain q e1 where q: "rm E (ver_uid v) True 0 keep False e = (q, e1)" by force
  have k1: "kept (rest (working (ses e))) (rest (working (ses e1))) w" and s1: "settled (ses e1)"
    using rm_result [OF Cons.prems(1,2) q] Cons.prems(4,5) by auto
  have wf1: "wf_db (working (ses e1))" by (rule rm_keeps_wf [OF Cons.prems(1,2) q])
  have w1: "w \<in> set (db_versions (working (ses e1)))" by (rule kept_member [OF k1])
  obtain p e2 where p: "enforce_loop E keep vs e1 = (p, e2)" by force
  have "kept (rest (working (ses e1))) (rest (working (ses e2))) w"
    by (rule Cons.IH [OF wf1 s1 p w1]) (use Cons.prems(5) in auto)
  moreover have "e' = e1 \<or> e' = e2" using Cons.prems(3) q p by (auto split: sum.splits if_splits)
  ultimately show ?case using k1 kept_trans by blast
qed

lemma mem_concat_slices:
  assumes "map_res f ss = Inr ds" and "x \<in> set (concat ds)"
  obtains s d where "s \<in> set ss" "f s = Inr d" "x \<in> set d"
proof -
  have "\<exists>s \<in> set ss. \<exists>d. f s = Inr d \<and> x \<in> set d" using assms
  proof (induction ss arbitrary: ds)
    case (Cons s ss)
    then obtain d ds' where d: "f s = Inr d" "map_res f ss = Inr ds'" "ds = d # ds'" by (auto simp: bind_res_eq_Inr)
    then show ?case using Cons.IH [OF d(2)] Cons.prems(2) by auto
  qed simp
  then show thesis using that by blast
qed

lemma filter_subset:
  assumes "parse_rules spec = Inr rules" and "rf_filter U ref rules date vs = Inr (dis, kp)"
  shows "set dis \<subseteq> set vs"
proof -
  obtain skipped where "mset vs = mset dis + mset (kept_all kp) + mset skipped"
    using rf_partition [OF assms] by blast
  then have "mset dis \<subseteq># mset vs" by simp
  then show ?thesis by (metis set_mset_mono set_mset_mset)
qed

lemma dismissed_considered:
  assumes "dismissed U ref spec date vs = Inr dis"
  shows "set dis \<subseteq> set (considered vs)"
proof
  fix x assume "x \<in> set dis"
  then obtain ds where ds: "map_res (\<lambda>slice. bind_res (parse_rules spec) (\<lambda>rules.
         bind_res (rf_filter U ref rules date slice) (\<lambda>(dis, _). Inr dis))) (by_volume (considered vs)) = Inr ds" "x \<in> set (concat ds)"
    using assms by (auto simp: dismissed_def bind_res_eq_Inr)
  then obtain s d where s: "s \<in> set (by_volume (considered vs))" "x \<in> set d"
    "bind_res (parse_rules spec) (\<lambda>rules. bind_res (rf_filter U ref rules date s) (\<lambda>(dis, _). Inr dis)) = Inr d"
    by (rule mem_concat_slices) blast
  from s(3) obtain rules kp where "parse_rules spec = Inr rules" "rf_filter U ref rules date s = Inr (d, kp)"
    by (auto simp: bind_res_eq_Inr)
  from filter_subset [OF this] s(1,2) show "x \<in> set (considered vs)" by (auto simp: by_volume_def)
qed

text \<open>C11: Enforcing a retention policy, however versions are dated, whatever the locks and faults: a version that is protected, was not
  found by the filter expression or is incomplete stays, with its blocks.\<close>

theorem enforce_keeps_others:
  assumes "wf_db (working (ses e))" and "settled (ses e)" and "set found \<subseteq> set (db_versions (working (ses e)))"
    and "enforce_retention_policy E U ref date found spec dry keep grp e = (r, e')"
    and "w \<in> set (db_versions (working (ses e)))" and "ver_protected w \<or> w \<notin> set found \<or> ver_status w = incomplete"
  shows "kept (rest (working (ses e))) (rest (working (ses e'))) w"
proof -
  have refl: "kept (rest (working (ses e))) (rest (working (ses e))) w" using assms(5) by (simp add: kept_def rest_def)
  show ?thesis
  proof (cases "dismissed U ref spec date found")
    case (Inl x)
    then show ?thesis using assms(4) refl by (simp add: enforce_retention_policy_def)
  next
    case (Inr dis)
    note sub = dismissed_considered [OF Inr]
    show ?thesis
    proof (cases "group_error (working (ses e)) grp dis \<or> dry")
      case True
      then show ?thesis using assms(4) refl Inr by (auto simp: enforce_retention_policy_def split: if_splits)
    next
      case False
      then have loop: "enforce_loop E keep dis e = (r, e')" using assms(4) Inr by (simp add: enforce_retention_policy_def)
      have "ver_uid w \<notin> ver_uid ` set dis \<or> ver_protected w"
      proof (rule ccontr)
        assume "\<not> ?thesis"
        then obtain v where v: "v \<in> set dis" "ver_uid v = ver_uid w" "\<not> ver_protected w" by auto
        then have c: "v \<in> set (considered found)" using sub by blast
        then have "v \<in> set (db_versions (working (ses e)))" using assms(3) by (auto simp: considered_def)
        moreover have "inj_on ver_uid (set (db_versions (working (ses e))))" using assms(1) by (simp add: wf_db_def distinct_map)
        ultimately have "v = w" using assms(5) v(2) by (simp add: inj_onD)
        then show False using c v(3) assms(6) by (auto simp: considered_def is_removable_def)
      qed
      then show ?thesis by (rule enforce_loop_keeps [OF assms(1,2) loop assms(5)])
    qed
  qed
qed

definition two_engine :: engine where
  "two_engine = \<lparr> ses = session_on \<lparr> db_versions = [hole_version, hole_version\<lparr>ver_id := 2, ver_uid := ''v2'', ver_protected := True\<rparr>],
     db_blocks = [hole_block], db_labels = [], db_deleted = [], db_locks = [],
     db_storages = [\<lparr> sto_id = 1, sto_name = ''s'', sto_module = ''file'' \<rparr>] \<rparr>, stores = (\<lambda>_. demo_fs) \<rparr>"

lemma two_engine_ok: "wf_db (working (ses two_engine))" "settled (ses two_engine)"
  by (simp_all add: two_engine_def wf_db_def wf_blocks_def hole_defs settled_def)

theorem rm_touches_only_its_version_witness:
  "\<exists>r e'. rm demo_env ''v2'' True 0 True False two_engine = (r, e') \<and> hole_version \<in> set (db_versions (working (ses e'))) \<and>
     hole_version\<lparr>ver_id := 2, ver_uid := ''v2'', ver_protected := True\<rparr> \<in> set (db_versions (working (ses e')))"
proof -
  obtain r e' where run: "rm demo_env ''v2'' True 0 True False two_engine = (r, e')" by force
  note R = rm_touches_only_its_version [OF two_engine_ok run]
  have "hole_version \<in> set (db_versions (working (ses two_engine)))" "ver_uid hole_version \<noteq> ''v2''"
    "hole_version\<lparr>ver_id := 2, ver_uid := ''v2'', ver_protected := True\<rparr> \<in> set (db_versions (working (ses two_engine)))"
    by (simp_all add: two_engine_def hole_defs)
  with R have "hole_version \<in> set (db_versions (working (ses e')))"
    "hole_version\<lparr>ver_id := 2, ver_uid := ''v2'', ver_protected := True\<rparr> \<in> set (db_versions (working (ses e')))"
    by (auto intro: kept_member)
  then show ?thesis using run by blast
qed

theorem enforce_keeps_others_witness:
  "\<exists>r e'. enforce_retention_policy demo_env utc_dateutil (noon 2020 3 10) (\<lambda>_. Inr (noon 2020 3 9))
      [hole_version, hole_version\<lparr>ver_id := 2, ver_uid := ''v2'', ver_protected := True\<rparr>] ''hours2'' False True None two_engine = (r, e') \<and>
    hole_version\<lparr>ver_id := 2, ver_uid := ''v2'', ver_protected := True\<rparr> \<in> set (db_versions (working (ses e')))"
proof -
  let ?w = "hole_version\<lparr>ver_id := 2, ver_uid := ''v2'', ver_protected := True\<rparr>"
  obtain r e' where run: "enforce_retention_policy demo_env utc_dateutil (noon 2020 3 10) (\<lambda>_. Inr (noon 2020 3 9)) [hole_version, ?w]
      ''hours2'' False True None two_engine = (r, e')" by force
  have "kept (rest (working (ses two_engine))) (rest (working (ses e'))) ?w"
    by (rule enforce_keeps_others [OF two_engine_ok _ run]) (simp_all add: two_engine_def)
  then show ?thesis using run by (blast intro: kept_member)
qed

text \<open>C12: With the attribute the retention filter reads, enforcement never removes anything: as soon as a version is up for
  consideration, it raises before the first removal, and the state is unchanged.\<close>

theorem enforcement_never_works:
  assumes "considered found \<noteq> []"
  shows "\<exists>x. enforce_retention_policy E U ref version_date found spec dry keep grp e = (Inl x, e)"
proof -
  obtain v vs where c: "considered found = v # vs" using assms by (cases "considered found") auto
  have "by_volume (considered found) \<noteq> []" using c by (simp add: by_volume_def)
  then obtain s ss where ss: "by_volume (considered found) = s # ss" by (cases "by_volume (considered found)") auto
  have "s \<in> set (by_volume (considered found))" by (simp add: ss)
  then have "s \<noteq> []" by (auto simp: by_volume_def filter_empty_conv)
  then have rf: "\<exists>x. rf_filter U ref rules version_date s = Inl x" for rules by (cases s) (auto simp: rf_filter_def version_date_def)
  have "\<exists>x. dismissed U ref spec version_date found = Inl x"
  proof (cases "parse_rules spec")
    case (Inr rules)
    obtain x where "rf_filter U ref rules version_date s = Inl x" using rf by blast
    then show ?thesis by (simp add: dismissed_def ss Inr)
  qed (simp add: dismissed_def ss)
  then show ?thesis by (auto simp: enforce_retention_policy_def)
qed

theorem enforcement_never_works_witness:
  "\<exists>x. enforce_retention_policy demo_env utc_dateutil (noon 2020 3 10) version_date [hole_version] ''hours2'' False True None two_engine = (Inl x, two_engine)"
  by (rule enforcement_never_works) (simp add: considered_def hole_defs is_removable_def)

section \<open>Versions cannot be created from scratch\<close>

lemma unlock_if_locked_rest: "settled s \<Longrightarrow> unlock_if_locked me u s = (r, s') \<Longrightarrow> settled s' \<and> rest (working s') = rest (working s)"
  using unlock_rest by (auto simp: unlock_if_locked_def unlock_version_def split: if_splits)

text \<open>\<open>create_version\<close> never returns a version, and so neither does \<open>create_cow_version\<close>, which every writable NBD export needs;
  no table but that of the locks is touched.\<close>

theorem create_version_always_fails:
  assumes "settled s" and "create_version E dflt storage block_size sz base base_locking s = (r, s')"
    and "create_cow_version E dflt v s = (q, t)"
  shows "(\<exists>x. r = Inl x) \<and> settled s' \<and> rest (working s') = rest (working s) \<and> (\<exists>x. q = Inl x) \<and> rest (working t) = rest (working s)"
proof -
  have main: "(\<exists>x. r = Inl x) \<and> settled s' \<and> rest (working s') = rest (working s)"
    if run: "create_version E dflt storage block_size sz base base_locking s = (r, s')" for storage block_size sz base base_locking r s'
  proof -
    define st where "st = get_storage_by_name (case storage of Some x \<Rightarrow> if x = [] then dflt else x | None \<Rightarrow> dflt) (working s)"
    define locks where "locks = (case base of Some b \<Rightarrow> base_locking | None \<Rightarrow> False)"
    show ?thesis
    proof (cases "check_new st block_size sz base base_locking s")
      case (Inl x)
      then show ?thesis using run assms(1) by (auto simp: create_version_def Let_def st_def)
    next
      case (Inr u)
      then have fin: "finallyS (thenS (if locks then lock_version (env_me E) (the base) (Some ''Base version cloning'') False (env_now E) else returnS ())
          (version_create_call st)) (if locks then unlock_if_locked (env_me E) (the base) else returnS ()) s = (r, s')"
        using run by (simp add: create_version_def Let_def st_def locks_def)
      obtain p s1 where p: "(if locks then lock_version (env_me E) (the base) (Some ''Base version cloning'') False (env_now E) else returnS ()) s = (p, s1)"
        by force
      have s1: "settled s1" "rest (working s1) = rest (working s)"
        using p assms(1) lock_rest [OF assms(1)] by (auto simp: lock_version_def split: if_splits)
      obtain p2 s2 where p2: "(if locks then unlock_if_locked (env_me E) (the base) else returnS ()) s1 = (p2, s2)" by force
      have s2: "settled s2" "rest (working s2) = rest (working s1)"
        using p2 s1 unlock_if_locked_rest [OF s1(1)] by (auto split: if_splits)
      have "(\<exists>x. r = Inl x) \<and> s' = s2"
        using fin p p2 by (auto simp: finallyS_def thenS_def bindS_def version_create_call_def split: sum.splits)
      then show ?thesis using s1 s2 by simp
    qed
  qed
  obtain q1 t1 where q1: "create_version E dflt None None None (Some (ver_uid v)) False s = (q1, t1)" by force
  from main [OF q1] obtain x where "q1 = Inl x" "rest (working t1) = rest (working s)" by blast
  then have "(\<exists>x. q = Inl x) \<and> rest (working t) = rest (working s)"
    using assms(3) q1 by (auto simp: create_cow_version_def bindS_def)
  then show ?thesis using main [OF assms(2)] by simp
qed

theorem create_version_always_fails_witness:
  "\<exists>x. fst (create_version demo_env ''s'' None (Some 2) (Some 3) None True (ses hole_engine)) = Inl x"
proof -
  obtain r s' where run: "create_version demo_env ''s'' None (Some 2) (Some 3) None True (ses hole_engine) = (r, s')" by force
  obtain q t where cow: "create_cow_version demo_env ''s'' hole_version (ses hole_engine) = (q, t)" by force
  have "settled (ses hole_engine)" by (simp add: settled_def hole_engine_def)
  from create_version_always_fails [OF this run cow] run show ?thesis by auto
qed

section \<open>The accounting of the storage usage\<close>

lemma sum_counts:
  fixes f :: "'a \<Rightarrow> int"
  assumes "finite S"
  shows "set ks \<subseteq> S \<Longrightarrow> (\<Sum>k \<in> S. f k * int (count_list ks k)) = sum_list (map f ks)"
proof (induction ks)
  case (Cons x ks)
  have "(\<Sum>k \<in> S. f k * int (count_list (x # ks) k)) = (\<Sum>k \<in> S. f k * int (count_list ks k) + (if k = x then f k else 0))"
    by (rule sum.cong) (auto simp: algebra_simps)
  also have "\<dots> = sum_list (map f ks) + f x" using Cons assms by (simp add: sum.distrib)
  finally show ?case by simp
qed simp

lemma sum_groups: "sum_list (map (\<lambda>k. f k * int (count_list ks k)) (remdups ks)) = sum_list (map f ks)" for f :: "'a \<Rightarrow> int"
  using sum_counts [of "set ks" ks f] by (simp add: sum_list_distinct_conv_sum_set)

lemma fold_groups:
  "us_exclusive (fold add_group gs u) + us_shared (fold add_group gs u) =
     us_exclusive u + us_shared u + sum_list (map (\<lambda>(uid, sz, inside, overall). sz * int inside) gs)"
  "us_virtual (fold add_group gs u) = us_virtual u"
  by (induction gs arbitrary: u) (auto simp: add_group_def split: prod.splits)

text \<open>The figures of the storage usage add up: exclusive and shared bytes together are the bytes of all selected non-sparse block rows,
  although they are counted per group of equal UID and size, and the sparse bytes are what is left of the virtual size.\<close>

theorem usage_adds_up:
  "us_exclusive (storage_usage_of d ids sid) + us_shared (storage_usage_of d ids sid) = sum_list (map blk_size (usage_rows d ids sid)) \<and>
   us_virtual (storage_usage_of d ids sid) = sum_list (map ver_size (usage_versions d ids sid)) \<and>
   us_sparse (storage_usage_of d ids sid) = us_virtual (storage_usage_of d ids sid) - sum_list (map blk_size (usage_rows d ids sid))"
proof -
  let ?keys = "map (\<lambda>b. (blk_uid b, blk_size b)) (usage_rows d ids sid)"
  have "sum_list (map (\<lambda>(uid, sz, inside, overall). sz * int inside) (usage_groups d ids sid)) =
      sum_list (map (\<lambda>k. snd k * int (count_list ?keys k)) (remdups ?keys))"
    by (simp add: usage_groups_def Let_def comp_def case_prod_unfold)
  also have "\<dots> = sum_list (map snd ?keys)" by (rule sum_groups)
  also have "\<dots> = sum_list (map blk_size (usage_rows d ids sid))" by (simp add: comp_def)
  finally show ?thesis
    by (simp add: storage_usage_of_def Let_def fold_groups diff_diff_eq)
qed

end
