(* ===== verification/Nbd_Server.thy ===== *)
theory Nbd_Server
  imports Nbd_Store Version_Ops Transforms "HOL-Library.Char_ord" "HOL-Library.List_Lexorder" "HOL-Library.Product_Lexorder"
begin

text \<open>
  \<open>NbdServer.handler\<close> of \<open>nbdserver.py\<close>: handshake, option negotiation and transmission on one connection. The connection is the bytes still to be
  received and the bytes sent so far; the store is the one of \<open>Nbd_Store\<close>. \<open>None\<close> is a request that is never answered.
\<close>

unbundle bit_operations_syntax

record 'c conn =
  cn_in :: bytes
  cn_out :: bytes
  cn_nbd :: "'c nbd"
  cn_version :: "version option"
  cn_cow :: "version option"

section \<open>The wire\<close>

definition INIT_PASSWD :: nat where "INIT_PASSWD = 0x4e42444d41474943"
definition CLISERV_MAGIC :: nat where "CLISERV_MAGIC = 0x49484156454F5054"
definition OPT_REPLY_MAGIC :: nat where "OPT_REPLY_MAGIC = 0x3e889045565a9"
definition REQUEST_MAGIC :: nat where "REQUEST_MAGIC = 0x25609513"
definition REPLY_MAGIC :: nat where "REPLY_MAGIC = 0x67446698"
definition REP_ACK :: nat where "REP_ACK = 1"
definition REP_SERVER :: nat where "REP_SERVER = 2"
definition REP_ERR_UNSUP :: nat where "REP_ERR_UNSUP = 0x80000001"

definition recv :: "nat \<Rightarrow> (exn, 'c conn, bytes) py" where
  "recv n k =
     (if length (cn_in k) < n then (Inl EOFError, k\<lparr>cn_in := []\<rparr>)
      else (Inr (take n (cn_in k)), k\<lparr>cn_in := drop n (cn_in k)\<rparr>))"

definition send :: "bytes \<Rightarrow> (exn, 'c conn, unit) py" where
  "send bs k = (Inr (), k\<lparr>cn_out := cn_out k @ bs\<rparr>)"

definition opt_reply :: "nat \<Rightarrow> nat \<Rightarrow> nat \<Rightarrow> bytes" where
  "opt_reply opt code len = to_be 8 OPT_REPLY_MAGIC @ to_be 4 opt @ to_be 4 code @ to_be 4 len"

definition nbd_response :: "nat \<Rightarrow> nat \<Rightarrow> bytes \<Rightarrow> (exn, 'c conn, unit) py" where
  "nbd_response handle err data = send (to_be 4 REPLY_MAGIC @ to_be 4 err @ to_be 8 handle @ data)"

section \<open>Handshake and negotiation\<close>

text \<open>The two known flags are removed with an exclusive or, which sets them when the client did not.\<close>

definition client_flags_of :: "32 word \<Rightarrow> (bool \<times> bool) res" where
  "client_flags_of flags =
     (if flags XOR 3 > 0 then Inl OSError else Inr (flags AND 1 \<noteq> 0, flags AND 2 \<noteq> 0))"

definition handshake :: "(exn, 'c conn, bool \<times> bool) py" where
  "handshake =
     thenS (send (to_be 8 INIT_PASSWD @ to_be 8 CLISERV_MAGIC @ to_be 2 3))
     (bindS (recv 4) (\<lambda>data. liftS (client_flags_of (of_nat (be_nat data)))))"

text \<open>\<open>Version.find\<close>, ordered by volume and creation time.\<close>

definition find_versions :: "string option \<Rightarrow> database \<Rightarrow> version list" where
  "find_versions uid d =
     sort_key (\<lambda>v. (ver_volume v, ver_created_at v))
       (case uid of Some u \<Rightarrow> if u = [] then db_versions d else filter (\<lambda>v. ver_uid v = u) (db_versions d) | None \<Rightarrow> db_versions d)"

definition str_bytes :: "string \<Rightarrow> bytes" where
  "str_bytes s = map (\<lambda>c. of_char c) s"

definition bytes_str :: "bytes \<Rightarrow> string res" where
  "bytes_str bs = (if \<forall>b \<in> set bs. b < 128 then Inr (map (\<lambda>b. char_of (unat b)) bs) else Inl ValueError)"

definition export_size :: "version \<Rightarrow> int" where
  "export_size v = ceil_div (ver_size v) 4096 * 4096"

definition on_nbd :: "(exn, 'c nbd, 'a) py \<Rightarrow> (exn, 'c conn, 'a) py" where
  "on_nbd m k = (case m (cn_nbd k) of (r, s) \<Rightarrow> (r, k\<lparr>cn_nbd := s\<rparr>))"

abbreviation cn_db :: "'c conn \<Rightarrow> database" where
  "cn_db k \<equiv> working (ses (nb_eng (cn_nbd k)))"

text \<open>\<open>NBD_OPT_EXPORTNAME\<close>; \<open>version\<close> is set before \<open>open\<close> can fail. The result tells whether the negotiation is over.\<close>

definition export_name :: "'c nbd_env \<Rightarrow> bool \<Rightarrow> bool \<Rightarrow> bool \<Rightarrow> bytes \<Rightarrow> (exn, 'c conn, bool) py" where
  "export_name N read_only fixed no_zeros data =
     (if data = [] then raiseS OSError
      else
        bindS (liftS (bind_res (bytes_str data) VersionUid)) (\<lambda>uid k.
          if uid \<notin> set (map ver_uid (find_versions None (cn_db k))) then
            (if \<not> fixed then raiseS OSError else thenS (send (opt_reply 1 REP_ERR_UNSUP 0)) (returnS False)) k
          else
            (case find_versions (Some uid) (cn_db k) of
               [] \<Rightarrow> (Inl IndexError, k)
             | v # _ \<Rightarrow>
                 thenS (on_nbd (nbd_open N v))
                 (thenS (send (to_be 8 (nat (export_size v)) @ to_be 2 (if read_only then 7 else 5) @
                           (if no_zeros then [] else replicate 124 0)))
                   (returnS True)) (k\<lparr>cn_version := Some v\<rparr>))))"

definition list_exports :: "(exn, 'c conn, unit) py" where
  "list_exports k =
     thenS (for_each (\<lambda>v. let name = str_bytes (ver_uid v) in
         send (opt_reply 3 REP_SERVER (length name + 4) @ to_be 4 (length name) @ name)) (find_versions None (cn_db k)))
       (send (opt_reply 3 REP_ACK 0)) k"

text \<open>One option of the client.\<close>

definition handle_option :: "'c nbd_env \<Rightarrow> bool \<Rightarrow> bool \<Rightarrow> bool \<Rightarrow> nat \<Rightarrow> bytes \<Rightarrow> (exn, 'c conn, bool) py" where
  "handle_option N read_only fixed no_zeros opt data =
     (if opt = 1 then export_name N read_only fixed no_zeros data
      else if opt = 3 then thenS list_exports (returnS False)
      else if opt = 2 then thenS (send (opt_reply opt REP_ACK 0)) (raiseS OSError)
      else if \<not> fixed then raiseS OSError
      else thenS (send (opt_reply opt REP_ERR_UNSUP 0)) (returnS False))"

definition negotiate_option :: "'c nbd_env \<Rightarrow> bool \<Rightarrow> bool \<Rightarrow> bool \<Rightarrow> (exn, 'c conn, bool) py" where
  "negotiate_option N read_only fixed no_zeros =
     bindS (recv 16) (\<lambda>header.
       if be_nat (take 8 header) \<noteq> CLISERV_MAGIC then raiseS OSError
       else bindS (recv (be_nat (py_slice 12 16 header))) (handle_option N read_only fixed no_zeros (be_nat (py_slice 8 12 header))))"

lemma recv_shrinks: "recv n k = (Inr d, k') \<Longrightarrow> length (cn_in k') + n = length (cn_in k) \<and> length d = n"
  by (auto simp: recv_def split: if_splits)

lemma keeps_in [keeps_intros]:
  "keeps cn_in (send bs)" "keeps cn_in (on_nbd m)"
  by (auto simp: keeps_def send_def on_nbd_def split: prod.splits)

lemma keeps_list_exports [keeps_intros]: "keeps cn_in list_exports"
proof (rule keepsI)
  fix k r k' assume "list_exports k = (r, k')"
  then show "cn_in k' = cn_in k"
    unfolding list_exports_def Let_def
    by (rule keepsD [rotated]) (intro keeps_thenS keeps_for_each keeps_intros)
qed

lemma keeps_export_name [keeps_intros]: "keeps cn_in (export_name N ro fx nz data)"
proof -
  have upd: "cn_in (k\<lparr>cn_version := x\<rparr>) = cn_in k" for k :: "'a conn" and x by simp
  have st: "keeps cn_in (\<lambda>k. m (k\<lparr>cn_version := Some v\<rparr>))" if "keeps cn_in m" for m :: "(exn, 'a conn, 'b) py" and v
    using that by (simp add: keeps_def)
  have sp: "keeps cn_in (\<lambda>k. if P k then m k else case q k of [] \<Rightarrow> (Inl x, k) | v # vs \<Rightarrow> h v (k\<lparr>cn_version := Some v\<rparr>))"
    if "keeps cn_in m" "\<And>v. keeps cn_in (h v)" for P q x and m :: "(exn, 'a conn, 'b) py" and h :: "version \<Rightarrow> (exn, 'a conn, 'b) py"
    using that by (auto simp: keeps_def split: list.splits)
  show ?thesis unfolding export_name_def by (intro keeps_intros keeps_bindS sp)
qed

lemma negotiate_shrinks:
  assumes "negotiate_option N ro fx nz k = (Inr b, k')"
  shows "length (cn_in k') < length (cn_in k)"
  using assms unfolding negotiate_option_def
proof (cases rule: bindS_cases)
  case (ok h k1)
  have "bindS (recv (be_nat (py_slice 12 16 h))) (handle_option N ro fx nz (be_nat (py_slice 8 12 h))) k1 = (Inr b, k')"
  proof (cases "be_nat (take 8 h) = CLISERV_MAGIC")
    case True
    then show ?thesis using ok(2) by (simp only: not_True_eq_False if_False simp_thms)
  next
    case False
    then have "raiseS OSError k1 = (Inr b, k')" using ok(2) by (simp only: not_False_eq_True if_True simp_thms)
    then show ?thesis by simp
  qed
  then show ?thesis
  proof (cases rule: bindS_cases)
    case (ok d k2)
    have kp: "keeps cn_in (handle_option N ro fx nz opt data)" for opt data unfolding handle_option_def by (intro keeps_intros)
    have "cn_in k' = cn_in k2" by (rule keepsD [OF kp ok(2)])
    then show ?thesis using recv_shrinks [OF \<open>recv 16 k = (Inr h, k1)\<close>] recv_shrinks [OF ok(1)] by simp
  qed simp
qed simp

function negotiate :: "'c nbd_env \<Rightarrow> bool \<Rightarrow> bool \<Rightarrow> bool \<Rightarrow> (exn, 'c conn, unit) py" where
  "negotiate N ro fx nz k =
     (case negotiate_option N ro fx nz k of
        (Inl x, k1) \<Rightarrow> (Inl x, k1)
      | (Inr finished, k1) \<Rightarrow> if finished then (Inr (), k1) else negotiate N ro fx nz k1)"
  by pat_completeness auto
termination
  by (relation "measure (\<lambda>(N, ro, fx, nz, k). length (cn_in k))") (auto dest: negotiate_shrinks [OF sym])

declare negotiate.simps [simp del]

section \<open>Transmission\<close>

text \<open>
  The answer to a request; the result tells whether the client disconnects. A failing \<open>create_cow_version\<close> is not caught, a failing
  read or write is answered with \<open>EIO\<close> (5).
\<close>

definition serve_read :: "'c nbd_env \<Rightarrow> version \<Rightarrow> nat \<Rightarrow> nat \<Rightarrow> nat \<Rightarrow> 'c conn \<Rightarrow> ((exn + bool) \<times> 'c conn) option" where
  "serve_read N v handle off len k =
     map_option (\<lambda>(r, s). thenS (nbd_response handle (case r of Inl _ \<Rightarrow> 5 | Inr _ \<Rightarrow> 0) (case r of Inl _ \<Rightarrow> [] | Inr d \<Rightarrow> d))
         (returnS False) (k\<lparr>cn_nbd := s\<rparr>))
       (nbd_read N v (map_option ver_uid (cn_cow k)) (int off) (int len) (cn_nbd k))"

definition ensure_cow :: "'c nbd_env \<Rightarrow> string \<Rightarrow> version \<Rightarrow> (exn, 'c conn, version) py" where
  "ensure_cow N default_storage v k =
     (case cn_cow k of
        Some c \<Rightarrow> (Inr c, k)
      | None \<Rightarrow>
          (case on_nbd (nb_engine (on_session (create_cow_version (nb_env N) default_storage v))) k of
             (Inl x, k1) \<Rightarrow> (Inl x, k1)
           | (Inr c, k1) \<Rightarrow> (Inr c, k1\<lparr>cn_cow := Some c\<rparr>)))"

definition serve_write :: "'c nbd_env \<Rightarrow> string \<Rightarrow> bool \<Rightarrow> version \<Rightarrow> nat \<Rightarrow> nat \<Rightarrow> bytes \<Rightarrow> 'c conn \<Rightarrow> ((exn + bool) \<times> 'c conn) option" where
  "serve_write N default_storage read_only v handle off data k =
     (if read_only then Some (thenS (nbd_response handle 1 []) (returnS False) k)
      else
        (case ensure_cow N default_storage v k of
           (Inl x, k1) \<Rightarrow> Some (Inl x, k1)
         | (Inr c, k1) \<Rightarrow>
             map_option (\<lambda>(r, s). thenS (nbd_response handle (case r of Inl _ \<Rightarrow> 5 | Inr _ \<Rightarrow> 0) []) (returnS False) (k1\<lparr>cn_nbd := s\<rparr>))
               (nbd_write N c (int off) data (cn_nbd k1))))"

definition serve_command :: "'c nbd_env \<Rightarrow> string \<Rightarrow> bool \<Rightarrow> version \<Rightarrow> bytes \<Rightarrow> 'c conn \<Rightarrow> ((exn + bool) \<times> 'c conn) option" where
  "serve_command N default_storage read_only v header k =
     (let magic = be_nat (take 4 header); cmd = (of_nat (be_nat (py_slice 4 8 header)) :: 32 word);
          handle = be_nat (py_slice 8 16 header); off = be_nat (py_slice 16 24 header); len = be_nat (py_slice 24 28 header) in
      if magic \<noteq> REQUEST_MAGIC then Some (Inl OSError, k)
      else if cmd AND 0xffff0000 \<noteq> 0 then Some (thenS (nbd_response handle 22 []) (returnS False) k)
      else if cmd AND 0xffff = 2 then Some (Inr True, k)
      else if cmd AND 0xffff = 1 then
        (case recv len k of (Inl x, k1) \<Rightarrow> Some (Inl x, k1) | (Inr data, k1) \<Rightarrow> serve_write N default_storage read_only v handle off data k1)
      else if cmd AND 0xffff = 0 then serve_read N v handle off len k
      else if cmd AND 0xffff = 3 then Some (thenS (nbd_response handle 0 []) (returnS False) k)
      else Some (thenS (nbd_response handle 22 []) (returnS False) k))"

definition transmit_step :: "'c nbd_env \<Rightarrow> string \<Rightarrow> bool \<Rightarrow> version \<Rightarrow> 'c conn \<Rightarrow> ((exn + bool) \<times> 'c conn) option" where
  "transmit_step N default_storage read_only v k =
     (case recv 28 k of (Inl x, k1) \<Rightarrow> Some (Inl x, k1) | (Inr header, k1) \<Rightarrow> serve_command N default_storage read_only v header k1)"

lemma respond [simp]:
  "thenS (nbd_response h e d) (returnS b) k = (Inr b, k\<lparr>cn_out := cn_out k @ to_be 4 REPLY_MAGIC @ to_be 4 e @ to_be 8 h @ d\<rparr>)"
  by (simp add: thenS_def bindS_def nbd_response_def send_def)

lemma serve_read_in: "serve_read N v h off len k = Some (r, k') \<Longrightarrow> cn_in k' = cn_in k"
  by (auto simp: serve_read_def)

lemma ensure_cow_in: "ensure_cow N d v k = (r, k') \<Longrightarrow> cn_in k' = cn_in k"
  by (auto simp: ensure_cow_def on_nbd_def split: option.splits sum.splits prod.splits)

lemma serve_write_in:
  assumes "serve_write N d ro v h off data k = Some (r, k')"
  shows "cn_in k' = cn_in k"
proof (cases ro)
  case False
  obtain q k1 where q: "ensure_cow N d v k = (q, k1)" by force
  then have "cn_in k' = cn_in k1" using assms False by (cases q) (auto simp: serve_write_def)
  then show ?thesis using ensure_cow_in [OF q] by simp
qed (use assms in \<open>auto simp: serve_write_def\<close>)

lemma serve_command_in:
  assumes "serve_command N d ro v h k = Some (r, k')"
  shows "length (cn_in k') \<le> length (cn_in k)"
proof (cases "recv (be_nat (py_slice 24 28 h)) k")
  case (Pair q k1)
  then have k1: "length (cn_in k1) \<le> length (cn_in k)" by (auto simp: recv_def split: if_splits)
  show ?thesis
    using assms serve_read_in [of N v _ _ _ k r k'] serve_write_in [of N d ro v _ _ _ k1 r k'] k1 Pair
    by (cases q) (auto simp: serve_command_def Let_def split: if_splits)
qed

lemma transmit_shrinks:
  assumes "transmit_step N d ro v k = Some (Inr b, k')"
  shows "length (cn_in k') < length (cn_in k)"
proof -
  obtain h k1 where h: "recv 28 k = (Inr h, k1)" and s: "serve_command N d ro v h k1 = Some (Inr b, k')"
    using assms by (auto simp: transmit_step_def split: prod.splits sum.splits)
  show ?thesis using serve_command_in [OF s] recv_shrinks [OF h] by simp
qed

function transmit :: "'c nbd_env \<Rightarrow> string \<Rightarrow> bool \<Rightarrow> version \<Rightarrow> 'c conn \<Rightarrow> ((exn + unit) \<times> 'c conn) option" where
  "transmit N d ro v k =
     (case transmit_step N d ro v k of
        None \<Rightarrow> None
      | Some (Inl x, k1) \<Rightarrow> Some (Inl x, k1)
      | Some (Inr leaves, k1) \<Rightarrow> if leaves then Some (Inr (), k1) else transmit N d ro v k1)"
  by pat_completeness auto
termination
  by (relation "measure (\<lambda>(N, d, ro, v, k). length (cn_in k))") (auto dest: transmit_shrinks [OF sym] transmit_shrinks)

declare transmit.simps [simp del]

section \<open>The connection\<close>

text \<open>The \<open>finally\<close> clause, and the \<open>except\<close> clauses before it: an \<open>IOError\<close> or the end of the input ends the connection silently.\<close>

definition hang_up :: "'c nbd_env \<Rightarrow> (exn, 'c conn, unit) py" where
  "hang_up N k =
     thenS (case cn_cow k of Some c \<Rightarrow> on_nbd (fixate N c) | None \<Rightarrow> returnS ())
       (case cn_version k of Some v \<Rightarrow> on_nbd (nbd_close N v) | None \<Rightarrow> returnS ()) k"

definition swallow :: "exn + unit \<Rightarrow> exn + unit" where
  "swallow r = (case r of Inl x \<Rightarrow> if x = EOFError \<or> is_io_error x then Inr () else Inl x | Inr u \<Rightarrow> Inr u)"

definition serve :: "'c nbd_env \<Rightarrow> string \<Rightarrow> bool \<Rightarrow> 'c conn \<Rightarrow> ((exn + unit) \<times> 'c conn) option" where
  "serve N default_storage read_only k =
     (case bindS handshake (\<lambda>(fixed, no_zeros). negotiate N read_only fixed no_zeros) k of
        (Inl x, k1) \<Rightarrow> Some (Inl x, k1)
      | (Inr _, k1) \<Rightarrow>
          (case cn_version k1 of
             None \<Rightarrow> Some (Inl AttributeError, k1)
           | Some v \<Rightarrow> transmit N default_storage read_only v k1))"

definition handler :: "'c nbd_env \<Rightarrow> string \<Rightarrow> bool \<Rightarrow> 'c conn \<Rightarrow> ((exn + unit) \<times> 'c conn) option" where
  "handler N default_storage read_only k0 =
     map_option (\<lambda>(r, k). finallyS (liftS (swallow r)) (hang_up N) k)
       (serve N default_storage read_only (k0\<lparr>cn_version := None, cn_cow := None\<rparr>))"

section \<open>A read-only export\<close>

text \<open>Reading never waits forever, wherever it starts, as long as blocks have a positive size.\<close>

definition sane_sizes :: "version \<Rightarrow> block list \<Rightarrow> bool" where
  "sane_sizes v bs \<longleftrightarrow> 0 < ver_block_size v \<and> (\<forall>b \<in> set bs. 0 < blk_size b)"

lemma block_size_pos: "sane_sizes v (db_blocks d) \<Longrightarrow> 0 < blk_size (get_block_by_idx v i d)"
  by (auto simp: sane_sizes_def get_block_by_idx_def create_sparse_block_def split: option.split dest!: query_blockD)

lemma block_list_total:
  assumes "sane_sizes v (db_blocks d)" and "0 \<le> len"
  shows "\<exists>cs. block_list v d i 0 len = Some cs"
  using assms(2)
proof (induction "nat len" arbitrary: i len rule: less_induct)
  case less
  let ?l = "min (blk_size (get_block_by_idx v i d)) len"
  show ?case
  proof (cases "len - ?l = 0")
    case False
    have "0 < ?l" using block_size_pos [OF assms(1), of i] less.prems False by (simp add: min_def split: if_splits)
    then obtain cs where "block_list v d (i + 1) 0 (len - ?l) = Some cs" using less.hyps [of "len - ?l" "i + 1"] less.prems by auto
    then show ?thesis using False by (subst block_list.simps) (simp add: Let_def)
  qed (subst block_list.simps, simp add: Let_def)
qed

lemma chunks_total:
  assumes "sane_sizes v (db_blocks d)" and "0 \<le> len"
  shows "\<exists>cs. chunks v d off len = Some cs"
proof -
  let ?i = "off div ver_block_size v" and ?o = "off mod ver_block_size v"
  define l where "l = min (blk_size (get_block_by_idx v ?i d) - ?o) len"
  have "0 \<le> len - l" by (simp add: l_def)
  then obtain cs where "block_list v d (?i + 1) 0 (len - l) = Some cs" using block_list_total [OF assms(1)] by blast
  then show ?thesis by (subst chunks_def, subst block_list.simps) (auto simp: Let_def l_def [symmetric])
qed

text \<open>What a read-only connection must leave alone.\<close>

definition intact :: "tables \<Rightarrow> (string \<Rightarrow> string \<Rightarrow> bytes option) \<Rightarrow> block_store \<Rightarrow> (string, (int, block) dict) dict \<Rightarrow> 'c conn \<Rightarrow> bool" where
  "intact t c s w k \<longleftrightarrow> settled (ses (nb_eng (cn_nbd k))) \<and> rest (cn_db k) = t \<and> (\<forall>n. fs_content (stores (nb_eng (cn_nbd k)) n) = c n) \<and>
     nb_store (cn_nbd k) = s \<and> nb_cow (cn_nbd k) = w \<and> cn_cow k = None \<and>
     (\<forall>v. cn_version k = Some v \<longrightarrow> v \<in> set (fst t))"

lemma intact_wire [preserves_intros]: "preserves (intact t c s w) (send bs)" "preserves (intact t c s w) (recv n)"
  by (auto simp: preserves_def intact_def send_def recv_def)

lemma intact_session:
  assumes "\<And>s r s'. settled s \<Longrightarrow> m s = (r, s') \<Longrightarrow> settled s' \<and> rest (working s') = rest (working s)"
  shows "preserves (intact t c st w) (on_nbd (nb_engine (on_session m)))"
  unfolding preserves_def
proof (intro allI impI, goal_cases)
  case k: (1 k)
  obtain r s' where m: "m (ses (nb_eng (cn_nbd k))) = (r, s')" by force
  then show ?case
    using assms [OF _ m] k by (auto simp: intact_def on_nbd_def nb_engine_def on_session_def)
qed

lemma intact_open [preserves_intros]: "preserves (intact t c s w) (on_nbd (nbd_open N v))" "preserves (intact t c s w) (on_nbd (nbd_close N v))"
  unfolding nbd_open_def nbd_close_def
  by (rule intact_session, metis lock_version_def lock_rest, rule intact_session, metis unlock_version_def unlock_rest)

lemma intact_list [preserves_intros]: "preserves (intact t c s w) list_exports"
proof -
  have "preserves (intact t c s w) (thenS (for_each (\<lambda>v. let name = str_bytes (ver_uid v) in
         send (opt_reply 3 REP_SERVER (length name + 4) @ to_be 4 (length name) @ name)) vs) (send (opt_reply 3 REP_ACK 0)))" for vs
    unfolding Let_def by (intro preserves_intros)
  then show ?thesis unfolding preserves_def list_exports_def by blast
qed

lemma intact_export_name [preserves_intros]: "preserves (intact t c s w) (export_name N ro fx nz data)"
proof -
  have sp: "preserves (intact t c s w) (\<lambda>k. if P k then m k else case find_versions (Some uid) (cn_db k) of [] \<Rightarrow> (Inl x, k)
      | v # vs \<Rightarrow> h v (k\<lparr>cn_version := Some v\<rparr>))"
    if "preserves (intact t c s w) m" "\<And>v. preserves (intact t c s w) (h v)"
    for P x uid and m :: "(exn, 'a conn, 'b) py" and h :: "version \<Rightarrow> (exn, 'a conn, 'b) py"
  proof -
    have "intact t c s w (k\<lparr>cn_version := Some v\<rparr>)" if "intact t c s w k" "find_versions (Some uid) (cn_db k) = v # vs" for k :: "'a conn" and v vs
    proof -
      have "v \<in> set (find_versions (Some uid) (cn_db k))" by (simp add: that(2))
      then have "v \<in> set (db_versions (cn_db k))" by (auto simp: find_versions_def split: if_splits)
      then show ?thesis using that(1) by (auto simp: intact_def rest_def)
    qed
    then show ?thesis using that by (auto simp: preserves_def split: list.splits)
  qed
  show ?thesis unfolding export_name_def by (intro preserves_intros sp)
qed

lemma intact_option [preserves_intros]: "preserves (intact t c s w) (negotiate_option N ro fx nz)"
  unfolding negotiate_option_def handle_option_def by (intro preserves_intros)

lemma intact_negotiate [preserves_intros]: "preserves (intact t c s w) (negotiate N ro fx nz)"
  unfolding preserves_def
proof (intro allI impI, goal_cases)
  case (1 k)
  then show ?case
  proof (induction N ro fx nz k rule: negotiate.induct)
    case (1 N ro fx nz k)
    obtain r k1 where o: "negotiate_option N ro fx nz k = (r, k1)" by force
    have k1: "intact t c s w k1" by (rule preservesD [OF intact_option 1(2) o])
    show ?case
    proof (cases "r = Inr False")
      case True
      then show ?thesis using 1(1) [OF o [symmetric] True] k1 o by (subst negotiate.simps) simp
    next
      case False
      then show ?thesis using k1 o by (subst negotiate.simps) (auto split: sum.splits)
    qed
  qed
qed

lemma read_keeps_content: "keeps fs_content (storage_read cf file_backend b mo)"
  unfolding storage_read_def
  by (auto intro!: keeps_intros fobj.keeps_read fobj.keeps_read_length split: prod.split option.split)

definition same_store :: "'c nbd \<Rightarrow> 'c nbd \<Rightarrow> bool" where
  "same_store st st' \<longleftrightarrow> ses (nb_eng st') = ses (nb_eng st) \<and> nb_store st' = nb_store st \<and> nb_cow st' = nb_cow st \<and>
     (\<forall>n. fs_content (stores (nb_eng st') n) = fs_content (stores (nb_eng st) n))"

lemma read_chunk_same: "read_chunk N v cow c st = (r, st') \<Longrightarrow> same_store st st'"
proof -
  assume step: "read_chunk N v cow c st = (r, st')"
  have on: "on_store n (storage_read cf file_backend b False) e = (q, e') \<Longrightarrow> ses e' = ses e \<and> (\<forall>m. fs_content (stores e' m) = fs_content (stores e m))"
    for n cf b e q e'
    using keepsD [OF read_keeps_content] by (auto simp: on_store_def split: prod.splits)
  from step show ?thesis
    by (auto simp: read_chunk_def same_store_def Let_def dest!: on split: prod.splits option.splits if_splits sum.splits)
qed

lemma read_chunks_same: "read_chunks N v cow cs st = (r, st') \<Longrightarrow> same_store st st'"
proof (induction cs arbitrary: st r st')
  case (Cons c cs)
  obtain q st1 where q: "read_chunk N v cow c st = (q, st1)" by force
  note s1 = read_chunk_same [OF q]
  show ?case
  proof (cases q)
    case (Inr d)
    obtain p st2 where p: "read_chunks N v cow cs st1 = (p, st2)" by force
    then have "st' = st2" using Cons.prems q Inr by (auto split: sum.splits)
    then show ?thesis using Cons.IH [OF p] s1 p by (simp add: same_store_def)
  qed (use Cons.prems q s1 in simp)
qed (simp add: same_store_def)

lemma intact_same: "intact t c s w k \<Longrightarrow> same_store (cn_nbd k) st \<Longrightarrow> intact t c s w (k\<lparr>cn_nbd := st\<rparr>)"
  by (simp add: intact_def same_store_def)

lemma serve_read_intact:
  assumes "intact t c s w k" and "sane_sizes v (fst (snd t))"
  shows "\<exists>r k'. serve_read N v h off len k = Some (r, k') \<and> intact t c s w k'"
proof -
  have "db_blocks (cn_db k) = fst (snd t)" using assms(1) by (auto simp: intact_def rest_def)
  then obtain cs where cs: "chunks v (cn_db k) (int off) (int len) = Some cs" using chunks_total assms(2) by fastforce
  obtain q st where q: "read_chunks N v None cs (cn_nbd k) = (q, st)" by force
  have "cn_cow k = None" using assms(1) by (simp add: intact_def)
  then have "serve_read N v h off len k = Some (thenS (nbd_response h (case q of Inl _ \<Rightarrow> 5 | Inr _ \<Rightarrow> 0) (case q of Inl _ \<Rightarrow> [] | Inr d \<Rightarrow> d))
      (returnS False) (k\<lparr>cn_nbd := st\<rparr>))"
    using cs q by (simp add: serve_read_def nbd_read_def cow_of_def)
  moreover have "intact t c s w (k\<lparr>cn_nbd := st\<rparr>)" by (rule intact_same [OF assms(1) read_chunks_same [OF q]])
  ultimately show ?thesis by (simp add: intact_def)
qed

lemma transmit_step_intact:
  assumes "intact t c s w k" and "sane_sizes v (fst (snd t))"
  shows "\<exists>r k'. transmit_step N d True v k = Some (r, k') \<and> intact t c s w k'"
proof -
  have out: "intact t c s w (x\<lparr>cn_out := o1\<rparr>) = intact t c s w x" for x :: "'a conn" and o1 by (simp add: intact_def)
  obtain r k1 where r: "recv 28 k = (r, k1)" by force
  have k1: "intact t c s w k1" by (rule preservesD [OF intact_wire(2) assms(1) r])
  show ?thesis
  proof (cases r)
    case (Inr h)
    obtain q k2 where q: "recv (be_nat (py_slice 24 28 h)) k1 = (q, k2)" by force
    have k2: "intact t c s w k2" by (rule preservesD [OF intact_wire(2) k1 q])
    have "\<exists>r k'. serve_command N d True v h k1 = Some (r, k') \<and> intact t c s w k'"
      using k1 k2 q serve_read_intact [OF k1 assms(2)] by (cases q) (auto simp: serve_command_def Let_def out serve_write_def)
    then show ?thesis using r Inr by (simp add: transmit_step_def)
  qed (use r k1 in \<open>simp add: transmit_step_def\<close>)
qed

lemma transmit_intact:
  assumes "intact t c s w k" and "sane_sizes v (fst (snd t))"
  shows "\<exists>r k'. transmit N d True v k = Some (r, k') \<and> intact t c s w k'"
  using assms(1)
proof (induction "length (cn_in k)" arbitrary: k rule: less_induct)
  case less
  obtain r k1 where r: "transmit_step N d True v k = Some (r, k1)" "intact t c s w k1" using transmit_step_intact [OF less.prems assms(2)] by blast
  show ?case
  proof (cases "r = Inr False")
    case True
    have "length (cn_in k1) < length (cn_in k)" using transmit_shrinks r(1) True by blast
    then show ?thesis using less.hyps [OF _ r(2)] r True by (subst transmit.simps) simp
  next
    case False
    then show ?thesis using r by (subst transmit.simps) (auto split: sum.splits)
  qed
qed

text \<open>C24: Whatever a client sends to a read-only export, the connection comes to an end, and no version, block, label or delete candidate in
  the database, no object in any storage and no copy-on-write file has changed.\<close>

theorem read_only_export_is_harmless:
  assumes "settled (ses (nb_eng (cn_nbd k)))" and "\<forall>v \<in> set (db_versions (cn_db k)). sane_sizes v (db_blocks (cn_db k))"
  shows "\<exists>r k'. handler N default_storage True k = Some (r, k') \<and> rest (cn_db k') = rest (cn_db k) \<and>
    (\<forall>n. fs_content (stores (nb_eng (cn_nbd k')) n) = fs_content (stores (nb_eng (cn_nbd k)) n)) \<and>
    nb_store (cn_nbd k') = nb_store (cn_nbd k) \<and> nb_cow (cn_nbd k') = nb_cow (cn_nbd k)"
proof -
  let ?k = "k\<lparr>cn_version := None, cn_cow := None\<rparr>"
  let ?P = "intact (rest (cn_db k)) (\<lambda>n. fs_content (stores (nb_eng (cn_nbd k)) n)) (nb_store (cn_nbd k)) (nb_cow (cn_nbd k))"
  have k: "?P ?k" using assms(1) by (simp add: intact_def)
  obtain q k1 where q: "bindS handshake (\<lambda>(fixed, no_zeros). negotiate N True fixed no_zeros) ?k = (q, k1)" by force
  have pr: "preserves ?P (bindS handshake (\<lambda>(fixed, no_zeros). negotiate N True fixed no_zeros))"
    unfolding handshake_def by (auto intro!: preserves_intros split: prod.split)
  have k1: "?P k1" by (rule preservesD [OF pr k q])
  have "\<exists>r k2. serve N default_storage True ?k = Some (r, k2) \<and> ?P k2"
  proof (cases "\<exists>u v. q = Inr u \<and> cn_version k1 = Some v")
    case True
    then obtain u v where uv: "q = Inr u" "cn_version k1 = Some v" by blast
    then have "sane_sizes v (fst (snd (rest (cn_db k))))" using k1 assms(2) by (auto simp: intact_def rest_def)
    from transmit_intact [OF k1 this] show ?thesis using q uv by (simp add: serve_def)
  next
    case False
    then show ?thesis using q k1 by (cases q) (auto simp: serve_def split: option.splits)
  qed
  then obtain r k2 where r: "serve N default_storage True ?k = Some (r, k2)" "?P k2" by blast
  obtain p k3 where p: "hang_up N k2 = (p, k3)" by force
  have "cn_cow k2 = None" using r(2) by (simp add: intact_def)
  then have h: "(case cn_version k2 of Some v \<Rightarrow> on_nbd (nbd_close N v) | None \<Rightarrow> returnS ()) k2 = (p, k3)"
    using p by (simp add: hang_up_def thenS_def bindS_def)
  have pc: "preserves ?P (case cn_version k2 of Some v \<Rightarrow> on_nbd (nbd_close N v) | None \<Rightarrow> returnS ())"
    by (auto intro: preserves_intros split: option.split)
  have "?P k3" by (rule preservesD [OF pc r(2) h])
  moreover have "\<exists>r'. handler N default_storage True k = Some (r', k3)"
    using r(1) p by (cases p) (auto simp: handler_def finallyS_def)
  ultimately show ?thesis by (auto simp: intact_def)
qed

text \<open>What a client sends to open the export \<open>uid\<close>.\<close>

definition asks :: "string \<Rightarrow> bytes" where
  "asks uid = to_be 4 3 @ (to_be 8 CLISERV_MAGIC @ to_be 4 1 @ to_be 4 (length uid)) @ str_bytes uid"

definition demo_conn :: "engine \<Rightarrow> bytes \<Rightarrow> unit conn" where
  "demo_conn e bs = \<lparr> cn_in = bs, cn_out = [], cn_nbd = demo_nbd e, cn_version = None, cn_cow = None \<rparr>"

theorem read_only_export_is_harmless_witness:
  "\<exists>r k'. handler demo_nbd_env ''s'' True (demo_conn hole_engine (asks ''v1'')) = Some (r, k') \<and>
     rest (cn_db k') = rest (working (ses hole_engine))"
proof -
  have s: "settled (ses (nb_eng (cn_nbd (demo_conn hole_engine (asks ''v1'')))))" by (simp add: demo_conn_def demo_nbd_def hole_engine_def settled_def)
  have v: "\<forall>v \<in> set (db_versions (cn_db (demo_conn hole_engine (asks ''v1'')))). sane_sizes v (db_blocks (cn_db (demo_conn hole_engine (asks ''v1''))))"
    by (simp add: demo_conn_def demo_nbd_def hole_defs sane_sizes_def)
  from read_only_export_is_harmless [OF s v, of demo_nbd_env "''s''"] show ?thesis by (auto simp: demo_conn_def demo_nbd_def)
qed

text \<open>The flags are cleared with an exclusive or: clients that set neither or only one of the two known flags are turned away.\<close>

lemma only_both_flags_pass: "(\<exists>x. client_flags_of flags = Inr x) \<longleftrightarrow> flags = 3"
proof -
  have "flags XOR 3 = 0 \<longleftrightarrow> flags = 3"
  proof
    assume "flags XOR 3 = 0"
    then have "(flags XOR 3) XOR 3 = 0 XOR 3" by (rule arg_cong)
    then show "flags = 3" by (simp add: xor.assoc)
  qed simp
  then show ?thesis by (auto simp: client_flags_of_def word_neq_0_conv)
qed

lemma recv_exact: "cn_in k = a @ b \<Longrightarrow> length a = n \<Longrightarrow> recv n k = (Inr a, k\<lparr>cn_in := b\<rparr>)"
  by (simp add: recv_def)

lemma str_bytes_inverse:
  assumes "is_version_uid s" shows "bytes_str (str_bytes s) = Inr s"
proof -
  have small: "unat (of_char c :: 8 word) = of_char c \<and> (of_char c :: 8 word) < 128" if "c \<in> set s" for c
  proof -
    have "of_char c < (128 :: nat)" using version_uid_ascii [OF assms that] .
    moreover have "unat (of_nat (of_char c) :: 8 word) = of_char c" using calculation by (simp add: unat_of_nat)
    ultimately show ?thesis by (simp add: of_nat_of_char word_less_nat_alt)
  qed
  then have "map ((\<lambda>b. char_of (unat b)) \<circ> (\<lambda>c. of_char c :: 8 word)) s = map id s"
    by (intro map_cong) simp_all
  then show ?thesis using small by (simp add: bytes_str_def str_bytes_def)
qed

lemma handshake_asks:
  assumes "cn_in k = to_be 4 3 @ b"
  shows "\<exists>o1. handshake k = (Inr (True, True), k\<lparr>cn_out := o1, cn_in := b\<rparr>)"
proof -
  have "client_flags_of (of_nat (be_nat (to_be 4 3))) = Inr (True, True)"
    by (simp add: be_nat_to_be client_flags_of_def)
  then show ?thesis using assms
    by (auto simp: handshake_def thenS_def bindS_def send_def recv_exact [where a = "to_be 4 3"])
qed

lemma export_name_locked:
  assumes uid: "is_version_uid uid" and v: "\<exists>v \<in> set (db_versions (cn_db k)). ver_uid v = uid"
    and held: "holds (env_me (nb_env N)) (version_lock_name uid) (cn_db k)" and s: "settled (ses (nb_eng (cn_nbd k)))"
  shows "\<exists>v k'. export_name N ro fx nz (str_bytes uid) k = (Inl InternalError, k') \<and> ver_uid v = uid \<and> cn_version k' = Some v \<and>
     cn_cow k' = cn_cow k \<and> working (ses (nb_eng (cn_nbd k'))) = cn_db k"
proof -
  have ne: "uid \<noteq> []" using uid by (rule version_uid_nonempty)
  then have "set (find_versions (Some uid) (cn_db k)) = {v \<in> set (db_versions (cn_db k)). ver_uid v = uid}"
    by (auto simp: find_versions_def)
  then obtain w ws where w: "find_versions (Some uid) (cn_db k) = w # ws" "ver_uid w = uid"
    using v by (cases "find_versions (Some uid) (cn_db k)") auto
  have all: "uid \<in> set (map ver_uid (find_versions None (cn_db k)))" using v by (auto simp: find_versions_def)
  have name: "bind_res (bytes_str (str_bytes uid)) VersionUid = Inr uid" "str_bytes uid \<noteq> []"
    using uid ne by (simp_all add: str_bytes_inverse VersionUid_def) (simp add: str_bytes_def)
  have "nbd_open N w (cn_nbd k) = (Inl InternalError, cn_nbd k\<lparr>nb_eng := nb_eng (cn_nbd k)\<lparr>ses := rollback (ses (nb_eng (cn_nbd k)))\<rparr>\<rparr>)"
    using held w(2) by (simp add: nbd_open_def nb_engine_def on_session_def lock_version_def lock_def holds_def)
  then have "export_name N ro fx nz (str_bytes uid) k =
      (Inl InternalError, k\<lparr>cn_version := Some w, cn_nbd := cn_nbd k\<lparr>nb_eng := nb_eng (cn_nbd k)\<lparr>ses := rollback (ses (nb_eng (cn_nbd k)))\<rparr>\<rparr>\<rparr>)"
    using all w(1) name by (simp add: export_name_def bindS_def thenS_def on_nbd_def)
  then show ?thesis using w(2) s by (auto simp: settled_def rollback_def)
qed

lemma negotiate_locked:
  assumes uid: "is_version_uid uid" and v: "\<exists>v \<in> set (db_versions (cn_db k)). ver_uid v = uid"
    and held: "holds (env_me (nb_env N)) (version_lock_name uid) (cn_db k)" and s: "settled (ses (nb_eng (cn_nbd k)))"
    and k: "cn_in k = (to_be 8 CLISERV_MAGIC @ to_be 4 1 @ to_be 4 (length uid)) @ str_bytes uid" and len: "length uid < 256 ^ 4"
  shows "\<exists>v k'. negotiate N ro fx nz k = (Inl InternalError, k') \<and> ver_uid v = uid \<and> cn_version k' = Some v \<and>
     cn_cow k' = cn_cow k \<and> working (ses (nb_eng (cn_nbd k'))) = cn_db k"
proof -
  let ?h = "to_be 8 CLISERV_MAGIC @ to_be 4 1 @ to_be 4 (length uid)" and ?k1 = "k\<lparr>cn_in := str_bytes uid\<rparr>"
  have r1: "recv 16 k = (Inr ?h, ?k1)" by (rule recv_exact [OF k]) simp
  have r2: "recv (length uid) ?k1 = (Inr (str_bytes uid), k\<lparr>cn_in := []\<rparr>)"
    by (simp add: recv_exact [where a = "str_bytes uid"] str_bytes_def)
  have h: "be_nat (take 8 ?h) = CLISERV_MAGIC" "be_nat (py_slice 8 12 ?h) = 1" "be_nat (py_slice 12 16 ?h) = length uid"
    using len by (simp_all add: py_slice_def be_nat_to_be CLISERV_MAGIC_def)
  have opt: "negotiate_option N ro fx nz k = export_name N ro fx nz (str_bytes uid) (k\<lparr>cn_in := []\<rparr>)"
    by (simp only: negotiate_option_def bindS_def r1 r2 h handle_option_def prod.case sum.case if_True if_False simp_thms)
  have "\<exists>v k'. export_name N ro fx nz (str_bytes uid) (k\<lparr>cn_in := []\<rparr>) = (Inl InternalError, k') \<and> ver_uid v = uid \<and> cn_version k' = Some v \<and>
     cn_cow k' = cn_cow (k\<lparr>cn_in := []\<rparr>) \<and> working (ses (nb_eng (cn_nbd k'))) = cn_db (k\<lparr>cn_in := []\<rparr>)"
    by (rule export_name_locked [OF uid]) (use v held s in simp_all)
  then show ?thesis by (subst negotiate.simps) (auto simp: opt)
qed

text \<open>A client that connects to a version this server process already exports is refused, and on the way out the lock that protects the first
  connection is released: the version can then be removed while it is being read.\<close>

theorem second_connection_drops_the_lock:
  assumes "is_version_uid uid" and "length uid < 256 ^ 4" and "\<exists>v \<in> set (db_versions (cn_db k)). ver_uid v = uid"
    and "settled (ses (nb_eng (cn_nbd k)))" and "wf_locks (cn_db k)"
    and "holds (env_me (nb_env N)) (version_lock_name uid) (cn_db k)" and "cn_in k = asks uid"
  shows "is_version_locked uid (ses (nb_eng (cn_nbd k))) \<and>
     (\<exists>k'. handler N default_storage read_only k = Some (Inl InternalError, k') \<and> \<not> is_version_locked uid (ses (nb_eng (cn_nbd k'))))"
proof
  let ?k = "k\<lparr>cn_version := None, cn_cow := None\<rparr>"
  let ?b = "(to_be 8 CLISERV_MAGIC @ to_be 4 1 @ to_be 4 (length uid)) @ str_bytes uid"
  show "is_version_locked uid (ses (nb_eng (cn_nbd k)))"
    using assms(6) by (auto simp: is_version_locked_def is_locked_def holds_def held_by_def)
  obtain o1 where o1: "handshake ?k = (Inr (True, True), ?k\<lparr>cn_out := o1, cn_in := ?b\<rparr>)"
    using handshake_asks [of ?k ?b] assms(7) by (auto simp: asks_def)
  have "\<exists>v k'. negotiate N read_only True True (?k\<lparr>cn_out := o1, cn_in := ?b\<rparr>) = (Inl InternalError, k') \<and> ver_uid v = uid \<and>
     cn_version k' = Some v \<and> cn_cow k' = cn_cow (?k\<lparr>cn_out := o1, cn_in := ?b\<rparr>) \<and>
     working (ses (nb_eng (cn_nbd k'))) = cn_db (?k\<lparr>cn_out := o1, cn_in := ?b\<rparr>)"
    by (rule negotiate_locked [OF assms(1) _ _ _ _ assms(2)]) (use assms in simp_all)
  then obtain v k1 where k1: "negotiate N read_only True True (?k\<lparr>cn_out := o1, cn_in := ?b\<rparr>) = (Inl InternalError, k1)"
    "ver_uid v = uid" "cn_version k1 = Some v" "cn_cow k1 = None" "cn_db k1 = cn_db k" by auto
  have sv: "serve N default_storage read_only ?k = Some (Inl InternalError, k1)"
    using o1 k1(1) by (simp add: serve_def bindS_def)
  obtain q k' where q: "on_nbd (nbd_close N v) k1 = (q, k')" by force
  have cl: "q = Inr ()" "cn_db k' = cn_db k\<lparr>db_locks := filter (\<lambda>l. \<not> held_by (env_me (nb_env N)) (version_lock_name uid) l) (db_locks (cn_db k))\<rparr>"
    using q k1(2,5) unlock_held_ok [of "env_me (nb_env N)" "version_lock_name uid" "ses (nb_eng (cn_nbd k1))"] assms(6)
    by (auto simp: on_nbd_def nbd_close_def nb_engine_def on_session_def unlock_version_def update_db_def commit_def)
  have "handler N default_storage read_only k = Some (Inl InternalError, k')"
    using sv q cl(1) k1(3,4) by (simp add: handler_def finallyS_def hang_up_def thenS_def bindS_def swallow_def)
  moreover have "held_by (env_me (nb_env N)) (version_lock_name uid) l" if "l \<in> set (db_locks (cn_db k))" "lck_name l = version_lock_name uid" for l
    using assms(5,6) that by (auto simp: wf_locks_def holds_def held_by_def distinct_map inj_on_def)
  ultimately show "\<exists>k'. handler N default_storage read_only k = Some (Inl InternalError, k') \<and> \<not> is_version_locked uid (ses (nb_eng (cn_nbd k')))"
    using cl(2) by (auto simp: is_version_locked_def is_locked_def)
qed

theorem second_connection_drops_the_lock_witness:
  "let k = demo_conn (hole_engine\<lparr>ses := session_on (working (ses hole_engine)\<lparr>db_locks := [lock_row demo_process (version_lock_name ''v1'') ''NBD'' 0]\<rparr>)\<rparr>)
     (asks ''v1'') in
   is_version_locked ''v1'' (ses (nb_eng (cn_nbd k))) \<and>
   (\<exists>k'. handler demo_nbd_env ''s'' True k = Some (Inl InternalError, k') \<and> \<not> is_version_locked ''v1'' (ses (nb_eng (cn_nbd k'))))"
  unfolding Let_def
proof (rule second_connection_drops_the_lock)
  show "is_version_uid ''v1''" by code_simp
qed (simp_all add: demo_conn_def demo_nbd_def hole_defs settled_def wf_locks_def holds_def demo_nbd_env_def demo_env_def)

end
