(* ===== verification/Scrub.thy ===== *)
theory Scrub
  imports Restore
begin

text \<open>
  \<open>Benji.scrub\<close>, \<open>Benji.deep_scrub\<close> and \<open>Benji._batch_scrub\<close> of \<open>benji.py\<close>, and \<open>BlockUidHistory\<close>. As in \<open>Restore\<close>, a queued read
  runs when its result is taken. \<open>rnd i\<close> is the result of \<open>random.randint(1, 100)\<close> at block \<open>i\<close>.
\<close>

section \<open>The history of checked blocks\<close>

text \<open>Storage, left half, right halves; \<open>SparseBitfield\<close> is a set of integers.\<close>

type_synonym history = "(int, (int, int list) dict) dict"

definition hist_add :: "int \<Rightarrow> block_uid \<Rightarrow> history \<Rightarrow> history res" where
  "hist_add sid uid h =
     (case (uid_left uid, uid_right uid) of
        (Some l, Some r) \<Rightarrow>
          let m = (case dict_get h sid of Some m \<Rightarrow> m | None \<Rightarrow> []);
              rs = (case dict_get m l of Some rs \<Rightarrow> rs | None \<Rightarrow> [])
          in Inr (dict_set h sid (dict_set m l (List.insert r rs)))
      | _ \<Rightarrow> Inl AssertionError)"

definition hist_seen :: "int \<Rightarrow> block_uid \<Rightarrow> history \<Rightarrow> bool" where
  "hist_seen sid uid h =
     (case dict_get h sid of
        None \<Rightarrow> False
      | Some m \<Rightarrow>
          (case Option.bind (uid_left uid) (dict_get m) of
             None \<Rightarrow> False
           | Some rs \<Rightarrow> (case uid_right uid of Some r \<Rightarrow> r \<in> set rs | None \<Rightarrow> False)))"

section \<open>Scrubbing a version\<close>

record scr =
  sc_eng :: engine
  sc_history :: "history option"
  sc_valid :: bool
  sc_mismatch :: bool
  sc_affected :: "string list"
  sc_done :: nat

definition sc_session :: "(exn, session, 'a) py \<Rightarrow> (exn, scr, 'a) py" where
  "sc_session m k = (case on_session m (sc_eng k) of (r, e) \<Rightarrow> (r, k\<lparr>sc_eng := e\<rparr>))"

text \<open>The blocks to read: not the sparse ones, not those seen before, and of the rest a sample that contains the first block.\<close>

fun scrub_prepare :: "version \<Rightarrow> history option \<Rightarrow> int \<Rightarrow> (nat \<Rightarrow> int) \<Rightarrow> nat \<Rightarrow> block list \<Rightarrow> block list" where
  "scrub_prepare v h pct rnd i [] = []"
| "scrub_prepare v h pct rnd i (b # bs) =
     (let rest = scrub_prepare v h pct rnd (Suc i) bs in
      if \<not> uid_bool (blk_uid b) then rest
      else if (case h of Some hh \<Rightarrow> hist_seen (ver_storage_id v) (blk_uid b) hh | None \<Rightarrow> False) then rest
      else if i \<noteq> 0 \<and> pct < 100 \<and> rnd i > pct then rest
      else b # rest)"

definition mark_bad :: "bool \<Rightarrow> block_uid \<Rightarrow> scr \<Rightarrow> scr" where
  "mark_bad track uid k =
     (case set_block_valid uid False (ses (sc_eng k)) of (uids, s) \<Rightarrow>
        k\<lparr>sc_eng := (sc_eng k)\<lparr>ses := s\<rparr>, sc_valid := False,
          sc_affected := (if track then sc_affected k @ uids else sc_affected k)\<rparr>)"

definition remember :: "version \<Rightarrow> block_uid \<Rightarrow> (exn, scr, unit) py" where
  "remember v uid k =
     (case sc_history k of
        None \<Rightarrow> (Inr (), k)
      | Some h \<Rightarrow>
          (case hist_add (ver_storage_id v) uid h of
             Inl x \<Rightarrow> (Inl x, k)
           | Inr h' \<Rightarrow> (Inr (), k\<lparr>sc_history := Some h'\<rparr>)))"

text \<open>One entry of \<open>storage.read_get_completed()\<close>, metadata only.\<close>

definition scrub_entry :: "env \<Rightarrow> string \<Rightarrow> version \<Rightarrow> block \<Rightarrow> (exn, scr, unit) py" where
  "scrub_entry E n v b k =
     (case on_store n (storage_read (env_cf E n) file_backend b True) (sc_eng k) of
        (r, e) \<Rightarrow>
          let k1 = k\<lparr>sc_eng := e, sc_done := sc_done k + 1\<rparr> in
          (case r of
             Inl x \<Rightarrow> (case x of InvalidBlockException ib \<Rightarrow> (Inr (), mark_bad True (blk_uid ib) k1) | _ \<Rightarrow> (Inl x, k1))
           | Inr (b', data, m) \<Rightarrow>
               (case check_block_metadata b' None m of
                  Inl x \<Rightarrow> (if is_key_or_value_error x then (Inr (), mark_bad True (blk_uid b') k1) else (Inl x, k1))
                | Inr _ \<Rightarrow> remember v (blk_uid b') k1)))"

text \<open>One entry of a deep scrub: metadata, checksum, and the source if there is one.\<close>

definition source_differs :: "version \<Rightarrow> bytes option \<Rightarrow> block \<Rightarrow> bytes \<Rightarrow> bool res" where
  "source_differs v src b data =
     (case src of
        None \<Rightarrow> Inr False
      | Some s \<Rightarrow> bind_res (io_read (ver_block_size v) s b) (\<lambda>(_, d). Inr (d \<noteq> data)))"

definition deep_entry :: "env \<Rightarrow> string \<Rightarrow> version \<Rightarrow> bytes option \<Rightarrow> block \<Rightarrow> (exn, scr, unit) py" where
  "deep_entry E n v src b k =
     (case on_store n (storage_read (env_cf E n) file_backend b False) (sc_eng k) of
        (r, e) \<Rightarrow>
          let k1 = k\<lparr>sc_eng := e, sc_done := sc_done k + 1\<rparr> in
          (case r of
             Inl x \<Rightarrow> (case x of InvalidBlockException ib \<Rightarrow> (Inr (), mark_bad True (blk_uid ib) k1) | _ \<Rightarrow> (Inl x, k1))
           | Inr (b', data, m) \<Rightarrow>
               let d = (case data of Some d \<Rightarrow> d | None \<Rightarrow> []) in
               (case check_block_metadata b' (Some (int (length d))) m of
                  Inl x \<Rightarrow> (if is_key_or_value_error x then (Inr (), mark_bad False (blk_uid b') k1) else (Inl x, k1))
                | Inr _ \<Rightarrow>
                    if Some (env_hash E d) \<noteq> blk_checksum b' then (Inr (), mark_bad True (blk_uid b') k1)
                    else
                      (case source_differs v src b' d of
                         Inl x \<Rightarrow> (Inl x, k1)
                       | Inr df \<Rightarrow>
                           let k2 = (if df then k1\<lparr>sc_valid := False, sc_mismatch := True\<rparr> else k1);
                               k3 = (if blk_valid b' then k2 else
                                 k2\<lparr>sc_eng := (sc_eng k2)\<lparr>ses := snd (set_block_valid (blk_uid b') True (ses (sc_eng k2)))\<rparr>\<rparr>)
                           in remember v (blk_uid b') k3))))"

text \<open>The \<open>try\<close> block both share; the result is the number of queued reads.\<close>

definition scrub_blocks :: "env \<Rightarrow> version \<Rightarrow> int \<Rightarrow> (nat \<Rightarrow> int) \<Rightarrow> (string \<Rightarrow> block \<Rightarrow> (exn, scr, unit) py) \<Rightarrow> (exn, scr, nat) py" where
  "scrub_blocks E v pct rnd entry k0 =
     (let k = k0\<lparr>sc_valid := True, sc_mismatch := False, sc_affected := [], sc_done := 0\<rparr>; d = working (ses (sc_eng k)) in
      case storage_name_of d v of
        Inl x \<Rightarrow> (Inl x, k)
      | Inr n \<Rightarrow>
          let q = scrub_prepare v (sc_history k) pct rnd 0 (blocks v d) in
          thenS (for_each (entry n) (read_order (env_sched E) q)) (returnS (length q)) k)"

definition scrub_open :: "env \<Rightarrow> string \<Rightarrow> string \<Rightarrow> (version \<Rightarrow> unit res) \<Rightarrow> (exn, scr, version) py" where
  "scrub_open E uid reason check =
     thenS (sc_session (lock_version (env_me E) uid (Some reason) False (env_now E)))
       (exceptS (\<lambda>k. (bind_res (get_by_uid uid (working (ses (sc_eng k)))) (\<lambda>v. bind_res (check v) (\<lambda>_. Inr v)), k))
         (\<lambda>x. thenS (sc_session (unlock_version (env_me E) uid)) (raiseS x)))"

definition scrub :: "env \<Rightarrow> string \<Rightarrow> int \<Rightarrow> (nat \<Rightarrow> int) \<Rightarrow> (exn, scr, unit) py" where
  "scrub E uid pct rnd =
     bindS (scrub_open E uid ''Scrubbing version'' (\<lambda>v. if is_scrubbable (ver_status v) then Inr () else Inl ScrubbingError)) (\<lambda>v.
     bindS (finallyS (scrub_blocks E v pct rnd (\<lambda>n. scrub_entry E n v)) (sc_session (unlock_version (env_me E) uid))) (\<lambda>read_jobs k.
       if read_jobs \<noteq> sc_done k then (Inl InternalError, k)
       else if sc_valid k then (Inr (), k)
       else if uid \<notin> set (sc_affected k) then (Inl ValueError, k)
       else (Inl ScrubbingError, k)))"

text \<open>
  \<open>deep_scrub\<close>; the source is \<open>Some (Inl x)\<close> when opening it raises \<open>x\<close>. When the storage is unknown, the \<open>finally\<close> clause
  refers to the unbound name \<open>storage\<close>. A wrong number of completed reads leaves the version locked.
\<close>

definition deep_check :: "bytes res option \<Rightarrow> version \<Rightarrow> unit res" where
  "deep_check source v =
     (if \<not> is_deep_scrubbable (ver_status v) then Inl ScrubbingError
      else (case source of Some (Inl x) \<Rightarrow> Inl x | _ \<Rightarrow> Inr ()))"

definition deep_scrub :: "env \<Rightarrow> string \<Rightarrow> bytes res option \<Rightarrow> int \<Rightarrow> (nat \<Rightarrow> int) \<Rightarrow> (exn, scr, unit) py" where
  "deep_scrub E uid source pct rnd =
     bindS (scrub_open E uid ''Deep-scrubbing'' (deep_check source)) (\<lambda>v.
     let src = (case source of Some (Inr s) \<Rightarrow> Some s | _ \<Rightarrow> None); unlock = sc_session (unlock_version (env_me E) uid) in
     bindS (\<lambda>k.
       finallyS (exceptS (scrub_blocks E v pct rnd (\<lambda>n. deep_entry E n v src)) (\<lambda>x. thenS unlock (raiseS x)))
         (case storage_name_of (working (ses (sc_eng k))) v of Inl _ \<Rightarrow> raiseS NameError | Inr _ \<Rightarrow> returnS ()) k) (\<lambda>read_jobs k.
       if read_jobs \<noteq> sc_done k then (Inl InternalError, k)
       else
         thenS (if sc_valid k \<and> pct = 100 then sc_session (\<lambda>s. (Inr (), set_version v (Some valid) None s)) else returnS ())
         (thenS unlock (if sc_valid k then returnS () else raiseS ScrubbingError)) k))"

section \<open>Batches\<close>

text \<open>
  The choice of the versions: \<open>version.labels\<close> is a dictionary and iterating over it yields names, so a group label raises as
  soon as a version has labels, and adds nothing otherwise. \<open>sample xs k\<close> is \<open>random.sample\<close>.
\<close>

definition batch_choose :: "database \<Rightarrow> (version list \<Rightarrow> nat \<Rightarrow> version list) \<Rightarrow> int \<Rightarrow> string option \<Rightarrow> version list \<Rightarrow> version list res" where
  "batch_choose d sample version_percentage group_label versions =
     (if group_label \<noteq> None \<and> (\<exists>v \<in> set versions. \<exists>l \<in> set (db_labels d). lbl_version_id l = ver_id v) then Inl AttributeError
      else if version_percentage \<noteq> 0 \<and> versions \<noteq> []
           then Inr (sample versions (max 1 (nat (int (length versions) * version_percentage div 100))))
      else Inr versions)"

fun batch_loop :: "(string \<Rightarrow> (exn, scr, unit) py) \<Rightarrow> version list \<Rightarrow> (exn, scr, version list) py" where
  "batch_loop method [] k = (Inr [], k)"
| "batch_loop method (v # vs) k =
     (case method (ver_uid v) k of
        (Inr _, k1) \<Rightarrow> batch_loop method vs k1
      | (Inl ScrubbingError, k1) \<Rightarrow>
          (case batch_loop method vs k1 of (Inl x, k2) \<Rightarrow> (Inl x, k2) | (Inr es, k2) \<Rightarrow> (Inr (v # es), k2))
      | (Inl AlreadyLocked, k1) \<Rightarrow> batch_loop method vs k1
      | (Inl x, k1) \<Rightarrow> (Inl x, k1))"

definition batch_scrub :: "(version list \<Rightarrow> nat \<Rightarrow> version list) \<Rightarrow> (string \<Rightarrow> (exn, scr, unit) py) \<Rightarrow> version list \<Rightarrow> int \<Rightarrow> string option
    \<Rightarrow> (exn, scr, version list \<times> version list) py" where
  "batch_scrub sample method found version_percentage group_label k0 =
     (let k = k0\<lparr>sc_history := Some []\<rparr> in
      case batch_choose (working (ses (sc_eng k))) sample version_percentage group_label found of
        Inl x \<Rightarrow> (Inl x, k)
      | Inr versions \<Rightarrow>
          (case batch_loop method versions k of
             (Inl x, k1) \<Rightarrow> (Inl x, k1)
           | (Inr errors, k1) \<Rightarrow> (Inr (versions, errors), k1)))"

section \<open>Reads of an undisturbed storage\<close>

text \<open>Without faults a read depends on the stored objects only and changes none.\<close>

definition steady :: "(exn, fs, 'a) py \<Rightarrow> bool" where
  "steady m \<longleftrightarrow> (\<forall>f g. calm f \<longrightarrow> calm g \<longrightarrow> fs_content f = fs_content g \<longrightarrow>
     fst (m f) = fst (m g) \<and> calm (snd (m f)) \<and> fs_content (snd (m f)) = fs_content f)"

named_theorems steady_intros \<open>composition of steady reads\<close>

lemma steadyD:
  assumes "steady m" and "calm f" and "calm g" and "fs_content f = fs_content g" and "m f = (r, f')" and "m g = (q, g')"
  shows "r = q \<and> calm f' \<and> fs_content f' = fs_content f"
  using assms unfolding steady_def by (metis fst_conv snd_conv)

lemma steady_fst:
  assumes "steady m" and "calm f" and "calm g" and "fs_content f = fs_content g"
  shows "fst (m f) = fst (m g)"
  using assms unfolding steady_def by blast

lemma steady_pure [steady_intros]: "steady (returnS x)" "steady (raiseS e)" "steady (liftS r)"
  by (auto simp: steady_def)

lemma steady_bindS [steady_intros]:
  assumes "steady m" and "\<And>x. steady (h x)"
  shows "steady (bindS m h)"
  unfolding steady_def
proof (intro allI impI)
  fix f g assume h: "calm f" "calm g" "fs_content f = fs_content g"
  obtain r f' where f: "m f = (r, f')" by force
  obtain q g' where g: "m g = (q, g')" by force
  have s: "r = q" "calm f'" "fs_content f' = fs_content f" "calm g'" "fs_content g' = fs_content g"
    using steadyD [OF assms(1) h f g] steadyD [OF assms(1) h(2,1) h(3) [symmetric] g f] by simp_all
  show "fst (bindS m h f) = fst (bindS m h g) \<and> calm (snd (bindS m h f)) \<and> fs_content (snd (bindS m h f)) = fs_content f"
  proof (cases r)
    case (Inl e)
    then show ?thesis using s f g by (simp add: bindS_def)
  next
    case (Inr x)
    then have "bindS m h f = h x f'" "bindS m h g = h x g'" using s(1) f g by (simp_all add: bindS_def)
    then show ?thesis using assms(2) [of x] s h(3) unfolding steady_def by metis
  qed
qed

lemma steady_exceptS [steady_intros]:
  assumes "steady m" and "\<And>x. steady (h x)"
  shows "steady (exceptS m h)"
  unfolding steady_def
proof (intro allI impI)
  fix f g assume h: "calm f" "calm g" "fs_content f = fs_content g"
  obtain r f' where f: "m f = (r, f')" by force
  obtain q g' where g: "m g = (q, g')" by force
  have s: "r = q" "calm f'" "fs_content f' = fs_content f" "calm g'" "fs_content g' = fs_content g"
    using steadyD [OF assms(1) h f g] steadyD [OF assms(1) h(2,1) h(3) [symmetric] g f] by simp_all
  show "fst (exceptS m h f) = fst (exceptS m h g) \<and> calm (snd (exceptS m h f)) \<and> fs_content (snd (exceptS m h f)) = fs_content f"
  proof (cases r)
    case (Inr x)
    then show ?thesis using s f g by (simp add: exceptS_def)
  next
    case (Inl x)
    then have "exceptS m h f = h x f'" "exceptS m h g = h x g'" using s(1) f g by (simp_all add: exceptS_def)
    then show ?thesis using assms(2) [of x] s h(3) unfolding steady_def by metis
  qed
qed

lemma steady_read [steady_intros]: "steady (be_read file_backend key)" "steady (be_read_length file_backend key)"
  unfolding steady_def by (auto simp: file_defs calm_def fun_eq_iff split: option.splits)

lemma steady_storage_read: "steady (storage_read cf file_backend b mo)"
  unfolding storage_read_def
  by (auto intro!: steady_intros split: prod.split option.split)

section \<open>The verdict on a block\<close>

text \<open>
  \<open>meta_sound\<close> and \<open>deep_sound\<close>: what a scrub and a deep scrub accept. \<open>soft\<close>: a read fails, if at all, with the exception that
  names the block; other exceptions (a missing transform, say) end the scrub.
\<close>

definition meta_sound :: "env \<Rightarrow> string \<Rightarrow> fs \<Rightarrow> block \<Rightarrow> bool" where
  "meta_sound E n f b \<longleftrightarrow> (\<exists>data m. fst (storage_read (env_cf E n) file_backend b True f) = Inr (b, data, m) \<and>
     check_block_metadata b None m = Inr ())"

definition deep_sound :: "env \<Rightarrow> string \<Rightarrow> fs \<Rightarrow> block \<Rightarrow> bool" where
  "deep_sound E n f b \<longleftrightarrow> (\<exists>data m. fst (storage_read (env_cf E n) file_backend b False f) = Inr (b, Some data, m) \<and>
     check_block_metadata b (Some (int (length data))) m = Inr () \<and> blk_checksum b = Some (env_hash E data))"

definition soft :: "env \<Rightarrow> string \<Rightarrow> bool \<Rightarrow> fs \<Rightarrow> block \<Rightarrow> bool" where
  "soft E n mo f b \<longleftrightarrow> (case fst (storage_read (env_cf E n) file_backend b mo f) of Inl x \<Rightarrow> x = InvalidBlockException b | Inr _ \<Rightarrow> True)"

text \<open>What an entry does to the database.\<close>

definition scrub_effect :: "bool \<Rightarrow> bool \<Rightarrow> block \<Rightarrow> database \<Rightarrow> database" where
  "scrub_effect mo good b d =
     (if \<not> good then mark_blocks (blk_uid b) False d else if mo \<or> blk_valid b then d else mark_blocks (blk_uid b) True d)"

definition after_entry :: "bool \<Rightarrow> bool \<Rightarrow> string \<Rightarrow> block \<Rightarrow> scr \<Rightarrow> scr \<Rightarrow> bool" where
  "after_entry mo good n b k k' \<longleftrightarrow>
     calm (stores (sc_eng k') n) \<and> fs_content (stores (sc_eng k') n) = fs_content (stores (sc_eng k) n) \<and>
     sc_done k' = sc_done k + 1 \<and> sc_valid k' = (sc_valid k \<and> good) \<and> sc_history k' = None \<and>
     working (ses (sc_eng k')) = scrub_effect mo good b (working (ses (sc_eng k))) \<and>
     (mo \<longrightarrow> sc_affected k' = sc_affected k @ (if good then [] else affected_uids (working (ses (sc_eng k))) (blk_uid b)))"

lemma check_metadata_error: "check_block_metadata b l m = Inl x \<Longrightarrow> is_key_or_value_error x"
  by (auto simp: check_block_metadata_def split: if_splits)

lemma storage_read_block:
  "storage_read cf file_backend b mo f = (Inr (b', data, m), f') \<Longrightarrow> b' = b \<and> (mo \<longleftrightarrow> data = None)"
  by (auto simp: storage_read_def elim!: bindS_cases exceptS_cases split: if_splits option.splits prod.splits)

lemma scrub_entry_step:
  assumes "calm (stores (sc_eng k) n)" and "sc_history k = None" and "soft E n True (stores (sc_eng k) n) b"
  shows "\<exists>k'. scrub_entry E n v b k = (Inr (), k') \<and> after_entry True (meta_sound E n (stores (sc_eng k) n) b) n b k k'"
proof -
  let ?f = "stores (sc_eng k) n" and ?cf = "env_cf E n"
  obtain r f' where r: "storage_read ?cf file_backend b True ?f = (r, f')" by force
  have f': "calm f'" "fs_content f' = fs_content ?f"
    using steadyD [OF steady_storage_read assms(1,1) refl r r] by simp_all
  show ?thesis
  proof (cases r)
    case (Inl x)
    then have "x = InvalidBlockException b" using assms(3) r by (simp add: soft_def)
    moreover have "\<not> meta_sound E n ?f b" using r Inl by (simp add: meta_sound_def)
    ultimately show ?thesis using r Inl f' assms(2)
      by (simp add: scrub_entry_def on_store_def Let_def mark_bad_def set_block_valid_def after_entry_def scrub_effect_def)
  next
    case (Inr y)
    then obtain data m where y: "y = (b, data, m)" using storage_read_block r by (cases y) blast
    have good: "meta_sound E n ?f b \<longleftrightarrow> check_block_metadata b None m = Inr ()" using r Inr y by (simp add: meta_sound_def)
    show ?thesis
    proof (cases "check_block_metadata b None m")
      case (Inl x)
      then show ?thesis using r Inr y f' assms(2) good check_metadata_error [OF Inl]
        by (simp add: scrub_entry_def on_store_def Let_def mark_bad_def set_block_valid_def after_entry_def scrub_effect_def)
    next
      case (Inr u)
      then show ?thesis using r \<open>r = Inr y\<close> y f' assms(2) good
        by (simp add: scrub_entry_def on_store_def Let_def remember_def after_entry_def scrub_effect_def)
    qed
  qed
qed

lemma deep_entry_step:
  assumes "calm (stores (sc_eng k) n)" and "sc_history k = None" and "soft E n False (stores (sc_eng k) n) b"
  shows "\<exists>k'. deep_entry E n v None b k = (Inr (), k') \<and> after_entry False (deep_sound E n (stores (sc_eng k) n) b) n b k k'"
proof -
  let ?f = "stores (sc_eng k) n" and ?cf = "env_cf E n"
  obtain r f' where r: "storage_read ?cf file_backend b False ?f = (r, f')" by force
  have f': "calm f'" "fs_content f' = fs_content ?f"
    using steadyD [OF steady_storage_read assms(1,1) refl r r] by simp_all
  show ?thesis
  proof (cases r)
    case (Inl x)
    then have "x = InvalidBlockException b" using assms(3) r by (simp add: soft_def)
    moreover have "\<not> deep_sound E n ?f b" using r Inl by (simp add: deep_sound_def)
    ultimately show ?thesis using r Inl f' assms(2)
      by (simp add: deep_entry_def on_store_def Let_def mark_bad_def set_block_valid_def after_entry_def scrub_effect_def)
  next
    case (Inr y)
    obtain b1 o1 m1 where y0: "y = (b1, o1, m1)" by (cases y)
    have "b1 = b" "o1 \<noteq> None" using storage_read_block [OF r [unfolded Inr y0]] by simp_all
    then obtain data m where y: "y = (b, Some data, m)" using y0 by blast
    have good: "deep_sound E n ?f b \<longleftrightarrow> check_block_metadata b (Some (int (length data))) m = Inr () \<and> blk_checksum b = Some (env_hash E data)"
      using r Inr y by (simp add: deep_sound_def)
    show ?thesis
    proof (cases "check_block_metadata b (Some (int (length data))) m")
      case (Inl x)
      then show ?thesis using r Inr y f' assms(2) good check_metadata_error [OF Inl]
        by (simp add: deep_entry_def on_store_def Let_def mark_bad_def set_block_valid_def after_entry_def scrub_effect_def)
    next
      case (Inr u)
      then show ?thesis using r \<open>r = Inr y\<close> y f' assms(2) good
        by (cases "blk_checksum b = Some (env_hash E data)")
           (auto simp: deep_entry_def on_store_def Let_def mark_bad_def set_block_valid_def remember_def source_differs_def
             after_entry_def scrub_effect_def)
    qed
  qed
qed

section \<open>The loop over the completed reads\<close>

text \<open>The contract of an entry handler: it judges one block, marks it accordingly, and never raises on soft failures.\<close>

locale entry_handler =
  fixes entry :: "env \<Rightarrow> string \<Rightarrow> version \<Rightarrow> block \<Rightarrow> (exn, scr, unit) py"
    and good :: "env \<Rightarrow> string \<Rightarrow> fs \<Rightarrow> block \<Rightarrow> bool"
    and mo :: bool
  assumes entry_step: "calm (stores (sc_eng k) n) \<Longrightarrow> sc_history k = None \<Longrightarrow> soft E n mo (stores (sc_eng k) n) b \<Longrightarrow>
      \<exists>k'. entry E n v b k = (Inr (), k') \<and> after_entry mo (good E n (stores (sc_eng k) n) b) n b k k'"
    and good_content: "calm f \<Longrightarrow> calm g \<Longrightarrow> fs_content f = fs_content g \<Longrightarrow> good E n f b = good E n g b"
begin

lemma entries:
  assumes "calm (stores (sc_eng k) n)" and "sc_history k = None" and "\<forall>b \<in> set bs. soft E n mo (stores (sc_eng k) n) b"
  shows "\<exists>k'. for_each (entry E n v) bs k = (Inr (), k') \<and> calm (stores (sc_eng k') n) \<and>
    fs_content (stores (sc_eng k') n) = fs_content (stores (sc_eng k) n) \<and> sc_done k' = sc_done k + length bs \<and>
    sc_valid k' = (sc_valid k \<and> (\<forall>b \<in> set bs. good E n (stores (sc_eng k) n) b)) \<and> sc_history k' = None \<and>
    working (ses (sc_eng k')) = fold (\<lambda>b. scrub_effect mo (good E n (stores (sc_eng k) n) b) b) bs (working (ses (sc_eng k)))"
  using assms
proof (induction bs arbitrary: k)
  case (Cons b bs)
  let ?f = "stores (sc_eng k) n"
  obtain k1 where k1: "entry E n v b k = (Inr (), k1)" and a: "after_entry mo (good E n ?f b) n b k k1"
    using entry_step [OF Cons.prems(1,2)] Cons.prems(3) by (meson list.set_intros(1))
  let ?f1 = "stores (sc_eng k1) n"
  have c1: "calm ?f1" "fs_content ?f1 = fs_content ?f" "sc_history k1 = None" using a by (simp_all add: after_entry_def)
  have same: "good E n ?f1 c = good E n ?f c" for c using good_content [OF c1(1) Cons.prems(1) c1(2)] .
  have "soft E n mo ?f1 c = soft E n mo ?f c" for c
    unfolding soft_def steady_fst [OF steady_storage_read c1(1) Cons.prems(1) c1(2)] ..
  then have "\<forall>b \<in> set bs. soft E n mo ?f1 b" using Cons.prems(3) by simp
  from Cons.IH [OF c1(1,3) this, unfolded same] obtain k' where k': "for_each (entry E n v) bs k1 = (Inr (), k')" "calm (stores (sc_eng k') n)"
    "fs_content (stores (sc_eng k') n) = fs_content ?f1" "sc_done k' = sc_done k1 + length bs"
    "sc_valid k' = (sc_valid k1 \<and> (\<forall>b \<in> set bs. good E n ?f b))" "sc_history k' = None"
    "working (ses (sc_eng k')) = fold (\<lambda>b. scrub_effect mo (good E n ?f b) b) bs (working (ses (sc_eng k1)))"
    by blast
  have a': "sc_done k1 = sc_done k + 1" "sc_valid k1 = (sc_valid k \<and> good E n ?f b)"
    "working (ses (sc_eng k1)) = scrub_effect mo (good E n ?f b) b (working (ses (sc_eng k)))"
    using a by (simp_all add: after_entry_def)
  have "for_each (entry E n v) (b # bs) k = (Inr (), k')" using k1 k'(1) by simp
  moreover have "sc_done k' = sc_done k + length (b # bs)" using k'(4) a'(1) by simp
  moreover have "sc_valid k' = (sc_valid k \<and> (\<forall>c \<in> set (b # bs). good E n ?f c))" using k'(5) a'(2) by simp
  moreover have "working (ses (sc_eng k')) = fold (\<lambda>b. scrub_effect mo (good E n ?f b) b) (b # bs) (working (ses (sc_eng k)))"
    using k'(7) a'(3) by simp
  moreover have "fs_content (stores (sc_eng k') n) = fs_content ?f" by (rule trans [OF k'(3) c1(2)])
  ultimately show ?case using k'(2,6) by blast
qed simp

end

interpretation shallow: entry_handler scrub_entry meta_sound True
proof unfold_locales
  show "meta_sound E n f b = meta_sound E n g b" if "calm f" "calm g" "fs_content f = fs_content g" for E n f g b
    unfolding meta_sound_def steady_fst [OF steady_storage_read that] ..
qed (rule scrub_entry_step)

interpretation deep: entry_handler "\<lambda>E n v. deep_entry E n v None" deep_sound False
proof unfold_locales
  show "deep_sound E n f b = deep_sound E n g b" if "calm f" "calm g" "fs_content f = fs_content g" for E n f g b
    unfolding deep_sound_def steady_fst [OF steady_storage_read that] ..
qed (rule deep_entry_step)

section \<open>The effect on the database\<close>

lemma refers_to_mark [simp]: "refers_to (mark_blocks uid vld d) = refers_to d"
proof -
  have r: "refers_to d' u w \<longleftrightarrow> (ver_id w, u) \<in> set (map (\<lambda>b. (blk_version_id b, blk_uid b)) (db_blocks d'))" for d' u w
    by (simp add: refers_to_def image_iff) metis
  have "map (\<lambda>b. (blk_version_id b, blk_uid b)) (db_blocks (mark_blocks uid vld d)) = map (\<lambda>b. (blk_version_id b, blk_uid b)) (db_blocks d)"
    by (simp add: mark_blocks_def Let_def)
  then show ?thesis unfolding fun_eq_iff r by simp
qed

lemma mark_blocks_frame [simp]:
  "db_locks (mark_blocks uid vld d) = db_locks d" "db_storages (mark_blocks uid vld d) = db_storages d"
  "db_labels (mark_blocks uid vld d) = db_labels d"
  by (simp_all add: mark_blocks_def Let_def)

lemma mark_blocks_versions:
  assumes "wf_db d"
  shows "db_versions (mark_blocks uid vld d) =
    map (\<lambda>w. if \<not> vld \<and> refers_to d uid w then w\<lparr>ver_status := invalid\<rparr> else w) (db_versions d)"
proof -
  have "inj_on ver_uid (set (db_versions d))" using assms by (simp add: wf_db_def distinct_map)
  then have "ver_uid w \<in> set (affected_uids d uid) \<longleftrightarrow> refers_to d uid w" if "w \<in> set (db_versions d)" for w
    using that by (auto simp: affected_uids_def dest: inj_onD)
  then show ?thesis by (auto simp: mark_blocks_def Let_def)
qed

definition rows_of :: "database \<Rightarrow> block list" where
  "rows_of d = map (\<lambda>b. b\<lparr>blk_valid := True\<rparr>) (db_blocks d)"

lemma rows_of_mark [simp]: "rows_of (mark_blocks uid vld d) = rows_of d"
  by (simp add: rows_of_def mark_blocks_def Let_def)

lemma scrub_effect_facts:
  assumes "wf_db d"
  shows "wf_db (scrub_effect mo g b d)" "refers_to (scrub_effect mo g b d) = refers_to d"
    "db_locks (scrub_effect mo g b d) = db_locks d" "db_storages (scrub_effect mo g b d) = db_storages d"
    "rows_of (scrub_effect mo g b d) = rows_of d"
    "db_versions (scrub_effect mo g b d) = map (\<lambda>w. if \<not> g \<and> refers_to d (blk_uid b) w then w\<lparr>ver_status := invalid\<rparr> else w) (db_versions d)"
  using assms by (simp_all add: scrub_effect_def wf_mark_blocks mark_blocks_versions)

definition judged :: "database \<Rightarrow> (block \<Rightarrow> bool) \<Rightarrow> block list \<Rightarrow> version \<Rightarrow> version" where
  "judged d good bs w = (if \<exists>b \<in> set bs. \<not> good b \<and> refers_to d (blk_uid b) w then w\<lparr>ver_status := invalid\<rparr> else w)"

lemma refers_to_status: "refers_to d u (w\<lparr>ver_status := x\<rparr>) = refers_to d u w"
  by (simp add: refers_to_def)

lemma scrub_fold:
  assumes "wf_db d"
  shows "wf_db (fold (\<lambda>b. scrub_effect mo (good b) b) bs d) \<and>
    db_locks (fold (\<lambda>b. scrub_effect mo (good b) b) bs d) = db_locks d \<and>
    db_storages (fold (\<lambda>b. scrub_effect mo (good b) b) bs d) = db_storages d \<and>
    rows_of (fold (\<lambda>b. scrub_effect mo (good b) b) bs d) = rows_of d \<and>
    db_versions (fold (\<lambda>b. scrub_effect mo (good b) b) bs d) = map (judged d good bs) (db_versions d)"
  using assms
proof (induction bs arbitrary: d)
  case Nil
  then show ?case by (simp add: judged_def)
next
  case (Cons b bs)
  note f = scrub_effect_facts [OF Cons.prems, of mo "good b" b]
  show ?case using Cons.IH [OF f(1)] f by (auto simp: judged_def refers_to_status)
qed

section \<open>The verdict on a version\<close>

lemma prepare_all: "scrub_prepare v None 100 rnd i bs = filter (\<lambda>b. uid_bool (blk_uid b)) bs"
  by (induction bs arbitrary: i) (simp_all add: Let_def)

text \<open>The situation at the start of a scrub: the version is there and nobody holds its lock.\<close>

definition scrub_ready :: "string \<Rightarrow> string \<Rightarrow> version \<Rightarrow> bool \<Rightarrow> env \<Rightarrow> scr \<Rightarrow> bool" where
  "scrub_ready uid n v mo E k \<longleftrightarrow>
     (let d = working (ses (sc_eng k)); f = stores (sc_eng k) n in
      wf_db d \<and> get_by_uid uid d = Inr v \<and> version_lock_name uid \<notin> set (map lck_name (db_locks d)) \<and>
      storage_name_of d v = Inr n \<and> calm f \<and> sc_history k = None \<and> fair_sched (env_sched E) \<and>
      (\<forall>b \<in> set (blocks v d). uid_bool (blk_uid b) \<longrightarrow> soft E n mo f b))"

abbreviation sc_db :: "scr \<Rightarrow> database" where
  "sc_db k \<equiv> working (ses (sc_eng k))"

definition checked_blocks :: "version \<Rightarrow> scr \<Rightarrow> block list" where
  "checked_blocks v k = filter (\<lambda>b. uid_bool (blk_uid b)) (blocks v (sc_db k))"

definition with_lock_row :: "env \<Rightarrow> string \<Rightarrow> string \<Rightarrow> database \<Rightarrow> database" where
  "with_lock_row E uid reason d =
     d\<lparr>db_locks := db_locks d @ [lock_row (env_me E) (version_lock_name uid) reason (env_now E)]\<rparr>"

lemma scrub_open_ok:
  assumes "scrub_ready uid n v mo E k" and "check v = Inr ()"
  shows "\<exists>k1. scrub_open E uid reason check k = (Inr v, k1) \<and> sc_db k1 = with_lock_row E uid reason (sc_db k) \<and>
    stores (sc_eng k1) = stores (sc_eng k) \<and> sc_history k1 = sc_history k"
  using assms lock_free_ok [of "version_lock_name uid" "ses (sc_eng k)"]
  by (auto simp: scrub_open_def scrub_ready_def Let_def thenS_def bindS_def exceptS_def sc_session_def on_session_def
      lock_version_def get_by_uid_def with_lock_row_def split: sum.splits option.splits)

lemma blocks_cong:
  assumes "db_blocks d = db_blocks d'"
  shows "blocks v d = blocks v d'"
proof -
  have q: "query_slice v a b d = query_slice v a b d'" for a b by (simp add: query_slice_def assms)
  have "blocks_from v d i = blocks_from v d' i" for i
  proof (induction "nat (blocks_count v - i)" arbitrary: i rule: less_induct)
    case less
    let ?j = "min (i + BLOCKS_PER_CALL) (blocks_count v)"
    have "blocks_from v d ?j = blocks_from v d' ?j" if "?j \<noteq> blocks_count v"
      by (rule less) (use that in \<open>simp add: BLOCKS_PER_CALL_def\<close>)
    then show ?case by (subst (1 2) blocks_from.simps) (simp add: Let_def q)
  qed
  then show ?thesis by (simp add: blocks_def)
qed

lemma unlock_row:
  assumes "version_lock_name uid \<notin> set (map lck_name (db_locks d))" and "db_locks (sc_db k) = db_locks (with_lock_row E uid reason d)"
  shows "\<exists>k'. sc_session (unlock_version (env_me E) uid) k = (Inr (), k') \<and> sc_db k' = (sc_db k)\<lparr>db_locks := db_locks d\<rparr> \<and>
    stores (sc_eng k') = stores (sc_eng k) \<and> sc_history k' = sc_history k \<and> sc_valid k' = sc_valid k \<and> sc_done k' = sc_done k \<and>
    sc_affected k' = sc_affected k"
proof -
  have "holds (env_me E) (version_lock_name uid) (sc_db k)" by (simp add: holds_def assms(2) with_lock_row_def)
  moreover have "filter (\<lambda>l. \<not> held_by (env_me E) (version_lock_name uid) l) (db_locks d) = db_locks d"
    using free_names [OF assms(1)] by (auto simp: filter_id_conv held_by_def)
  ultimately show ?thesis
    using unlock_held_ok [of "env_me E" "version_lock_name uid" "ses (sc_eng k)"]
    by (simp add: sc_session_def on_session_def unlock_version_def assms(2) with_lock_row_def)
qed

lemma fair_read: "fair_sched sc \<Longrightarrow> set (read_order sc xs) = set xs \<and> length (read_order sc xs) = length xs"
  unfolding fair_sched_def by (metis mset_eq_setD size_mset)

lemma block_row:
  assumes "b \<in> set (blocks v d)" and "uid_bool (blk_uid b)"
  shows "b \<in> set (db_blocks d)" and "blk_version_id b = ver_id v"
proof -
  have fill: "b \<in> set (fill_slice v i j rs) \<Longrightarrow> b \<in> set rs" for i j rs
    using assms(2) by (induction v i j rs rule: fill_slice.induct) (auto simp: create_sparse_block_def)
  have "b \<in> set (blocks_from v d i) \<Longrightarrow> b \<in> set (db_blocks d) \<and> blk_version_id b = ver_id v" for i
  proof (induction "nat (blocks_count v - i)" arbitrary: i rule: less_induct)
    case less
    let ?j = "min (i + BLOCKS_PER_CALL) (blocks_count v)"
    have "b \<in> set (fill_slice v i ?j (query_slice v i ?j d)) \<or> ?j \<noteq> blocks_count v \<and> b \<in> set (blocks_from v d ?j)"
      using less.prems by (subst (asm) blocks_from.simps) (auto simp: Let_def split: if_splits)
    then show ?case
    proof
      assume "b \<in> set (fill_slice v i ?j (query_slice v i ?j d))"
      from fill [OF this] show ?thesis by (auto simp: query_slice_def)
    next
      assume j: "?j \<noteq> blocks_count v \<and> b \<in> set (blocks_from v d ?j)"
      then show ?thesis by (intro less.hyps [of ?j]) (auto simp: BLOCKS_PER_CALL_def)
    qed
  qed
  then show "b \<in> set (db_blocks d)" and "blk_version_id b = ver_id v" using assms(1) by (auto simp: blocks_def)
qed

lemma checked_refers: "b \<in> set (checked_blocks v k) \<Longrightarrow> refers_to (sc_db k) (blk_uid b) v"
proof -
  assume "b \<in> set (checked_blocks v k)"
  then have b: "b \<in> set (blocks v (sc_db k))" "uid_bool (blk_uid b)" by (simp_all add: checked_blocks_def)
  show ?thesis unfolding refers_to_def by (rule bexI [OF _ block_row(1) [OF b]]) (simp add: block_row(2) [OF b])
qed

context entry_handler
begin

lemma entries_affected:
  assumes "calm (stores (sc_eng k) n)" and "sc_history k = None" and "\<forall>b \<in> set bs. soft E n mo (stores (sc_eng k) n) b"
    and "wf_db (sc_db k)" and "for_each (entry E n v) bs k = (r, k')" and "mo"
  shows "set (sc_affected k) \<subseteq> set (sc_affected k') \<and> (\<forall>b \<in> set bs. \<forall>w \<in> set (db_versions (sc_db k)).
    \<not> good E n (stores (sc_eng k) n) b \<longrightarrow> refers_to (sc_db k) (blk_uid b) w \<longrightarrow> ver_uid w \<in> set (sc_affected k'))"
  using assms(1-5)
proof (induction bs arbitrary: k)
  case (Cons b bs)
  let ?f = "stores (sc_eng k) n"
  obtain k1 where k1: "entry E n v b k = (Inr (), k1)" and a: "after_entry mo (good E n ?f b) n b k k1"
    using entry_step [OF Cons.prems(1,2)] Cons.prems(3) by (meson list.set_intros(1))
  let ?f1 = "stores (sc_eng k1) n"
  have c1: "calm ?f1" "fs_content ?f1 = fs_content ?f" "sc_history k1 = None"
    and db1: "sc_db k1 = scrub_effect mo (good E n ?f b) b (sc_db k)"
    and af: "sc_affected k1 = sc_affected k @ (if good E n ?f b then [] else affected_uids (sc_db k) (blk_uid b))"
    using a \<open>mo\<close> by (simp_all add: after_entry_def)
  have same: "good E n ?f1 c = good E n ?f c" for c using good_content [OF c1(1) Cons.prems(1) c1(2)] .
  have "soft E n mo ?f1 c = soft E n mo ?f c" for c
    unfolding soft_def steady_fst [OF steady_storage_read c1(1) Cons.prems(1) c1(2)] ..
  then have s1: "\<forall>b \<in> set bs. soft E n mo ?f1 b" using Cons.prems(3) by simp
  note fx = scrub_effect_facts [OF Cons.prems(4), of mo "good E n ?f b" b, folded db1]
  have "for_each (entry E n v) bs k1 = (r, k')" using Cons.prems(5) k1 by simp
  note ih = Cons.IH [OF c1(1,3) s1 fx(1) this, unfolded same fx(2)]
  have here: "ver_uid w \<in> set (sc_affected k1)" if "w \<in> set (db_versions (sc_db k))" "\<not> good E n ?f b" "refers_to (sc_db k) (blk_uid b) w" for w
    using that by (simp add: af affected_uids_def)
  have moved: "\<exists>w' \<in> set (db_versions (sc_db k1)). ver_uid w' = ver_uid w \<and> ver_id w' = ver_id w" if "w \<in> set (db_versions (sc_db k))" for w
    unfolding fx(6) set_map by (rule bexI [OF _ imageI [OF that]]) simp
  have later: "ver_uid w \<in> set (sc_affected k')"
    if c: "c \<in> set bs" "w \<in> set (db_versions (sc_db k))" "\<not> good E n ?f c" "refers_to (sc_db k) (blk_uid c) w" for c w
  proof -
    obtain w' where w': "w' \<in> set (db_versions (sc_db k1))" "ver_uid w' = ver_uid w" "ver_id w' = ver_id w" using moved [OF c(2)] by blast
    have "refers_to (sc_db k) (blk_uid c) w'" using c(4) w'(3) by (simp add: refers_to_def)
    then show ?thesis using ih c(1,3) w'(1,2) by metis
  qed
  have "set (sc_affected k) \<subseteq> set (sc_affected k1)" by (auto simp: af)
  then show ?case using ih here later by (metis (no_types, lifting) set_ConsD subset_iff)
qed simp

lemma scrub_blocks_ok:
  assumes ready: "scrub_ready uid n v mo E k" and db: "sc_db k1 = with_lock_row E uid reason (sc_db k)"
    and st: "stores (sc_eng k1) = stores (sc_eng k)" "sc_history k1 = sc_history k"
  shows "\<exists>k'. scrub_blocks E v 100 rnd (\<lambda>n. entry E n v) k1 = (Inr (sc_done k'), k') \<and> calm (stores (sc_eng k') n) \<and>
    fs_content (stores (sc_eng k') n) = fs_content (stores (sc_eng k) n) \<and>
    sc_valid k' = (\<forall>b \<in> set (checked_blocks v k). good E n (stores (sc_eng k) n) b) \<and>
    wf_db (sc_db k') \<and> db_locks (sc_db k') = db_locks (with_lock_row E uid reason (sc_db k)) \<and>
    db_storages (sc_db k') = db_storages (sc_db k) \<and>
    rows_of (sc_db k') = rows_of (sc_db k) \<and>
    db_versions (sc_db k') = map (judged (sc_db k) (good E n (stores (sc_eng k) n)) (checked_blocks v k)) (db_versions (sc_db k)) \<and>
    (mo \<longrightarrow> \<not> sc_valid k' \<longrightarrow> uid \<in> set (sc_affected k'))"
proof -
  let ?f = "stores (sc_eng k) n" and ?q = "checked_blocks v k"
  let ?k = "k1\<lparr>sc_valid := True, sc_mismatch := False, sc_affected := [], sc_done := 0\<rparr>"
  have R: "wf_db (sc_db k)" "storage_name_of (sc_db k) v = Inr n" "calm ?f" "sc_history k = None" "fair_sched (env_sched E)"
    "\<forall>b \<in> set ?q. soft E n mo ?f b"
    using ready by (auto simp: scrub_ready_def Let_def checked_blocks_def)
  have wf: "wf_db (sc_db k1)" using R(1) by (simp add: db with_lock_row_def wf_db_def wf_blocks_def)
  have name: "storage_name_of (sc_db k1) v = Inr n" using R(2) by (simp add: db with_lock_row_def storage_name_of_def storage_name_def)
  have q: "scrub_prepare v (sc_history k1) 100 rnd 0 (blocks v (sc_db k1)) = ?q"
    using R(4) blocks_cong [of "sc_db k1" "sc_db k" v] by (simp add: st prepare_all checked_blocks_def db with_lock_row_def)
  have rd: "set (read_order (env_sched E) ?q) = set ?q" "length (read_order (env_sched E) ?q) = length ?q"
    using fair_read [OF R(5)] by auto
  obtain k' where k': "for_each (entry E n v) (read_order (env_sched E) ?q) ?k = (Inr (), k')" "calm (stores (sc_eng k') n)"
    "fs_content (stores (sc_eng k') n) = fs_content ?f" "sc_done k' = length ?q" "sc_valid k' = (\<forall>b \<in> set ?q. good E n ?f b)"
    "sc_db k' = fold (\<lambda>b. scrub_effect mo (good E n ?f b) b) (read_order (env_sched E) ?q) (sc_db k1)"
    using entries [of ?k n "read_order (env_sched E) ?q" E v] R(3,4,6) rd by (auto simp: st)
  have "refers_to (sc_db k1) = refers_to (sc_db k)" by (simp add: db with_lock_row_def refers_to_def fun_eq_iff)
  then have "judged (sc_db k1) (good E n ?f) (read_order (env_sched E) ?q) = judged (sc_db k) (good E n ?f) ?q"
    by (auto simp: judged_def rd fun_eq_iff)
  then have "wf_db (sc_db k') \<and> db_locks (sc_db k') = db_locks (with_lock_row E uid reason (sc_db k)) \<and> db_storages (sc_db k') = db_storages (sc_db k) \<and>
      rows_of (sc_db k') = rows_of (sc_db k) \<and> db_versions (sc_db k') = map (judged (sc_db k) (good E n ?f) ?q) (db_versions (sc_db k))"
    using scrub_fold [OF wf, of mo "good E n ?f" "read_order (env_sched E) ?q"] k'(6)
    by (simp add: db) (simp add: with_lock_row_def rows_of_def)
  moreover have "scrub_blocks E v 100 rnd (\<lambda>n. entry E n v) k1 = (Inr (sc_done k'), k')"
    using k'(1,4) name q by (simp add: scrub_blocks_def Let_def thenS_def bindS_def)
  moreover have "uid \<in> set (sc_affected k')" if "mo" "\<not> sc_valid k'"
  proof -
    obtain b where b: "b \<in> set ?q" "\<not> good E n ?f b" using \<open>\<not> sc_valid k'\<close> k'(5) by blast
    have v: "v \<in> set (db_versions (sc_db k1))" "ver_uid v = uid"
      using ready by (auto simp: scrub_ready_def Let_def get_by_uid_def db with_lock_row_def dest!: find_SomeD split: option.splits)
    have "refers_to (sc_db k1) (blk_uid b) v" using checked_refers [OF b(1)] by (simp add: db with_lock_row_def refers_to_def)
    then show ?thesis
      using entries_affected [of ?k n "read_order (env_sched E) ?q" E v "Inr ()" k'] R(3,4,6) k'(1) wf \<open>mo\<close> b v by (auto simp: st rd)
  qed
  ultimately show ?thesis using k'(2,3,5) by blast
qed

end

lemma deep_scrub_result:
  assumes ready: "scrub_ready uid n v False E k" and st: "is_deep_scrubbable (ver_status v)"
    and run: "deep_scrub E uid None 100 rnd k = (r, k')"
  shows "let good = deep_sound E n (stores (sc_eng k) n); bs = checked_blocks v k; all_good = (\<forall>b \<in> set bs. good b) in
    r = (if all_good then Inr () else Inl ScrubbingError) \<and>
    db_versions (sc_db k') = map (\<lambda>w. if all_good \<and> ver_id w = ver_id v then w\<lparr>ver_status := valid\<rparr> else judged (sc_db k) good bs w)
      (db_versions (sc_db k)) \<and>
    (\<forall>b \<in> set bs. refers_to (sc_db k) (blk_uid b) v) \<and>
    rows_of (sc_db k') = rows_of (sc_db k) \<and> db_locks (sc_db k') = db_locks (sc_db k) \<and>
    fs_content (stores (sc_eng k') n) = fs_content (stores (sc_eng k) n)"
proof -
  let ?f = "stores (sc_eng k) n" and ?q = "checked_blocks v k"
  have free: "version_lock_name uid \<notin> set (map lck_name (db_locks (sc_db k)))" using ready by (simp add: scrub_ready_def Let_def)
  have "deep_check None v = Inr ()" using st by (simp add: deep_check_def)
  from scrub_open_ok [of uid n v False E k "deep_check None" "''Deep-scrubbing''", OF ready this] obtain k1 where
    k1: "scrub_open E uid ''Deep-scrubbing'' (deep_check None) k = (Inr v, k1)"
    "sc_db k1 = with_lock_row E uid ''Deep-scrubbing'' (sc_db k)" "stores (sc_eng k1) = stores (sc_eng k)" "sc_history k1 = sc_history k"
    by blast
  have name: "storage_name_of (sc_db k1) v = Inr n"
    using ready by (simp add: scrub_ready_def Let_def k1(2) with_lock_row_def storage_name_of_def storage_name_def)
  obtain k2 where k2: "scrub_blocks E v 100 rnd (\<lambda>n. deep_entry E n v None) k1 = (Inr (sc_done k2), k2)"
    "fs_content (stores (sc_eng k2) n) = fs_content ?f" "sc_valid k2 = (\<forall>b \<in> set ?q. deep_sound E n ?f b)" "wf_db (sc_db k2)"
    "db_locks (sc_db k2) = db_locks (with_lock_row E uid ''Deep-scrubbing'' (sc_db k))" "rows_of (sc_db k2) = rows_of (sc_db k)"
    "db_versions (sc_db k2) = map (judged (sc_db k) (deep_sound E n ?f) ?q) (db_versions (sc_db k))"
    using deep.scrub_blocks_ok [OF ready k1(2-4), of rnd] by blast
  define k3 where "k3 = (if sc_valid k2 then k2\<lparr>sc_eng := (sc_eng k2)\<lparr>ses := set_version v (Some valid) None (ses (sc_eng k2))\<rparr>\<rparr> else k2)"
  have k3: "db_locks (sc_db k3) = db_locks (sc_db k2)" "rows_of (sc_db k3) = rows_of (sc_db k2)" "stores (sc_eng k3) = stores (sc_eng k2)"
    "db_versions (sc_db k3) = map (\<lambda>w. if sc_valid k2 \<and> ver_id w = ver_id v then w\<lparr>ver_status := valid\<rparr> else w) (db_versions (sc_db k2))"
    by (simp_all add: k3_def set_version_def set_attrs_def rows_of_def cong: if_cong)
  obtain k4 where k4: "sc_session (unlock_version (env_me E) uid) k3 = (Inr (), k4)" "sc_db k4 = (sc_db k3)\<lparr>db_locks := db_locks (sc_db k)\<rparr>"
    "stores (sc_eng k4) = stores (sc_eng k3)"
    using unlock_row [OF free, of k3 E "''Deep-scrubbing''"] k2(5) k3(1) by auto
  have "deep_scrub E uid None 100 rnd k = (if sc_valid k2 then Inr () else Inl ScrubbingError, k4)"
    using k1(1) k2(1) name k4(1)
    by (simp add: deep_scrub_def Let_def py_defs sc_session_def on_session_def k3_def split: if_splits)
  then have r: "r = (if sc_valid k2 then Inr () else Inl ScrubbingError)" "k' = k4" using run by simp_all
  have "judged (sc_db k) (deep_sound E n ?f) ?q w = w" if "sc_valid k2" for w using that k2(3) by (simp add: judged_def)
  then have "db_versions (sc_db k') = map (\<lambda>w. if sc_valid k2 \<and> ver_id w = ver_id v then w\<lparr>ver_status := valid\<rparr>
      else judged (sc_db k) (deep_sound E n ?f) ?q w) (db_versions (sc_db k))"
    using r(2) k4(2) k3(4) k2(7) by auto
  then show ?thesis
    unfolding Let_def using r k2(2,3,6) k3(2,3) k4(2,3) checked_refers by (simp add: rows_of_def)
qed

text \<open>C7: A full deep scrub of a version returns normally exactly when every block of it can be read from the storage,
  its metadata fits and its data has the recorded checksum; then the version is marked valid and no other version is
  touched. Otherwise it raises \<open>ScrubbingError\<close>, and exactly the versions that refer to a bad block, this one among
  them, are marked invalid. The storage is not changed, and the lock is released either way.\<close>

theorem deep_scrub_verdict:
  assumes ready: "scrub_ready uid n v False E k" and st: "is_deep_scrubbable (ver_status v)"
    and run: "deep_scrub E uid None 100 rnd k = (r, k')"
  shows "let good = deep_sound E n (stores (sc_eng k) n); bs = checked_blocks v k; all_good = (\<forall>b \<in> set bs. good b) in
    r = (if all_good then Inr () else Inl ScrubbingError) \<and>
    db_versions (sc_db k') = map (\<lambda>w. if all_good \<and> ver_id w = ver_id v then w\<lparr>ver_status := valid\<rparr> else judged (sc_db k) good bs w)
      (db_versions (sc_db k)) \<and>
    (\<forall>b \<in> set bs. refers_to (sc_db k) (blk_uid b) v) \<and>
    rows_of (sc_db k') = rows_of (sc_db k) \<and> db_locks (sc_db k') = db_locks (sc_db k) \<and>
    fs_content (stores (sc_eng k') n) = fs_content (stores (sc_eng k) n)"
  by (rule deep_scrub_result [OF assms])

definition lost_engine :: engine where
  "lost_engine = \<lparr> ses = session_on \<lparr> db_versions = [hole_version], db_blocks = [demo_stored_block 0], db_labels = [], db_deleted = [],
     db_locks = [], db_storages = [\<lparr> sto_id = 1, sto_name = ''s'', sto_module = ''file'' \<rparr>] \<rparr>, stores = (\<lambda>_. demo_fs) \<rparr>"

definition lost_scr :: scr where
  "lost_scr = \<lparr> sc_eng = lost_engine, sc_history = None, sc_valid = True, sc_mismatch = False, sc_affected = [], sc_done = 0 \<rparr>"

lemmas lost_defs = lost_scr_def lost_engine_def hole_version_def demo_version_def demo_stored_block_def

lemma lost_read: "fst (storage_read (env_cf demo_env ''s'') file_backend (demo_stored_block 0) mo demo_fs) = Inl (InvalidBlockException (demo_stored_block 0))"
proof -
  have "key_uid (blk_uid (demo_stored_block 0))" by (simp add: demo_block_facts)
  then obtain key where "block_to_path (md5_hex demo_conf) (blk_uid (demo_stored_block 0)) = Inr key" by (rule block_to_path_Inr)
  then show ?thesis
    by (simp add: storage_read_def demo_env_def bindS_def exceptS_def file_backend_def file_read_def file_read_length_def demo_fs_def)
qed

lemma lost_blocks: "blocks hole_version (sc_db lost_scr) = [demo_stored_block 0, create_sparse_block hole_version 1]"
proof -
  have "blocks hole_version (sc_db lost_scr) = map (\<lambda>i. get_block_by_idx hole_version i (sc_db lost_scr)) (py_range 0 (blocks_count hole_version))"
    by (rule blocks_eq) (simp_all add: wf_blocks_def lost_defs)
  moreover have "py_range 0 (blocks_count hole_version) = [0, 1]" by code_simp
  ultimately show ?thesis by (simp add: get_block_by_idx_def query_block_def lost_defs)
qed

lemma lost_checked: "checked_blocks hole_version lost_scr = [demo_stored_block 0]"
  by (simp add: checked_blocks_def lost_blocks) (simp add: create_sparse_block_def demo_stored_block_def)

lemma lost_ready: "scrub_ready ''v1'' ''s'' hole_version mo demo_env lost_scr"
proof -
  have "\<forall>b \<in> set (blocks hole_version (sc_db lost_scr)). uid_bool (blk_uid b) \<longrightarrow> soft demo_env ''s'' mo demo_fs b"
    using lost_read by (simp add: lost_blocks soft_def create_sparse_block_def)
  then show ?thesis
    by (simp add: scrub_ready_def Let_def demo_fair)
       (simp add: lost_defs wf_db_def wf_blocks_def get_by_uid_def storage_name_of_def storage_name_def calm_demo_fs)
qed

theorem deep_scrub_verdict_witness:
  "\<exists>k'. deep_scrub demo_env ''v1'' None 100 (\<lambda>_. 1) lost_scr = (Inl ScrubbingError, k') \<and>
     db_versions (sc_db k') = [hole_version\<lparr>ver_status := invalid\<rparr>]"
proof -
  obtain r k' where run: "deep_scrub demo_env ''v1'' None 100 (\<lambda>_. 1) lost_scr = (r, k')" by force
  have bad: "\<not> deep_sound demo_env ''s'' (stores (sc_eng lost_scr) ''s'') (demo_stored_block 0)"
    using lost_read [of False] by (simp add: deep_sound_def lost_scr_def lost_engine_def)
  have "is_deep_scrubbable (ver_status hole_version)" by (simp add: lost_defs is_deep_scrubbable_def)
  from deep_scrub_verdict [OF lost_ready this run] have "r = Inl ScrubbingError"
    "db_versions (sc_db k') = map (judged (sc_db lost_scr) (deep_sound demo_env ''s'' (stores (sc_eng lost_scr) ''s'')) [demo_stored_block 0]) (db_versions (sc_db lost_scr))"
    using bad by (simp_all add: Let_def lost_checked)
  moreover have "judged (sc_db lost_scr) (deep_sound demo_env ''s'' (stores (sc_eng lost_scr) ''s'')) [demo_stored_block 0] hole_version =
      hole_version\<lparr>ver_status := invalid\<rparr>"
    using bad by (simp add: judged_def) (simp add: refers_to_def lost_defs)
  moreover have "db_versions (sc_db lost_scr) = [hole_version]" by (simp add: lost_scr_def lost_engine_def)
  ultimately show ?thesis using run by simp
qed

text \<open>A full scrub returns normally exactly when the metadata of every block fits; otherwise it raises
  \<open>ScrubbingError\<close> and exactly the versions that refer to a bad block are marked invalid. It never marks anything valid,
  leaves the storage as it is, and releases the lock.\<close>

theorem scrub_verdict:
  assumes ready: "scrub_ready uid n v True E k" and st: "is_scrubbable (ver_status v)"
    and run: "scrub E uid 100 rnd k = (r, k')"
  shows "let good = meta_sound E n (stores (sc_eng k) n); bs = checked_blocks v k in
    r = (if \<forall>b \<in> set bs. good b then Inr () else Inl ScrubbingError) \<and>
    db_versions (sc_db k') = map (judged (sc_db k) good bs) (db_versions (sc_db k)) \<and>
    rows_of (sc_db k') = rows_of (sc_db k) \<and> db_locks (sc_db k') = db_locks (sc_db k) \<and>
    fs_content (stores (sc_eng k') n) = fs_content (stores (sc_eng k) n)"
proof -
  let ?f = "stores (sc_eng k) n" and ?q = "checked_blocks v k" and ?check = "\<lambda>v. if is_scrubbable (ver_status v) then Inr () else Inl ScrubbingError"
  have free: "version_lock_name uid \<notin> set (map lck_name (db_locks (sc_db k)))" using ready by (simp add: scrub_ready_def Let_def)
  have "?check v = Inr ()" using st by simp
  from scrub_open_ok [of uid n v True E k ?check "''Scrubbing version''", OF ready this] obtain k1 where
    k1: "scrub_open E uid ''Scrubbing version'' ?check k = (Inr v, k1)"
    "sc_db k1 = with_lock_row E uid ''Scrubbing version'' (sc_db k)" "stores (sc_eng k1) = stores (sc_eng k)" "sc_history k1 = sc_history k"
    by blast
  obtain k2 where k2: "scrub_blocks E v 100 rnd (\<lambda>n. scrub_entry E n v) k1 = (Inr (sc_done k2), k2)"
    "fs_content (stores (sc_eng k2) n) = fs_content ?f" "sc_valid k2 = (\<forall>b \<in> set ?q. meta_sound E n ?f b)"
    "db_locks (sc_db k2) = db_locks (with_lock_row E uid ''Scrubbing version'' (sc_db k))" "rows_of (sc_db k2) = rows_of (sc_db k)"
    "db_versions (sc_db k2) = map (judged (sc_db k) (meta_sound E n ?f) ?q) (db_versions (sc_db k))"
    "\<not> sc_valid k2 \<longrightarrow> uid \<in> set (sc_affected k2)"
    using shallow.scrub_blocks_ok [OF ready k1(2-4), of rnd] by blast
  obtain k4 where k4: "sc_session (unlock_version (env_me E) uid) k2 = (Inr (), k4)" "sc_db k4 = (sc_db k2)\<lparr>db_locks := db_locks (sc_db k)\<rparr>"
    "stores (sc_eng k4) = stores (sc_eng k2)" "sc_valid k4 = sc_valid k2" "sc_done k4 = sc_done k2" "sc_affected k4 = sc_affected k2"
    using unlock_row [OF free k2(4)] by blast
  have "scrub E uid 100 rnd k = (if sc_valid k2 then Inr () else Inl ScrubbingError, k4)"
    using k1(1) k2(1,7) k4(1,4-6) by (simp add: scrub_def py_defs)
  then show ?thesis
    unfolding Let_def using run k2(2,3,5,6) k4(2,3) by (simp add: rows_of_def)
qed

theorem scrub_verdict_witness:
  "\<exists>k'. scrub demo_env ''v1'' 100 (\<lambda>_. 1) lost_scr = (Inl ScrubbingError, k') \<and> db_locks (sc_db k') = []"
proof -
  obtain r k' where run: "scrub demo_env ''v1'' 100 (\<lambda>_. 1) lost_scr = (r, k')" by force
  have bad: "\<not> meta_sound demo_env ''s'' (stores (sc_eng lost_scr) ''s'') (demo_stored_block 0)"
    using lost_read [of True] by (simp add: meta_sound_def lost_scr_def lost_engine_def)
  have "is_scrubbable (ver_status hole_version)" by (simp add: lost_defs is_scrubbable_def)
  from scrub_verdict [OF lost_ready this run] have "r = Inl ScrubbingError" "db_locks (sc_db k') = db_locks (sc_db lost_scr)"
    using bad by (simp_all add: Let_def lost_checked)
  then show ?thesis using run by (simp add: lost_scr_def lost_engine_def)
qed

end
