(* ===== verification/Job_Executor.thy ===== *)
theory Job_Executor
  imports Benji_Types
begin

text \<open>
  \<open>JobExecutor\<close> of \<open>jobexecutor.py\<close>, through which the storages and IO modules read, write and remove in parallel. The thread
  pool and the semaphore belong to the language's library; every point where the threads can interleave is a step: a submission,
  a worker taking a job, passing the semaphore or finishing, the consumer taking a result, a cancellation. A step is
  a function into \<open>option\<close>, \<open>None\<close> where the thread is blocked or there is nothing to do.
\<close>

datatype 'r job_status = Queued | Waiting | Running | Finished 'r | Cancelled

record 'r executor =
  je_blocking :: bool
  je_workers :: nat
  je_sem :: nat
  je_futures :: "(nat \<times> 'r job_status) list"

definition je_limit :: "'r executor \<Rightarrow> nat" where
  "je_limit x = 2 * je_workers x + 1"

definition new_executor :: "nat \<Rightarrow> bool \<Rightarrow> 'r executor" where
  "new_executor workers blocking =
     \<lparr> je_blocking = blocking, je_workers = workers, je_sem = 2 * workers + 1, je_futures = [] \<rparr>"

definition je_count :: "('r job_status \<Rightarrow> bool) \<Rightarrow> 'r executor \<Rightarrow> nat" where
  "je_count P x = length (filter (\<lambda>f. P (snd f)) (je_futures x))"

definition set_status :: "nat \<Rightarrow> 'r job_status \<Rightarrow> 'r executor \<Rightarrow> 'r executor" where
  "set_status j st x = x\<lparr>je_futures := map (\<lambda>f. if fst f = j then (j, st) else f) (je_futures x)\<rparr>"

definition status_of :: "nat \<Rightarrow> 'r executor \<Rightarrow> 'r job_status option" where
  "status_of j x = map_of (je_futures x) j"

text \<open>\<open>submit\<close>: with \<open>blocking_submit\<close> the caller waits for the semaphore. A future is a new object, so its number is fresh.\<close>

definition je_submit :: "nat \<Rightarrow> 'r executor \<Rightarrow> 'r executor option" where
  "je_submit j x =
     (if j \<in> fst ` set (je_futures x) then None
      else if je_blocking x then
        (if je_sem x = 0 then None else Some (x\<lparr>je_sem := je_sem x - 1, je_futures := je_futures x @ [(j, Queued)]\<rparr>))
      else Some (x\<lparr>je_futures := je_futures x @ [(j, Queued)]\<rparr>))"

text \<open>A free worker takes a queued job; without \<open>blocking_submit\<close> the job waits for the semaphore inside the worker.\<close>

definition occupies_worker :: "'r job_status \<Rightarrow> bool" where
  "occupies_worker st \<longleftrightarrow> st = Waiting \<or> st = Running"

definition je_start :: "nat \<Rightarrow> 'r executor \<Rightarrow> 'r executor option" where
  "je_start j x =
     (if status_of j x = Some Queued \<and> je_count occupies_worker x < je_workers x
      then Some (set_status j (if je_blocking x then Running else Waiting) x) else None)"

definition je_acquire :: "nat \<Rightarrow> 'r executor \<Rightarrow> 'r executor option" where
  "je_acquire j x =
     (if status_of j x = Some Waiting \<and> 0 < je_sem x
      then Some (set_status j Running (x\<lparr>je_sem := je_sem x - 1\<rparr>)) else None)"

text \<open>\<open>BoundedSemaphore.release\<close> raises \<open>ValueError\<close> when the counter would exceed its initial value.\<close>

definition sem_release :: "'r executor \<Rightarrow> 'r executor res" where
  "sem_release x = (if je_limit x \<le> je_sem x then Inl ValueError else Inr (x\<lparr>je_sem := je_sem x + 1\<rparr>))"

text \<open>The job's function returns or raises; with \<open>blocking_submit\<close> the worker releases the semaphore in the \<open>finally\<close> clause.\<close>

definition je_finish :: "nat \<Rightarrow> 'r \<Rightarrow> 'r executor \<Rightarrow> 'r executor res option" where
  "je_finish j r x =
     (if status_of j x \<noteq> Some Running then None
      else Some (let y = set_status j (Finished r) x in if je_blocking x then sem_release y else Inr y))"

text \<open>
  One iteration of \<open>get_completed\<close>: the future is dropped, and without \<open>blocking_submit\<close> the semaphore is released unless the
  job was cancelled. The result is \<open>None\<close> for a cancelled job, whose \<open>CancelledError\<close> is yielded.
\<close>

definition je_get :: "nat \<Rightarrow> 'r executor \<Rightarrow> ('r option \<times> 'r executor) res option" where
  "je_get j x =
     (let y = x\<lparr>je_futures := filter (\<lambda>f. fst f \<noteq> j) (je_futures x)\<rparr> in
      case status_of j x of
        Some (Finished r) \<Rightarrow>
          Some (if je_blocking x then Inr (Some r, y) else bind_res (sem_release y) (\<lambda>z. Inr (Some r, z)))
      | Some Cancelled \<Rightarrow> Some (Inr (None, y))
      | _ \<Rightarrow> None)"

text \<open>\<open>shutdown\<close> cancels the outstanding futures: only queued ones can still be cancelled.\<close>

definition je_cancel :: "'r executor \<Rightarrow> 'r executor" where
  "je_cancel x = x\<lparr>je_futures := map (\<lambda>(j, st). (j, if st = Queued then Cancelled else st)) (je_futures x)\<rparr>"

section \<open>Interleavings\<close>

datatype 'r job_event = Submit nat | Start nat | Acquire nat | Finish nat 'r | Deliver nat "'r option" | Shutdown

inductive je_step :: "'r executor \<Rightarrow> 'r job_event \<Rightarrow> 'r executor \<Rightarrow> bool" where
  step_submit: "je_submit j x = Some y \<Longrightarrow> je_step x (Submit j) y"
| step_start: "je_start j x = Some y \<Longrightarrow> je_step x (Start j) y"
| step_acquire: "je_acquire j x = Some y \<Longrightarrow> je_step x (Acquire j) y"
| step_finish: "je_finish j r x = Some (Inr y) \<Longrightarrow> je_step x (Finish j r) y"
| step_get: "je_get j x = Some (Inr (r, y)) \<Longrightarrow> je_step x (Deliver j r) y"
| step_cancel: "je_step x Shutdown (je_cancel x)"

inductive_cases je_stepE: "je_step x ev y"

inductive je_run :: "'r executor \<Rightarrow> 'r job_event list \<Rightarrow> 'r executor \<Rightarrow> bool" where
  run_nil: "je_run x [] x"
| run_step: "je_run x evs y \<Longrightarrow> je_step y ev z \<Longrightarrow> je_run x (evs @ [ev]) z"

text \<open>
  The invariant: futures are distinct, the workers are not overcommitted, and the semaphore's counter and the tokens in use do not
  exceed the limit; without \<open>blocking_submit\<close> they make it up exactly. A token is held by an unfinished job (with
  \<open>blocking_submit\<close>; cancelling loses it) or by a running job or a result not yet taken (without).
\<close>

definition holds_token :: "bool \<Rightarrow> 'r job_status \<Rightarrow> bool" where
  "holds_token blocking st =
     (if blocking then (case st of Finished _ \<Rightarrow> False | _ \<Rightarrow> True)
      else (case st of Running \<Rightarrow> True | Finished _ \<Rightarrow> True | _ \<Rightarrow> False))"

definition je_inv :: "'r executor \<Rightarrow> bool" where
  "je_inv x \<longleftrightarrow> distinct (map fst (je_futures x)) \<and> je_count occupies_worker x \<le> je_workers x \<and>
     je_sem x + je_count (holds_token (je_blocking x)) x \<le> je_limit x \<and>
     (\<not> je_blocking x \<longrightarrow> je_sem x + je_count (holds_token (je_blocking x)) x = je_limit x) \<and>
     (je_blocking x \<longrightarrow> je_count (\<lambda>st. st = Waiting) x = 0)"

lemma count_set_status:
  assumes "distinct (map fst (je_futures x))" and "status_of j x = Some st"
  shows "je_count P (set_status j st' x) + (if P st then 1 else 0) = je_count P x + (if P st' then 1 else 0)"
proof -
  have "distinct (map fst fs) \<Longrightarrow> map_of fs j = Some st \<Longrightarrow>
      length (filter (\<lambda>f. P (snd f)) (map (\<lambda>f. if fst f = j then (j, st') else f) fs)) + (if P st then 1 else 0) =
      length (filter (\<lambda>f. P (snd f)) fs) + (if P st' then 1 else 0)" for fs
  proof (induction fs)
    case (Cons f fs)
    show ?case
    proof (cases "fst f = j")
      case True
      then have "\<forall>g \<in> set fs. fst g \<noteq> j" using Cons.prems(1) by (auto simp: image_iff)
      then have "map (\<lambda>f. if fst f = j then (j, st') else f) fs = fs" by (simp add: map_idI)
      then show ?thesis using True Cons.prems(2) by auto
    next
      case False
      then show ?thesis using Cons by (cases f) auto
    qed
  qed simp
  then show ?thesis using assms by (simp add: je_count_def set_status_def status_of_def)
qed

lemma count_drop:
  assumes "distinct (map fst (je_futures x))" and "status_of j x = Some st"
  shows "je_count P (x\<lparr>je_futures := filter (\<lambda>f. fst f \<noteq> j) (je_futures x)\<rparr>) + (if P st then 1 else 0) = je_count P x"
proof -
  have "distinct (map fst fs) \<Longrightarrow> map_of fs j = Some st \<Longrightarrow>
      length (filter (\<lambda>f. P (snd f)) (filter (\<lambda>f. fst f \<noteq> j) fs)) + (if P st then 1 else 0) = length (filter (\<lambda>f. P (snd f)) fs)" for fs
  proof (induction fs)
    case (Cons f fs)
    show ?case
    proof (cases "fst f = j")
      case True
      then have "\<forall>g \<in> set fs. fst g \<noteq> j" using Cons.prems(1) by (auto simp: image_iff)
      then have "filter (\<lambda>f. fst f \<noteq> j) fs = fs" by (simp add: filter_id_conv)
      then show ?thesis using True Cons.prems(2) by auto
    next
      case False
      then show ?thesis using Cons by (cases f) auto
    qed
  qed simp
  then show ?thesis using assms by (simp add: je_count_def status_of_def)
qed

lemma set_status_simps [simp]:
  "map fst (je_futures (set_status j st x)) = map fst (je_futures x)" "je_sem (set_status j st x) = je_sem x"
  "je_blocking (set_status j st x) = je_blocking x" "je_workers (set_status j st x) = je_workers x"
  by (auto simp: set_status_def)

lemma count_update [simp]: "je_count P (x\<lparr>je_sem := k\<rparr>) = je_count P x"
  by (simp add: je_count_def)

lemma status_update [simp]: "status_of j (x\<lparr>je_sem := k\<rparr>) = status_of j x"
  by (simp add: status_of_def)

lemma count_append: "je_count P (x\<lparr>je_futures := je_futures x @ [f]\<rparr>) = je_count P x + (if P (snd f) then 1 else 0)"
  by (simp add: je_count_def)

lemma limit_simps [simp]:
  "je_limit (set_status j st x) = je_limit x" "je_limit (x\<lparr>je_sem := k\<rparr>) = je_limit x" "je_limit (x\<lparr>je_futures := fs\<rparr>) = je_limit x"
  by (simp_all add: je_limit_def)

lemma count_pos: "status_of j x = Some st \<Longrightarrow> P st \<Longrightarrow> 0 < je_count P x"
  unfolding je_count_def status_of_def length_greater_0_conv filter_empty_conv by (metis map_of_SomeD snd_conv)

lemma new_inv: "je_inv (new_executor w b)"
  by (simp add: je_inv_def new_executor_def je_count_def je_limit_def)

lemma je_submit_inv: "je_inv x \<Longrightarrow> je_submit j x = Some y \<Longrightarrow> je_inv y"
  by (auto simp: je_submit_def je_inv_def je_count_def je_limit_def holds_token_def occupies_worker_def split: if_splits)

lemma set_status_inv:
  assumes "je_inv x" and "status_of j x = Some st"
    and "occupies_worker st' \<Longrightarrow> \<not> occupies_worker st \<Longrightarrow> je_count occupies_worker x < je_workers x"
    and "je_blocking x \<Longrightarrow> st' \<noteq> Waiting"
    and "je_sem y + (if holds_token (je_blocking x) st' then 1 else 0) = je_sem x + (if holds_token (je_blocking x) st then 1 else 0)"
    and "y = (set_status j st' x)\<lparr>je_sem := k\<rparr>"
  shows "je_inv y"
proof -
  have d: "distinct (map fst (je_futures x))" using assms(1) by (simp add: je_inv_def)
  note c = count_set_status [OF d assms(2), of _ st']
  have "je_count occupies_worker y \<le> je_workers x"
    using c [of occupies_worker] assms(1,3,6) by (auto simp: je_inv_def split: if_splits)
  moreover have "je_sem y + je_count (holds_token (je_blocking x)) y = je_sem x + je_count (holds_token (je_blocking x)) x"
    using c [of "holds_token (je_blocking x)"] assms(5,6) by (auto split: if_splits)
  moreover have "je_count (\<lambda>st. st = Waiting) y = 0" if "je_blocking x"
    using c [of "\<lambda>st. st = Waiting"] assms(1,4,6) that by (auto simp: je_inv_def split: if_splits)
  ultimately show ?thesis using assms(1,6) by (cases "je_blocking x") (simp_all add: je_inv_def)
qed

lemma start_inv:
  assumes "je_inv x" and "je_start j x = Some y"
  shows "je_inv y"
proof -
  have st: "status_of j x = Some Queued" "je_count occupies_worker x < je_workers x"
    and y: "y = (set_status j (if je_blocking x then Running else Waiting) x)\<lparr>je_sem := je_sem x\<rparr>"
    using assms(2) by (auto simp: je_start_def split: if_splits)
  show ?thesis by (rule set_status_inv [OF assms(1) st(1) _ _ _ y]) (use st y in \<open>auto simp: holds_token_def\<close>)
qed

lemma acquire_inv:
  assumes "je_inv x" and "je_acquire j x = Some y"
  shows "je_inv y"
proof -
  have st: "status_of j x = Some Waiting" "0 < je_sem x" and y: "y = (set_status j Running x)\<lparr>je_sem := je_sem x - 1\<rparr>"
    using assms(2) by (auto simp: je_acquire_def set_status_def split: if_splits)
  have "\<not> je_blocking x" using assms(1) count_pos [OF st(1), of "\<lambda>s. s = Waiting"] by (auto simp: je_inv_def)
  then show ?thesis
    by (intro set_status_inv [OF assms(1) st(1) _ _ _ y]) (use st y in \<open>auto simp: holds_token_def occupies_worker_def\<close>)
qed

text \<open>A held token means that the counter is below its limit, so releasing it is no error.\<close>

lemma release_ok:
  assumes "je_inv x" and "status_of j x = Some st" and "holds_token (je_blocking x) st"
  shows "je_sem x < je_limit x"
  using assms count_pos [OF assms(2), of "holds_token (je_blocking x)"] by (simp add: je_inv_def)

lemma finish_inv:
  assumes "je_inv x" and "je_finish j r x = Some q"
  obtains y where "q = Inr y" "je_inv y" "map fst (je_futures y) = map fst (je_futures x)"
proof -
  have st: "status_of j x = Some Running" using assms(2) by (auto simp: je_finish_def split: if_splits)
  define y where "y = (set_status j (Finished r) x)\<lparr>je_sem := (if je_blocking x then je_sem x + 1 else je_sem x)\<rparr>"
  have "je_sem x < je_limit x" if "je_blocking x" using release_ok [OF assms(1) st] that by (simp add: holds_token_def)
  then have "q = Inr y" using assms(2) by (auto simp: je_finish_def sem_release_def Let_def y_def split: if_splits)
  moreover have "je_inv y"
    by (rule set_status_inv [OF assms(1) st _ _ _ y_def]) (auto simp: y_def holds_token_def occupies_worker_def)
  moreover have "map fst (je_futures y) = map fst (je_futures x)" by (simp add: y_def)
  ultimately show thesis by (rule that)
qed

lemma get_inv:
  assumes "je_inv x" and "je_get j x = Some q"
  obtains r y where "q = Inr (r, y)" "je_inv y" "je_futures y = filter (\<lambda>f. fst f \<noteq> j) (je_futures x)" "status_of j x \<noteq> None"
proof -
  let ?y = "x\<lparr>je_futures := filter (\<lambda>f. fst f \<noteq> j) (je_futures x)\<rparr>"
  have d: "distinct (map fst (je_futures x))" using assms(1) by (simp add: je_inv_def)
  obtain st where st: "status_of j x = Some st" and ends: "st = Cancelled \<or> (\<exists>r. st = Finished r)"
    using assms(2) by (auto simp: je_get_def Let_def split: option.splits job_status.splits)
  note c = count_drop [OF d st]
  have dy: "distinct (map fst (je_futures ?y))" using d by (simp add: distinct_map_filter)
  define b where "b = (\<not> je_blocking x \<and> st \<noteq> Cancelled)"
  define y where "y = ?y\<lparr>je_sem := (if b then je_sem x + 1 else je_sem x)\<rparr>"
  have "je_sem x < je_limit x" if b using release_ok [OF assms(1) st] that ends by (auto simp: holds_token_def b_def)
  then have q: "q = Inr (case st of Finished r \<Rightarrow> Some r | _ \<Rightarrow> None, y)"
    using assms(2) st ends by (auto simp: je_get_def Let_def sem_release_def y_def b_def)
  have "je_count occupies_worker y \<le> je_workers x" using c [of occupies_worker] assms(1) by (simp add: je_inv_def y_def)
  moreover have "je_count (\<lambda>st. st = Waiting) y = 0" if "je_blocking x"
    using c [of "\<lambda>st. st = Waiting"] assms(1) that by (simp add: je_inv_def y_def)
  moreover have "je_sem y + je_count (holds_token (je_blocking x)) y \<le> je_sem x + je_count (holds_token (je_blocking x)) x"
    "\<not> je_blocking x \<Longrightarrow> je_sem y + je_count (holds_token (je_blocking x)) y = je_sem x + je_count (holds_token (je_blocking x)) x"
    using c [of "holds_token (je_blocking x)"] ends by (auto simp: y_def b_def holds_token_def)
  ultimately have "je_inv y" using assms(1) dy by (auto simp: je_inv_def y_def)
  then show thesis using q st by (intro that [of _ y]) (simp_all add: y_def)
qed

lemma cancel_inv:
  assumes "je_inv x"
  shows "je_inv (je_cancel x)" "map fst (je_futures (je_cancel x)) = map fst (je_futures x)"
proof -
  have c: "je_count P (je_cancel x) = je_count Q x" if "\<And>st. P (if st = Queued then Cancelled else st) = Q st"
    for P Q :: "'a job_status \<Rightarrow> bool"
    by (simp add: je_count_def je_cancel_def filter_map comp_def case_prod_unfold that)
  have "je_count occupies_worker (je_cancel x) = je_count occupies_worker x"
    "je_count (holds_token b) (je_cancel x) = je_count (holds_token b) x"
    "je_count (\<lambda>st. st = Waiting) (je_cancel x) = je_count (\<lambda>st. st = Waiting) x" for b
    by (rule c; simp add: occupies_worker_def holds_token_def split: job_status.splits)+
  moreover show m: "map fst (je_futures (je_cancel x)) = map fst (je_futures x)" by (simp add: je_cancel_def case_prod_unfold)
  moreover have "je_sem (je_cancel x) = je_sem x" "je_blocking (je_cancel x) = je_blocking x" "je_workers (je_cancel x) = je_workers x"
    "je_limit (je_cancel x) = je_limit x" by (simp_all add: je_cancel_def)
  ultimately show "je_inv (je_cancel x)" using assms by (simp add: je_inv_def)
qed

section \<open>Runs\<close>

lemma step_inv: "je_step x ev y \<Longrightarrow> je_inv x \<Longrightarrow> je_inv y"
  by (erule je_stepE) (metis je_submit_inv start_inv acquire_inv finish_inv get_inv cancel_inv(1) Inr_inject Pair_inject)+

lemma run_inv: "je_run x evs y \<Longrightarrow> je_inv x \<Longrightarrow> je_inv y"
  by (induction rule: je_run.induct) (auto intro: step_inv)

definition submitted :: "'r job_event list \<Rightarrow> nat list" where
  "submitted evs = List.map_filter (\<lambda>e. case e of Submit j \<Rightarrow> Some j | _ \<Rightarrow> None) evs"

definition delivered :: "'r job_event list \<Rightarrow> nat list" where
  "delivered evs = List.map_filter (\<lambda>e. case e of Deliver j r \<Rightarrow> Some j | _ \<Rightarrow> None) evs"

lemma map_filter_append: "List.map_filter f (xs @ ys) = List.map_filter f xs @ List.map_filter f ys"
  by (induction xs) (auto simp: List.map_filter_simps split: option.splits)

lemma mset_drop_key:
  assumes "distinct (map fst fs)" and "j \<in> fst ` set fs"
  shows "mset (map fst (filter (\<lambda>f. fst f \<noteq> j) fs)) + {#j#} = mset (map fst fs)"
  using assms
proof (induction fs)
  case (Cons f fs)
  show ?case
  proof (cases "fst f = j")
    case True
    then have "\<forall>g \<in> set fs. fst g \<noteq> j" using Cons.prems(1) by (auto simp: image_iff)
    then have "filter (\<lambda>f. fst f \<noteq> j) fs = fs" by (simp add: filter_id_conv)
    then show ?thesis using True by simp
  next
    case False
    then show ?thesis using Cons by auto
  qed
qed simp

lemma run_accounts:
  assumes "je_run x evs y" and "je_inv x" and "je_futures x = []"
  shows "mset (submitted evs) = mset (delivered evs) + mset (map fst (je_futures y))"
  using assms
proof (induction rule: je_run.induct)
  case (run_nil x)
  then show ?case by (simp add: submitted_def delivered_def List.map_filter_simps)
next
  case (run_step x evs y ev z)
  have inv: "je_inv y" using run_inv run_step by blast
  have ih: "mset (submitted evs) = mset (delivered evs) + mset (map fst (je_futures y))" using run_step by blast
  note ap = submitted_def delivered_def map_filter_append List.map_filter_simps
  show ?case using run_step.hyps(2)
  proof cases
    case (step_submit j)
    then have "map fst (je_futures z) = map fst (je_futures y) @ [j]" by (auto simp: je_submit_def split: if_splits)
    then show ?thesis using ih step_submit by (simp add: ap)
  next
    case (step_start j)
    then have "map fst (je_futures z) = map fst (je_futures y)" by (auto simp: je_start_def split: if_splits)
    then show ?thesis using ih step_start by (simp add: ap)
  next
    case (step_acquire j)
    then have "map fst (je_futures z) = map fst (je_futures y)" by (auto simp: je_acquire_def split: if_splits)
    then show ?thesis using ih step_acquire by (simp add: ap)
  next
    case (step_finish j r)
    have "map fst (je_futures z) = map fst (je_futures y)"
      by (rule finish_inv [OF inv step_finish(2)]) simp
    then show ?thesis using ih step_finish by (simp add: ap)
  next
    case (step_get j r)
    obtain "je_futures z = filter (\<lambda>f. fst f \<noteq> j) (je_futures y)" "status_of j y \<noteq> None"
      by (rule get_inv [OF inv step_get(2)]) simp
    then have "mset (map fst (je_futures z)) + {#j#} = mset (map fst (je_futures y))"
      using mset_drop_key [of "je_futures y" j] inv by (auto simp: je_inv_def status_of_def map_of_eq_None_iff)
    then show ?thesis using ih step_get(1) by (simp add: ap)
  next
    case step_cancel
    then have "map fst (je_futures z) = map fst (je_futures y)" using cancel_inv(2) [OF inv] by simp
    then show ?thesis using ih step_cancel by (simp add: ap)
  qed
qed

lemma not_release_error:
  assumes "je_inv y"
  shows "je_finish j r y \<noteq> Some (Inl x)" "je_get j y \<noteq> Some (Inl x)"
  using finish_inv [OF assms] get_inv [OF assms] by (metis Inl_Inr_False)+

lemma run_static: "je_run x evs y \<Longrightarrow> je_blocking y = je_blocking x \<and> je_workers y = je_workers x"
proof (induction rule: je_run.induct)
  case (run_step x evs y ev z)
  from run_step.hyps(2) have "je_blocking z = je_blocking y \<and> je_workers z = je_workers y"
    by cases (auto simp: je_submit_def je_start_def je_acquire_def je_finish_def je_get_def je_cancel_def sem_release_def Let_def
        bind_res_eq_Inr split: if_splits option.splits job_status.splits)
  with run_step show ?case by simp
qed simp

text \<open>C25: In every interleaving, with failing jobs and cancellations: no release of the bounded semaphore raises; at most \<open>workers\<close> jobs
  occupy a thread; with \<open>blocking_submit\<close> at most \<open>2 * workers + 1\<close> jobs are unfinished, without it at most as many are running or have a
  result nobody has taken yet; and each submitted job is delivered exactly once or still outstanding.\<close>

theorem executor_safe:
  assumes "je_run (new_executor w b) evs y"
  shows "je_finish j r y \<noteq> Some (Inl x) \<and> je_get j y \<noteq> Some (Inl x) \<and> je_count occupies_worker y \<le> w \<and>
    je_count (holds_token b) y \<le> 2 * w + 1 \<and> distinct (map fst (je_futures y)) \<and>
    mset (submitted evs) = mset (delivered evs) + mset (map fst (je_futures y))"
proof -
  have inv: "je_inv y" by (rule run_inv [OF assms new_inv])
  have "je_workers y = w" "je_blocking y = b" using run_static [OF assms] by (simp_all add: new_executor_def)
  then show ?thesis
    using inv not_release_error [OF inv] run_accounts [OF assms new_inv] by (simp add: je_inv_def je_limit_def new_executor_def)
qed

definition demo_events :: "nat job_event list" where
  "demo_events = [Submit 0, Submit 1, Start 0, Acquire 0, Finish 0 7]"

lemma demo_run: "\<exists>y. je_run (new_executor 1 False) demo_events y \<and> je_futures y = [(0, Finished 7), (1, Queued)]"
proof -
  define x0 where "x0 = (new_executor 1 False :: nat executor)"
  define ex where "ex = (\<lambda>k fs. x0\<lparr>je_sem := k, je_futures := fs\<rparr>)"
  note defs = ex_def x0_def new_executor_def je_submit_def je_start_def je_acquire_def je_finish_def status_of_def set_status_def
    je_count_def occupies_worker_def Let_def
  have "je_run x0 [] (ex 3 [])" using run_nil [of x0] by (simp add: defs)
  moreover have "je_step (ex 3 []) (Submit 0) (ex 3 [(0, Queued)])" by (rule step_submit) (simp add: defs)
  moreover have "je_step (ex 3 [(0, Queued)]) (Submit 1) (ex 3 [(0, Queued), (1, Queued)])" by (rule step_submit) (simp add: defs)
  moreover have "je_step (ex 3 [(0, Queued), (1, Queued)]) (Start 0) (ex 3 [(0, Waiting), (1, Queued)])" by (rule step_start) (simp add: defs)
  moreover have "je_step (ex 3 [(0, Waiting), (1, Queued)]) (Acquire 0) (ex 2 [(0, Running), (1, Queued)])" by (rule step_acquire) (simp add: defs)
  moreover have "je_step (ex 2 [(0, Running), (1, Queued)]) (Finish 0 7) (ex 2 [(0, Finished 7), (1, Queued)])" by (rule step_finish) (simp add: defs)
  ultimately have "je_run x0 (((((([] @ [Submit 0]) @ [Submit 1]) @ [Start 0]) @ [Acquire 0])) @ [Finish 0 7]) (ex 2 [(0, Finished 7), (1, Queued)])"
    by (meson run_step)
  then show ?thesis by (auto simp: demo_events_def x0_def ex_def)
qed

theorem executor_safe_witness:
  "\<exists>y. je_run (new_executor 1 False) demo_events y \<and> je_count occupies_worker y \<le> 1 \<and>
     mset (submitted demo_events) = mset (delivered demo_events) + mset (map fst (je_futures y))"
proof -
  obtain y where y: "je_run (new_executor 1 False) demo_events y" using demo_run by blast
  from executor_safe [OF y] y show ?thesis by blast
qed

text \<open>The steps other than a submission or a shutdown; one of them is always possible while a future is outstanding.\<close>

definition progresses :: "'r executor \<Rightarrow> bool" where
  "progresses y \<longleftrightarrow> (\<exists>ev z. je_step y ev z \<and> (\<forall>j. ev \<noteq> Submit j) \<and> ev \<noteq> Shutdown)"

lemma progressesI: "je_step y ev z \<Longrightarrow> (\<And>j. ev \<noteq> Submit j) \<Longrightarrow> ev \<noteq> Shutdown \<Longrightarrow> progresses y"
  unfolding progresses_def by blast

lemma counted_status:
  assumes "je_inv y" and "0 < je_count P y"
  obtains j st where "status_of j y = Some st" "P st"
  using assms unfolding je_inv_def je_count_def length_greater_0_conv filter_empty_conv status_of_def
  by (metis map_of_is_SomeI prod.collapse)

lemma running_progresses:
  assumes "je_inv y" and "status_of j y = Some Running"
  shows "progresses y"
proof -
  obtain q where q: "je_finish j undefined y = Some q" using assms(2) by (simp add: je_finish_def)
  then obtain z where "q = Inr z" by (rule finish_inv [OF assms(1)])
  with q have "je_step y (Finish j undefined) z" by (simp add: step_finish)
  then show ?thesis by (rule progressesI) simp_all
qed

lemma completed_progresses:
  assumes "je_inv y" and "status_of j y = Some (Finished r) \<or> status_of j y = Some Cancelled"
  shows "progresses y"
proof -
  obtain q where q: "je_get j y = Some q" using assms(2) by (auto simp: je_get_def Let_def)
  then obtain r z where "q = Inr (r, z)" by (rule get_inv [OF assms(1)])
  with q have "je_step y (Deliver j r) z" by (simp add: step_get)
  then show ?thesis by (rule progressesI) simp_all
qed

lemma waiting_progresses:
  assumes inv: "je_inv y" and j: "status_of j y = Some Waiting"
  shows "progresses y"
proof (cases "je_sem y = 0")
  case True
  have "\<not> je_blocking y" using inv count_pos [OF j, of "\<lambda>s. s = Waiting"] by (auto simp: je_inv_def)
  then have "0 < je_count (holds_token False) y" using inv True by (simp add: je_inv_def je_limit_def)
  then obtain i st where i: "status_of i y = Some st" "holds_token False st" by (rule counted_status [OF inv])
  then consider "st = Running" | r where "st = Finished r" by (cases st) (auto simp: holds_token_def)
  then show ?thesis using i(1) running_progresses [OF inv, of i] completed_progresses [OF inv, of i] by cases blast+
next
  case False
  then obtain z where "je_acquire j y = Some z" using j by (simp add: je_acquire_def)
  then have "je_step y (Acquire j) z" by (rule step_acquire)
  then show ?thesis by (rule progressesI) simp_all
qed

lemma queued_progresses:
  assumes inv: "je_inv y" and j: "status_of j y = Some Queued" and "0 < je_workers y"
  shows "progresses y"
proof (cases "je_count occupies_worker y < je_workers y")
  case True
  then obtain z where "je_start j y = Some z" using j by (simp add: je_start_def)
  then have "je_step y (Start j) z" by (rule step_start)
  then show ?thesis by (rule progressesI) simp_all
next
  case False
  then have "0 < je_count occupies_worker y" using assms(3) by simp
  then obtain i st where "status_of i y = Some st" "occupies_worker st" by (rule counted_status [OF inv])
  then show ?thesis using running_progresses [OF inv, of i] waiting_progresses [OF inv, of i] by (auto simp: occupies_worker_def)
qed

text \<open>As long as a job is outstanding the executor is not stuck: a worker can go on or a result can be taken, also when every worker waits for
  the semaphore.\<close>

theorem executor_not_stuck:
  assumes "je_run (new_executor w b) evs y" and "0 < w" and "je_futures y \<noteq> []"
  shows "\<exists>ev z. je_step y ev z \<and> (\<forall>j. ev \<noteq> Submit j) \<and> ev \<noteq> Shutdown"
proof -
  have inv: "je_inv y" by (rule run_inv [OF assms(1) new_inv])
  have w: "0 < je_workers y" using run_static [OF assms(1)] assms(2) by (simp add: new_executor_def)
  have "0 < je_count (\<lambda>_. True) y" using assms(3) by (simp add: je_count_def)
  then obtain j st where j: "status_of j y = Some st" by (rule counted_status [OF inv])
  then have "progresses y"
    using queued_progresses [OF inv _ w, of j] running_progresses [OF inv, of j] completed_progresses [OF inv, of j] waiting_progresses [OF inv, of j]
    by (cases st) auto
  then show ?thesis unfolding progresses_def .
qed

theorem executor_not_stuck_witness:
  "\<exists>y ev z. je_run (new_executor 1 False) demo_events y \<and> je_step y ev z \<and> ev \<noteq> Shutdown"
proof -
  obtain y where y: "je_run (new_executor 1 False) demo_events y" "je_futures y = [(0, Finished 7), (1, Queued)]" using demo_run by blast
  from executor_not_stuck [OF y(1)] y show ?thesis by auto
qed

end
