(* ===== verification/Pagination.thy ===== *)
theory Pagination
  imports Benji_Types
begin

text \<open>
  \<open>Query.limit\<close>, \<open>Query.paginate\<close> and \<open>Pagination\<close> of \<open>database.py\<close>. The rows a query yields are a list in the order of the database:
  \<open>build_s\<close> drops the result of its \<open>order_by\<close>. What the database does with a negative limit or offset is a parameter.
\<close>

section \<open>Queries\<close>

definition query_limit :: "('r \<Rightarrow> int) \<Rightarrow> int \<Rightarrow> int option \<Rightarrow> 'r list \<Rightarrow> 'r list" where
  "query_limit column lim marker rows =
     take (nat lim) (sort_key column
       (case marker of
          Some m \<Rightarrow> if m \<noteq> 0 then filter (\<lambda>r. column r > m) rows else rows
        | None \<Rightarrow> rows))"

text \<open>\<open>len\<close> of a query object raises.\<close>

definition paginated_collection :: "('r \<Rightarrow> int) \<Rightarrow> int \<Rightarrow> int option \<Rightarrow> 'r list \<Rightarrow> ('r list \<times> int option) res" where
  "paginated_collection column lim marker rows = Inl TypeError"

definition sql_slice :: "(int \<Rightarrow> int \<Rightarrow> 'r list \<Rightarrow> 'r list res) \<Rightarrow> int \<Rightarrow> int \<Rightarrow> 'r list \<Rightarrow> 'r list res" where
  "sql_slice negative lim off rows =
     (if lim < 0 \<or> off < 0 then negative lim off rows else Inr (take (nat lim) (drop (nat off) rows)))"

record 'r pagination =
  pg_page :: int
  pg_per_page :: int
  pg_total :: int
  pg_items :: "'r list"

definition paginate :: "(int \<Rightarrow> int \<Rightarrow> 'r list \<Rightarrow> 'r list res) \<Rightarrow> 'r list \<Rightarrow> int option \<Rightarrow> int option \<Rightarrow> bool \<Rightarrow> int option
    \<Rightarrow> 'r pagination res" where
  "paginate negative rows page per_page error_out max_per_page =
     (let p = (case page of None \<Rightarrow> 1 | Some p \<Rightarrow> p);
          n = (case per_page of None \<Rightarrow> 20 | Some n \<Rightarrow> n);
          n1 = (case max_per_page of None \<Rightarrow> n | Some m \<Rightarrow> min n m);
          p2 = (if p < 1 \<and> \<not> error_out then 1 else p);
          n2 = (if n1 < 0 \<and> \<not> error_out then 20 else n1)
      in bind_res (sql_slice negative n2 ((p2 - 1) * n2) rows) (\<lambda>items.
           Inr \<lparr> pg_page = p2, pg_per_page = n2, pg_total = int (length rows), pg_items = items \<rparr>))"

section \<open>Pages\<close>

definition pages :: "'r pagination \<Rightarrow> int" where
  "pages g = (if pg_per_page g = 0 then 0 else ceil_div (pg_total g) (pg_per_page g))"

definition has_prev :: "'r pagination \<Rightarrow> bool" where
  "has_prev g \<longleftrightarrow> pg_page g > 1"

definition prev_num :: "'r pagination \<Rightarrow> int option" where
  "prev_num g = (if \<not> has_prev g then None else Some (pg_page g - 1))"

definition has_next :: "'r pagination \<Rightarrow> bool" where
  "has_next g \<longleftrightarrow> pg_page g < pages g"

definition next_num :: "'r pagination \<Rightarrow> int option" where
  "next_num g = (if \<not> has_next g then None else Some (pg_page g + 1))"

definition prev_page :: "(int \<Rightarrow> int \<Rightarrow> 'r list \<Rightarrow> 'r list res) \<Rightarrow> 'r list \<Rightarrow> bool \<Rightarrow> 'r pagination \<Rightarrow> 'r pagination res" where
  "prev_page negative rows error_out g = paginate negative rows (Some (pg_page g - 1)) (Some (pg_per_page g)) error_out None"

definition next_page :: "(int \<Rightarrow> int \<Rightarrow> 'r list \<Rightarrow> 'r list res) \<Rightarrow> 'r list \<Rightarrow> bool \<Rightarrow> 'r pagination \<Rightarrow> 'r pagination res" where
  "next_page negative rows error_out g = paginate negative rows (Some (pg_page g + 1)) (Some (pg_per_page g)) error_out None"

definition page_shown :: "int \<Rightarrow> int \<Rightarrow> int \<Rightarrow> int \<Rightarrow> 'r pagination \<Rightarrow> int \<Rightarrow> bool" where
  "page_shown left_edge left_current right_current right_edge g num \<longleftrightarrow>
     num \<le> left_edge \<or> (num > pg_page g - left_current - 1 \<and> num < pg_page g + right_current) \<or> num > pages g - right_edge"

text \<open>The generator; \<open>None\<close> stands for skipped numbers, \<open>last\<close> is the last number yielded.\<close>

fun iter_from :: "(int \<Rightarrow> bool) \<Rightarrow> int list \<Rightarrow> int \<Rightarrow> int option list" where
  "iter_from shown [] last_num = []"
| "iter_from shown (num # nums) last_num =
     (if shown num
      then (if last_num + 1 \<noteq> num then [None] else []) @ Some num # iter_from shown nums num
      else iter_from shown nums last_num)"

definition iter_pages :: "int \<Rightarrow> int \<Rightarrow> int \<Rightarrow> int \<Rightarrow> 'r pagination \<Rightarrow> int option list" where
  "iter_pages left_edge left_current right_current right_edge g =
     iter_from (page_shown left_edge left_current right_current right_edge g) (py_range 1 (pages g + 1)) 0"

section \<open>What a reader of the pages sees\<close>

text \<open>Following \<open>next\<close> while \<open>has_next\<close>, with as many steps as there are rows at most.\<close>

fun follow :: "(int \<Rightarrow> int \<Rightarrow> 'r list \<Rightarrow> 'r list res) \<Rightarrow> 'r list \<Rightarrow> nat \<Rightarrow> 'r pagination \<Rightarrow> 'r list res" where
  "follow negative rows fuel g =
     (if \<not> has_next g then Inr (pg_items g)
      else (case fuel of
              0 \<Rightarrow> Inl RuntimeError
            | Suc k \<Rightarrow> bind_res (next_page negative rows False g) (\<lambda>h.
                bind_res (follow negative rows k h) (\<lambda>rest. Inr (pg_items g @ rest)))))"

declare follow.simps [simp del]

definition page_of :: "'r list \<Rightarrow> nat \<Rightarrow> nat \<Rightarrow> 'r pagination" where
  "page_of rows n p = \<lparr> pg_page = int p, pg_per_page = int n, pg_total = int (length rows), pg_items = take n (drop ((p - 1) * n) rows) \<rparr>"

lemma paginate_page:
  assumes "0 < p"
  shows "paginate neg rows (Some (int p)) (Some (int n)) e None = Inr (page_of rows n p)"
proof -
  have "(int p - 1) * int n = int ((p - 1) * n)" using assms by (simp add: of_nat_diff)
  moreover have "\<not> int p < 1" using assms by simp
  ultimately show ?thesis by (simp add: paginate_def Let_def sql_slice_def page_of_def flip: of_nat_mult)
qed

lemma next_of_page: "0 < p \<Longrightarrow> next_page neg rows e (page_of rows n p) = Inr (page_of rows n (Suc p))"
  using paginate_page [of "Suc p" neg rows n e] by (simp add: next_page_def page_of_def add.commute)

lemma has_next_page:
  assumes "0 < n"
  shows "has_next (page_of rows n p) \<longleftrightarrow> p * n < length rows"
  using assms less_ceil_div_iff [of "int n" "int p" "int (length rows)"]
  by (simp add: has_next_def pages_def page_of_def flip: of_nat_mult)

lemma follow_page:
  assumes n: "0 < n" and p: "0 < p" and fuel: "length rows \<le> (p - 1) * n + k"
  shows "follow neg rows k (page_of rows n p) = Inr (drop ((p - 1) * n) rows)"
  using p fuel
proof (induction k arbitrary: p)
  case 0
  have "length rows \<le> p * n" using 0 by (metis add_0_right diff_le_self le_trans mult_le_mono1)
  then have "\<not> has_next (page_of rows n p)" by (simp add: has_next_page [OF n])
  then show ?case using 0 by (subst follow.simps) (simp add: page_of_def)
next
  case (Suc k)
  obtain m where m: "p = Suc m" using Suc.prems(1) gr0_conv_Suc by blast
  show ?case
  proof (cases "has_next (page_of rows n p)")
    case True
    have "length rows \<le> m * n + n + k" using Suc.prems(2) n by (simp add: m)
    then have "follow neg rows k (page_of rows n (Suc p)) = Inr (drop (p * n) rows)"
      using Suc.IH [of "Suc p"] by (simp add: m add.commute)
    moreover have "take n (drop (m * n) rows) @ drop (n + m * n) rows = drop (m * n) rows"
      by (metis append_take_drop_id drop_drop)
    ultimately show ?thesis
      using True next_of_page [OF Suc.prems(1), of neg rows False n] by (subst follow.simps) (simp add: page_of_def m)
  next
    case False
    then have "length rows \<le> n + m * n" by (simp add: has_next_page [OF n] m)
    then show ?thesis using False by (subst follow.simps) (simp add: page_of_def m)
  qed
qed



text \<open>The reference: the shown numbers, each preceded by a gap where it does not follow its predecessor.\<close>

definition with_gaps :: "int list \<Rightarrow> int option list" where
  "with_gaps ns = concat (map (\<lambda>(a, b). if a + 1 \<noteq> b then [None, Some b] else [Some b]) (zip (0 # ns) ns))"

lemma iter_from_gaps:
  "iter_from shown nums last_num =
     concat (map (\<lambda>(a, b). if a + 1 \<noteq> b then [None, Some b] else [Some b]) (zip (last_num # filter shown nums) (filter shown nums)))"
  by (induction shown nums last_num rule: iter_from.induct) auto

text \<open>The page bar is the numbers from 1 to the last page that lie on an edge or around the current page, in ascending order, with one gap
  marker wherever numbers are left out and nowhere else.\<close>

theorem iter_pages_reference:
  "iter_pages le lc rc re g = with_gaps (filter (page_shown le lc rc re g) (py_range 1 (pages g + 1))) \<and>
   List.map_filter id (iter_pages le lc rc re g) = filter (page_shown le lc rc re g) (py_range 1 (pages g + 1))"
proof -
  have "List.map_filter id (iter_from shown nums last_num) = filter shown nums" for shown nums last_num
    by (induction shown nums last_num rule: iter_from.induct) (auto simp: List.map_filter_simps)
  then show ?thesis by (simp add: iter_pages_def with_gaps_def iter_from_gaps)
qed

end
