(* ===== verification/Rate_Limit.thy ===== *)
theory Rate_Limit
  imports Complex_Main Benji_Types
begin

text \<open>
  \<open>TokenBucket\<close> of \<open>utils.py\<close>, which delays reads and writes of a storage. Its floating-point numbers are rationals here; \<open>now\<close> is the value
  of \<open>time()\<close>. Every operation runs under the bucket's lock, so they do not interleave.
\<close>

record bucket =
  tb_tokens :: rat
  tb_rate :: int
  tb_last :: rat

definition new_bucket :: "rat \<Rightarrow> bucket" where
  "new_bucket now = \<lparr> tb_tokens = 0, tb_rate = 0, tb_last = now \<rparr>"

definition set_rate :: "int \<Rightarrow> bucket \<Rightarrow> bucket" where
  "set_rate rate b = b\<lparr>tb_rate := rate, tb_tokens := of_int rate\<rparr>"

definition consume :: "rat \<Rightarrow> int \<Rightarrow> bucket \<Rightarrow> rat \<times> bucket" where
  "consume now n b =
     (if tb_rate b = 0 then (0, b)
      else
        let lapse = now - tb_last b;
            t = tb_tokens b + lapse * of_int (tb_rate b);
            t1 = (if t > of_int (tb_rate b) then of_int (tb_rate b) else t);
            t2 = t1 - of_int n;
            b1 = b\<lparr>tb_last := now, tb_tokens := t2\<rparr>
        in if t2 \<ge> 0 then (0, b1) else (- t2 / of_int (tb_rate b), b1))"

text \<open>A sequence of consumptions at given times; the result is the list of delays.\<close>

fun consume_all :: "(rat \<times> int) list \<Rightarrow> bucket \<Rightarrow> rat list \<times> bucket" where
  "consume_all [] b = ([], b)"
| "consume_all ((now, n) # rs) b =
     (let (d, b1) = consume now n b; (ds, b2) = consume_all rs b1 in (d # ds, b2))"

lemma consume_bound:
  assumes "0 < tb_rate b" and "tb_tokens b \<le> of_int (tb_rate b)" and "consume now n b = (d, b')"
  shows "tb_rate b' = tb_rate b" "tb_last b' = now"
    "tb_tokens b' + of_int n \<le> of_int (tb_rate b)" "tb_tokens b' + of_int n \<le> tb_tokens b + (now - tb_last b) * of_int (tb_rate b)"
    "0 \<le> tb_tokens b' + d * of_int (tb_rate b)"
  using assms by (auto simp: consume_def Let_def field_simps split: if_splits)

lemma delay_nonneg: "0 < tb_rate b \<Longrightarrow> consume now n b = (d, b') \<Longrightarrow> 0 \<le> d"
  by (auto simp: consume_def Let_def split: if_splits)

lemma consume_all_bound:
  assumes "0 < tb_rate b" and "tb_tokens b \<le> of_int (tb_rate b)" and "\<forall>(t, n) \<in> set rs. 0 \<le> n" and "consume_all rs b = (ds, b')"
  shows "tb_rate b' = tb_rate b \<and> tb_tokens b' \<le> of_int (tb_rate b) \<and>
    tb_tokens b' + of_int (sum_list (map snd rs)) \<le> tb_tokens b + (tb_last b' - tb_last b) * of_int (tb_rate b) \<and>
    (rs \<noteq> [] \<longrightarrow> 0 \<le> tb_tokens b' + last ds * of_int (tb_rate b) \<and> tb_last b' = fst (last rs)) \<and> length ds = length rs \<and> (\<forall>d \<in> set ds. 0 \<le> d)"
  using assms
proof (induction rs arbitrary: b ds)
  case (Cons r rs)
  obtain t n where r: "r = (t, n)" by (cases r)
  obtain d b1 where c: "consume t n b = (d, b1)" by force
  obtain es where e: "consume_all rs b1 = (es, b')" "ds = d # es" using Cons.prems(4) c by (auto simp: r split: prod.splits)
  note B = consume_bound [OF Cons.prems(1,2) c]
  have n: "0 \<le> n" "\<forall>(t, n) \<in> set rs. 0 \<le> n" using Cons.prems(3) by (auto simp: r)
  have "tb_tokens b1 \<le> of_int (tb_rate b1)" using B(1,3) n(1) by simp
  then have ih: "tb_rate b' = tb_rate b1" "tb_tokens b' \<le> of_int (tb_rate b1)"
    "tb_tokens b' + of_int (sum_list (map snd rs)) \<le> tb_tokens b1 + (tb_last b' - tb_last b1) * of_int (tb_rate b1)"
    "rs \<noteq> [] \<longrightarrow> 0 \<le> tb_tokens b' + last es * of_int (tb_rate b1) \<and> tb_last b' = fst (last rs)" "length es = length rs" "\<forall>d \<in> set es. 0 \<le> d"
    using Cons.IH [OF _ _ n(2) e(1)] B(1) Cons.prems(1) by auto
  have "tb_tokens b' + of_int (sum_list (map snd (r # rs))) \<le> tb_tokens b + (tb_last b' - tb_last b) * of_int (tb_rate b)"
    using ih(3) B(1,2,4) by (simp add: r algebra_simps)
  moreover have "0 \<le> tb_tokens b' + last ds * of_int (tb_rate b) \<and> tb_last b' = fst (last (r # rs))"
  proof (cases "rs = []")
    case True
    then show ?thesis using e B(2,5) by (auto simp: r)
  next
    case False
    then have "es \<noteq> []" using ih(5) by auto
    then show ?thesis using ih(4) False B(1) e(2) by simp
  qed
  ultimately show ?case using ih(1,2,5,6) B(1) e(2) delay_nonneg [OF Cons.prems(1) c] by simp
qed simp

text \<open>C27: The throttle keeps its rate: a client that waits as told after each of a series of consumptions has, when the last wait is over,
  consumed at most the rate times the time that has passed since the bucket's last use before the series, plus one second's worth of burst.
  Delays are never negative, and the bucket never holds more than one second's worth.\<close>

theorem token_bucket_keeps_rate:
  assumes "0 < rate" and "rs \<noteq> []" and "\<forall>(t, n) \<in> set rs. 0 \<le> n" and "consume_all rs (set_rate rate b) = (ds, b')"
  shows "of_int (sum_list (map snd rs)) \<le> of_int rate * (1 + (fst (last rs) - tb_last b) + last ds) \<and>
    tb_tokens b' \<le> of_int rate \<and> (\<forall>d \<in> set ds. 0 \<le> d)"
proof -
  have "0 < tb_rate (set_rate rate b)" "tb_tokens (set_rate rate b) \<le> of_int (tb_rate (set_rate rate b))"
    using assms(1) by (simp_all add: set_rate_def)
  note B = consume_all_bound [OF this assms(3,4)]
  then show ?thesis using assms(2) by (auto simp: set_rate_def algebra_simps)
qed

theorem token_bucket_keeps_rate_witness:
  "\<exists>ds b'. consume_all [(1, 10), (2, 30)] (set_rate 10 (new_bucket 0)) = (ds, b') \<and> 40 \<le> 10 * (1 + (2 - 0) + last ds)"
proof -
  obtain ds b' where c: "consume_all [(1, 10), (2, 30)] (set_rate 10 (new_bucket 0)) = (ds, b')" by force
  have "of_int (sum_list (map snd [(1 :: rat, 10), (2, 30)])) \<le> of_int 10 * (1 + (fst (last [(1, 10 :: int), (2, 30)]) - tb_last (new_bucket 0)) + last ds) \<and>
      tb_tokens b' \<le> of_int 10 \<and> (\<forall>d \<in> set ds. 0 \<le> d)"
    by (rule token_bucket_keeps_rate [OF _ _ _ c]) simp_all
  then show ?thesis using c by (auto simp: new_bucket_def)
qed

end
