(* ===== verification/Schedule.thy ===== *)
theory Schedule
  imports Retention Locking Storage_Keys
begin

text \<open>
  The periodic task \<open>run_schedule_job\<close> of \<open>tasks/schedule_job.py\<close>, which Celery runs every ten minutes, with the expiry policy of
  \<open>helpers/policy.py\<close>: which jobs are due, and what is dispatched for their volumes. The queue of asynchronous tasks is a list.
\<close>

section \<open>Expiry\<close>

definition days_in_month :: "int \<Rightarrow> int \<Rightarrow> int" where
  "days_in_month y m = (if m = 2 then if is_leap y then 29 else 28 else if m \<in> {4, 6, 9, 11} then 30 else 31)"

text \<open>\<open>date + timedelta(days=n)\<close>, one day at a time.\<close>

definition next_day :: "datetime \<Rightarrow> datetime" where
  "next_day t =
     (if day t < days_in_month (year t) (month t) then t\<lparr>day := day t + 1\<rparr>
      else if month t < 12 then t\<lparr>day := 1, month := month t + 1\<rparr>
      else t\<lparr>day := 1, month := 1, year := year t + 1\<rparr>)"

definition is_month_end :: "datetime \<Rightarrow> bool" where
  "is_month_end today =
     (let next_month = (next_day ^^ 4) (today\<lparr>day := 28\<rparr>) in toordinal today = toordinal next_month - day next_month)"

definition is_weekend :: "datetime \<Rightarrow> bool" where
  "is_weekend today \<longleftrightarrow> weekday today = 6"

text \<open>\<open>now + relativedelta(days=..., weeks=..., months=...)\<close> belongs to \<open>dateutil\<close> and is a parameter.\<close>

datatype expiry_unit = Days | Weeks | Months

definition do_check_gfs :: "(expiry_unit \<Rightarrow> int \<Rightarrow> datetime \<Rightarrow> datetime) \<Rightarrow> datetime \<Rightarrow> datetime \<Rightarrow> int \<Rightarrow> datetime option" where
  "do_check_gfs add today now retention =
     (if retention \<noteq> -1 \<and> retention > 0 then Some (add Days retention now)
      else if retention = -1 then
        Some (if is_month_end today then add Months 2 now
              else if is_weekend today then add Weeks 5 now
              else add Days 8 now)
      else None)"

text \<open>\<open>exclude_woking_time\<close>; the argument is the value of \<open>randint(17 * 60, (8 + 24) * 60)\<close>.\<close>

definition exclude_woking_time :: "int \<Rightarrow> int" where
  "exclude_woking_time r = (if r \<ge> 1440 then r - 1440 else r)"

lemma outside_working_time: "r \<in> {1020..1920} \<Longrightarrow> exclude_woking_time r \<in> {0..480} \<union> {1020..<1440}"
  by (auto simp: exclude_woking_time_def)

definition valid_date :: "datetime \<Rightarrow> bool" where
  "valid_date t \<longleftrightarrow> month t \<in> {1..12} \<and> day t \<in> {1..days_in_month (year t) (month t)}"

lemma div_pred:
  assumes "0 < (k :: int)" shows "y div k = (y - 1) div k + of_bool (k dvd y)"
proof -
  have y: "y = k * (y div k) + y mod k" "0 \<le> y mod k" "y mod k < k" using assms by simp_all
  have "(y - 1) div k = (if y mod k = 0 then y div k - 1 else y div k)"
  proof (cases "y mod k = 0")
    case True
    then show ?thesis using y assms by (intro int_div_pos_eq [where r = "k - 1"]) (simp_all add: algebra_simps)
  next
    case False
    have "y - 1 = k * (y div k) + (y mod k - 1)" "0 \<le> y mod k - 1" "y mod k - 1 < k" using y False by linarith+
    then have "(y - 1) div k = y div k" by (rule int_div_pos_eq)
    then show ?thesis using False by simp
  qed
  then show ?thesis by (auto simp: dvd_eq_mod_eq_0)
qed

lemma next_year: "days_before_year (y + 1) = days_before_year y + (if is_leap y then 366 else 365)"
proof -
  have "400 dvd y \<Longrightarrow> 100 dvd y" "100 dvd y \<Longrightarrow> 4 dvd y" by (auto elim: dvd_trans [rotated])
  moreover have "is_leap y \<longleftrightarrow> 4 dvd y \<and> (\<not> 100 dvd y \<or> 400 dvd y)" by (simp add: is_leap_def dvd_eq_mod_eq_0)
  ultimately have leap: "of_bool (is_leap y) = of_bool (4 dvd y) - of_bool (100 dvd y) + (of_bool (400 dvd y) :: int)"
    by (cases "4 dvd y"; cases "100 dvd y"; cases "400 dvd y") simp_all
  have sum_up: "y * 365 + q4 - q100 + q400 = (y - 1) * 365 + p4 - p100 + p400 + 365 + b4 - b100 + b400"
    if "q4 = p4 + b4" "q100 = p100 + b100" "q400 = p400 + b400" for q4 q100 q400 p4 p100 p400 b4 b100 b400 :: int
    using that by simp
  have "days_before_year (y + 1) = days_before_year y + 365 + of_bool (4 dvd y) - of_bool (100 dvd y) + of_bool (400 dvd y)"
    unfolding days_before_year_def Let_def add_diff_cancel_right' by (rule sum_up) (rule div_pred, simp)+
  then show ?thesis using leap by (cases "is_leap y") simp_all
qed

lemma months: "m \<in> {1..12} \<longleftrightarrow> m \<in> {1, 2, 3, 4, 5, 6, 7, 8, 9, 10, 11, 12 :: int}"
  by (simp only: atLeastAtMost_iff insert_iff empty_iff) presburger

lemma month_lengths: "days_in_month y m = 28 \<or> days_in_month y m = 29 \<or> days_in_month y m = 30 \<or> days_in_month y m = 31"
  by (simp add: days_in_month_def)

lemma next_month:
  "(next_day ^^ 4) (t\<lparr>day := 28\<rparr>) =
    (let d = 32 - days_in_month (year t) (month t) in
     if month t < 12 then t\<lparr>month := month t + 1, day := d\<rparr> else t\<lparr>year := year t + 1, month := 1, day := d\<rparr>)"
proof -
  have four: "(next_day ^^ 4) x = next_day (next_day (next_day (next_day x)))" for x by (simp add: eval_nat_numeral)
  have long: "k < days_in_month y m" if "k < 28" for k y m using month_lengths [of y m] that by auto
  have early: "next_day x = x\<lparr>day := day x + 1\<rparr>" if "day x < 28" for x using long [OF that] by (simp add: next_day_def)
  show ?thesis
    unfolding four using month_lengths [of "year t" "month t"]
    by (elim disjE) (simp_all add: next_day_def [of "t\<lparr>day := _\<rparr>"] early Let_def)
qed

text \<open>The detour over the next month finds the last day of the month.\<close>

lemma month_end_iff:
  assumes "valid_date t"
  shows "is_month_end t \<longleftrightarrow> day t = days_in_month (year t) (month t)"
proof -
  have m: "month t \<in> {1..12}" using assms by (simp add: valid_date_def)
  have "days_before_month (year t) (month t + 1) = days_before_month (year t) (month t) + days_in_month (year t) (month t)" if "month t < 12"
    using m that unfolding months by (elim insertE) (simp_all add: days_before_month_def days_in_month_def)
  note inner = this
  have outer: "days_before_month (year t) 12 + 31 = (if is_leap (year t) then 366 else 365)" "days_before_month y 1 = 0" "days_in_month y 12 = 31" for y
    by (simp_all add: days_before_month_def days_in_month_def)
  show ?thesis
  proof (cases "month t < 12")
    case True
    then show ?thesis using inner by (auto simp: is_month_end_def next_month Let_def toordinal_def)
  next
    case False
    then have "month t = 12" using m by simp
    then show ?thesis using outer next_year [of "year t"] by (auto simp: is_month_end_def next_month Let_def toordinal_def)
  qed
qed

section \<open>Jobs that are due\<close>

record schedule_job =
  sj_id :: int
  sj_name :: string
  sj_retention :: int
  sj_days_of_week :: string
  sj_start_time :: int
  sj_mode :: "string option"
  sj_compression :: "string option"
  sj_storage_id :: int
  sj_group_id :: int

definition day_name :: "int \<Rightarrow> string" where
  "day_name w = [''Monday'', ''Tuesday'', ''Wednesday'', ''Thursday'', ''Friday'', ''Saturday'', ''Sunday''] ! nat w"

definition lower_char :: "char \<Rightarrow> char" where
  "lower_char c = (if 65 \<le> (of_char c :: nat) \<and> (of_char c :: nat) \<le> 90 then char_of ((of_char c :: nat) + 32) else c)"

text \<open>\<open>calendar.day_name[weekday][0:3].lower()\<close>, and the SQL operator \<open>LIKE '%...%'\<close>.\<close>

definition short_day :: "int \<Rightarrow> string" where
  "short_day w = map lower_char (take 3 (day_name w))"

definition in_window :: "int \<Rightarrow> int \<Rightarrow> int \<Rightarrow> schedule_job \<Rightarrow> bool" where
  "in_window lo hi w j \<longleftrightarrow> sj_start_time j \<ge> lo \<and> sj_start_time j < hi \<and> sublist (short_day w) (sj_days_of_week j)"

text \<open>
  The day of the week is the one of the server's clock, hour and minute are those of the fixed zone of \<open>get_local_time\<close>.
\<close>

definition due_jobs :: "int \<Rightarrow> int \<Rightarrow> int \<Rightarrow> schedule_job list \<Rightarrow> schedule_job list" where
  "due_jobs w hr mn jobs =
     (let cur0 = hr * 60 + mn;
          cur = (if cur0 \<ge> 1440 then 1440 else cur0);
          nxt0 = cur + 10;
          extra = (if nxt0 > 1440 then nxt0 - 1440 else 0);
          nxt = (if nxt0 > 1440 then 1440 else nxt0)
      in filter (in_window cur nxt w) jobs @
         (if extra \<noteq> 0 then filter (in_window 0 extra ((if w \<ge> 6 then 0 else w) + 1)) jobs else []))"

lemma short_days: "map short_day [0, 1, 2, 3, 4, 5, 6] = [''mon'', ''tue'', ''wed'', ''thu'', ''fri'', ''sat'', ''sun'']"
  by code_simp

text \<open>The column holds the names joined with commas; a name is found in it just when it is one of them.\<close>

lemma sublist_separated:
  assumes "c \<notin> set p"
  shows "sublist p (xs @ c # ys) \<longleftrightarrow> sublist p xs \<or> sublist p ys"
proof -
  have "sublist p xs" if "p = a @ b" "suffix a xs" "prefix b (c # ys)" for a b
    using that assms by (cases b) (auto simp: prefix_Cons)
  then show ?thesis using assms by (auto simp: sublist_append sublist_Cons_right prefix_Cons)
qed

lemma sublist_join:
  assumes "p \<noteq> []" and "c \<notin> set p"
  shows "sublist p (join_with c qs) \<longleftrightarrow> (\<exists>q \<in> set qs. sublist p q)"
  using assms by (induction c qs rule: join_with.induct) (simp_all add: sublist_separated)

definition week :: "string list" where
  "week = [''mon'', ''tue'', ''wed'', ''thu'', ''fri'', ''sat'', ''sun'']"

lemma short_day_week: "w \<in> {0..6} \<Longrightarrow> short_day w = week ! nat w"
proof -
  assume "w \<in> {0..6}"
  then have "w \<in> {0, 1, 2, 3, 4, 5, 6}" by auto
  moreover have "\<forall>w \<in> {0, 1, 2, 3, 4, 5, 6 :: int}. short_day w = week ! nat w" by code_simp
  ultimately show ?thesis by blast
qed

text \<open>A name is found in the column, which joins the chosen days with commas, just when it is one of them.\<close>

lemma day_found:
  assumes "w \<in> {0..6}" and "set ds \<subseteq> set week"
  shows "sublist (short_day w) (join_with CHR '','' ds) \<longleftrightarrow> short_day w \<in> set ds"
proof -
  have "\<forall>a \<in> set week. \<forall>b \<in> set week. sublist a b \<longrightarrow> a = b" by code_simp
  moreover have "\<forall>a \<in> set week. a \<noteq> [] \<and> CHR '','' \<notin> set a" by code_simp
  moreover have "week ! nat w \<in> set week" using assms(1) by (intro nth_mem) (simp add: week_def, arith)
  then have "short_day w \<in> set week" using assms(1) by (simp only: short_day_week)
  ultimately show ?thesis using assms(2) by (auto simp: sublist_join)
qed

text \<open>One week of the task, which first runs in minute \<open>ph\<close> of every day and then every ten minutes: how often it picks a job.\<close>

definition weekly_picks :: "int \<Rightarrow> schedule_job \<Rightarrow> nat" where
  "weekly_picks ph j =
     (\<Sum>w \<leftarrow> [0, 1, 2, 3, 4, 5, 6]. \<Sum>k \<leftarrow> [0..<144]. length (due_jobs w ((ph + 10 * int k) div 60) ((ph + 10 * int k) mod 60) [j]))"

lemma due_once:
  assumes "0 \<le> m" "m < 1440" "0 \<le> sj_start_time j"
  shows "length (due_jobs w (m div 60) (m mod 60) [j]) =
    of_bool (m \<le> sj_start_time j \<and> sj_start_time j < m + 10 \<and> sj_start_time j < 1440 \<and> sublist (short_day w) (sj_days_of_week j)) +
    of_bool (sj_start_time j < m - 1430 \<and> sublist (short_day ((if w \<ge> 6 then 0 else w) + 1)) (sj_days_of_week j))"
proof -
  have "m div 60 * 60 + m mod 60 = m" by simp
  then show ?thesis using assms by (auto simp: due_jobs_def Let_def in_window_def)
qed

lemma count_slots: "(\<Sum>k \<leftarrow> [0..<n]. of_bool (P k) :: nat) = card {k. k < n \<and> P k}"
  by (induction n) (auto simp: less_Suc_eq Collect_conj_eq conj_disj_distribR Collect_disj_eq card_insert_if)

lemma one_slot:
  assumes "0 \<le> ph" "ph < 10" "0 \<le> s" "s < 1440"
  shows "(\<Sum>k \<leftarrow> [0..<144]. of_bool (ph + 10 * int k \<le> s \<and> s < ph + 10 * int k + 10) :: nat) = of_bool (ph \<le> s)"
    and "(\<Sum>k \<leftarrow> [0..<144]. of_bool (s < ph + 10 * int k - 1430) :: nat) = of_bool (s < ph)"
proof -
  have "{k. k < 144 \<and> ph + 10 * int k \<le> s \<and> s < ph + 10 * int k + 10} = (if ph \<le> s then {nat ((s - ph) div 10)} else {})"
    using assms by (auto; presburger)
  then show "(\<Sum>k \<leftarrow> [0..<144]. of_bool (ph + 10 * int k \<le> s \<and> s < ph + 10 * int k + 10) :: nat) = of_bool (ph \<le> s)"
    by (simp add: count_slots del: upt_rec_numeral)
  have "{k. k < 144 \<and> s < ph + 10 * int k - 1430} = (if s < ph then {143} else {})"
    using assms by auto
  then show "(\<Sum>k \<leftarrow> [0..<144]. of_bool (s < ph + 10 * int k - 1430) :: nat) = of_bool (s < ph)"
    by (simp add: count_slots del: upt_rec_numeral)
qed

lemma day_slots:
  assumes ph: "0 \<le> ph" "ph < 10" and s: "0 \<le> sj_start_time j" "sj_start_time j < 1440"
  shows "(\<Sum>k \<leftarrow> [0..<144]. length (due_jobs w ((ph + 10 * int k) div 60) ((ph + 10 * int k) mod 60) [j])) =
    of_bool (ph \<le> sj_start_time j \<and> sublist (short_day w) (sj_days_of_week j)) +
    of_bool (sj_start_time j < ph \<and> sublist (short_day ((if w \<ge> 6 then 0 else w) + 1)) (sj_days_of_week j))"
proof -
  let ?s = "sj_start_time j" and ?a = "sublist (short_day w) (sj_days_of_week j)"
    and ?b = "sublist (short_day ((if w \<ge> 6 then 0 else w) + 1)) (sj_days_of_week j)"
  have "map (\<lambda>k. length (due_jobs w ((ph + 10 * int k) div 60) ((ph + 10 * int k) mod 60) [j])) [0..<144] =
    map (\<lambda>k. of_bool (ph + 10 * int k \<le> ?s \<and> ?s < ph + 10 * int k + 10) * of_bool ?a + of_bool (?s < ph + 10 * int k - 1430) * of_bool ?b) [0..<144]"
    using ph s by (intro map_cong refl) (simp add: due_once)
  then show ?thesis
    by (simp only: sum_list_addf sum_list_mult_const one_slot [OF ph s]) simp
qed

lemma count_days:
  assumes "distinct ds" and "set ds \<subseteq> set week"
  shows "(\<Sum>a \<leftarrow> week. of_bool (a \<in> set ds) :: nat) = length ds"
proof -
  have "distinct week" by (simp add: week_def)
  then have "(\<Sum>a \<leftarrow> week. of_bool (a \<in> set ds) :: nat) = (\<Sum>a \<in> set week. of_bool (a \<in> set ds))" by (simp add: sum_list_distinct_conv_sum_set)
  also have "\<dots> = card (set week \<inter> set ds)" by (simp add: of_bool_def sum.inter_filter [symmetric] Int_def flip: sum.inter_restrict)
  also have "set week \<inter> set ds = set ds" using assms(2) by blast
  finally show ?thesis using assms(1) by (simp add: distinct_card)
qed

lemma weekly_count:
  assumes "0 \<le> ph" "ph < 10" and "0 \<le> sj_start_time j"
    and "distinct ds" "set ds \<subseteq> set week" and "sj_days_of_week j = join_with CHR '','' ds"
  shows "weekly_picks ph j =
    (if sj_start_time j \<ge> 1440 then 0
     else if ph \<le> sj_start_time j then length ds
     else length (remove1 ''mon'' ds) + (if ''tue'' \<in> set ds then 1 else 0))"
proof (cases "sj_start_time j < 1440")
  case True
  let ?f = "\<lambda>w. sublist (short_day w) (sj_days_of_week j)"
  have f: "?f 0 \<longleftrightarrow> ''mon'' \<in> set ds" "?f 1 \<longleftrightarrow> ''tue'' \<in> set ds" "?f 2 \<longleftrightarrow> ''wed'' \<in> set ds" "?f 3 \<longleftrightarrow> ''thu'' \<in> set ds"
    "?f 4 \<longleftrightarrow> ''fri'' \<in> set ds" "?f 5 \<longleftrightarrow> ''sat'' \<in> set ds" "?f 6 \<longleftrightarrow> ''sun'' \<in> set ds"
    using short_days day_found [OF _ assms(5), of 0] day_found [OF _ assms(5), of 1] day_found [OF _ assms(5), of 2] day_found [OF _ assms(5), of 3]
      day_found [OF _ assms(5), of 4] day_found [OF _ assms(5), of 5] day_found [OF _ assms(5), of 6] by (simp_all add: assms(6))
  have n: "length ds = of_bool (''mon'' \<in> set ds) + of_bool (''tue'' \<in> set ds) + of_bool (''wed'' \<in> set ds) + of_bool (''thu'' \<in> set ds)
     + of_bool (''fri'' \<in> set ds) + of_bool (''sat'' \<in> set ds) + of_bool (''sun'' \<in> set ds)"
    using count_days [OF assms(4,5)] by (simp add: week_def)
  have "length (remove1 ''mon'' ds) + of_bool (''mon'' \<in> set ds) = length ds"
    by (auto simp: length_remove1 dest: length_pos_if_in_set)
  then show ?thesis
    using True n by (simp add: weekly_picks_def day_slots [OF assms(1,2,3) True] f)
next
  case False
  have "due_jobs w ((ph + 10 * int k) div 60) ((ph + 10 * int k) mod 60) [j] = []" if "k < 144" for w k
    using due_once [of "ph + 10 * int k" j w] that assms(1-3) False by auto
  then have "map (\<lambda>k. length (due_jobs w ((ph + 10 * int k) div 60) ((ph + 10 * int k) mod 60) [j])) [0..<144] = map (\<lambda>_. 0) [0..<144]" for w
    by (intro map_cong refl) (simp del: upt_rec_numeral)
  then show ?thesis using False by (simp add: weekly_picks_def del: upt_rec_numeral)
qed



section \<open>Dispatching\<close>

record job_volume =
  jv_sj_id :: int
  jv_volume_id :: string
  jv_volume_name :: "string option"
  jv_vm_id :: int

record dispatch =
  ds_node :: "string \<times> int"
  ds_version_id :: int
  ds_source :: string

text \<open>
  The state: the session, the queue of tasks, the column \<open>expired_at\<close> of new versions, the next value of the autoincremented key and the
  number of random UIDs drawn.
\<close>

record sched =
  sd_ses :: session
  sd_queue :: "dispatch list"
  sd_expires :: "(int \<times> datetime option) list"
  sd_next_id :: int
  sd_fresh :: nat

text \<open>The environment: this process, the clock, the random UIDs, and per storage its used and allowed bytes and its node.\<close>

record sched_env =
  sc_me :: process
  sc_now :: int
  sc_uid :: "nat \<Rightarrow> string"
  sc_quota :: "int \<Rightarrow> int option \<times> int option"
  sc_node :: "int \<Rightarrow> string \<times> int"
  sc_add :: "expiry_unit \<Rightarrow> int \<Rightarrow> datetime \<Rightarrow> datetime"
  sc_today :: datetime
  sc_local_time :: datetime

definition job_lock_name :: "schedule_job \<Rightarrow> string" where
  "job_lock_name j = ''ScheduleJob '' @ str_int (sj_id j)"

definition new_version_row :: "sched_env \<Rightarrow> schedule_job \<Rightarrow> job_volume \<Rightarrow> string \<Rightarrow> int \<Rightarrow> version" where
  "new_version_row E j v uid i =
     \<lparr> ver_id = i, ver_uid = uid, ver_volume = jv_volume_id v, ver_snapshot = [], ver_size = 0, ver_block_size = 0,
       ver_storage_id = sj_storage_id j, ver_status = incomplete, ver_protected = False, ver_bytes_read = None,
       ver_bytes_written = None, ver_bytes_deduplicated = None, ver_bytes_sparse = None, ver_duration = None,
       ver_created_at = sc_now E, ver_vm_id = jv_vm_id v \<rparr>"

text \<open>
  One volume. Comparing with a missing quota raises \<open>TypeError\<close>; a version that cannot be stored makes the handler log the name \<open>e\<close>, which is
  unbound there.
\<close>

definition queue_volume :: "sched_env \<Rightarrow> schedule_job \<Rightarrow> job_volume \<Rightarrow> (exn, sched, unit) py" where
  "queue_volume E j v k =
     (case sc_quota E (sj_storage_id j) of
        (Some used, Some allowed) \<Rightarrow>
          if used \<ge> allowed then (Inr (), k)
          else
            let k1 = k\<lparr>sd_fresh := sd_fresh k + 1\<rparr>; source = ''rbd:volumes/volume-'' @ jv_volume_id v in
            (case VersionUid (sc_uid E (sd_fresh k)) of
               Inl x \<Rightarrow> (Inl x, k1)
             | Inr uid \<Rightarrow>
                 let expired_at = (if sj_retention j \<noteq> 0 then do_check_gfs (sc_add E) (sc_today E) (sc_local_time E) (sj_retention j) else None); i = sd_next_id k1 in
                 if uid \<in> set (map ver_uid (db_versions (working (sd_ses k1)))) then (Inl NameError, k1\<lparr>sd_ses := rollback (sd_ses k1)\<rparr>)
                 else (Inr (), k1\<lparr>sd_ses := commit (update_db (\<lambda>d. d\<lparr>db_versions := db_versions d @ [new_version_row E j v uid i]\<rparr>) (sd_ses k1)),
                        sd_next_id := i + 1, sd_expires := sd_expires k1 @ [(i, expired_at)],
                        sd_queue := sd_queue k1 @ [\<lparr> ds_node = sc_node E (sj_storage_id j), ds_version_id = i, ds_source = source \<rparr>]\<rparr>))
      | _ \<Rightarrow> (Inl TypeError, k))"

definition on_ses :: "(exn, session, 'a) py \<Rightarrow> (exn, sched, 'a) py" where
  "on_ses m k = (case m (sd_ses k) of (r, s) \<Rightarrow> (r, k\<lparr>sd_ses := s\<rparr>))"

definition volumes_of :: "job_volume list \<Rightarrow> schedule_job \<Rightarrow> job_volume list" where
  "volumes_of vols j = filter (\<lambda>v. jv_sj_id v = sj_id j) vols"

text \<open>One job: the lock is taken outside of the \<open>try\<close>, whose handler swallows everything.\<close>

definition run_job :: "sched_env \<Rightarrow> job_volume list \<Rightarrow> schedule_job \<Rightarrow> (exn, sched, unit) py" where
  "run_job E vols j =
     (let jvs = volumes_of vols j in
      if jvs = [] then returnS ()
      else
        thenS (on_ses (lock (sc_me E) (job_lock_name j) (Some (''Running backup for job '' @ sj_name j)) False (sc_now E)))
          (finallyS (exceptS (for_each (queue_volume E j) jvs) (\<lambda>_. returnS ()))
            (on_ses (unlock (sc_me E) (job_lock_name j)))))"

definition run_schedule_job :: "sched_env \<Rightarrow> int \<Rightarrow> int \<Rightarrow> int \<Rightarrow> schedule_job list \<Rightarrow> job_volume list \<Rightarrow> (exn, sched, unit) py" where
  "run_schedule_job E w hr mn jobs vols = for_each (run_job E vols) (due_jobs w hr mn jobs)"

text \<open>Nothing is pending and the UIDs to come are new; a run that has queued the given volumes, and nothing else.\<close>

definition fresh_uids :: "sched_env \<Rightarrow> sched \<Rightarrow> bool" where
  "fresh_uids E k \<longleftrightarrow> committed (sd_ses k) = working (sd_ses k) \<and> inj (sc_uid E) \<and> (\<forall>n. is_version_uid (sc_uid E n)) \<and>
     (\<forall>n \<ge> sd_fresh k. sc_uid E n \<notin> ver_uid ` set (db_versions (working (sd_ses k))))"

definition dispatched :: "version \<Rightarrow> dispatch \<Rightarrow> bool" where
  "dispatched v t \<longleftrightarrow> ds_version_id t = ver_id v \<and> ver_status v = incomplete \<and> ds_source t = ''rbd:volumes/volume-'' @ ver_volume v"

definition queued :: "sched_env \<Rightarrow> job_volume list \<Rightarrow> sched \<Rightarrow> sched \<Rightarrow> bool" where
  "queued E items k k' \<longleftrightarrow> fresh_uids E k' \<and> db_locks (working (sd_ses k')) = db_locks (working (sd_ses k)) \<and>
     db_blocks (working (sd_ses k')) = db_blocks (working (sd_ses k)) \<and>
     (\<exists>vs ts. sd_queue k' = sd_queue k @ ts \<and> db_versions (working (sd_ses k')) = db_versions (working (sd_ses k)) @ vs \<and>
        list_all2 dispatched vs ts \<and> map ver_volume vs = map jv_volume_id items)"

lemma queued_Nil: "fresh_uids E k \<Longrightarrow> queued E [] k k"
  by (simp add: queued_def)

lemma queued_append: "queued E a k k1 \<Longrightarrow> queued E b k1 k2 \<Longrightarrow> queued E (a @ b) k k2"
  unfolding queued_def by (elim conjE exE) (fastforce intro: list_all2_appendI)

definition has_room :: "sched_env \<Rightarrow> schedule_job \<Rightarrow> bool" where
  "has_room E j \<longleftrightarrow> (\<exists>used allowed. sc_quota E (sj_storage_id j) = (Some used, Some allowed) \<and> used < allowed)"

definition quota_known :: "sched_env \<Rightarrow> schedule_job \<Rightarrow> bool" where
  "quota_known E j \<longleftrightarrow> (\<exists>used allowed. sc_quota E (sj_storage_id j) = (Some used, Some allowed))"

lemma queue_volume_ok:
  assumes "quota_known E j" and "fresh_uids E k"
  shows "\<exists>k'. queue_volume E j v k = (Inr (), k') \<and> queued E (if has_room E j then [v] else []) k k'"
proof -
  obtain used allowed where q: "sc_quota E (sj_storage_id j) = (Some used, Some allowed)" using assms(1) by (auto simp: quota_known_def)
  show ?thesis
  proof (cases "used < allowed")
    case True
    have u: "VersionUid (sc_uid E (sd_fresh k)) = Inr (sc_uid E (sd_fresh k))" "sc_uid E (sd_fresh k) \<notin> ver_uid ` set (db_versions (working (sd_ses k)))"
      using assms(2) by (simp_all add: fresh_uids_def VersionUid_def)
    obtain k' where k': "queue_volume E j v k = (Inr (), k')" "sd_fresh k' = sd_fresh k + 1" "committed (sd_ses k') = working (sd_ses k')"
      "working (sd_ses k') = (working (sd_ses k))\<lparr>db_versions := db_versions (working (sd_ses k)) @ [new_version_row E j v (sc_uid E (sd_fresh k)) (sd_next_id k)]\<rparr>"
      "sd_queue k' = sd_queue k @ [\<lparr> ds_node = sc_node E (sj_storage_id j), ds_version_id = sd_next_id k, ds_source = ''rbd:volumes/volume-'' @ jv_volume_id v \<rparr>]"
      using True q u by (simp add: queue_volume_def Let_def update_db_def commit_def)
    have "fresh_uids E k'"
      using assms(2) k'(2-4) by (auto simp: fresh_uids_def new_version_row_def dest!: injD)
    then show ?thesis
      using k' True q by (intro exI [of _ k']) (simp add: queued_def dispatched_def new_version_row_def has_room_def)
  next
    case False
    then show ?thesis using q queued_Nil [OF assms(2)] by (simp add: queue_volume_def has_room_def)
  qed
qed

lemma queue_volumes_ok:
  assumes "quota_known E j" and "fresh_uids E k"
  shows "\<exists>k'. for_each (queue_volume E j) vs k = (Inr (), k') \<and> queued E (if has_room E j then vs else []) k k'"
  using assms(2)
proof (induction vs arbitrary: k)
  case (Cons v vs)
  obtain k1 where k1: "queue_volume E j v k = (Inr (), k1)" "queued E (if has_room E j then [v] else []) k k1"
    using queue_volume_ok [OF assms(1) Cons.prems] by blast
  then have "fresh_uids E k1" by (simp add: queued_def)
  then obtain k2 where k2: "for_each (queue_volume E j) vs k1 = (Inr (), k2)" "queued E (if has_room E j then vs else []) k1 k2"
    using Cons.IH by blast
  have "queued E ((if has_room E j then [v] else []) @ (if has_room E j then vs else [])) k k2" by (rule queued_append [OF k1(2) k2(2)])
  then show ?case using k1(1) k2(1) by (simp split: if_splits)
qed (simp add: queued_Nil)

definition idle :: "sched_env \<Rightarrow> job_volume list \<Rightarrow> sched \<Rightarrow> schedule_job \<Rightarrow> bool" where
  "idle E vols k j \<longleftrightarrow> volumes_of vols j = [] \<or> job_lock_name j \<notin> set (map lck_name (db_locks (working (sd_ses k))))"

definition items_of :: "sched_env \<Rightarrow> job_volume list \<Rightarrow> schedule_job list \<Rightarrow> job_volume list" where
  "items_of E vols js = concat (map (volumes_of vols) (filter (has_room E) js))"

lemma items_one: "items_of E vols [j] = (if has_room E j then volumes_of vols j else [])"
  by (simp add: items_of_def)

lemma run_job_ok:
  assumes "quota_known E j" and "fresh_uids E k" and "idle E vols k j"
  shows "\<exists>k'. run_job E vols j k = (Inr (), k') \<and> queued E (items_of E vols [j]) k k'"
proof (cases "volumes_of vols j = []")
  case False
  let ?n = "job_lock_name j" and ?ls = "db_locks (working (sd_ses k))"
  let ?k1 = "k\<lparr>sd_ses := commit (update_db (\<lambda>d. d\<lparr>db_locks := db_locks d @ [lock_row (sc_me E) ?n (''Running backup for job '' @ sj_name j) (sc_now E)]\<rparr>) (sd_ses k))\<rparr>"
  have n: "?n \<notin> set (map lck_name ?ls)" using assms(3) False by (simp add: idle_def)
  have "fresh_uids E ?k1" using assms(2) by (simp add: fresh_uids_def update_db_def commit_def)
  then obtain k2 where k2: "for_each (queue_volume E j) (volumes_of vols j) ?k1 = (Inr (), k2)" "queued E (items_of E vols [j]) ?k1 k2"
    using queue_volumes_ok [OF assms(1), of ?k1 "volumes_of vols j"] unfolding items_one by blast
  let ?k3 = "k2\<lparr>sd_ses := commit (update_db (\<lambda>d. d\<lparr>db_locks := filter (\<lambda>l. \<not> held_by (sc_me E) ?n l) (db_locks d)\<rparr>) (sd_ses k2))\<rparr>"
  have ls: "db_locks (working (sd_ses k2)) = ?ls @ [lock_row (sc_me E) ?n (''Running backup for job '' @ sj_name j) (sc_now E)]"
    using k2(2) by (simp add: queued_def update_db_def commit_def)
  then have "holds (sc_me E) ?n (working (sd_ses k2))" by (simp add: holds_def)
  then have run: "run_job E vols j k = (Inr (), ?k3)"
    using False k2(1) by (simp add: run_job_def thenS_def bindS_def on_ses_def lock_free_ok [OF n] finallyS_def exceptS_def unlock_held_ok)
  have "filter (\<lambda>l. \<not> held_by (sc_me E) ?n l) ?ls = ?ls" using free_names [OF n] by (auto simp: filter_id_conv held_by_def)
  then have "queued E (items_of E vols [j]) k ?k3"
    using k2(2) ls by (auto simp: queued_def fresh_uids_def update_db_def commit_def)
  with run show ?thesis by blast
qed (use assms(2) in \<open>simp add: run_job_def items_of_def queued_Nil\<close>)

lemma run_jobs_outcome:
  assumes "\<forall>j \<in> set js. quota_known E j \<and> \<not> (\<exists>l \<in> set (db_locks (working (sd_ses k))). held_by (sc_me E) (job_lock_name j) l)" and "fresh_uids E k"
  shows "\<exists>k'. for_each (run_job E vols) js k = (if \<forall>j \<in> set js. idle E vols k j then Inr () else Inl AlreadyLocked, k') \<and>
    queued E (items_of E vols (takeWhile (idle E vols k) js)) k k'"
  using assms
proof (induction js arbitrary: k)
  case (Cons j js)
  show ?case
  proof (cases "idle E vols k j")
    case True
    obtain k1 where k1: "run_job E vols j k = (Inr (), k1)" "queued E (items_of E vols [j]) k k1"
      using run_job_ok [OF _ Cons.prems(2) True] Cons.prems(1) by auto
    then have same: "db_locks (working (sd_ses k1)) = db_locks (working (sd_ses k))" "fresh_uids E k1" by (simp_all add: queued_def)
    then have idle: "idle E vols k1 = idle E vols k" by (intro ext) (simp add: idle_def)
    obtain k2 where k2: "for_each (run_job E vols) js k1 = (if \<forall>j \<in> set js. idle E vols k j then Inr () else Inl AlreadyLocked, k2)"
      "queued E (items_of E vols (takeWhile (idle E vols k) js)) k1 k2"
      using Cons.IH [of k1] Cons.prems(1) same by (auto simp: idle)
    have "queued E (items_of E vols (takeWhile (idle E vols k) (j # js))) k k2"
      using queued_append [OF k1(2) k2(2)] True by (simp add: items_of_def split: if_splits)
    then show ?thesis using k1(1) k2(1) True by simp
  next
    case False
    have "run_job E vols j k = (Inl AlreadyLocked, k\<lparr>sd_ses := rollback (sd_ses k)\<rparr>)"
      using False Cons.prems(1) by (auto simp: run_job_def idle_def thenS_def bindS_def on_ses_def lock_def Let_def)
    moreover have "queued E [] k (k\<lparr>sd_ses := rollback (sd_ses k)\<rparr>)"
      using Cons.prems(2) by (auto simp: queued_def fresh_uids_def rollback_def)
    ultimately show ?thesis using False by (simp add: items_of_def)
  qed
qed (simp add: queued_Nil items_of_def)

text \<open>A run of the schedule queues one task for every volume of every due job whose storage has room left, each with a new incomplete version in
  the database, leaves blocks and locks as they were, and succeeds, up to the first due job that another process has locked: there
  the whole run ends with \<open>AlreadyLocked\<close>, and the due jobs behind it are not run.\<close>

theorem schedule_run_outcome:
  assumes "\<forall>j \<in> set (due_jobs w hr mn jobs). quota_known E j \<and> \<not> (\<exists>l \<in> set (db_locks (working (sd_ses k))). held_by (sc_me E) (job_lock_name j) l)"
    and "fresh_uids E k" and "run_schedule_job E w hr mn jobs vols k = (r, k')"
  shows "r = (if \<forall>j \<in> set (due_jobs w hr mn jobs). idle E vols k j then Inr () else Inl AlreadyLocked) \<and>
    db_locks (working (sd_ses k')) = db_locks (working (sd_ses k)) \<and> db_blocks (working (sd_ses k')) = db_blocks (working (sd_ses k)) \<and>
    (\<exists>vs ts. sd_queue k' = sd_queue k @ ts \<and> db_versions (working (sd_ses k')) = db_versions (working (sd_ses k)) @ vs \<and> list_all2 dispatched vs ts \<and>
       map ver_volume vs = map jv_volume_id (items_of E vols (takeWhile (idle E vols k) (due_jobs w hr mn jobs))))"
  using run_jobs_outcome [OF assms(1,2), of vols] assms(3) by (auto simp: run_schedule_job_def queued_def split: if_splits)

definition demo_jobs :: "schedule_job list" where
  "demo_jobs = map (\<lambda>i. \<lparr> sj_id = i, sj_name = ''j'', sj_retention = 7, sj_days_of_week = ''mon,wed'', sj_start_time = 600, sj_mode = None, sj_compression = None, sj_storage_id = 1, sj_group_id = i \<rparr>) [1, 2]"

definition demo_sched :: sched where
  "demo_sched = \<lparr> sd_ses = session_on (demo_db\<lparr>db_locks := [lock_row \<lparr> host = ''other'', process_id = ''9'' \<rparr> ''ScheduleJob 2'' ''r'' 0]\<rparr>),
     sd_queue = [], sd_expires = [], sd_next_id = 5, sd_fresh = 0 \<rparr>"

definition demo_sched_env :: "sched_env" where
  "demo_sched_env = \<lparr> sc_me = demo_process, sc_now = 0, sc_uid = (\<lambda>n. replicate (Suc n) CHR ''a''), sc_quota = (\<lambda>_. (Some 1, Some 9)),
     sc_node = (\<lambda>_. (''node'', 1)), sc_add = (\<lambda>_ _ t. t), sc_today = \<lparr> year = 2021, month = 8, day = 2, hour = 10, minute = 0, second = 0, microsecond = 0 \<rparr>,
     sc_local_time = \<lparr> year = 2021, month = 8, day = 2, hour = 10, minute = 0, second = 0, microsecond = 0 \<rparr> \<rparr>"

text \<open>Two jobs are due, the second is locked by another process: the volume of the first is backed up, the run ends with an error.\<close>

theorem schedule_run_outcome_witness:
  "\<exists>k' ts. run_schedule_job demo_sched_env 0 10 0 demo_jobs [\<lparr> jv_sj_id = 1, jv_volume_id = ''a'', jv_volume_name = None, jv_vm_id = 1 \<rparr>, \<lparr> jv_sj_id = 2, jv_volume_id = ''b'', jv_volume_name = None, jv_vm_id = 1 \<rparr>] demo_sched =
     (Inl AlreadyLocked, k') \<and> sd_queue k' = ts \<and> length ts = 1"
proof -
  let ?vols = "[\<lparr> jv_sj_id = 1, jv_volume_id = ''a'', jv_volume_name = None, jv_vm_id = 1 \<rparr>, \<lparr> jv_sj_id = 2, jv_volume_id = ''b'', jv_volume_name = None, jv_vm_id = 1 \<rparr>]"
  have due: "due_jobs 0 10 0 demo_jobs = demo_jobs" by code_simp
  have names: "job_lock_name (hd demo_jobs) = ''ScheduleJob 1''" "job_lock_name (demo_jobs ! 1) = ''ScheduleJob 2''" by code_simp+
  note d = demo_jobs_def demo_sched_def demo_sched_env_def demo_db_def demo_process_def
  have uid: "is_version_uid (replicate (Suc n) CHR ''a'')" for n
    by (simp add: is_version_uid_def hyphen_match_def value_chars_def lower_def)
  have fresh: "fresh_uids demo_sched_env demo_sched"
    using uid by (auto simp: fresh_uids_def d demo_version_def inj_def Cons_replicate_eq)
  have quota: "\<forall>j \<in> set (due_jobs 0 10 0 demo_jobs). quota_known demo_sched_env j \<and>
      \<not> (\<exists>l \<in> set (db_locks (working (sd_ses demo_sched))). held_by (sc_me demo_sched_env) (job_lock_name j) l)"
    by (simp add: quota_known_def d)
  obtain r k' where run: "run_schedule_job demo_sched_env 0 10 0 demo_jobs ?vols demo_sched = (r, k')" by force
  have idle: "takeWhile (idle demo_sched_env ?vols demo_sched) demo_jobs = [hd demo_jobs]" "\<not> (\<forall>j \<in> set demo_jobs. idle demo_sched_env ?vols demo_sched j)"
    using names by (simp_all add: idle_def volumes_of_def demo_jobs_def demo_sched_def lock_row_def)
  have "items_of demo_sched_env ?vols [hd demo_jobs] = [hd ?vols]" by (simp add: items_one has_room_def volumes_of_def d)
  then have "r = Inl AlreadyLocked \<and> length (sd_queue k') = 1"
    using schedule_run_outcome [OF quota fresh run] idle unfolding due by (auto simp: demo_sched_def dest: list_all2_lengthD map_eq_imp_length_eq)
  then show ?thesis using run by auto
qed

end
