(* ===== verification/Filter_Expressions.thy ===== *)
theory Filter_Expressions
  imports Db "HOL-Library.Char_ord" "HOL-Library.List_Lexorder" "HOL-Library.Product_Lexorder"
begin

text \<open>
  Filter expressions: the class \<open>_QueryBuilder\<close> of \<open>database.py\<close>, and the searches for versions. The grammar is run by \<open>pyparsing\<close>, which
  is a parameter: it delivers the tree of tokens to the code's parse actions. The result is an expression of SQLAlchemy; its meaning
  on a row is the three-valued logic of SQL, over the database's comparison of stored values.
\<close>

section \<open>Tokens and nodes\<close>

datatype literal = LInt int | LStr string | LBool bool

datatype cmp = Eq | Ne | Le | Ge | Lt | Gt

text \<open>The tree the grammar delivers; a run of operands of one operator is a list.\<close>

datatype ptree =
  PIdent string | PLit literal | PLabel string | PCmp cmp "ptree list" | PNot ptree | PAnd "ptree list" | POr "ptree list"

datatype node =
  NIdent string | NLit literal | NLabel string | NCmp cmp node node | NNot node | NAnd "node list" | NOr "node list"

text \<open>\<open>isinstance(token, Buildable)\<close>.\<close>

definition is_buildable :: "node \<Rightarrow> bool" where
  "is_buildable e \<longleftrightarrow> (case e of NLit l \<Rightarrow> False | _ \<Rightarrow> True)"

text \<open>The parse actions: \<open>BinaryOp\<close> asserts that it has two operands, \<open>MultiaryOp\<close> rejects constants.\<close>

fun construct :: "ptree \<Rightarrow> node res" and construct_all :: "ptree list \<Rightarrow> node list res" where
  "construct (PIdent c) = Inr (NIdent c)"
| "construct (PLit l) = Inr (NLit l)"
| "construct (PLabel n) = Inr (NLabel n)"
| "construct (PCmp op ts) =
     bind_res (construct_all ts) (\<lambda>es. case es of [a, b] \<Rightarrow> Inr (NCmp op a b) | _ \<Rightarrow> Inl AssertionError)"
| "construct (PNot t) = bind_res (construct t) (\<lambda>e. Inr (NNot e))"
| "construct (PAnd ts) = bind_res (construct_all ts) (\<lambda>es. if \<forall>e \<in> set es. is_buildable e then Inr (NAnd es) else Inl ParseFatalException)"
| "construct (POr ts) = bind_res (construct_all ts) (\<lambda>es. if \<forall>e \<in> set es. is_buildable e then Inr (NOr es) else Inl ParseFatalException)"
| "construct_all [] = Inr []"
| "construct_all (t # ts) = bind_res (construct t) (\<lambda>e. bind_res (construct_all ts) (\<lambda>es. Inr (e # es)))"

section \<open>Building the SQL expression\<close>

datatype sql =
  SCol cmp string literal | SCols cmp string string | SLabel cmp string string | SHas string | SConst bool
  | SNot sql | SAnd "sql list" | SOr "sql list"

text \<open>What \<open>build\<close> returns: an SQL expression, or a Python boolean for a comparison of constants.\<close>

datatype built = BSql sql | BBool bool

fun ordered :: "cmp \<Rightarrow> 'a :: linorder \<Rightarrow> 'a \<Rightarrow> bool" where
  "ordered Eq x y \<longleftrightarrow> x = y"
| "ordered Ne x y \<longleftrightarrow> x \<noteq> y"
| "ordered Le x y \<longleftrightarrow> x \<le> y"
| "ordered Ge x y \<longleftrightarrow> x \<ge> y"
| "ordered Lt x y \<longleftrightarrow> x < y"
| "ordered Gt x y \<longleftrightarrow> x > y"

definition is_equality :: "cmp \<Rightarrow> bool" where
  "is_equality op \<longleftrightarrow> op = Eq \<or> op = Ne"

fun flip :: "cmp \<Rightarrow> cmp" where
  "flip Le = Ge" | "flip Ge = Le" | "flip Lt = Gt" | "flip Gt = Lt" | "flip Eq = Eq" | "flip Ne = Ne"

text \<open>Python's comparison of two constants; booleans are integers, and other types differ but have no order.\<close>

fun as_number :: "literal \<Rightarrow> int option" where
  "as_number (LInt i) = Some i" | "as_number (LBool b) = Some (of_bool b)" | "as_number (LStr s) = None"

definition py_cmp :: "cmp \<Rightarrow> literal \<Rightarrow> literal \<Rightarrow> bool res" where
  "py_cmp op x y =
     (case (as_number x, as_number y) of
        (Some i, Some j) \<Rightarrow> Inr (ordered op i j)
      | _ \<Rightarrow> (case (x, y) of
          (LStr s, LStr t) \<Rightarrow> Inr (ordered op s t)
        | _ \<Rightarrow> if is_equality op then Inr (op = Ne) else Inl TypeError))"

fun str_literal :: "literal \<Rightarrow> string" where
  "str_literal (LInt i) = str_int i" | "str_literal (LStr s) = s" | "str_literal (LBool b) = (if b then ''True'' else ''False'')"

text \<open>
  What SQLAlchemy makes of a comparison of a column with an object of the parser, and the default string of such an object, are parameters.
  Its order of a column and a boolean constant is documented to be an error.
\<close>

record foreign =
  fo_column :: "cmp \<Rightarrow> string \<Rightarrow> node \<Rightarrow> built res"
  fo_str :: "node \<Rightarrow> string"

definition column_cmp :: "cmp \<Rightarrow> string \<Rightarrow> literal \<Rightarrow> built res" where
  "column_cmp op c l =
     (case l of LBool b \<Rightarrow> if is_equality op then Inr (BSql (SCol op c l)) else Inl ArgumentError | _ \<Rightarrow> Inr (BSql (SCol op c l)))"

definition label_cmp :: "cmp \<Rightarrow> string \<Rightarrow> string \<Rightarrow> built res" where
  "label_cmp op n v = (if is_equality op then Inr (BSql (SLabel op n v)) else Inl TypeError)"

definition object_cmp :: "cmp \<Rightarrow> built res" where
  "object_cmp op = (if is_equality op then Inr (BBool (op = Ne)) else Inl TypeError)"

text \<open>\<open>op(a, b)\<close>: the method of the left operand, else the reflected one of the right.\<close>

fun apply_cmp :: "foreign \<Rightarrow> cmp \<Rightarrow> node \<Rightarrow> node \<Rightarrow> built res" where
  "apply_cmp F op (NIdent c) b =
     (case b of NIdent d \<Rightarrow> Inr (BSql (SCols op c d)) | NLabel n \<Rightarrow> Inl TypeError | NLit l \<Rightarrow> column_cmp op c l | _ \<Rightarrow> fo_column F op c b)"
| "apply_cmp F op (NLabel n) b =
     (case b of NIdent d \<Rightarrow> Inl TypeError | NLabel m \<Rightarrow> Inl TypeError | NLit l \<Rightarrow> label_cmp op n (str_literal l) | _ \<Rightarrow> label_cmp op n (fo_str F b))"
| "apply_cmp F op (NLit x) b =
     (case b of NIdent d \<Rightarrow> column_cmp (flip op) d x | NLabel m \<Rightarrow> label_cmp (flip op) m (str_literal x)
      | NLit y \<Rightarrow> (case py_cmp op x y of Inl e \<Rightarrow> Inl e | Inr v \<Rightarrow> Inr (BBool v)) | _ \<Rightarrow> object_cmp op)"
| "apply_cmp F op a b =
     (case b of NIdent d \<Rightarrow> fo_column F (flip op) d a | NLabel m \<Rightarrow> label_cmp (flip op) m (fo_str F a) | _ \<Rightarrow> object_cmp op)"

text \<open>SQLAlchemy takes Python booleans for constants of SQL.\<close>

definition as_sql :: "built \<Rightarrow> sql" where
  "as_sql v = (case v of BSql q \<Rightarrow> q | BBool b \<Rightarrow> SConst b)"

fun build :: "foreign \<Rightarrow> node \<Rightarrow> built res" and build_all :: "foreign \<Rightarrow> node list \<Rightarrow> sql list res" where
  "build F (NIdent c) = Inr (BSql (SCol Ne c (LStr [])))"
| "build F (NLit l) = Inl AttributeError"
| "build F (NLabel n) = Inr (BSql (SHas n))"
| "build F (NCmp op a b) = apply_cmp F op a b"
| "build F (NNot a) = bind_res (build F a) (\<lambda>v. Inr (BSql (SNot (as_sql v))))"
| "build F (NAnd es) = bind_res (build_all F es) (\<lambda>qs. Inr (BSql (SAnd qs)))"
| "build F (NOr es) = bind_res (build_all F es) (\<lambda>qs. Inr (BSql (SOr qs)))"
| "build_all F [] = Inr []"
| "build_all F (e # es) = bind_res (build F e) (\<lambda>v. bind_res (build_all F es) (\<lambda>qs. Inr (as_sql v # qs)))"

text \<open>\<open>build\<close> and \<open>build_s\<close>: without an expression the query has no condition. The order \<open>build_s\<close> asks for is dropped.\<close>

definition build_query :: "(string \<Rightarrow> ptree res) \<Rightarrow> foreign \<Rightarrow> string option \<Rightarrow> sql option res" where
  "build_query grammar F expression =
     (case expression of
        None \<Rightarrow> Inr None
      | Some s \<Rightarrow>
          if s = [] then Inr None
          else
            (case bind_res (grammar s) construct of
               Inl x \<Rightarrow> if x = ParseFatalException then Inl UsageError else Inl x
             | Inr e \<Rightarrow>
                 (case build F e of
                    Inl x \<Rightarrow> if x = AttributeError \<or> x = TypeError then Inl UsageError else Inl x
                  | Inr (BBool b) \<Rightarrow> Inl UsageError
                  | Inr (BSql q) \<Rightarrow> Inr (Some q))))"

definition build_s :: "(string \<Rightarrow> ptree res) \<Rightarrow> foreign \<Rightarrow> string option \<Rightarrow> sql option res" where
  "build_s grammar F expression = build_query grammar F expression"

section \<open>The meaning of a query\<close>

text \<open>A table as the database sees it: columns (\<open>None\<close> is \<open>NULL\<close>), labels, and the comparison of stored values.\<close>

record 'r table =
  tb_column :: "'r \<Rightarrow> string \<Rightarrow> literal option"
  tb_labels :: "'r \<Rightarrow> (string \<times> string) list"
  tb_cmp :: "cmp \<Rightarrow> literal \<Rightarrow> literal \<Rightarrow> bool"

definition cmp3 :: "'r table \<Rightarrow> cmp \<Rightarrow> literal option \<Rightarrow> literal option \<Rightarrow> bool option" where
  "cmp3 T op x y = (case (x, y) of (Some v, Some w) \<Rightarrow> Some (tb_cmp T op v w) | _ \<Rightarrow> None)"

definition not3 :: "bool option \<Rightarrow> bool option" where
  "not3 = map_option Not"

definition and3 :: "bool option list \<Rightarrow> bool option" where
  "and3 vs = (if Some False \<in> set vs then Some False else if None \<in> set vs then None else Some True)"

definition or3 :: "bool option list \<Rightarrow> bool option" where
  "or3 vs = (if Some True \<in> set vs then Some True else if None \<in> set vs then None else Some False)"

definition label_holds :: "'r table \<Rightarrow> 'r \<Rightarrow> string \<Rightarrow> (string \<Rightarrow> bool) \<Rightarrow> bool" where
  "label_holds T r n P \<longleftrightarrow> (\<exists>(m, v) \<in> set (tb_labels T r). m = n \<and> P v)"

fun eval :: "'r table \<Rightarrow> 'r \<Rightarrow> sql \<Rightarrow> bool option" where
  "eval T r (SCol op c l) = cmp3 T op (tb_column T r c) (Some l)"
| "eval T r (SCols op c d) = cmp3 T op (tb_column T r c) (tb_column T r d)"
| "eval T r (SLabel op n v) = Some (label_holds T r n (\<lambda>w. tb_cmp T op (LStr w) (LStr v)))"
| "eval T r (SHas n) = Some (label_holds T r n (\<lambda>_. True))"
| "eval T r (SConst b) = Some b"
| "eval T r (SNot q) = not3 (eval T r q)"
| "eval T r (SAnd qs) = and3 (map (eval T r) qs)"
| "eval T r (SOr qs) = or3 (map (eval T r) qs)"

definition run_query :: "'r table \<Rightarrow> sql option \<Rightarrow> 'r list \<Rightarrow> 'r list" where
  "run_query T q rows = (case q of None \<Rightarrow> rows | Some c \<Rightarrow> filter (\<lambda>r. eval T r c = Some True) rows)"

text \<open>\<open>Version.find_with_filter\<close>, and \<open>Version.find\<close>, whose filters by snapshot and by label use attributes that do not exist.\<close>

definition find_with_filter :: "(string \<Rightarrow> ptree res) \<Rightarrow> foreign \<Rightarrow> version table \<Rightarrow> string option \<Rightarrow> database \<Rightarrow> version list res" where
  "find_with_filter grammar F T expression d =
     bind_res (build_query grammar F expression) (\<lambda>q.
       Inr (sort_key (\<lambda>v. (ver_volume v, ver_created_at v)) (run_query T q (db_versions d))))"

definition version_find :: "string option \<Rightarrow> string option \<Rightarrow> string option \<Rightarrow> (string \<times> string) list \<Rightarrow> database \<Rightarrow> version list res" where
  "version_find uid volume snapshot labels d =
     (let given = (\<lambda>x. case x of Some s \<Rightarrow> s \<noteq> [] | None \<Rightarrow> False);
          by_uid = (if given uid then filter (\<lambda>v. Some (ver_uid v) = uid) (db_versions d) else db_versions d);
          by_volume = (if given volume then filter (\<lambda>v. Some (ver_volume v) = volume) by_uid else by_uid)
      in if given snapshot then Inl AttributeError
         else if labels \<noteq> [] then Inl AttributeError
         else Inr (sort_key (\<lambda>v. (ver_volume v, ver_created_at v)) by_volume))"

text \<open>The reference: what an expression means on a row, read off the expression itself.\<close>

fun operand :: "'r table \<Rightarrow> 'r \<Rightarrow> node \<Rightarrow> literal option" where
  "operand T r (NIdent c) = tb_column T r c"
| "operand T r (NLit l) = Some l"
| "operand T r _ = None"

fun comparison :: "'r table \<Rightarrow> 'r \<Rightarrow> cmp \<Rightarrow> node \<Rightarrow> node \<Rightarrow> bool option" where
  "comparison T r op (NLabel n) (NLit l) = Some (label_holds T r n (\<lambda>w. tb_cmp T op (LStr w) (LStr (str_literal l))))"
| "comparison T r op (NLit l) (NLabel n) = Some (label_holds T r n (\<lambda>w. tb_cmp T op (LStr (str_literal l)) (LStr w)))"
| "comparison T r op (NLit x) (NLit y) = (case py_cmp op x y of Inl e \<Rightarrow> None | Inr b \<Rightarrow> Some b)"
| "comparison T r op a b = cmp3 T op (operand T r a) (operand T r b)"

fun meaning :: "'r table \<Rightarrow> 'r \<Rightarrow> node \<Rightarrow> bool option" where
  "meaning T r (NIdent c) = cmp3 T Ne (tb_column T r c) (Some (LStr []))"
| "meaning T r (NLit l) = None"
| "meaning T r (NLabel n) = Some (n \<in> set (map fst (tb_labels T r)))"
| "meaning T r (NCmp op a b) = comparison T r op a b"
| "meaning T r (NNot a) = not3 (meaning T r a)"
| "meaning T r (NAnd es) = and3 (map (meaning T r) es)"
| "meaning T r (NOr es) = or3 (map (meaning T r) es)"

text \<open>A database whose comparison can be read from either side.\<close>

definition coherent :: "'r table \<Rightarrow> bool" where
  "coherent T \<longleftrightarrow> (\<forall>op v w. tb_cmp T (flip op) w v = tb_cmp T op v w)"

section \<open>Typing\<close>

text \<open>Operands that are tokens, not expressions.\<close>

definition is_atom :: "node \<Rightarrow> bool" where
  "is_atom e \<longleftrightarrow> (case e of NIdent c \<Rightarrow> True | NLit l \<Rightarrow> True | NLabel n \<Rightarrow> True | _ \<Rightarrow> False)"

inductive flat :: "node \<Rightarrow> bool" where
  "is_atom e \<Longrightarrow> flat e"
| "is_atom a \<Longrightarrow> is_atom b \<Longrightarrow> flat (NCmp op a b)"
| "flat a \<Longrightarrow> flat (NNot a)"
| "(\<And>e. e \<in> set es \<Longrightarrow> flat e) \<Longrightarrow> flat (NAnd es)"
| "(\<And>e. e \<in> set es \<Longrightarrow> flat e) \<Longrightarrow> flat (NOr es)"

text \<open>Comparisons the language supports; a comparison of constants is a condition, but not one of SQL.\<close>

inductive comparable :: "cmp \<Rightarrow> node \<Rightarrow> node \<Rightarrow> bool" where
  columns: "comparable op (NIdent c) (NIdent d)"
| column_value: "(\<And>b. l = LBool b \<Longrightarrow> is_equality op) \<Longrightarrow> comparable op (NIdent c) (NLit l)"
| value_column: "(\<And>b. l = LBool b \<Longrightarrow> is_equality op) \<Longrightarrow> comparable op (NLit l) (NIdent c)"
| label_value: "is_equality op \<Longrightarrow> comparable op (NLabel n) (NLit l)"
| value_label: "is_equality op \<Longrightarrow> comparable op (NLit l) (NLabel n)"

text \<open>\<open>typed e k\<close>: \<open>e\<close> is a condition, and \<open>k\<close> tells whether it is a constant of Python.\<close>

inductive typed :: "node \<Rightarrow> bool \<Rightarrow> bool" where
  ident: "typed (NIdent c) False"
| label: "typed (NLabel n) False"
| compare: "comparable op a b \<Longrightarrow> typed (NCmp op a b) False"
| constants: "py_cmp op x y = Inr v \<Longrightarrow> typed (NCmp op (NLit x) (NLit y)) True"
| negation: "typed a k \<Longrightarrow> typed (NNot a) False"
| conjunction: "(\<And>e. e \<in> set es \<Longrightarrow> \<exists>k. typed e k) \<Longrightarrow> typed (NAnd es) False"
| disjunction: "(\<And>e. e \<in> set es \<Longrightarrow> \<exists>k. typed e k) \<Longrightarrow> typed (NOr es) False"

inductive_simps comparable_simps: "comparable op a b"
inductive_cases typed_litE: "typed (NLit l) k"
inductive_simps flat_simps [simp]: "flat (NIdent c)" "flat (NLit l)" "flat (NLabel n)" "flat (NCmp op a b)" "flat (NNot a)" "flat (NAnd es)" "flat (NOr es)"
inductive_simps typed_simps [simp]: "typed (NIdent c) k" "typed (NLit l) k" "typed (NLabel n) k" "typed (NCmp op a b) k" "typed (NNot a) k"
  "typed (NAnd es) k" "typed (NOr es) k"

definition constant_of :: "built \<Rightarrow> bool" where
  "constant_of v = (case v of BBool b \<Rightarrow> True | BSql q \<Rightarrow> False)"

lemma constant_of_simps [simp]: "constant_of (BBool b)" "\<not> constant_of (BSql q)"
  by (simp_all add: constant_of_def)

lemma flip_equality [simp]: "is_equality (flip op) = is_equality op"
  by (cases op) (simp_all add: is_equality_def)

lemma column_cmp_result:
  "column_cmp op c l = (if (\<exists>b. l = LBool b) \<and> \<not> is_equality op then Inl ArgumentError else Inr (BSql (SCol op c l)))"
  by (cases l) (auto simp: column_cmp_def)

lemma py_cmp_error: "py_cmp op x y = Inl e \<Longrightarrow> e = TypeError"
  by (auto simp: py_cmp_def split: option.splits literal.splits if_splits)

text \<open>A comparison of two tokens: a type error, or typed the way it is built.\<close>

lemma apply_atoms:
  assumes "is_atom a" "is_atom b"
  shows "case apply_cmp F op a b of Inr v \<Rightarrow> typed (NCmp op a b) (constant_of v)
    | Inl x \<Rightarrow> (\<forall>k. \<not> typed (NCmp op a b) k) \<and> (x = TypeError \<or> x = ArgumentError)"
  using assms
  by (cases a; cases b)
    (auto simp: is_atom_def comparable_simps column_cmp_result label_cmp_def split: sum.splits dest: py_cmp_error)

definition type_errors :: "exn set" where
  "type_errors = {TypeError, AttributeError, ArgumentError}"

lemma built_typed:
  "flat e \<Longrightarrow> (case build F e of Inr v \<Rightarrow> typed e (constant_of v) | Inl x \<Rightarrow> (\<forall>k. \<not> typed e k) \<and> x \<in> type_errors)"
  "\<forall>e \<in> set es. flat e \<Longrightarrow> (case build_all F es of Inr qs \<Rightarrow> \<forall>e \<in> set es. \<exists>k. typed e k
      | Inl x \<Rightarrow> (\<exists>e \<in> set es. \<forall>k. \<not> typed e k) \<and> x \<in> type_errors)"
proof (induction F e and F es rule: build_build_all.induct)
  case (4 F op a b)
  then have "is_atom a" "is_atom b" by (simp_all add: is_atom_def)
  then show ?case using apply_atoms [where F = F and op = op and a = a and b = b] by (auto simp: type_errors_def split: sum.splits)
qed (auto simp: type_errors_def is_atom_def bind_res_def split: sum.splits)

lemma typed_once: "typed e k \<Longrightarrow> typed e k' \<Longrightarrow> k = k'"
  by (cases e) (auto simp: comparable_simps)


lemma cmp3_flip: "coherent T \<Longrightarrow> cmp3 T (flip op) y x = cmp3 T op x y"
  by (cases x; cases y) (simp_all add: cmp3_def coherent_def)

lemma label_holds_flip: "coherent T \<Longrightarrow> label_holds T r n (\<lambda>w. tb_cmp T (flip op) (LStr w) (LStr s)) = label_holds T r n (\<lambda>w. tb_cmp T op (LStr s) (LStr w))"
  by (simp add: label_holds_def coherent_def)

lemma has_label: "label_holds T r n (\<lambda>_. True) \<longleftrightarrow> n \<in> fst ` set (tb_labels T r)"
  by (force simp: label_holds_def)

lemma apply_meaning:
  assumes "coherent T" "is_atom a" "is_atom b" "apply_cmp F op a b = Inr v"
  shows "eval T r (as_sql v) = comparison T r op a b"
  using assms(2-4)
  by (cases a; cases b)
    (auto simp: is_atom_def as_sql_def column_cmp_result label_cmp_def cmp3_flip [OF assms(1)] label_holds_flip [OF assms(1)] split: if_splits sum.splits)

lemma built_meaning:
  assumes "coherent T"
  shows "flat e \<Longrightarrow> build F e = Inr v \<Longrightarrow> eval T r (as_sql v) = meaning T r e"
    "\<forall>e \<in> set es. flat e \<Longrightarrow> build_all F es = Inr qs \<Longrightarrow> map (eval T r) qs = map (meaning T r) es"
proof (induction F e and F es arbitrary: v and qs rule: build_build_all.induct)
  case (4 F op a b)
  then show ?case using apply_meaning [OF assms] by (simp add: is_atom_def)
next
  case (9 F e es)
  then show ?case by (auto simp: bind_res_def split: sum.splits)
qed (auto simp: as_sql_def bind_res_def has_label is_atom_def split: sum.splits)


section \<open>Examples\<close>

definition demo_expression :: ptree where
  "demo_expression = PAnd [PCmp Lt [PLit (LInt 1024), PIdent ''size''], PNot (PCmp Ne [PLabel ''app'', PLit (LStr ''db'')])]"

definition demo_table :: "(int \<times> string) table" where
  "demo_table = \<lparr> tb_column = (\<lambda>r c. if c = ''size'' then Some (LInt (fst r)) else None), tb_labels = (\<lambda>r. [(''app'', snd r)]),
     tb_cmp = (\<lambda>op v w. case (v, w) of (LInt i, LInt j) \<Rightarrow> ordered op i j | (LStr s, LStr t) \<Rightarrow> ordered op s t | _ \<Rightarrow> op = Ne) \<rparr>"

definition no_foreign :: foreign where
  "no_foreign = \<lparr> fo_column = (\<lambda>_ _ _. Inl ArgumentError), fo_str = (\<lambda>_. ''<object>'') \<rparr>"

lemma demo_node:
  "construct demo_expression =
     Inr (NAnd [NCmp Lt (NLit (LInt 1024)) (NIdent ''size''), NNot (NCmp Ne (NLabel ''app'') (NLit (LStr ''db'')))])"
  by (simp add: demo_expression_def is_buildable_def)


lemma demo_coherent: "coherent demo_table"
  unfolding coherent_def
proof (intro allI)
  fix op v w show "tb_cmp demo_table (flip op) w v = tb_cmp demo_table op v w"
    by (cases v; cases w; cases op) (auto simp: demo_table_def)
qed


text \<open>A chain of comparisons stops at an assertion, which no handler expects.\<close>

lemma chained_comparison:
  "build_query (\<lambda>_. Inr (PCmp Eq [PIdent ''size'', PIdent ''id'', PLit (LInt 1)])) F (Some ''x'') = Inl AssertionError"
  by (simp add: build_query_def)

end
