(* ===== verification/Accounts.thy ===== *)
theory Accounts
  imports Benji_Types
begin

text \<open>
  Users of the web service: the roles of \<open>helpers/types.py\<close>, the class \<open>Context\<close> of \<open>context.py\<close> that decides who acts for whom, the
  execution of a handler (\<open>api/v1/base.py\<close>), and logging in and refreshing a token (\<open>services/user/controller.py\<close>, \<open>User\<close> of
  \<open>database.py\<close>). \<open>jwt\<close>, \<open>bcrypt\<close> and \<open>pyotp\<close> are parameters.
\<close>

section \<open>Roles\<close>

datatype role = USER | ADMIN_IT | ADMIN

text \<open>The values of the enumeration, \<open>__role_values__\<close>, and \<open>UserRole.parse\<close> on a string.\<close>

fun role_str :: "role \<Rightarrow> string" where
  "role_str USER = ''USER''" | "role_str ADMIN_IT = ''IT_ADMIN''" | "role_str ADMIN = ''ADMIN''"

fun role_value :: "role \<Rightarrow> int" where
  "role_value USER = 1" | "role_value ADMIN_IT = 20" | "role_value ADMIN = 30"

definition role_parse :: "string \<Rightarrow> role option" where
  "role_parse s = find (\<lambda>r. role_str r = s) [USER, ADMIN_IT, ADMIN]"

definition role_is_admin :: "role \<Rightarrow> bool" where
  "role_is_admin r \<longleftrightarrow> r \<in> {ADMIN, ADMIN_IT}"

text \<open>\<open>__le__\<close> and \<open>__lt__\<close> make the roles a linear order.\<close>

definition role_le :: "role \<Rightarrow> role \<Rightarrow> bool" where
  "role_le a b \<longleftrightarrow> role_value a \<le> role_value b"

definition role_lt :: "role \<Rightarrow> role \<Rightarrow> bool" where
  "role_lt a b \<longleftrightarrow> role_value a < role_value b"

lemma role_value_inject: "role_value a = role_value b \<longleftrightarrow> a = b"
  by (cases a; cases b) simp_all

instantiation role :: linorder
begin

definition less_eq_role :: "role \<Rightarrow> role \<Rightarrow> bool" where
  "less_eq_role a b \<longleftrightarrow> role_le a b"

definition less_role :: "role \<Rightarrow> role \<Rightarrow> bool" where
  "less_role a b \<longleftrightarrow> role_lt a b"

instance
  by standard (auto simp: less_eq_role_def less_role_def role_le_def role_lt_def role_value_inject)

end

lemma role_parse_str [simp]: "role_parse (role_str r) = Some r"
  by (cases r) (simp_all add: role_parse_def)

lemma admin_iff: "role_is_admin r \<longleftrightarrow> USER < r"
  by (cases r) (simp_all add: role_is_admin_def less_role_def role_lt_def)

section \<open>Users\<close>

record user =
  usr_id :: int
  usr_name :: string
  usr_email :: string
  usr_fullname :: string
  usr_active :: "bool option"
  usr_password :: string
  usr_two_factors :: "bool option"
  usr_role :: role

record two_factor =
  tf_user_id :: int
  tf_otp_token :: "string option"

text \<open>\<open>id\<close> is the primary key; \<open>first()\<close> is the first row.\<close>

definition find_user :: "int \<Rightarrow> user list \<Rightarrow> user option" where
  "find_user i = find (\<lambda>u. usr_id u = i)"

definition get_by_username :: "string \<Rightarrow> user list \<Rightarrow> user option" where
  "get_by_username n = find (\<lambda>u. usr_name u = n)"

text \<open>\<open>User.load\<close> on the kinds of values the context passes: a user, a name, an identifier or nothing.\<close>

datatype user_ref = RefUser user | RefName string | RefId int | RefNone

definition load_user :: "user_ref \<Rightarrow> user list \<Rightarrow> user option" where
  "load_user r us = (case r of RefUser u \<Rightarrow> Some u | RefName n \<Rightarrow> get_by_username n us | RefId i \<Rightarrow> find_user i us | RefNone \<Rightarrow> None)"

section \<open>Context of a request\<close>

text \<open>
  A \<open>BenjiError\<close> has a code and a message. \<open>ctx.error\<close> is \<open>None\<close>, one error or a list of several: here a list. The causes of errors, the
  warnings and the entries for the log are left out.
\<close>

type_synonym http_error = "int option \<times> string"

record 'r ctx =
  cx_request_user :: "user option"
  cx_target_user :: "user option"
  cx_error :: "http_error list"
  cx_status :: "int option"
  cx_response :: "'r option"

definition new_context :: "'r ctx" where
  "new_context = \<lparr> cx_request_user = None, cx_target_user = None, cx_error = [], cx_status = None, cx_response = None \<rparr>"

lemma new_context_simps [simp]:
  "cx_error new_context = []" "cx_status new_context = None" "cx_request_user new_context = None" "cx_target_user new_context = None"
  by (simp_all add: new_context_def)

definition succeed :: "'r ctx \<Rightarrow> bool" where
  "succeed c \<longleftrightarrow> cx_error c = []"

definition clear_error :: "'r ctx \<Rightarrow> 'r ctx" where
  "clear_error c = c\<lparr>cx_error := [], cx_status := None\<rparr>"

definition add_error :: "http_error \<Rightarrow> 'r ctx \<Rightarrow> 'r ctx" where
  "add_error e c = c\<lparr>cx_error := cx_error c @ [e]\<rparr>"

text \<open>\<open>set_error(error, status)\<close> with a string, which becomes a \<open>BenjiError\<close> with the status as code, and with an exception.\<close>

definition set_error_obj :: "http_error \<Rightarrow> int \<Rightarrow> 'r ctx \<Rightarrow> 'r ctx" where
  "set_error_obj e status c = (add_error e (clear_error c))\<lparr>cx_status := Some status\<rparr>"

definition set_error :: "string \<Rightarrow> int \<Rightarrow> 'r ctx \<Rightarrow> 'r ctx" where
  "set_error msg status c = set_error_obj (Some status, msg) status c"

definition is_cross_user_request :: "'r ctx \<Rightarrow> bool" where
  "is_cross_user_request c \<longleftrightarrow> map_option usr_id (cx_request_user c) \<noteq> map_option usr_id (cx_target_user c)"

definition compare_roles :: "'r ctx \<Rightarrow> bool" where
  "compare_roles c =
     (case (cx_request_user c, cx_target_user c) of (Some r, Some t) \<Rightarrow> usr_role r \<le> usr_role t | _ \<Rightarrow> True)"

definition USER_NOT_AUTHORIZED :: string where
  "USER_NOT_AUTHORIZED = ''USER_NOT_AUTHORIZED''"

definition USER_ACTION_NOT_ALLOWED :: string where
  "USER_ACTION_NOT_ALLOWED = ''User action not allowed''"

text \<open>
  \<open>load_users\<close>: \<open>current\<close> is the identifier of the user the token stands for, \<open>name\<close> is \<open>data.get('user_name')\<close>. A name that no user has
  is passed over.
\<close>

definition load_users :: "user list \<Rightarrow> bool \<Rightarrow> int option \<Rightarrow> string option \<Rightarrow> 'r ctx \<Rightarrow> 'r ctx" where
  "load_users us check_token current name c =
     (let request =
        (if check_token
         then (case current of None \<Rightarrow> None | Some i \<Rightarrow> if i = 0 then None else find_user i us)
         else cx_request_user c)
      in if check_token \<and> request = None then set_error USER_NOT_AUTHORIZED 401 (c\<lparr>cx_request_user := None\<rparr>)
         else
           let r = (case cx_target_user c of
                      Some u \<Rightarrow> RefUser u
                    | None \<Rightarrow> (case name of
                        Some n \<Rightarrow> if n \<noteq> [] then RefName n else (case request of Some u \<Rightarrow> RefUser u | None \<Rightarrow> RefNone)
                      | None \<Rightarrow> (case request of Some u \<Rightarrow> RefUser u | None \<Rightarrow> RefNone)));
               target = (case load_user r us of Some u \<Rightarrow> Some u | None \<Rightarrow> request);
               c1 = c\<lparr>cx_request_user := request, cx_target_user := target\<rparr>
           in if check_token \<and> is_cross_user_request c1 \<and> compare_roles c1 then set_error USER_ACTION_NOT_ALLOWED 403 c1 else c1)"

section \<open>Executing a handler\<close>

type_synonym ('r, 's) handler = "(exn, 'r ctx \<times> 's, unit) py"

text \<open>\<open>_do_exec_manager_func\<close>: every exception becomes an internal error.\<close>

definition do_exec_manager_func :: "('r, 's) handler \<Rightarrow> 'r ctx \<times> 's \<Rightarrow> 'r ctx \<times> 's" where
  "do_exec_manager_func func cs =
     (if succeed (fst cs)
      then (case func cs of
              (Inl e, c, s) \<Rightarrow> (set_error ''Internal Server Error'' 500 c, s)
            | (Inr _, cs') \<Rightarrow> cs')
      else cs)"

text \<open>The answer: the errors or the response, and the status.\<close>

definition process_result_context :: "'r ctx \<Rightarrow> (http_error list + 'r option) \<times> int" where
  "process_result_context c =
     (if succeed c then (Inr (cx_response c), case cx_status c of Some n \<Rightarrow> if n = 0 then 200 else n | None \<Rightarrow> 200)
      else (Inl (cx_error c), case cx_status c of Some n \<Rightarrow> if n = 0 then 500 else n | None \<Rightarrow> 500))"

definition exec_manager_func :: "('r, 's) handler \<Rightarrow> 'r ctx \<times> 's \<Rightarrow> ((http_error list + 'r option) \<times> int) \<times> 's" where
  "exec_manager_func func cs =
     (case do_exec_manager_func func cs of (c, s) \<Rightarrow> (process_result_context c, s))"

text \<open>What handlers do most: set an error and return.\<close>

definition reject :: "string \<Rightarrow> int \<Rightarrow> ('r, 's) handler" where
  "reject msg status cs = (Inr (), set_error msg status (fst cs), snd cs)"

definition respond :: "'r \<Rightarrow> int option \<Rightarrow> ('r, 's) handler" where
  "respond r status cs = (Inr (), (fst cs)\<lparr>cx_response := Some r, cx_status := status\<rparr>, snd cs)"

lemma set_error_simps [simp]:
  "cx_error (set_error msg st c) = [(Some st, msg)]" "cx_status (set_error msg st c) = Some st"
  "cx_error (set_error_obj e st c) = [e]" "cx_status (set_error_obj e st c) = Some st"
  "cx_request_user (set_error msg st c) = cx_request_user c" "cx_target_user (set_error msg st c) = cx_target_user c"
  "cx_response (set_error msg st c) = cx_response c"
  by (simp_all add: set_error_def set_error_obj_def add_error_def clear_error_def)

text \<open>The user a request acts for, and the outcome of \<open>load_users\<close> for a request with a token.\<close>

definition acts_for :: "user list \<Rightarrow> user \<Rightarrow> string option \<Rightarrow> user" where
  "acts_for us u name = (case name of Some n \<Rightarrow> (if n = [] then u else case get_by_username n us of Some v \<Rightarrow> v | None \<Rightarrow> u) | None \<Rightarrow> u)"

lemma load_users_token:
  assumes "find_user i us = Some u" and "i \<noteq> 0"
  shows "load_users us True (Some i) name new_context =
    (let c = new_context\<lparr>cx_request_user := Some u, cx_target_user := Some (acts_for us u name)\<rparr> in
     if usr_id (acts_for us u name) \<noteq> usr_id u \<and> usr_role u \<le> usr_role (acts_for us u name) then set_error USER_ACTION_NOT_ALLOWED 403 c else c)"
  using assms
  by (cases name) (auto simp: load_users_def acts_for_def Let_def new_context_def load_user_def is_cross_user_request_def compare_roles_def split: option.splits)

lemma load_users_no_token:
  "current = None \<or> current = Some 0 \<or> (\<exists>i. current = Some i \<and> find_user i us = None) \<Longrightarrow>
    cx_error (load_users us True current name new_context) = [(Some 401, USER_NOT_AUTHORIZED)]"
  by (auto simp: load_users_def Let_def new_context_def split: option.splits)

section \<open>Tokens\<close>

text \<open>
  The content of a token: the identifier of the user, and \<open>exp\<close> or \<open>time\<close>. \<open>encode\<close> is \<open>jwt.encode(...).decode()\<close>; \<open>decode\<close> raises for a token that
  is malformed, forged or expired.
\<close>

record claims =
  cl_data :: int
  cl_exp :: "int option"
  cl_time :: "int option"

record auth_env =
  au_encode :: "claims \<Rightarrow> string res"
  au_decode :: "string \<Rightarrow> claims res"
  au_checkpw :: "string \<Rightarrow> string \<Rightarrow> bool res"
  au_totp :: "string option \<Rightarrow> string \<Rightarrow> bool res"
  au_time :: int
  au_utc_future :: "int \<Rightarrow> string"
  au_access_expiration :: "int option"
  au_refresh_expiration :: "int option"

definition jwt_encode_token :: "auth_env \<Rightarrow> int \<Rightarrow> int option \<Rightarrow> string res" where
  "jwt_encode_token E data expires_in =
     au_encode E
       (case expires_in of
          Some n \<Rightarrow> if n \<noteq> 0 then \<lparr> cl_data = data, cl_exp = Some (au_time E + n), cl_time = None \<rparr>
                    else \<lparr> cl_data = data, cl_exp = None, cl_time = Some (au_time E) \<rparr>
        | None \<Rightarrow> \<lparr> cl_data = data, cl_exp = None, cl_time = Some (au_time E) \<rparr>)"

definition jwt_decode_token :: "auth_env \<Rightarrow> string \<Rightarrow> int option" where
  "jwt_decode_token E token = (case au_decode E token of Inl e \<Rightarrow> None | Inr cl \<Rightarrow> Some (cl_data cl))"

definition gen_token :: "auth_env \<Rightarrow> user \<Rightarrow> int option \<Rightarrow> string res" where
  "gen_token E u expires_in = jwt_encode_token E (usr_id u) expires_in"

definition verify_token :: "auth_env \<Rightarrow> string \<Rightarrow> user list \<Rightarrow> user option" where
  "verify_token E token us = (case jwt_decode_token E token of None \<Rightarrow> None | Some i \<Rightarrow> find_user i us)"

definition verify_request_token :: "auth_env \<Rightarrow> string option \<Rightarrow> user list \<Rightarrow> user option" where
  "verify_request_token E token us = (case token of None \<Rightarrow> None | Some t \<Rightarrow> if t = [] then None else verify_token E t us)"

section \<open>Login\<close>

record tokens =
  tk_access :: string
  tk_expires_in :: int
  tk_expires_on :: string
  tk_refresh :: string
  tk_refresh_expires_in :: int
  tk_refresh_expires_on :: string

text \<open>The answers of the two handlers: the profile of the user comes with the answer to a login only.\<close>

datatype auth_response = LoggedIn user tokens | Refreshed tokens

definition make_tokens :: "auth_env \<Rightarrow> user \<Rightarrow> int \<Rightarrow> int \<Rightarrow> tokens res" where
  "make_tokens E u access_exp refresh_exp =
     bind_res (gen_token E u (Some access_exp)) (\<lambda>a. bind_res (gen_token E u (Some refresh_exp)) (\<lambda>r.
       Inr \<lparr> tk_access = a, tk_expires_in = access_exp, tk_expires_on = au_utc_future E access_exp,
             tk_refresh = r, tk_refresh_expires_in = refresh_exp, tk_refresh_expires_on = au_utc_future E refresh_exp \<rparr>))"

definition is_active :: "user \<Rightarrow> bool" where
  "is_active u \<longleftrightarrow> usr_active u = Some True"

definition check_user_status :: "'r ctx \<Rightarrow> (bool \<times> 'r ctx) res" where
  "check_user_status c =
     (case cx_target_user c of
        None \<Rightarrow> Inl AttributeError
      | Some u \<Rightarrow> Inr (if is_active u then (True, c)
                     else (False, set_error ''User was locked. Please contact with us to unlock your account'' 400 c)))"

text \<open>\<open>roles\<close> is tested with a method that the context does not have.\<close>

definition check_user :: "string list option \<Rightarrow> 'r ctx \<Rightarrow> (bool \<times> 'r ctx) res" where
  "check_user roles c =
     (if (case roles of Some rs \<Rightarrow> rs \<noteq> [] | None \<Rightarrow> False) then Inl AttributeError
      else if is_cross_user_request c
      then Inr (if compare_roles c then (False, set_error USER_ACTION_NOT_ALLOWED 403 c) else (True, c))
      else check_user_status c)"

definition verify_user_password :: "auth_env \<Rightarrow> string \<Rightarrow> string \<Rightarrow> bool" where
  "verify_user_password E hashed password = (au_checkpw E password hashed = Inr True)"

definition verify_otp :: "auth_env \<Rightarrow> user \<Rightarrow> string \<Rightarrow> two_factor list \<Rightarrow> (bool option) res" where
  "verify_otp E u otp tfs =
     bind_res (one_or_none (\<lambda>t. tf_user_id t = usr_id u) tfs) (\<lambda>x. case x of
       None \<Rightarrow> Inr None
     | Some t \<Rightarrow> bind_res (au_totp E (tf_otp_token t) otp) (\<lambda>b. Inr (Some b)))"

definition default :: "'a \<Rightarrow> 'a option \<Rightarrow> 'a" where
  "default d x = (case x of Some v \<Rightarrow> v | None \<Rightarrow> d)"

definition login :: "auth_env \<Rightarrow> string \<Rightarrow> string option \<Rightarrow> (auth_response, two_factor list) handler" where
  "login E password otp_token cs =
     (case cx_target_user (fst cs) of
        None \<Rightarrow> reject USER_NOT_AUTHORIZED 401 cs
      | Some u \<Rightarrow>
          if \<not> is_active u then reject ''User was locked. Please contact with us to unlock your account'' 400 cs
          else if \<not> verify_user_password E (usr_password u) password then reject ''User password invalid'' 401 cs
          else
            let finish = (\<lambda>cs. case make_tokens E u (default 60000 (au_access_expiration E)) (default 60000 (au_refresh_expiration E)) of
                              Inl e \<Rightarrow> (Inl e, cs)
                            | Inr t \<Rightarrow> respond (LoggedIn u t) (cx_status (fst cs)) cs)
            in if usr_two_factors u \<noteq> Some True then finish cs
               else case otp_token of
                 None \<Rightarrow> reject ''OTP token invalid'' 428 cs
               | Some otp \<Rightarrow>
                   if otp = [] then reject ''OTP token invalid'' 428 cs
                   else (case verify_otp E u otp (snd cs) of
                           Inl e \<Rightarrow> (Inl e, cs)
                         | Inr None \<Rightarrow> reject ''Two factor not enabled'' 401 cs
                         | Inr (Some False) \<Rightarrow> reject ''OTP token invalid'' 401 cs
                         | Inr (Some True) \<Rightarrow> finish cs))"

definition refresh_token :: "auth_env \<Rightarrow> (auth_response, two_factor list) handler" where
  "refresh_token E cs =
     (case check_user None (fst cs) of
        Inl e \<Rightarrow> (Inl e, cs)
      | Inr (False, c) \<Rightarrow> (Inr (), c, snd cs)
      | Inr (True, c) \<Rightarrow>
          (case cx_target_user c of
             None \<Rightarrow> (Inl AttributeError, cs)
           | Some u \<Rightarrow>
               (case make_tokens E u (default 600 (au_access_expiration E)) (default 600 (au_refresh_expiration E)) of
                  Inl e \<Rightarrow> (Inl e, c, snd cs)
                | Inr t \<Rightarrow> respond (Refreshed t) (cx_status c) (c, snd cs))))"

text \<open>The two routes: a login has no token, and the user is the one named.\<close>

definition do_login :: "auth_env \<Rightarrow> user list \<Rightarrow> two_factor list \<Rightarrow> string \<Rightarrow> string \<Rightarrow> string option \<Rightarrow> (http_error list + auth_response option) \<times> int" where
  "do_login E us tfs name password otp = fst (exec_manager_func (login E password otp) (load_users us False None (Some name) new_context, tfs))"

definition do_refresh_token :: "auth_env \<Rightarrow> user list \<Rightarrow> two_factor list \<Rightarrow> string option \<Rightarrow> (http_error list + auth_response option) \<times> int" where
  "do_refresh_token E us tfs token =
     (case verify_request_token E token us of
        None \<Rightarrow> (Inl [], 401)
      | Some u \<Rightarrow> fst (exec_manager_func (refresh_token E) (load_users us True (Some (usr_id u)) None new_context, tfs)))"

section \<open>Who may act\<close>

lemma find_user_id: "find_user i us = Some u \<Longrightarrow> usr_id u = i \<and> u \<in> set us"
  by (auto simp: find_user_def find_Some_iff)

lemma get_by_username_in: "get_by_username n us = Some u \<Longrightarrow> usr_name u = n \<and> u \<in> set us"
  by (auto simp: get_by_username_def find_Some_iff)

lemma same_id: "distinct (map usr_id us) \<Longrightarrow> u \<in> set us \<Longrightarrow> v \<in> set us \<Longrightarrow> usr_id u = usr_id v \<Longrightarrow> u = v"
  by (auto simp: distinct_map dest: inj_onD)

lemma find_user_self: "distinct (map usr_id us) \<Longrightarrow> u \<in> set us \<Longrightarrow> find_user (usr_id u) us = Some u"
  by (induction us) (auto simp: find_user_def)

lemma acts_for_in: "u \<in> set us \<Longrightarrow> acts_for us u name \<in> set us"
  by (auto simp: acts_for_def dest: get_by_username_in split: option.splits)

lemma load_users_succeed:
  assumes "distinct (map usr_id us)" and "c = load_users us True current name new_context" and "succeed c"
  shows "\<exists>u t. c = new_context\<lparr>cx_request_user := Some u, cx_target_user := Some t\<rparr> \<and> u \<in> set us \<and> t \<in> set us \<and> current = Some (usr_id u) \<and>
    (t = u \<or> usr_role t < usr_role u \<and> role_is_admin (usr_role u) \<and> name = Some (usr_name t))"
proof -
  obtain i u where u: "current = Some i" "i \<noteq> 0" "find_user i us = Some u"
    using assms(3) load_users_no_token [of current us name] unfolding assms(2) succeed_def by (metis list.distinct(1) not_Some_eq)
  let ?t = "acts_for us u name"
  note i = find_user_id [OF u(3)]
  have c: "c = new_context\<lparr>cx_request_user := Some u, cx_target_user := Some ?t\<rparr>" "usr_id ?t \<noteq> usr_id u \<Longrightarrow> usr_role ?t < usr_role u"
    using assms(2,3) unfolding u(1) load_users_token [OF u(3,2)] by (auto simp: succeed_def Let_def split: if_splits)
  have "?t \<noteq> u \<Longrightarrow> name = Some (usr_name ?t)"
    by (auto simp: acts_for_def dest: get_by_username_in split: option.splits if_splits)
  moreover have "?t \<noteq> u \<Longrightarrow> usr_id ?t \<noteq> usr_id u" using same_id [OF assms(1) _ _] i acts_for_in by metis
  moreover have "a < usr_role u \<Longrightarrow> role_is_admin (usr_role u)" for a
    by (cases a; cases "usr_role u") (simp_all add: less_role_def role_lt_def role_is_admin_def)
  ultimately show ?thesis using c u(1) i acts_for_in [of u us name] by blast
qed

text \<open>C32: A request with a token gets past \<open>load_users\<close> only for the user the token names, who acts for itself or, as an administrator, for a user of a strictly
  lower role: no user acts for an equal or a higher one, and ordinary users act for nobody else.\<close>

theorem no_escalation:
  assumes "distinct (map usr_id us)" and "c = load_users us True current name new_context" and "succeed c"
  shows "\<exists>u t. cx_request_user c = Some u \<and> cx_target_user c = Some t \<and> u \<in> set us \<and> t \<in> set us \<and> current = Some (usr_id u) \<and>
    (t = u \<or> usr_role t < usr_role u \<and> role_is_admin (usr_role u) \<and> name = Some (usr_name t))"
  using load_users_succeed [OF assms] by (elim exE conjE) (simp add: new_context_def)

section \<open>Logging in\<close>

text \<open>What a login needs, and the one-time password of a user with two factors.\<close>

definition second_factor :: "auth_env \<Rightarrow> two_factor list \<Rightarrow> user \<Rightarrow> string option \<Rightarrow> bool" where
  "second_factor E tfs u otp \<longleftrightarrow>
     usr_two_factors u \<noteq> Some True \<or>
     (\<exists>p t. otp = Some p \<and> p \<noteq> [] \<and> filter (\<lambda>t. tf_user_id t = usr_id u) tfs = [t] \<and> au_totp E (tf_otp_token t) p = Inr True)"

definition login_ok :: "auth_env \<Rightarrow> user list \<Rightarrow> two_factor list \<Rightarrow> string \<Rightarrow> string \<Rightarrow> string option \<Rightarrow> user \<Rightarrow> tokens \<Rightarrow> bool" where
  "login_ok E us tfs name password otp u t \<longleftrightarrow>
     name \<noteq> [] \<and> get_by_username name us = Some u \<and> is_active u \<and> au_checkpw E password (usr_password u) = Inr True \<and> second_factor E tfs u otp \<and>
     make_tokens E u (default 60000 (au_access_expiration E)) (default 60000 (au_refresh_expiration E)) = Inr t"

lemma do_login_eq:
  "do_login E us tfs name password otp =
     fst (exec_manager_func (login E password otp) (new_context\<lparr>cx_target_user := (if name = [] then None else get_by_username name us)\<rparr>, tfs))"
  by (auto simp: do_login_def load_users_def Let_def new_context_def load_user_def split: option.splits)

lemmas exec_defs = exec_manager_func_def do_exec_manager_func_def process_result_context_def reject_def respond_def succeed_def new_context_def

lemma one_or_none_Some: "one_or_none p rows = Inr (Some r) \<longleftrightarrow> filter p rows = [r]"
  by (auto simp: one_or_none_def split: list.splits)

lemma verify_otp_iff:
  "verify_otp E u otp tfs = Inr (Some True) \<longleftrightarrow>
     (\<exists>t. filter (\<lambda>t. tf_user_id t = usr_id u) tfs = [t] \<and> au_totp E (tf_otp_token t) otp = Inr True)"
  unfolding verify_otp_def bind_res_eq_Inr by (fastforce simp: one_or_none_Some bind_res_eq_Inr split: option.splits)

lemma login_result:
  "(do_login E us tfs name password otp = (Inr (Some (LoggedIn u t)), 200) \<longleftrightarrow> login_ok E us tfs name password otp u t) \<and>
   ((\<nexists>u t. login_ok E us tfs name password otp u t) \<longrightarrow>
      (\<exists>es. fst (do_login E us tfs name password otp) = Inl es) \<and> snd (do_login E us tfs name password otp) \<in> {400, 401, 428, 500})"
proof (cases "if name = [] then None else get_by_username name us")
  case None
  then show ?thesis
    by (auto simp: do_login_eq exec_defs login_def login_ok_def split: if_splits)
next
  case (Some v)
  have "usr_two_factors v = Some True \<Longrightarrow> otp = Some p \<Longrightarrow> p \<noteq> [] \<Longrightarrow> second_factor E tfs v otp \<longleftrightarrow> verify_otp E v p tfs = Inr (Some True)" for p
    by (simp add: second_factor_def verify_otp_iff)
  moreover have "usr_two_factors v = Some True \<Longrightarrow> otp = None \<or> otp = Some [] \<Longrightarrow> \<not> second_factor E tfs v otp"
    "usr_two_factors v \<noteq> Some True \<Longrightarrow> second_factor E tfs v otp"
    by (auto simp: second_factor_def)
  ultimately show ?thesis
    using Some
    by (cases otp)
      (auto simp: do_login_eq exec_defs login_def login_ok_def verify_user_password_def Let_def split: if_splits sum.splits option.splits bool.splits)
qed

text \<open>A login is answered with tokens exactly when the name is that of an active user, the password matches, and a user with two factors gives a one-time
  password that fits the only secret stored for it; the tokens are those made for this user. Everything else is answered with an
  error status and no tokens.\<close>

theorem login_outcome:
  "(do_login E us tfs name password otp = (Inr (Some (LoggedIn u t)), 200) \<longleftrightarrow> login_ok E us tfs name password otp u t) \<and>
   ((\<nexists>u t. login_ok E us tfs name password otp u t) \<longrightarrow>
      (\<exists>es. fst (do_login E us tfs name password otp) = Inl es) \<and> snd (do_login E us tfs name password otp) \<in> {400, 401, 428, 500})"
  by (rule login_result)

text \<open>Documented behaviour of \<open>jwt\<close>: a token that has not expired decodes to its content.\<close>

definition jwt_ok :: "auth_env \<Rightarrow> bool" where
  "jwt_ok E \<longleftrightarrow> (\<forall>cl s. au_encode E cl = Inr s \<and> (\<forall>e. cl_exp cl = Some e \<longrightarrow> au_time E < e) \<longrightarrow>
     s \<noteq> [] \<and> (\<exists>cl'. au_decode E s = Inr cl' \<and> cl_data cl' = cl_data cl))"

lemma gen_token_verifies:
  assumes "jwt_ok E" "0 \<le> n" "gen_token E u (Some n) = Inr s" "find_user (usr_id u) us = Some v"
  shows "verify_request_token E (Some s) us = Some v"
proof -
  obtain cl where "au_encode E cl = Inr s" "\<forall>e. cl_exp cl = Some e \<longrightarrow> au_time E < e" "cl_data cl = usr_id u"
    using assms(2,3) by (auto simp: gen_token_def jwt_encode_token_def split: if_splits)
  then show ?thesis using assms(1,4) by (fastforce simp: jwt_ok_def verify_request_token_def verify_token_def jwt_decode_token_def)
qed


section \<open>Examples\<close>

definition demo_users :: "user list" where
  "demo_users =
     [\<lparr> usr_id = 1, usr_name = ''root'', usr_email = [], usr_fullname = [], usr_active = Some True, usr_password = ''r'', usr_two_factors = None, usr_role = ADMIN \<rparr>,
      \<lparr> usr_id = 2, usr_name = ''ann'', usr_email = [], usr_fullname = [], usr_active = Some True, usr_password = ''a'', usr_two_factors = Some True, usr_role = USER \<rparr>,
      \<lparr> usr_id = 3, usr_name = ''bob'', usr_email = [], usr_fullname = [], usr_active = Some True, usr_password = ''b'', usr_two_factors = None, usr_role = USER \<rparr>]"

text \<open>Tokens in clear, passwords compared as they are.\<close>

definition demo_auth :: auth_env where
  "demo_auth = \<lparr> au_encode = (\<lambda>cl. if cl_data cl < 0 then Inl TypeError else Inr (CHR ''t'' # replicate (nat (cl_data cl)) CHR ''i'')),
     au_decode = (\<lambda>s. Inr \<lparr> cl_data = int (length s) - 1, cl_exp = None, cl_time = None \<rparr>), au_checkpw = (\<lambda>p h. Inr (p = h)),
     au_totp = (\<lambda>s p. Inr (s = Some p)), au_time = 0, au_utc_future = (\<lambda>_. []), au_access_expiration = None, au_refresh_expiration = None \<rparr>"

theorem no_escalation_witness:
  "let c = load_users demo_users True (Some 1) (Some ''ann'') (new_context :: unit ctx) in
     succeed c \<and> (\<exists>u t. cx_request_user c = Some u \<and> cx_target_user c = Some t \<and> usr_role t < usr_role u)"
proof -
  let ?c = "load_users demo_users True (Some 1) (Some ''ann'') new_context :: unit ctx"
  have "distinct (map usr_id demo_users)" by (simp add: demo_users_def)
  moreover have s: "succeed ?c" and ne: "cx_target_user ?c \<noteq> cx_request_user ?c" by code_simp+
  ultimately show ?thesis using no_escalation [OF _ refl, of demo_users "Some 1" "Some ''ann''"] unfolding Let_def by metis
qed

theorem login_outcome_witness:
  "\<exists>t. do_login demo_auth demo_users [\<lparr> tf_user_id = 2, tf_otp_token = Some ''123456'' \<rparr>] ''ann'' ''a'' (Some ''123456'') = (Inr (Some (LoggedIn (demo_users ! 1) t)), 200)"
proof -
  let ?tfs = "[\<lparr> tf_user_id = 2, tf_otp_token = Some ''123456'' \<rparr>]"
  have "login_ok demo_auth demo_users ?tfs ''ann'' ''a'' (Some ''123456'') (demo_users ! 1)
      (case make_tokens demo_auth (demo_users ! 1) 60000 60000 of Inr t \<Rightarrow> t)"
    by (simp add: login_ok_def demo_users_def demo_auth_def get_by_username_def is_active_def second_factor_def make_tokens_def gen_token_def jwt_encode_token_def
      default_def)
  then show ?thesis using login_outcome [of demo_auth demo_users ?tfs "''ann''" "''a''" "Some ''123456''"] by blast
qed


end
