(* ===== verification/Rest.thy ===== *)
theory Rest
  imports Complex_Main Accounts Schedule
begin

text \<open>
  The administrative tables of \<open>database.py\<close> and the handlers of the web service that change them: storages, nodes, groups of volumes, schedule
  jobs, and versions to be backed up, restored or deleted (\<open>services/*/controller.py\<close> and \<open>model.py\<close>). Remote procedures and queued
  tasks are recorded in the order they are sent; what the receiving node does to its own statistics is not modelled. Time stamps are
  left out.
\<close>

section \<open>Tables\<close>

record node_row =
  nd_id :: int
  nd_name :: string
  nd_host :: string
  nd_port :: int
  nd_disk_used_overcommit :: "rat option"
  nd_deleted :: "bool option"

record storage_info =
  st_id :: int
  st_name :: string
  st_module :: string
  st_path :: "string option"
  st_disk_used :: "int option"
  st_disk_allowed :: "int option"
  st_deleted :: "bool option"
  st_node_id :: int
  st_user_id :: int

record vm_row =
  vm_id :: int
  vm_name :: string
  vm_ems_ref :: "string option"
  vm_user_id :: int

record group_row =
  vg_id :: int
  vg_name :: string
  vg_description :: "string option"
  vg_user_id :: int

record group_volume =
  gv_group_id :: int
  gv_volume_id :: string
  gv_volume_name :: "string option"
  gv_vm_id :: int

record tables =
  rt_users :: "user list"
  rt_nodes :: "node_row list"
  rt_storages :: "storage_info list"
  rt_vms :: "vm_row list"
  rt_groups :: "group_row list"
  rt_group_volumes :: "group_volume list"
  rt_jobs :: "schedule_job list"
  rt_job_volumes :: "job_volume list"
  rt_versions :: "version list"

text \<open>The constraints the database checks: primary keys, unique columns and foreign keys.\<close>

definition unique :: "('r \<Rightarrow> 'k) \<Rightarrow> 'r list \<Rightarrow> bool" where
  "unique key rows \<longleftrightarrow> distinct (map key rows)"

definition refers :: "('r \<Rightarrow> 'k) \<Rightarrow> ('t \<Rightarrow> 'k) \<Rightarrow> 'r list \<Rightarrow> 't list \<Rightarrow> bool" where
  "refers fk key rows targets \<longleftrightarrow> (\<forall>r \<in> set rows. fk r \<in> key ` set targets)"

definition keys_unique :: "tables \<Rightarrow> bool" where
  "keys_unique t \<longleftrightarrow>
     unique usr_id (rt_users t) \<and> unique usr_name (rt_users t) \<and> unique nd_id (rt_nodes t) \<and> unique nd_host (rt_nodes t) \<and>
     unique st_id (rt_storages t) \<and> unique st_name (rt_storages t) \<and> unique vm_id (rt_vms t) \<and> unique vg_id (rt_groups t) \<and>
     unique gv_volume_id (rt_group_volumes t) \<and> unique sj_id (rt_jobs t) \<and> unique jv_volume_id (rt_job_volumes t) \<and>
     unique ver_id (rt_versions t) \<and> unique ver_uid (rt_versions t)"

definition keys_exist :: "tables \<Rightarrow> bool" where
  "keys_exist t \<longleftrightarrow>
     refers st_node_id nd_id (rt_storages t) (rt_nodes t) \<and> refers st_user_id usr_id (rt_storages t) (rt_users t) \<and>
     refers vm_user_id usr_id (rt_vms t) (rt_users t) \<and> refers vg_user_id usr_id (rt_groups t) (rt_users t) \<and>
     refers gv_group_id vg_id (rt_group_volumes t) (rt_groups t) \<and> refers gv_vm_id vm_id (rt_group_volumes t) (rt_vms t) \<and>
     refers sj_storage_id st_id (rt_jobs t) (rt_storages t) \<and> refers sj_group_id vg_id (rt_jobs t) (rt_groups t) \<and>
     refers jv_sj_id sj_id (rt_job_volumes t) (rt_jobs t) \<and> refers jv_vm_id vm_id (rt_job_volumes t) (rt_vms t) \<and>
     refers ver_storage_id st_id (rt_versions t) (rt_storages t) \<and> refers ver_vm_id vm_id (rt_versions t) (rt_vms t)"

definition integrity :: "tables \<Rightarrow> bool" where
  "integrity t \<longleftrightarrow> keys_unique t \<and> keys_exist t"

text \<open>Calls that leave the process: procedures of a node, which answer, and tasks for the queue, which do not. A node is its host and port.\<close>

type_synonym node_addr = "string \<times> int"

datatype call =
    MapStorage node_addr string string int
  | UpdateStorage node_addr string int
  | DeleteStorage node_addr string string
  | BackupTask node_addr int string "string option"
  | RestoreTask node_addr int string bool bool bool
  | DeleteTask node_addr int bool bool bool

record web =
  wb_working :: tables
  wb_committed :: tables
  wb_calls :: "call list"

text \<open>
  The environment: how procedures end, the volumes of the cloud (\<open>None\<close> when it cannot be reached; a volume has a size and the servers it is attached
  to), generated keys, names and numbers, the configuration, and files named by a request.
\<close>

record web_env =
  we_rpc :: "call list \<Rightarrow> call \<Rightarrow> bool res"
  we_volume :: "(string \<Rightarrow> (rat \<times> string list) option) option"
  we_key :: "int list \<Rightarrow> int"
  we_uuid :: "nat \<Rightarrow> string"
  we_start_time :: int
  we_now :: int
  we_default_path :: "string option"
  we_permit_overcommit :: rat
  we_str_gib :: "int option \<Rightarrow> string"
  we_hints :: "string \<Rightarrow> unit res"
  we_server_volumes :: "string option \<Rightarrow> string list"

definition call :: "web_env \<Rightarrow> call \<Rightarrow> web \<Rightarrow> bool res \<times> web" where
  "call E x w = (we_rpc E (wb_calls w) x, w\<lparr>wb_calls := wb_calls w @ [x]\<rparr>)"

definition enqueue :: "call \<Rightarrow> web \<Rightarrow> web" where
  "enqueue x w = w\<lparr>wb_calls := wb_calls w @ [x]\<rparr>"

text \<open>
  The functions \<open>save\<close> and \<open>delete\<close> of \<open>database.py\<close>: the change and all that is pending is committed, or, when a constraint is violated, rolled
  back and reported; \<open>execute\<close> is a change that stays pending, such as \<open>query.delete()\<close>.
\<close>

definition save :: "(tables \<Rightarrow> tables) \<Rightarrow> web \<Rightarrow> bool \<times> web" where
  "save f w =
     (let t = f (wb_working w) in
      if integrity t then (True, w\<lparr>wb_working := t, wb_committed := t\<rparr>) else (False, w\<lparr>wb_working := wb_committed w\<rparr>))"

definition execute :: "(tables \<Rightarrow> tables) \<Rightarrow> web \<Rightarrow> web" where
  "execute f w = w\<lparr>wb_working := f (wb_working w)\<rparr>"

definition save_error :: http_error where
  "save_error = (None, ''Failed to commit object in database'')"

text \<open>The end of a request, \<open>Database.close\<close>, commits what is pending.\<close>

definition close :: "web \<Rightarrow> web" where
  "close w = w\<lparr>wb_committed := wb_working w\<rparr>"

section \<open>Handlers\<close>

datatype reply =
    RNode node_row | RStorage storage_info | RGroup group_row "group_volume list" | RJob schedule_job "job_volume list"
  | RVersion version | RVersions "version list" | RVolumes "string list"

type_synonym controller = "(reply, web) handler"

text \<open>Rows found by \<open>find_by_id\<close>, \<open>one_or_none\<close> or \<open>first\<close>.\<close>

definition row :: "('r \<Rightarrow> int) \<Rightarrow> int \<Rightarrow> 'r list \<Rightarrow> 'r option" where
  "row key i rows = find (\<lambda>r. key r = i) rows"

definition get_by_name :: "string \<Rightarrow> tables \<Rightarrow> storage_info option" where
  "get_by_name n t = find (\<lambda>s. st_name s = n) (rt_storages t)"

definition node_of :: "storage_info \<Rightarrow> tables \<Rightarrow> node_row option" where
  "node_of s t = row nd_id (st_node_id s) (rt_nodes t)"

definition addr :: "node_row \<Rightarrow> node_addr" where
  "addr n = (nd_host n, nd_port n)"

definition is_admin :: "user \<Rightarrow> bool" where
  "is_admin u \<longleftrightarrow> role_is_admin (usr_role u)"

text \<open>Access to an attribute of a row that may be missing: \<open>AttributeError\<close>.\<close>

definition need :: "'a option \<Rightarrow> ('a \<Rightarrow> controller) \<Rightarrow> controller" where
  "need x k cs = (case x of None \<Rightarrow> (Inl AttributeError, cs) | Some a \<Rightarrow> k a cs)"

text \<open>A query or procedure that may raise, and one that changes the tables and reports an error.\<close>

definition try_res :: "'a res \<Rightarrow> ('a \<Rightarrow> controller) \<Rightarrow> controller" where
  "try_res x k cs = (case x of Inl e \<Rightarrow> (Inl e, cs) | Inr a \<Rightarrow> k a cs)"

definition with_save :: "(tables \<Rightarrow> tables) \<Rightarrow> controller \<Rightarrow> controller \<Rightarrow> controller" where
  "with_save f good bad cs = (case save f (snd cs) of (True, w) \<Rightarrow> good (fst cs, w) | (False, w) \<Rightarrow> bad (fst cs, w))"

definition with_call :: "web_env \<Rightarrow> call \<Rightarrow> controller \<Rightarrow> controller \<Rightarrow> controller" where
  "with_call E x good bad cs =
     (case call E x (snd cs) of
        (Inl e, w) \<Rightarrow> (Inl e, fst cs, w)
      | (Inr True, w) \<Rightarrow> good (fst cs, w)
      | (Inr False, w) \<Rightarrow> bad (fst cs, w))"

definition with_tables :: "(tables \<Rightarrow> controller) \<Rightarrow> controller" where
  "with_tables k cs = k (wb_working (snd cs)) cs"

definition reject_save :: "int \<Rightarrow> controller" where
  "reject_save status cs = (Inr (), set_error_obj save_error status (fst cs), snd cs)"

subsection \<open>Storages\<close>

definition get_storage :: "user \<Rightarrow> int \<Rightarrow> controller" where
  "get_storage rq i = with_tables (\<lambda>t.
     case row st_id i (rt_storages t) of
       None \<Rightarrow> reject ''Not found item'' 404
     | Some s \<Rightarrow> if \<not> is_admin rq then reject ''Not found item'' 404 else respond (RStorage s) None)"

definition GiB :: int where
  "GiB = 1024 ^ 3"

text \<open>\<open>StorageModel.create\<close>: the node with the fewest storages among those that are up and have room.\<close>

definition node_load :: "tables \<Rightarrow> node_row \<Rightarrow> nat" where
  "node_load t n = length (filter (\<lambda>s. st_node_id s = nd_id n) (rt_storages t))"

definition select_node :: "web_env \<Rightarrow> tables \<Rightarrow> node_row option" where
  "select_node E t =
     (let nodes = filter (\<lambda>n. nd_deleted n = Some False \<and> (case nd_disk_used_overcommit n of Some x \<Rightarrow> x \<le> we_permit_overcommit E | None \<Rightarrow> False)) (rt_nodes t)
      in if nodes = [] then None else Some (arg_min_list (node_load t) nodes))"

definition new_storage :: "web_env \<Rightarrow> tables \<Rightarrow> user \<Rightarrow> node_row \<Rightarrow> int \<Rightarrow> storage_info" where
  "new_storage E t u n disk =
     \<lparr> st_id = we_key E (map st_id (rt_storages t)), st_name = usr_name u, st_module = ''file'',
       st_path = Some ((case we_default_path E of Some p \<Rightarrow> if p = [] then ''/tmp'' else p | None \<Rightarrow> ''/tmp'') @ ''/'' @ usr_name u),
       st_disk_used = Some 0, st_disk_allowed = Some disk, st_deleted = Some False, st_node_id = nd_id n, st_user_id = usr_id u \<rparr>"

definition add_storage :: "storage_info \<Rightarrow> tables \<Rightarrow> tables" where
  "add_storage s t = t\<lparr>rt_storages := rt_storages t @ [s]\<rparr>"

definition del_storage :: "int \<Rightarrow> tables \<Rightarrow> tables" where
  "del_storage i t = t\<lparr>rt_storages := filter (\<lambda>s. st_id s \<noteq> i) (rt_storages t)\<rparr>"

definition set_storage :: "(storage_info \<Rightarrow> storage_info) \<Rightarrow> int \<Rightarrow> tables \<Rightarrow> tables" where
  "set_storage f i t = t\<lparr>rt_storages := map (\<lambda>s. if st_id s = i then f s else s) (rt_storages t)\<rparr>"

definition create_storage_for :: "web_env \<Rightarrow> user \<Rightarrow> int \<Rightarrow> controller" where
  "create_storage_for E u disk = with_tables (\<lambda>t.
     case select_node E t of
       None \<Rightarrow> reject ''Not found any nodes'' 400
     | Some n \<Rightarrow>
         let s = new_storage E t u n (disk * GiB) in
         with_save (add_storage s)
           (with_call E (MapStorage (addr n) (st_name s) (the (st_path s)) (disk * GiB))
             (respond (RStorage s) (Some 201))
             (with_save (del_storage (st_id s))
               (reject (''Failed to create storage '' @ st_name s) 400)
               (reject (''Failed to create storage '' @ st_name s) 400)))
           (reject_save 400))"

definition create_storage :: "web_env \<Rightarrow> user \<Rightarrow> user \<Rightarrow> int option \<Rightarrow> int \<Rightarrow> controller" where
  "create_storage E rq tg user_id disk = with_tables (\<lambda>t.
     if \<not> is_admin rq then reject USER_ACTION_NOT_ALLOWED 403
     else case user_id of
       None \<Rightarrow> create_storage_for E tg disk
     | Some i \<Rightarrow>
         if i = 0 then create_storage_for E tg disk
         else (case find_user i (rt_users t) of
             None \<Rightarrow> reject ''User not found'' 404
           | Some u \<Rightarrow> try_res (one_or_none (\<lambda>s. st_user_id s = i) (rt_storages t)) (\<lambda>x.
               case x of Some _ \<Rightarrow> reject ''User already have a storage'' 400 | None \<Rightarrow> create_storage_for E u disk)))"

definition update_storage :: "web_env \<Rightarrow> user \<Rightarrow> int \<Rightarrow> int \<Rightarrow> controller" where
  "update_storage E rq i disk = with_tables (\<lambda>t.
     case row st_id i (rt_storages t) of
       None \<Rightarrow> reject ''Not found item'' 404
     | Some s \<Rightarrow>
         if \<not> is_admin rq then reject ''Not found item'' 404
         else
           let finish = (\<lambda>d. with_save (set_storage (\<lambda>s. s\<lparr>st_disk_allowed := Some d\<rparr>) i)
                               (respond (RStorage (s\<lparr>st_disk_allowed := Some d\<rparr>)) None)
                               (reject ''Failed to update storage'' 400)) in
           if disk = 0 then finish disk
           else (case st_disk_allowed s of
               None \<Rightarrow> raiseS TypeError
             | Some allowed \<Rightarrow>
                 if disk * GiB \<le> allowed then reject (''disk_allowed must be greater than '' @ we_str_gib E (st_disk_allowed s)) 400
                 else need (node_of s t) (\<lambda>n.
                   with_call E (UpdateStorage (addr n) (st_name s) (disk * GiB))
                     (finish (disk * GiB))
                     (reject (''Failed to update storage '' @ st_name s) 400))))"

definition delete_storage :: "web_env \<Rightarrow> user \<Rightarrow> int \<Rightarrow> bool \<Rightarrow> controller" where
  "delete_storage E rq i force = with_tables (\<lambda>t.
     case row st_id i (rt_storages t) of
       None \<Rightarrow> reject ''Not found item'' 404
     | Some s \<Rightarrow>
         if \<not> is_admin rq then reject ''Not found item'' 404
         else (case st_path s of
             None \<Rightarrow> raiseS TypeError
           | Some path \<Rightarrow> need (node_of s t) (\<lambda>n.
               with_call E (DeleteStorage (addr n) (st_name s) path)
                 (with_save (if force then del_storage i else set_storage (\<lambda>s. s\<lparr>st_deleted := Some True\<rparr>) i)
                   (returnS ())
                   (reject ''Failed to delete storage'' 400))
                 (reject (''Failed to delete storage '' @ st_name s) 400))))"

subsection \<open>Nodes\<close>

definition get_node :: "user \<Rightarrow> int \<Rightarrow> controller" where
  "get_node rq i = with_tables (\<lambda>t.
     if \<not> is_admin rq then reject USER_ACTION_NOT_ALLOWED 403
     else case row nd_id i (rt_nodes t) of None \<Rightarrow> reject ''Not found item'' 404 | Some n \<Rightarrow> respond (RNode n) None)"

definition set_node :: "(node_row \<Rightarrow> node_row) \<Rightarrow> int \<Rightarrow> tables \<Rightarrow> tables" where
  "set_node f i t = t\<lparr>rt_nodes := map (\<lambda>n. if nd_id n = i then f n else n) (rt_nodes t)\<rparr>"

definition create_node :: "web_env \<Rightarrow> user \<Rightarrow> string \<Rightarrow> string \<Rightarrow> int \<Rightarrow> controller" where
  "create_node E rq name addr_host port = with_tables (\<lambda>t.
     if \<not> is_admin rq then reject USER_ACTION_NOT_ALLOWED 403
     else
       let n = \<lparr> nd_id = we_key E (map nd_id (rt_nodes t)), nd_name = name, nd_host = addr_host, nd_port = port,
                 nd_disk_used_overcommit = Some 0, nd_deleted = Some False \<rparr> in
       with_save (\<lambda>t. t\<lparr>rt_nodes := rt_nodes t @ [n]\<rparr>) (respond (RNode n) (Some 201)) (reject ''Failed to create node'' 400))"

text \<open>The route gives \<open>update_node\<close> no columns to change. Both handlers test the model instead of the row.\<close>

definition update_node :: "user \<Rightarrow> int \<Rightarrow> controller" where
  "update_node rq i = with_tables (\<lambda>t.
     if \<not> is_admin rq then reject USER_ACTION_NOT_ALLOWED 403
     else need (row nd_id i (rt_nodes t)) (\<lambda>n.
       with_save (\<lambda>t. t) (respond (RNode n) None) (reject ''Failed to update node'' 400)))"

definition delete_node :: "user \<Rightarrow> int \<Rightarrow> bool \<Rightarrow> controller" where
  "delete_node rq i force = with_tables (\<lambda>t.
     if \<not> is_admin rq then reject USER_ACTION_NOT_ALLOWED 403
     else need (row nd_id i (rt_nodes t)) (\<lambda>n.
       if force
       then with_save (\<lambda>t. t\<lparr>rt_nodes := filter (\<lambda>n. nd_id n \<noteq> i) (rt_nodes t)\<rparr>)
              (respond (RNode n) None) (reject ''Failed to delete node'' 400)
       else with_save (set_node (\<lambda>n. n\<lparr>nd_deleted := Some True\<rparr>) i)
              (respond (RNode (n\<lparr>nd_deleted := Some True\<rparr>)) None) (reject ''Failed to delete node'' 400)))"

subsection \<open>Groups of volumes\<close>

text \<open>The elements of \<open>volumes\<close> are dictionaries whose keys are not validated.\<close>

record volume_arg =
  va_id :: "string option"
  va_name :: "string option"
  va_vm_id :: "int option"

definition require_key :: "'a option \<Rightarrow> 'a res" where
  "require_key x = (case x of None \<Rightarrow> Inl KeyError | Some a \<Rightarrow> Inr a)"

definition rows_of_group :: "int \<Rightarrow> tables \<Rightarrow> group_volume list" where
  "rows_of_group i t = filter (\<lambda>v. gv_group_id v = i) (rt_group_volumes t)"

text \<open>Whether a server among the attachments is a virtual machine of the user, or of any user; the user is looked up for every attachment.\<close>

fun attached :: "(vm_row \<Rightarrow> bool) res \<Rightarrow> string list \<Rightarrow> vm_row list \<Rightarrow> bool res" where
  "attached owner [] vms = Inr False"
| "attached owner (server # servers) vms =
     bind_res owner (\<lambda>p. bind_res (one_or_none (\<lambda>v. vm_ems_ref v = Some server \<and> p v) vms) (\<lambda>x.
       case x of Some _ \<Rightarrow> Inr True | None \<Rightarrow> attached owner servers vms))"

definition owned_by :: "int \<Rightarrow> vm_row \<Rightarrow> bool" where
  "owned_by i v \<longleftrightarrow> vm_user_id v = i"

definition invalid_volume :: "string \<Rightarrow> string" where
  "invalid_volume v = ''volume id '' @ v @ '' is invalid''"

text \<open>The checks of \<open>create_volume_group\<close>: \<open>Some message\<close> is the error of the first volume that is refused.\<close>

fun check_volumes :: "(string \<Rightarrow> (rat \<times> string list) option) \<Rightarrow> int option \<Rightarrow> tables \<Rightarrow> volume_arg list \<Rightarrow> string option res" where
  "check_volumes cloud uid t [] = Inr None"
| "check_volumes cloud uid t (v # vs) =
     bind_res (require_key (va_id v)) (\<lambda>i.
     bind_res (one_or_none (\<lambda>g. gv_volume_id g = i) (rt_group_volumes t)) (\<lambda>g.
       if g \<noteq> None then Inr (Some (i @ '' already exist in volumebackupgroup''))
       else case cloud i of
         None \<Rightarrow> Inr (Some (invalid_volume i))
       | Some (gib, servers) \<Rightarrow>
           bind_res (attached (bind_res (require_key uid) (\<lambda>u. Inr (owned_by u))) servers (rt_vms t)) (\<lambda>ok.
             if ok then check_volumes cloud uid t vs else Inr (Some (invalid_volume i)))))"

text \<open>\<open>vol_bg.create()\<close> merges the row: one with the same primary key is replaced. Its error is not looked at.\<close>

definition merge_volume :: "group_volume \<Rightarrow> tables \<Rightarrow> tables" where
  "merge_volume g t =
     (let same = (\<lambda>h. gv_group_id h = gv_group_id g \<and> gv_volume_id h = gv_volume_id g) in
      t\<lparr>rt_group_volumes := (if \<exists>h \<in> set (rt_group_volumes t). same h
          then map (\<lambda>h. if same h then g else h) (rt_group_volumes t) else rt_group_volumes t @ [g])\<rparr>)"

fun add_volumes :: "bool \<Rightarrow> int \<Rightarrow> volume_arg list \<Rightarrow> controller" where
  "add_volumes names i [] cs = (Inr (), cs)"
| "add_volumes names i (v # vs) cs =
     try_res (require_key (va_id v)) (\<lambda>volume. try_res (require_key (va_vm_id v)) (\<lambda>vm cs.
       add_volumes names i vs
         (fst cs, snd (save (merge_volume \<lparr> gv_group_id = i, gv_volume_id = volume, gv_volume_name = (if names then va_name v else None), gv_vm_id = vm \<rparr>) (snd cs))))) cs"

definition group_reply :: "group_row \<Rightarrow> int option \<Rightarrow> controller" where
  "group_reply g status = with_tables (\<lambda>t. respond (RGroup g (rows_of_group (vg_id g) t)) status)"

definition get_volume_group :: "user \<Rightarrow> user \<Rightarrow> int \<Rightarrow> controller" where
  "get_volume_group rq tg i = with_tables (\<lambda>t.
     let g = row vg_id i (rt_groups t) in
     if \<not> is_admin rq \<and> (case g of None \<Rightarrow> True | Some g \<Rightarrow> vg_user_id g \<noteq> usr_id tg) then reject ''Not found item'' 404
     else need g (\<lambda>g. group_reply g None))"

definition create_volume_group :: "web_env \<Rightarrow> user \<Rightarrow> user \<Rightarrow> int option \<Rightarrow> string \<Rightarrow> string option \<Rightarrow> volume_arg list \<Rightarrow> controller" where
  "create_volume_group E rq tg user_id name description volumes = with_tables (\<lambda>t.
     let uid = (if is_admin rq then user_id else Some (usr_id tg)) in
     case we_volume E of
       None \<Rightarrow> returnS ()
     | Some cloud \<Rightarrow> try_res (check_volumes cloud uid t volumes) (\<lambda>bad.
         case bad of
           Some msg \<Rightarrow> reject msg 400
         | None \<Rightarrow> (case uid of
             None \<Rightarrow> raiseS TypeError
           | Some u \<Rightarrow>
               let g = \<lparr> vg_id = we_key E (map vg_id (rt_groups t)), vg_name = name, vg_description = description, vg_user_id = u \<rparr> in
               with_save (\<lambda>t. t\<lparr>rt_groups := rt_groups t @ [g]\<rparr>)
                 (thenS (add_volumes True (vg_id g) volumes) (group_reply g (Some 201)))
                 (reject ''Failed to create backup group'' 400))))"

definition truthy :: "string option \<Rightarrow> bool" where
  "truthy x \<longleftrightarrow> (case x of Some s \<Rightarrow> s \<noteq> [] | None \<Rightarrow> False)"

definition renamed :: "string option \<Rightarrow> string option \<Rightarrow> group_row \<Rightarrow> group_row" where
  "renamed name description g =
     g\<lparr>vg_name := (if truthy name then the name else vg_name g), vg_description := (if truthy description then description else vg_description g)\<rparr>"

text \<open>The new volumes of an update are not checked, and the removal of the old ones is pending while they are added.\<close>

definition update_volume_group :: "user \<Rightarrow> user \<Rightarrow> int \<Rightarrow> string option \<Rightarrow> string option \<Rightarrow> volume_arg list \<Rightarrow> controller" where
  "update_volume_group rq tg i name description volumes = with_tables (\<lambda>t.
     let g = row vg_id i (rt_groups t) in
     if \<not> is_admin rq \<and> (case g of None \<Rightarrow> True | Some g \<Rightarrow> vg_user_id g \<noteq> usr_id tg) then reject ''Not found item'' 404
     else need g (\<lambda>g.
       with_save (\<lambda>t. t\<lparr>rt_groups := map (\<lambda>h. if vg_id h = i then renamed name description h else h) (rt_groups t)\<rparr>)
         (if volumes = [] then group_reply (renamed name description g) None
          else
            thenS (\<lambda>cs. (Inr (), fst cs, execute (\<lambda>t. t\<lparr>rt_group_volumes := filter (\<lambda>v. gv_group_id v \<noteq> i) (rt_group_volumes t)\<rparr>) (snd cs)))
              (thenS (add_volumes False i volumes) (group_reply (renamed name description g) None)))
         (reject ''Failed to update backup group'' 400)))"

definition drop_group :: "int \<Rightarrow> schedule_job option \<Rightarrow> tables \<Rightarrow> tables" where
  "drop_group i job t =
     t\<lparr>rt_job_volumes := (case job of Some j \<Rightarrow> filter (\<lambda>v. jv_sj_id v \<noteq> sj_id j) (rt_job_volumes t) | None \<Rightarrow> rt_job_volumes t),
       rt_jobs := filter (\<lambda>j. sj_group_id j \<noteq> i) (rt_jobs t),
       rt_group_volumes := filter (\<lambda>v. gv_group_id v \<noteq> i) (rt_group_volumes t),
       rt_groups := filter (\<lambda>g. vg_id g \<noteq> i) (rt_groups t)\<rparr>"

definition delete_volume_group :: "user \<Rightarrow> user \<Rightarrow> int \<Rightarrow> controller" where
  "delete_volume_group rq tg i = with_tables (\<lambda>t.
     case row vg_id i (rt_groups t) of
       None \<Rightarrow> reject ''Not found item'' 404
     | Some g \<Rightarrow>
         if \<not> is_admin rq \<and> vg_user_id g \<noteq> usr_id tg then reject USER_ACTION_NOT_ALLOWED 403
         else try_res (one_or_none (\<lambda>j. sj_group_id j = i) (rt_jobs t)) (\<lambda>job.
           with_save (drop_group i job) (returnS ()) (reject_save 400)))"

subsection \<open>Schedule jobs\<close>

record job_args =
  ja_group_id :: int
  ja_name :: "string option"
  ja_mode :: string
  ja_days_of_week :: "string list"
  ja_start_time :: int
  ja_compression :: "string option"
  ja_retention :: int
  ja_user_id :: "int option"

definition bad_start_time :: "int \<Rightarrow> bool" where
  "bad_start_time n \<longleftrightarrow> n < 0 \<or> n > 1440"

definition bad_retention :: "int \<Rightarrow> bool" where
  "bad_retention n \<longleftrightarrow> n < -1 \<or> n > 360 \<or> n = 0"

definition get_schedule_job :: "int \<Rightarrow> controller" where
  "get_schedule_job i = with_tables (\<lambda>t.
     case row sj_id i (rt_jobs t) of
       None \<Rightarrow> reject ''Not found item'' 404
     | Some j \<Rightarrow> respond (RJob j (filter (\<lambda>v. jv_sj_id v = i) (rt_job_volumes t))) None)"

text \<open>The row a request makes: with retention -1 the times are the server's choice.\<close>

definition new_job :: "web_env \<Rightarrow> tables \<Rightarrow> job_args \<Rightarrow> int \<Rightarrow> schedule_job" where
  "new_job E t a storage =
     \<lparr> sj_id = we_key E (map sj_id (rt_jobs t)), sj_name = (if truthy (ja_name a) then the (ja_name a) else we_uuid E (length (rt_jobs t))),
       sj_retention = ja_retention a,
       sj_days_of_week = join_with CHR '','' (if ja_retention a = -1 then week else ja_days_of_week a),
       sj_start_time = (if ja_retention a = -1 then exclude_woking_time (we_start_time E) else ja_start_time a),
       sj_mode = Some (ja_mode a), sj_compression = ja_compression a, sj_storage_id = storage, sj_group_id = ja_group_id a \<rparr>"

text \<open>The volumes of the group are copied; a volume that another job has is passed over.\<close>

fun add_job_volumes :: "int \<Rightarrow> group_volume list \<Rightarrow> web \<Rightarrow> web" where
  "add_job_volumes i [] w = w"
| "add_job_volumes i (v # vs) w =
     add_job_volumes i vs (snd (save (\<lambda>t. t\<lparr>rt_job_volumes := rt_job_volumes t @
       [\<lparr> jv_sj_id = i, jv_volume_id = gv_volume_id v, jv_volume_name = gv_volume_name v, jv_vm_id = gv_vm_id v \<rparr>]\<rparr>) w))"

definition job_reply :: "schedule_job \<Rightarrow> int option \<Rightarrow> controller" where
  "job_reply j status = with_tables (\<lambda>t. respond (RJob j (filter (\<lambda>v. jv_sj_id v = sj_id j) (rt_job_volumes t))) status)"

definition create_schedule_job :: "web_env \<Rightarrow> user \<Rightarrow> user \<Rightarrow> job_args \<Rightarrow> controller" where
  "create_schedule_job E rq tg a = with_tables (\<lambda>t.
     if bad_start_time (ja_start_time a) then reject ''Start time is out of range'' 400
     else if bad_retention (ja_retention a) then reject ''Retention is out of range valid'' 400
     else case row vg_id (ja_group_id a) (rt_groups t) of
       None \<Rightarrow> reject ''Resource not found'' 403
     | Some g \<Rightarrow>
         if \<not> is_admin rq \<and> vg_user_id g \<noteq> usr_id tg then reject USER_ACTION_NOT_ALLOWED 403
         else if \<exists>j \<in> set (rt_jobs t). sj_group_id j = ja_group_id a then reject (''group '' @ vg_name g @ '' already have a policy'') 400
         else try_res (if is_admin rq then one_or_none (\<lambda>s. Some (st_user_id s) = ja_user_id a) (rt_storages t) else Inr (get_by_name (usr_name tg) t)) (\<lambda>storage.
           case storage of
             None \<Rightarrow> reject ''Not found storage name'' 404
           | Some s \<Rightarrow>
               if \<not> is_admin rq \<and> ja_user_id a \<noteq> None then raiseS TypeError
               else
                 let vols = rows_of_group (ja_group_id a) t; j = new_job E t a (st_id s) in
                 if vols = [] then reject ''Not found volumes in group'' 400
                 else with_save (\<lambda>t. t\<lparr>rt_jobs := rt_jobs t @ [j]\<rparr>)
                   (thenS (\<lambda>cs. (Inr (), fst cs, add_job_volumes (sj_id j) vols (snd cs))) (job_reply j (Some 201)))
                   (reject ''Failed to create schedule job'' 400)))"

record job_update =
  ju_name :: "string option"
  ju_mode :: "string option"
  ju_days_of_week :: "string list option"
  ju_start_time :: "int option"
  ju_compression :: "string option"
  ju_retention :: "int option"
  ju_user_name :: "string option"

text \<open>The column \<open>days_of_week\<close> after the checks of the controller; the model's \<open>update\<close> requires it and knows no \<open>user_name\<close>.\<close>

definition updated_days :: "schedule_job \<Rightarrow> job_update \<Rightarrow> string list option" where
  "updated_days j a =
     (if (ju_retention a = None \<and> sj_retention j = -1) \<or> ju_retention a = Some (-1) then Some week else ju_days_of_week a)"

definition updated_job :: "job_update \<Rightarrow> string list \<Rightarrow> schedule_job \<Rightarrow> schedule_job" where
  "updated_job a days j =
     j\<lparr>sj_name := default (sj_name j) (ju_name a), sj_mode := (if ju_mode a = None then sj_mode j else ju_mode a),
       sj_days_of_week := join_with CHR '','' days, sj_start_time := default (sj_start_time j) (ju_start_time a),
       sj_compression := (if ju_compression a = None then sj_compression j else ju_compression a),
       sj_retention := default (sj_retention j) (ju_retention a)\<rparr>"

definition update_schedule_job :: "user \<Rightarrow> user \<Rightarrow> int \<Rightarrow> job_update \<Rightarrow> controller" where
  "update_schedule_job rq tg i a = with_tables (\<lambda>t.
     case row sj_id i (rt_jobs t) of
       None \<Rightarrow> reject ''Not found item'' 400
     | Some j \<Rightarrow> (case get_by_name (usr_name tg) t of
         None \<Rightarrow> reject ''Not found storage name'' 400
       | Some s \<Rightarrow>
           if \<not> is_admin rq \<and> st_id s \<noteq> sj_storage_id j then reject USER_ACTION_NOT_ALLOWED 403
           else if (case ju_retention a of Some n \<Rightarrow> bad_retention n | None \<Rightarrow> False) then reject ''Retention is out of range valid -1, 1-360'' 400
           else if (case ju_start_time a of Some n \<Rightarrow> bad_start_time n | None \<Rightarrow> False)
             then reject ''Start_time is out of range valid 0-1440(minutes)'' 400
           else if ju_user_name a \<noteq> None then raiseS TypeError
           else (case updated_days j a of
               None \<Rightarrow> raiseS KeyError
             | Some days \<Rightarrow>
                 with_save (\<lambda>t. t\<lparr>rt_jobs := map (\<lambda>h. if sj_id h = i then updated_job a days h else h) (rt_jobs t)\<rparr>)
                   (job_reply (updated_job a days j) None)
                   (reject ''Failed to create schedule job'' 400))))"

definition storage_of_job :: "schedule_job \<Rightarrow> tables \<Rightarrow> storage_info option" where
  "storage_of_job j t = row st_id (sj_storage_id j) (rt_storages t)"

definition delete_schedule_job :: "user \<Rightarrow> user \<Rightarrow> int \<Rightarrow> controller" where
  "delete_schedule_job rq tg i = with_tables (\<lambda>t.
     case row sj_id i (rt_jobs t) of
       None \<Rightarrow> reject ''Not found item'' 404
     | Some j \<Rightarrow>
         (if is_admin rq then (\<lambda>k. k) else (\<lambda>k. need (storage_of_job j t) (\<lambda>s. if st_user_id s \<noteq> usr_id tg then reject USER_ACTION_NOT_ALLOWED 403 else k)))
           (with_save (\<lambda>t. t\<lparr>rt_job_volumes := filter (\<lambda>v. jv_sj_id v \<noteq> i) (rt_job_volumes t), rt_jobs := filter (\<lambda>j. sj_id j \<noteq> i) (rt_jobs t)\<rparr>)
             (returnS ()) (reject_save 400)))"

subsection \<open>Versions\<close>

definition get_version :: "int \<Rightarrow> controller" where
  "get_version i = with_tables (\<lambda>t.
     case row ver_id i (rt_versions t) of
       None \<Rightarrow> reject (''Version '' @ str_int i @ '' not found.'') 404
     | Some v \<Rightarrow> respond (RVersion v) None)"

definition version_row :: "web_env \<Rightarrow> tables \<Rightarrow> string \<Rightarrow> string \<Rightarrow> int \<Rightarrow> int option \<Rightarrow> int \<Rightarrow> version" where
  "version_row E t uid volume vm block_size storage =
     \<lparr> ver_id = we_key E (map ver_id (rt_versions t)), ver_uid = uid, ver_volume = volume, ver_snapshot = [], ver_size = 0,
       ver_block_size = default 0 block_size, ver_storage_id = storage, ver_status = incomplete, ver_protected = False, ver_bytes_read = None,
       ver_bytes_written = None, ver_bytes_deduplicated = None, ver_bytes_sparse = None, ver_duration = None,
       ver_created_at = we_now E, ver_vm_id = vm \<rparr>"

definition add_version :: "version \<Rightarrow> tables \<Rightarrow> tables" where
  "add_version v t = t\<lparr>rt_versions := rt_versions t @ [v]\<rparr>"

text \<open>The parameters both ways of backing up share.\<close>

record backup_args =
  ba_vm_id :: int
  ba_rbd_hints :: "string option"
  ba_base_version_uid :: "string option"
  ba_block_size :: "int option"
  ba_is_admin_backup :: "bool option"
  ba_wait :: bool
  ba_user_id :: "int option"

definition admin_backup :: "backup_args \<Rightarrow> bool" where
  "admin_backup a \<longleftrightarrow> ba_is_admin_backup a = Some True"

text \<open>Whose storage is written: an error, or its name.\<close>

definition storage_name_for :: "user \<Rightarrow> user \<Rightarrow> backup_args \<Rightarrow> tables \<Rightarrow> string option res" where
  "storage_name_for rq tg a t =
     (if is_admin rq
      then if admin_backup a then Inr (Some (usr_name rq))
           else bind_res (one_or_none (\<lambda>s. Some (st_user_id s) = ba_user_id a) (rt_storages t)) (\<lambda>s. Inr (map_option st_name s))
      else Inr (Some (usr_name tg)))"

text \<open>The variable \<open>user_id\<close>, and the virtual machines that count as the owner of a volume.\<close>

definition backup_user_id :: "user \<Rightarrow> user \<Rightarrow> backup_args \<Rightarrow> int option" where
  "backup_user_id rq tg a = (if is_admin rq then ba_user_id a else Some (usr_id tg))"

definition backup_owner :: "user \<Rightarrow> user \<Rightarrow> backup_args \<Rightarrow> vm_row \<Rightarrow> bool" where
  "backup_owner rq tg a v \<longleftrightarrow> admin_backup a \<or> Some (vm_user_id v) = backup_user_id rq tg a"

definition rbd_source :: "string \<Rightarrow> string" where
  "rbd_source v = ''rbd:volumes/volume-'' @ v"

definition read_hints :: "web_env \<Rightarrow> backup_args \<Rightarrow> unit res" where
  "read_hints E a = (if truthy (ba_rbd_hints a) then we_hints E (the (ba_rbd_hints a)) else Inr ())"

definition over_quota :: "storage_info \<Rightarrow> bool res" where
  "over_quota s =
     (case (st_disk_used s, st_disk_allowed s) of (Some used, Some allowed) \<Rightarrow> Inr (used \<ge> allowed) | _ \<Rightarrow> Inl TypeError)"

text \<open>
  \<open>create_version\<close>. Waiting for the backup calls \<open>delay\<close> with an argument too many, which Celery refuses. A version that cannot be stored is
  \<open>None\<close>, and its identifier an error.
\<close>

definition create_version :: "web_env \<Rightarrow> user \<Rightarrow> user \<Rightarrow> string \<Rightarrow> backup_args \<Rightarrow> controller" where
  "create_version E rq tg volume a = with_tables (\<lambda>t.
     try_res (storage_name_for rq tg a t) (\<lambda>name. case name of
       None \<Rightarrow> reject ''user does not have a storage'' 400
     | Some n \<Rightarrow> (case we_volume E of
         None \<Rightarrow> returnS ()
       | Some cloud \<Rightarrow> (case cloud volume of
           None \<Rightarrow> reject (invalid_volume volume) 400
         | Some (gib, servers) \<Rightarrow> try_res (attached (Inr (backup_owner rq tg a)) servers (rt_vms t)) (\<lambda>ok.
             if \<not> ok then reject (invalid_volume volume) 400
             else
               let uid = we_uuid E (length (rt_versions t)) in
               if \<not> is_volume_name uid then reject (''Version name '' @ uid @ '' is invalid.'') 500
               else try_res (read_hints E a) (\<lambda>_. case get_by_name n t of
                 None \<Rightarrow> reject ''user does not have a storage'' 400
               | Some s \<Rightarrow> try_res (over_quota s) (\<lambda>full.
                   if full then reject ''Backup quota exceeded'' 500
                   else
                     let v = version_row E t uid volume (ba_vm_id a) (ba_block_size a) (st_id s) in
                     need (node_of s t) (\<lambda>nd.
                       with_save (add_version v)
                         (if ba_wait a then raiseS TypeError
                          else thenS (\<lambda>cs. (Inr (), fst cs, enqueue (BackupTask (addr nd) (ver_id v) (rbd_source volume) (ba_base_version_uid a)) (snd cs)))
                            (respond (RVersion v) (Some 201)))
                         (raiseS AttributeError)))))))))"

text \<open>\<open>restore_version\<close>: whoever waits stumbles over \<open>data.id\<close>.\<close>

definition restore_version :: "web_env \<Rightarrow> user \<Rightarrow> user \<Rightarrow> int \<Rightarrow> bool \<Rightarrow> bool \<Rightarrow> bool \<Rightarrow> bool \<Rightarrow> controller" where
  "restore_version E rq tg i sparse force backend_less wait = with_tables (\<lambda>t.
     let bad = reject (''Version id '' @ str_int i @ '' is invalid.'') 400 in
     case row ver_id i (rt_versions t) of
       None \<Rightarrow> bad
     | Some v \<Rightarrow>
         if ver_status v = incomplete then bad
         else (if is_admin rq then (\<lambda>k. k)
               else (\<lambda>k. need (row vm_id (ver_vm_id v) (rt_vms t)) (\<lambda>m. if vm_user_id m \<noteq> usr_id tg then reject USER_ACTION_NOT_ALLOWED 403 else k)))
           (need (row st_id (ver_storage_id v) (rt_storages t)) (\<lambda>s. need (node_of s t) (\<lambda>n.
             if nd_deleted n = Some True then reject (''Node name '' @ nd_name n @ '' is not active.'') 400
             else case we_volume E of
               None \<Rightarrow> returnS ()
             | Some cloud \<Rightarrow>
                 if (case cloud (ver_volume v) of Some (gib, servers) \<Rightarrow> gib \<noteq> of_int (ver_size v) / of_int GiB | None \<Rightarrow> False)
                 then reject ''Allocated size must be equal to Volume size'' 400
                 else if wait then raiseS AttributeError
                 else (\<lambda>cs. (Inr (), fst cs, enqueue (RestoreTask (addr n) i (ver_volume v) sparse force backend_less) (snd cs)))))))"

text \<open>\<open>delete_version\<close>: whoever waits has the task queued before the answer of \<open>delay\<close> fails to unpack.\<close>

definition delete_version :: "int \<Rightarrow> bool \<Rightarrow> bool \<Rightarrow> bool \<Rightarrow> bool \<Rightarrow> controller" where
  "delete_version i force keep_metadata_backup override_lock wait = with_tables (\<lambda>t.
     case row ver_id i (rt_versions t) of
       None \<Rightarrow> reject (''Version name '' @ str_int i @ '' is invalid.'') 500
     | Some v \<Rightarrow> need (row st_id (ver_storage_id v) (rt_storages t)) (\<lambda>s. need (node_of s t) (\<lambda>n.
         if nd_deleted n = Some True then reject (''Node name '' @ nd_name n @ '' is not active.'') 500
         else thenS (\<lambda>cs. (Inr (), fst cs, enqueue (DeleteTask (addr n) i force keep_metadata_backup override_lock) (snd cs)))
           (if wait then raiseS TypeError else returnS ()))))"

text \<open>\<open>create_backups\<close> of the controller of virtual machines: every volume is checked, then every volume is backed up.\<close>

fun check_backup_volumes :: "(string \<Rightarrow> (rat \<times> string list) option) \<Rightarrow> (vm_row \<Rightarrow> bool) \<Rightarrow> vm_row list \<Rightarrow> volume_arg list \<Rightarrow> string option res" where
  "check_backup_volumes cloud owner vms [] = Inr None"
| "check_backup_volumes cloud owner vms (v # vs) =
     bind_res (require_key (va_id v)) (\<lambda>i.
       case cloud i of
         None \<Rightarrow> Inr (Some (invalid_volume i))
       | Some (gib, servers) \<Rightarrow>
           bind_res (attached (Inr owner) servers vms) (\<lambda>ok.
             if ok then check_backup_volumes cloud owner vms vs else Inr (Some (invalid_volume i))))"

fun back_up_volumes :: "web_env \<Rightarrow> backup_args \<Rightarrow> storage_info \<Rightarrow> node_row \<Rightarrow> volume_arg list \<Rightarrow> version list \<Rightarrow> controller" where
  "back_up_volumes E a s n [] done cs = respond (RVersions done) (Some 201) cs"
| "back_up_volumes E a s n (x # xs) done cs =
     try_res (require_key (va_id x)) (\<lambda>volume. try_res (require_key (va_name x)) (\<lambda>_. with_tables (\<lambda>t.
       let v = version_row E t (we_uuid E (length (rt_versions t))) volume (ba_vm_id a) (ba_block_size a) (st_id s) in
       with_save (add_version v)
         (thenS (\<lambda>cs. (Inr (), fst cs, enqueue (BackupTask (addr n) (ver_id v) (rbd_source volume) None) (snd cs)))
           (back_up_volumes E a s n xs (done @ [v])))
         (back_up_volumes E a s n xs done)))) cs"

definition create_backups :: "web_env \<Rightarrow> user \<Rightarrow> user \<Rightarrow> volume_arg list \<Rightarrow> backup_args \<Rightarrow> controller" where
  "create_backups E rq tg volumes a = with_tables (\<lambda>t.
     try_res (storage_name_for rq tg a t) (\<lambda>name. case name of
       None \<Rightarrow> reject ''user does not have a storage'' 400
     | Some n \<Rightarrow> try_res (read_hints E a) (\<lambda>_. case get_by_name n t of
         None \<Rightarrow> reject ''user does not have a storage'' 400
       | Some s \<Rightarrow> try_res (over_quota s) (\<lambda>full.
           if full then reject ''Backup quota exceeded'' 500
           else case we_volume E of
             None \<Rightarrow> returnS ()
           | Some cloud \<Rightarrow> try_res (check_backup_volumes cloud (backup_owner rq tg a) (rt_vms t) volumes) (\<lambda>bad. case bad of
               Some msg \<Rightarrow> reject msg 400
             | None \<Rightarrow> need (node_of s t) (\<lambda>nd. back_up_volumes E a s nd volumes []))))))"

text \<open>
  \<open>create_volume_backup_groups\<close> leaves out the virtual machine, which a version must have: every insert violates the constraint, is rolled
  back and passed over. A missing storage is reported, and then used.
\<close>

fun create_backup :: "storage_info option \<Rightarrow> group_volume list \<Rightarrow> controller" where
  "create_backup s [] cs = (Inr (), cs)"
| "create_backup s (v # vs) cs =
     need s (\<lambda>_ cs. create_backup s vs (fst cs, (snd cs)\<lparr>wb_working := wb_committed (snd cs)\<rparr>)) cs"

fun back_up_groups :: "storage_info option \<Rightarrow> int list \<Rightarrow> controller" where
  "back_up_groups s [] cs = (Inr (), cs)"
| "back_up_groups s (g # gs) cs = thenS (create_backup s (rows_of_group g (wb_working (snd cs)))) (back_up_groups s gs) cs"

definition create_volume_backup_groups :: "user \<Rightarrow> int list \<Rightarrow> controller" where
  "create_volume_backup_groups tg groups = with_tables (\<lambda>t.
     let s = get_by_name (usr_name tg) t in
     thenS (if s = None then reject ''Not found storage'' 400 else returnS ())
       (thenS (back_up_groups s groups) (\<lambda>cs. respond (RVersions []) (cx_status (fst cs)) cs)))"

text \<open>\<open>list_vm_volumes\<close>; turning the error of an unreachable cloud into a string fails, it has no message.\<close>

definition list_vm_volumes :: "web_env \<Rightarrow> user \<Rightarrow> user \<Rightarrow> int \<Rightarrow> controller" where
  "list_vm_volumes E rq tg i = with_tables (\<lambda>t.
     if we_volume E = None then raiseS TypeError
     else case row vm_id i (rt_vms t) of
       None \<Rightarrow> reject ''Not found item'' 404
     | Some m \<Rightarrow>
         if \<not> is_admin rq \<and> vm_user_id m \<noteq> usr_id tg then reject USER_ACTION_NOT_ALLOWED 400
         else respond (RVolumes (we_server_volumes E (vm_ems_ref m))) None)"

section \<open>Requests\<close>

text \<open>The routes, with the arguments their schemas accept.\<close>

datatype storage_request = GetStorage int | CreateStorage "int option" int | UpdateStorageSize int int | RemoveStorage int bool

datatype node_request = GetNode int | CreateNode string string int | UpdateNode int | RemoveNode int bool

datatype job_request = GetJob int | CreateJob job_args | UpdateJob int job_update | RemoveJob int

datatype vm_request =
    BackUpVolumes "volume_arg list" backup_args | VmVolumes int | GetGroup int
  | CreateGroup "int option" string "string option" "volume_arg list"
  | UpdateGroup int "string option" "string option" "volume_arg list" | RemoveGroup int | BackUpGroups "int list"

datatype version_request = GetVersion int | CreateVersion string backup_args | RestoreVersion int bool bool bool bool | RemoveVersion int bool bool bool bool

datatype request =
    Storages storage_request | Nodes node_request | Jobs job_request | Vms vm_request | Versions version_request

fun handle_storage :: "web_env \<Rightarrow> user \<Rightarrow> user \<Rightarrow> storage_request \<Rightarrow> controller" where
  "handle_storage E rq tg (GetStorage i) = get_storage rq i"
| "handle_storage E rq tg (CreateStorage u disk) = create_storage E rq tg u disk"
| "handle_storage E rq tg (UpdateStorageSize i disk) = update_storage E rq i disk"
| "handle_storage E rq tg (RemoveStorage i force) = delete_storage E rq i force"

fun handle_node :: "web_env \<Rightarrow> user \<Rightarrow> user \<Rightarrow> node_request \<Rightarrow> controller" where
  "handle_node E rq tg (GetNode i) = get_node rq i"
| "handle_node E rq tg (CreateNode name h port) = create_node E rq name h port"
| "handle_node E rq tg (UpdateNode i) = update_node rq i"
| "handle_node E rq tg (RemoveNode i force) = delete_node rq i force"

fun handle_job :: "web_env \<Rightarrow> user \<Rightarrow> user \<Rightarrow> job_request \<Rightarrow> controller" where
  "handle_job E rq tg (GetJob i) = get_schedule_job i"
| "handle_job E rq tg (CreateJob a) = create_schedule_job E rq tg a"
| "handle_job E rq tg (UpdateJob i a) = update_schedule_job rq tg i a"
| "handle_job E rq tg (RemoveJob i) = delete_schedule_job rq tg i"

fun handle_vm :: "web_env \<Rightarrow> user \<Rightarrow> user \<Rightarrow> vm_request \<Rightarrow> controller" where
  "handle_vm E rq tg (BackUpVolumes vs a) = create_backups E rq tg vs a"
| "handle_vm E rq tg (VmVolumes i) = list_vm_volumes E rq tg i"
| "handle_vm E rq tg (GetGroup i) = get_volume_group rq tg i"
| "handle_vm E rq tg (CreateGroup u name desc vs) = create_volume_group E rq tg u name desc vs"
| "handle_vm E rq tg (UpdateGroup i name desc vs) = update_volume_group rq tg i name desc vs"
| "handle_vm E rq tg (RemoveGroup i) = delete_volume_group rq tg i"
| "handle_vm E rq tg (BackUpGroups gs) = create_volume_backup_groups tg gs"

fun handle_version :: "web_env \<Rightarrow> user \<Rightarrow> user \<Rightarrow> version_request \<Rightarrow> controller" where
  "handle_version E rq tg (GetVersion i) = get_version i"
| "handle_version E rq tg (CreateVersion volume a) = create_version E rq tg volume a"
| "handle_version E rq tg (RestoreVersion i sparse force backend_less wait) = restore_version E rq tg i sparse force backend_less wait"
| "handle_version E rq tg (RemoveVersion i force keep override wait) = delete_version i force keep override wait"

fun handle :: "web_env \<Rightarrow> user \<Rightarrow> user \<Rightarrow> request \<Rightarrow> controller" where
  "handle E rq tg (Storages r) = handle_storage E rq tg r"
| "handle E rq tg (Nodes r) = handle_node E rq tg r"
| "handle E rq tg (Jobs r) = handle_job E rq tg r"
| "handle E rq tg (Vms r) = handle_vm E rq tg r"
| "handle E rq tg (Versions r) = handle_version E rq tg r"

text \<open>What the schemas check beyond the types, and the only argument called \<open>user_name\<close>.\<close>

definition modes :: "string set" where
  "modes = {''SNAPSHOT'', ''BACKUP''}"

fun well_formed :: "request \<Rightarrow> bool" where
  "well_formed (Storages (CreateStorage u disk)) \<longleftrightarrow> disk \<ge> 1"
| "well_formed (Jobs (CreateJob a)) \<longleftrightarrow> ja_mode a \<in> modes \<and> set (ja_days_of_week a) \<subseteq> set week"
| "well_formed (Jobs (UpdateJob i a)) \<longleftrightarrow>
     (case ju_mode a of Some m \<Rightarrow> m \<in> modes | None \<Rightarrow> True) \<and> (case ju_days_of_week a of Some ds \<Rightarrow> set ds \<subseteq> set week | None \<Rightarrow> True)"
| "well_formed _ \<longleftrightarrow> True"

fun user_name_of :: "request \<Rightarrow> string option" where
  "user_name_of (Jobs (UpdateJob i a)) = ju_user_name a"
| "user_name_of _ = None"

text \<open>A request whose token belongs to the user \<open>current\<close>: arguments, context, handler, and the end of the request.\<close>

definition run_handler :: "web_env \<Rightarrow> request \<Rightarrow> controller" where
  "run_handler E req cs =
     (case (cx_request_user (fst cs), cx_target_user (fst cs)) of
        (Some rq, Some tg) \<Rightarrow> handle E rq tg req cs
      | _ \<Rightarrow> (Inl AttributeError, cs))"

definition serve :: "web_env \<Rightarrow> int option \<Rightarrow> request \<Rightarrow> web \<Rightarrow> ((http_error list + reply option) \<times> int) \<times> web" where
  "serve E current req w =
     (if current = None then ((Inl [], 401), close w)
      else if \<not> well_formed req then ((Inl [], 400), close w)
      else (case exec_manager_func (run_handler E req) (load_users (rt_users (wb_working w)) True current (user_name_of req) new_context, w) of
              (answer, w') \<Rightarrow> (answer, close w')))"

end
