(* ===== verification/Rest_Demo.thy ===== *)
theory Rest_Demo
  imports Rest
begin

text \<open>A small installation on which the theorems about the web service are applied: one node, an administrator, and two users with a storage, a machine and a group each.\<close>

definition demo_storage :: "int \<Rightarrow> string \<Rightarrow> int \<Rightarrow> storage_info" where
  "demo_storage i name u =
     \<lparr> st_id = i, st_name = name, st_module = ''file'', st_path = Some (''/backup/'' @ name), st_disk_used = Some 0, st_disk_allowed = Some (10 * GiB),
       st_deleted = Some False, st_node_id = 1, st_user_id = u \<rparr>"

definition demo_done_version :: "int \<Rightarrow> string \<Rightarrow> string \<Rightarrow> version" where
  "demo_done_version i uid volume =
     \<lparr> ver_id = i, ver_uid = uid, ver_volume = volume, ver_snapshot = [], ver_size = 5 * GiB, ver_block_size = 4194304, ver_storage_id = i, ver_status = valid,
       ver_protected = False, ver_bytes_read = None, ver_bytes_written = None, ver_bytes_deduplicated = None, ver_bytes_sparse = None,
       ver_duration = None, ver_created_at = 0, ver_vm_id = i \<rparr>"

definition demo_tables :: tables where
  "demo_tables =
     \<lparr> rt_users = demo_users,
       rt_nodes = [\<lparr> nd_id = 1, nd_name = ''n1'', nd_host = ''10.0.0.1'', nd_port = 8000, nd_disk_used_overcommit = Some 0, nd_deleted = Some False \<rparr>],
       rt_storages = [demo_storage 1 ''ann'' 2, demo_storage 2 ''bob'' 3],
       rt_vms = [\<lparr> vm_id = 1, vm_name = ''a'', vm_ems_ref = Some ''srv-a'', vm_user_id = 2 \<rparr>, \<lparr> vm_id = 2, vm_name = ''b'', vm_ems_ref = Some ''srv-b'', vm_user_id = 3 \<rparr>],
       rt_groups = [\<lparr> vg_id = 1, vg_name = ''ga'', vg_description = None, vg_user_id = 2 \<rparr>, \<lparr> vg_id = 2, vg_name = ''gb'', vg_description = None, vg_user_id = 3 \<rparr>],
       rt_group_volumes = [\<lparr> gv_group_id = 1, gv_volume_id = ''vol-a'', gv_volume_name = None, gv_vm_id = 1 \<rparr>,
                           \<lparr> gv_group_id = 2, gv_volume_id = ''vol-b'', gv_volume_name = None, gv_vm_id = 2 \<rparr>],
       rt_jobs = [\<lparr> sj_id = 1, sj_name = ''jb'', sj_retention = 7, sj_days_of_week = ''mon,fri'', sj_start_time = 60, sj_mode = Some ''BACKUP'', sj_compression = None,
                    sj_storage_id = 2, sj_group_id = 2 \<rparr>],
       rt_job_volumes = [\<lparr> jv_sj_id = 1, jv_volume_id = ''vol-b'', jv_volume_name = None, jv_vm_id = 2 \<rparr>],
       rt_versions = [demo_done_version 1 ''V1'' ''vol-a'', demo_done_version 2 ''V2'' ''vol-b''] \<rparr>"

definition demo_web :: web where
  "demo_web = \<lparr> wb_working = demo_tables, wb_committed = demo_tables, wb_calls = [] \<rparr>"

text \<open>A cloud with the volumes of the two groups, and procedures that end as given.\<close>

definition demo_web_env :: "bool \<Rightarrow> web_env" where
  "demo_web_env rpc =
     \<lparr> we_rpc = (\<lambda>_ _. Inr rpc),
       we_volume = Some (\<lambda>v. if v = ''vol-a'' then Some (5, [''srv-a'']) else if v = ''vol-b'' then Some (5, [''srv-b'']) else None),
       we_key = (\<lambda>ids. 1 + foldr max ids 0), we_uuid = (\<lambda>n. ''new''), we_start_time = 1200, we_now = 0, we_default_path = Some ''/backup'',
       we_permit_overcommit = 1, we_str_gib = (\<lambda>_. ''10''), we_hints = (\<lambda>_. Inr ()), we_server_volumes = (\<lambda>_. []) \<rparr>"

lemma demo_fresh: "we_key (demo_web_env b) ids \<notin> set ids"
proof -
  have "i \<in> set ids \<Longrightarrow> i \<le> foldr max ids 0" for i by (induction ids) auto
  then show ?thesis by (force simp: demo_web_env_def)
qed

definition demo_job_args :: job_args where
  "demo_job_args = \<lparr> ja_group_id = 1, ja_name = None, ja_mode = ''BACKUP'', ja_days_of_week = [''tue'', ''sat''], ja_start_time = 90, ja_compression = None,
     ja_retention = 14, ja_user_id = None \<rparr>"

definition demo_backup_args :: backup_args where
  "demo_backup_args = \<lparr> ba_vm_id = 1, ba_rbd_hints = None, ba_base_version_uid = None, ba_block_size = None, ba_is_admin_backup = None, ba_wait = False,
     ba_user_id = None \<rparr>"

end
