(* ===== verification/Rest_Theorems.thy ===== *)
theory Rest_Theorems
  imports Rest_Demo
begin

text \<open>
  What the web service keeps: a small logic of pre- and postconditions for the handlers of \<open>Rest\<close>, the constraints of the tables, who may change
  which rows, what a refused request leaves behind, and what is sent to the nodes.
\<close>

section \<open>Reasoning about handlers\<close>

text \<open>\<open>Q\<close> holds of the state after \<open>m\<close>, whether it raised or not.\<close>

definition triple :: "(reply ctx \<times> web \<Rightarrow> bool) \<Rightarrow> controller \<Rightarrow> (reply ctx \<times> web \<Rightarrow> bool) \<Rightarrow> bool" where
  "triple P m Q \<longleftrightarrow> (\<forall>cs. P cs \<longrightarrow> Q (snd (m cs)))"

named_theorems hoare \<open>rules for the constructs of handlers\<close>

lemma triple_weaken: "triple P m Q \<Longrightarrow> (\<And>cs. P' cs \<Longrightarrow> P cs) \<Longrightarrow> (\<And>cs. Q cs \<Longrightarrow> Q' cs) \<Longrightarrow> triple P' m Q'"
  by (simp add: triple_def)

lemma triple_with_tables [hoare]:
  "(\<And>t. triple (\<lambda>cs. P cs \<and> wb_working (snd cs) = t) (k t) Q) \<Longrightarrow> triple P (with_tables k) Q"
  by (simp add: triple_def with_tables_def)

lemma triple_at_tables:
  "triple (\<lambda>cs. P cs \<and> wb_working (snd cs) = t) (k t) Q \<Longrightarrow> triple (\<lambda>cs. P cs \<and> wb_working (snd cs) = t) (with_tables k) Q"
  by (simp add: triple_def with_tables_def)

lemma triple_return [hoare]: "(\<And>c w. P (c, w) \<Longrightarrow> Q (c, w)) \<Longrightarrow> triple P (returnS ()) Q"
  and triple_raise [hoare]: "(\<And>c w. P (c, w) \<Longrightarrow> Q (c, w)) \<Longrightarrow> triple P (raiseS e) Q"
  and triple_reject [hoare]: "(\<And>c w. P (c, w) \<Longrightarrow> Q (set_error msg st c, w)) \<Longrightarrow> triple P (reject msg st) Q"
  and triple_reject_save [hoare]: "(\<And>c w. P (c, w) \<Longrightarrow> Q (set_error_obj save_error st c, w)) \<Longrightarrow> triple P (reject_save st) Q"
  and triple_respond [hoare]: "(\<And>c w. P (c, w) \<Longrightarrow> Q (c\<lparr>cx_response := Some r, cx_status := n\<rparr>, w)) \<Longrightarrow> triple P (respond r n) Q"
  and triple_update: "(\<And>c w. P (c, w) \<Longrightarrow> Q (c, f w)) \<Longrightarrow> triple P (\<lambda>cs. (Inr (), fst cs, f (snd cs))) Q"
  and triple_respond_status [hoare]: "(\<And>c w. P (c, w) \<Longrightarrow> Q (c\<lparr>cx_response := Some r\<rparr>, w)) \<Longrightarrow> triple P (\<lambda>cs. respond r (cx_status (fst cs)) cs) Q"
  by (auto simp: triple_def reject_def reject_save_def respond_def)

lemma triple_enqueue [hoare]:
  "(\<And>c w. P (c, w) \<Longrightarrow> Q (c, w\<lparr>wb_calls := wb_calls w @ [x]\<rparr>)) \<Longrightarrow> triple P (\<lambda>cs. (Inr (), fst cs, enqueue x (snd cs))) Q"
  unfolding enqueue_def by (rule triple_update)

lemma triple_execute [hoare]:
  "(\<And>c w. P (c, w) \<Longrightarrow> Q (c, w\<lparr>wb_working := f (wb_working w)\<rparr>)) \<Longrightarrow> triple P (\<lambda>cs. (Inr (), fst cs, execute f (snd cs))) Q"
  unfolding execute_def by (rule triple_update)

lemma triple_need [hoare]:
  "(\<And>c w. P (c, w) \<Longrightarrow> Q (c, w)) \<Longrightarrow> (\<And>a. x = Some a \<Longrightarrow> triple P (k a) Q) \<Longrightarrow> triple P (need x k) Q"
  by (cases x) (auto simp: triple_def need_def)

lemma triple_try [hoare]:
  "(\<And>c w. P (c, w) \<Longrightarrow> Q (c, w)) \<Longrightarrow> (\<And>a. x = Inr a \<Longrightarrow> triple P (k a) Q) \<Longrightarrow> triple P (try_res x k) Q"
  by (cases x) (auto simp: triple_def try_res_def)

lemma triple_if [hoare]: "(b \<Longrightarrow> triple P m Q) \<Longrightarrow> (\<not> b \<Longrightarrow> triple P n Q) \<Longrightarrow> triple P (if b then m else n) Q"
  by simp

lemma triple_option [hoare]:
  "(x = None \<Longrightarrow> triple P m Q) \<Longrightarrow> (\<And>a. x = Some a \<Longrightarrow> triple P (k a) Q) \<Longrightarrow> triple P (case x of None \<Rightarrow> m | Some a \<Rightarrow> k a) Q"
  by (cases x) simp_all

lemma triple_prod [hoare]: "(\<And>a b. x = (a, b) \<Longrightarrow> triple P (k a b) Q) \<Longrightarrow> triple P (case x of (a, b) \<Rightarrow> k a b) Q"
  by (cases x) simp

lemma triple_let [hoare]: "triple P (k x) Q \<Longrightarrow> triple P (let y = x in k y) Q"
  by simp

lemma triple_guard [hoare]:
  "(b \<Longrightarrow> triple P m Q) \<Longrightarrow> (\<not> b \<Longrightarrow> triple P (f m) Q) \<Longrightarrow> triple P ((if b then (\<lambda>k. k) else f) m) Q"
  by simp

text \<open>Rules whose intermediate assertion has to be given.\<close>

lemma triple_then: "triple P m R \<Longrightarrow> triple R k Q \<Longrightarrow> (\<And>cs. R cs \<Longrightarrow> Q cs) \<Longrightarrow> triple P (thenS m k) Q"
proof (unfold triple_def, intro allI impI)
  fix cs assume "\<forall>cs. P cs \<longrightarrow> R (snd (m cs))" "\<forall>cs. R cs \<longrightarrow> Q (snd (k cs))" "\<And>cs. R cs \<Longrightarrow> Q cs" "P cs"
  moreover obtain r cs1 where "m cs = (r, cs1)" by (cases "m cs")
  ultimately have "R cs1" "m cs = (r, cs1)" "Q cs1" "Q (snd (k cs1))" by (metis snd_conv)+
  then show "Q (snd (thenS m k cs))" by (cases r) (simp_all add: thenS_def bindS_def)
qed

lemma triple_save:
  assumes "\<And>c w. P (c, w) \<Longrightarrow> integrity (f (wb_working w)) \<Longrightarrow> G (c, w\<lparr>wb_working := f (wb_working w), wb_committed := f (wb_working w)\<rparr>)"
    and "\<And>c w. P (c, w) \<Longrightarrow> \<not> integrity (f (wb_working w)) \<Longrightarrow> B (c, w\<lparr>wb_working := wb_committed w\<rparr>)" and "triple G good Q" and "triple B bad Q"
  shows "triple P (with_save f good bad) Q"
  using assms by (auto simp: triple_def with_save_def save_def Let_def)

lemma triple_call:
  assumes "\<And>c w. P (c, w) \<Longrightarrow> R (c, w\<lparr>wb_calls := wb_calls w @ [x]\<rparr>)" and "triple R good Q" and "triple R bad Q" and "\<And>cs. R cs \<Longrightarrow> Q cs"
  shows "triple P (with_call E x good bad) Q"
  using assms by (auto simp: triple_def with_call_def call_def split: prod.splits sum.splits bool.splits)

lemma tripleD: "triple P m Q \<Longrightarrow> P cs \<Longrightarrow> Q (snd (m cs))"
  unfolding triple_def by blast

section \<open>Assertions on the tables\<close>

text \<open>An assertion that looks at the tables only, and at what is pending and what is committed alike.\<close>

definition both :: "(tables \<Rightarrow> bool) \<Rightarrow> reply ctx \<times> web \<Rightarrow> bool" where
  "both A cs \<longleftrightarrow> A (wb_working (snd cs)) \<and> A (wb_committed (snd cs))"

lemma both_simps [simp]:
  "both A (c, w\<lparr>wb_working := t, wb_committed := t\<rparr>) = A t"
  "both A (c, w\<lparr>wb_working := wb_committed w\<rparr>) = A (wb_committed w)"
  "both A (c, w\<lparr>wb_calls := xs\<rparr>) = both A (c, w)"
  "both A (set_error msg st c, w) = both A (c, w)" "both A (set_error_obj e st c, w) = both A (c, w)"
  "both A (c\<lparr>cx_response := r, cx_status := n\<rparr>, w) = both A (c, w)"
  by (simp_all add: both_def)

lemma bothD: "both A cs \<Longrightarrow> A (wb_working (snd cs))" "both A cs \<Longrightarrow> A (wb_committed (snd cs))"
  by (simp_all add: both_def)

text \<open>A change that is saved, from any pending state on.\<close>

lemma both_save [hoare]:
  assumes "\<And>c w. P (c, w) \<Longrightarrow> both A (c, w) \<and> (integrity (f (wb_working w)) \<longrightarrow> A (f (wb_working w)))"
    and "triple (both A) good (both A)" and "triple (both A) bad (both A)"
  shows "triple P (with_save f good bad) (both A)"
proof (rule triple_save [where G = "both A" and B = "both A"])
  fix c w assume "P (c, w)"
  from assms(1) [OF this] show "both A (c, w\<lparr>wb_working := wb_committed w\<rparr>)" by (simp add: both_def)
qed (use assms in auto)

lemma both_call [hoare]:
  assumes "\<And>c w. P (c, w) \<Longrightarrow> both A (c, w)" and "triple (both A) good (both A)" and "triple (both A) bad (both A)"
  shows "triple P (with_call E x good bad) (both A)"
  by (rule triple_call [where R = "both A"]) (use assms in auto)

lemma both_then [hoare]: "triple P m (both A) \<Longrightarrow> triple (both A) k (both A) \<Longrightarrow> triple P (thenS m k) (both A)"
  by (rule triple_then)

lemma both_replies [hoare]:
  "(\<And>c w. P (c, w) \<Longrightarrow> both A (c, w)) \<Longrightarrow> triple P (group_reply g st) (both A)"
  "(\<And>c w. P (c, w) \<Longrightarrow> both A (c, w)) \<Longrightarrow> triple P (job_reply j st) (both A)"
  unfolding group_reply_def job_reply_def by (rule hoare; rule hoare; simp)+

lemma both_add_volumes [hoare]:
  assumes "\<And>c w. P (c, w) \<Longrightarrow> both A (c, w)"
    and "\<And>v t. A t \<Longrightarrow> gv_group_id v = i \<Longrightarrow> integrity (merge_volume v t) \<Longrightarrow> A (merge_volume v t)"
  shows "triple P (add_volumes names i vs) (both A)"
proof -
  have "both A cs \<Longrightarrow> both A (snd (add_volumes names i vs cs))" for cs
  proof (induction vs arbitrary: cs)
    case (Cons v vs)
    then show ?case using assms(2) by (auto simp: try_res_def save_def Let_def both_def split: sum.splits)
  qed simp
  then show ?thesis using assms(1) by (fastforce simp: triple_def)
qed

lemma both_add_job_volumes [hoare]:
  assumes "\<And>c w. P (c, w) \<Longrightarrow> both A (c, w)"
    and "\<And>v t. A t \<Longrightarrow> jv_sj_id v = i \<Longrightarrow> integrity (t\<lparr>rt_job_volumes := rt_job_volumes t @ [v]\<rparr>) \<Longrightarrow> A (t\<lparr>rt_job_volumes := rt_job_volumes t @ [v]\<rparr>)"
  shows "triple P (\<lambda>cs. (Inr (), fst cs, add_job_volumes i vs (snd cs))) (both A)"
proof -
  have "both A (c, w) \<Longrightarrow> both A (c, add_job_volumes i vs w)" for c w
  proof (induction vs arbitrary: w)
    case (Cons v vs)
    let ?v = "\<lparr> jv_sj_id = i, jv_volume_id = gv_volume_id v, jv_volume_name = gv_volume_name v, jv_vm_id = gv_vm_id v \<rparr>"
    have "both A (c, snd (save (\<lambda>t. t\<lparr>rt_job_volumes := rt_job_volumes t @ [?v]\<rparr>) w))"
      using Cons.prems assms(2) [of "wb_working w" ?v] by (simp add: save_def Let_def both_def)
    then show ?case using Cons.IH by simp
  qed simp
  then show ?thesis using assms(1) by (fastforce simp: triple_def)
qed

lemma both_back_up_volumes [hoare]:
  assumes "\<And>c w. P (c, w) \<Longrightarrow> both A (c, w)"
    and "\<And>v t. A t \<Longrightarrow> ver_storage_id v = st_id s \<Longrightarrow> integrity (add_version v t) \<Longrightarrow> A (add_version v t)"
  shows "triple P (back_up_volumes E a s n vs done) (both A)"
proof -
  have "both A cs \<Longrightarrow> both A (snd (back_up_volumes E a s n vs done cs))" for cs
  proof (induction vs arbitrary: cs "done")
    case (Cons v vs)
    have "ver_storage_id (version_row E t uid vol vm bs (st_id s)) = st_id s" for t uid vol vm bs by (simp add: version_row_def)
    then show ?case
      using Cons assms(2)
      by (auto simp: try_res_def with_tables_def with_save_def save_def Let_def thenS_def bindS_def enqueue_def both_def split: sum.splits)
  qed (simp add: respond_def both_def)
  then show ?thesis using assms(1) by (fastforce simp: triple_def)
qed

lemma both_back_up_groups [hoare]: "(\<And>c w. P (c, w) \<Longrightarrow> both A (c, w)) \<Longrightarrow> triple P (back_up_groups s gs) (both A)"
proof -
  have create: "both A cs \<Longrightarrow> both A (snd (create_backup s vs cs))" for vs cs
    by (induction vs arbitrary: cs) (auto simp: need_def both_def split: option.splits)
  have "both A cs \<Longrightarrow> both A (snd (back_up_groups s gs cs))" for cs
  proof (induction gs arbitrary: cs)
    case (Cons g gs)
    show ?case
      using create [OF Cons.prems, of "rows_of_group g (wb_working (snd cs))"] Cons.IH
      by (auto simp: thenS_def bindS_def split: prod.splits sum.splits)
  qed simp
  then show "(\<And>c w. P (c, w) \<Longrightarrow> both A (c, w)) \<Longrightarrow> triple P (back_up_groups s gs) (both A)" by (fastforce simp: triple_def)
qed

section \<open>The constraints of the tables\<close>

text \<open>What the code keeps beside the constraints of the database: a group has one job at most, and a storage has the name of its user.\<close>

definition named_after_user :: "user list \<Rightarrow> storage_info \<Rightarrow> bool" where
  "named_after_user us s \<longleftrightarrow> (\<exists>u \<in> set us. st_user_id s = usr_id u \<and> st_name s = usr_name u)"

definition consistent :: "tables \<Rightarrow> bool" where
  "consistent t \<longleftrightarrow> integrity t \<and> unique sj_group_id (rt_jobs t) \<and> (\<forall>s \<in> set (rt_storages t). named_after_user (rt_users t) s)"

lemma unique_map [simp]: "(\<And>r. r \<in> set rows \<Longrightarrow> key (f r) = key r) \<Longrightarrow> unique key (map f rows) = unique key rows"
  by (simp add: unique_def comp_def cong: map_cong)

lemma unique_filter: "unique key rows \<Longrightarrow> unique key (filter p rows)"
  by (simp add: unique_def distinct_map_filter)

lemma unique_append_one [simp]: "unique key (rows @ [r]) \<longleftrightarrow> unique key rows \<and> key r \<notin> key ` set rows"
  by (auto simp: unique_def)

lemma refers_filter: "refers fk key rows targets \<Longrightarrow> refers fk key (filter p rows) targets"
  by (auto simp: refers_def)

lemma integrity_drop_volumes: "integrity t \<Longrightarrow> integrity (t\<lparr>rt_group_volumes := filter p (rt_group_volumes t)\<rparr>)"
  by (auto simp: integrity_def keys_unique_def keys_exist_def refers_filter unique_filter)

lemma table_simps [simp]:
  "rt_jobs (add_storage s t) = rt_jobs t" "rt_jobs (del_storage i t) = rt_jobs t" "rt_jobs (set_storage g i t) = rt_jobs t"
  "rt_jobs (set_node h i t) = rt_jobs t" "rt_jobs (merge_volume v t) = rt_jobs t" "rt_jobs (add_version x t) = rt_jobs t" "rt_jobs (drop_group i j t) = filter (\<lambda>j. sj_group_id j \<noteq> i) (rt_jobs t)"
  "rt_users (add_storage s t) = rt_users t" "rt_users (del_storage i t) = rt_users t" "rt_users (set_storage g i t) = rt_users t"
  "rt_users (set_node h i t) = rt_users t" "rt_users (merge_volume v t) = rt_users t" "rt_users (add_version x t) = rt_users t" "rt_users (drop_group i j t) = rt_users t"
  "rt_storages (add_storage s t) = rt_storages t @ [s]" "rt_storages (del_storage i t) = filter (\<lambda>s. st_id s \<noteq> i) (rt_storages t)"
  "rt_storages (set_storage g i t) = map (\<lambda>s. if st_id s = i then g s else s) (rt_storages t)"
  "rt_storages (set_node h i t) = rt_storages t" "rt_storages (merge_volume v t) = rt_storages t" "rt_storages (add_version x t) = rt_storages t" "rt_storages (drop_group i j t) = rt_storages t"
  "rt_nodes (merge_volume v t) = rt_nodes t" "rt_vms (merge_volume v t) = rt_vms t" "rt_groups (merge_volume v t) = rt_groups t"
  "rt_job_volumes (merge_volume v t) = rt_job_volumes t" "rt_versions (merge_volume v t) = rt_versions t"
  by (simp_all add: add_storage_def del_storage_def set_storage_def set_node_def merge_volume_def add_version_def drop_group_def Let_def)

lemma named_simps [simp]:
  "named_after_user us (s\<lparr>st_disk_allowed := d\<rparr>) = named_after_user us s" "named_after_user us (s\<lparr>st_deleted := x\<rparr>) = named_after_user us s"
  "u \<in> set us \<Longrightarrow> named_after_user us (new_storage E t u n disk)"
  by (auto simp: named_after_user_def new_storage_def)

lemma updated_job_simps [simp]:
  "sj_id (updated_job a days j) = sj_id j" "sj_group_id (updated_job a days j) = sj_group_id j" "sj_storage_id (updated_job a days j) = sj_storage_id j"
  by (simp_all add: updated_job_def)

lemma renamed_simps [simp]: "vg_id (renamed name desc g) = vg_id g" "vg_user_id (renamed name desc g) = vg_user_id g"
  by (simp_all add: renamed_def)

abbreviation keeps_consistent :: "controller \<Rightarrow> bool" where
  "keeps_consistent m \<equiv> triple (both consistent) m (both consistent)"

named_theorems handler_defs \<open>definitions of the handlers\<close>

lemmas [handler_defs] = get_storage_def create_storage_def create_storage_for_def update_storage_def delete_storage_def get_node_def create_node_def
  update_node_def delete_node_def get_schedule_job_def create_schedule_job_def update_schedule_job_def delete_schedule_job_def get_volume_group_def
  create_volume_group_def update_volume_group_def delete_volume_group_def get_version_def create_version_def restore_version_def delete_version_def
  create_backups_def create_volume_backup_groups_def list_vm_volumes_def

lemma row_Some: "row key i rows = Some r \<Longrightarrow> r \<in> set rows \<and> key r = i"
  by (auto simp: row_def find_Some_iff)

lemma storages_consistent:
  assumes "tg \<in> set us"
  shows "triple (\<lambda>cs. both consistent cs \<and> rt_users (wb_working (snd cs)) = us) (handle_storage E rq tg r) (both consistent)"
  by (cases r; simp only: handle_storage.simps; unfold handler_defs; intro hoare) (use assms in \<open>auto simp: consistent_def both_def dest: find_user_id\<close>)

lemma nodes_consistent: "keeps_consistent (handle_node E rq tg r)"
  by (cases r; simp only: handle_node.simps; unfold handler_defs; intro hoare) (auto simp: consistent_def both_def)

lemma versions_consistent: "keeps_consistent (handle_version E rq tg r)"
  by (cases r; simp only: handle_version.simps; unfold handler_defs; intro hoare) (auto simp: consistent_def enqueue_def both_def)

lemma unique_group_job: "(\<nexists>j. j \<in> set js \<and> sj_group_id j = i) \<Longrightarrow> i \<notin> sj_group_id ` set js"
  by auto

lemma jobs_consistent: "keeps_consistent (handle_job E rq tg r)"
  by (cases r; simp only: handle_job.simps; unfold handler_defs; intro hoare)
    (auto simp: consistent_def enqueue_def both_def unique_filter new_job_def Let_def)

lemma vms_consistent: "keeps_consistent (handle_vm E rq tg r)"
  by (cases r; simp only: handle_vm.simps; unfold handler_defs; intro hoare)
    (auto simp: consistent_def enqueue_def both_def unique_filter Let_def execute_def integrity_drop_volumes drop_group_def)

section \<open>How a request is served\<close>

definition ctx_for :: "user \<Rightarrow> user \<Rightarrow> reply ctx" where
  "ctx_for rq tg = new_context\<lparr>cx_request_user := Some rq, cx_target_user := Some tg\<rparr>"

lemma ctx_for_simps [simp]:
  "cx_request_user (ctx_for rq tg) = Some rq" "cx_target_user (ctx_for rq tg) = Some tg" "cx_error (ctx_for rq tg) = []" "cx_status (ctx_for rq tg) = None"
  "succeed (ctx_for rq tg)"
  by (simp_all add: ctx_for_def new_context_def succeed_def)

lemma load_users_fail:
  fixes c :: "reply ctx"
  assumes "c = load_users us True current name new_context" and "\<not> succeed c"
  shows "\<exists>es. process_result_context c = (Inl es, 401) \<or> process_result_context c = (Inl es, 403)"
proof (cases "\<exists>i u. current = Some i \<and> i \<noteq> 0 \<and> find_user i us = Some u")
  case True
  then obtain i u where "current = Some i" "i \<noteq> 0" "find_user i us = Some u" by blast
  then show ?thesis
    using assms by (simp add: load_users_token process_result_context_def succeed_def Let_def split: if_splits)
next
  case False
  then have "c = set_error USER_NOT_AUTHORIZED 401 (new_context\<lparr>cx_request_user := None\<rparr>)"
    unfolding assms(1) by (auto simp: load_users_def split: option.splits)
  then show ?thesis by (simp add: process_result_context_def succeed_def)
qed

definition finished :: "unit res \<Rightarrow> reply ctx \<Rightarrow> reply ctx" where
  "finished r c = (case r of Inl e \<Rightarrow> set_error ''Internal Server Error'' 500 c | Inr _ \<Rightarrow> c)"

text \<open>A request is refused before its handler runs, or handled for the user of the token, who acts for itself or for someone of a lower role.\<close>

lemma serve_cases:
  assumes "unique usr_id (rt_users (wb_working w))" and "serve E current req w = (answer, w')"
  obtains (refused) es st where "answer = (Inl es, st)" "st \<in> {400, 401, 403}" "w' = close w"
  | (handled) rq tg r c w1 where "current = Some (usr_id rq)" "rq \<in> set (rt_users (wb_working w))" "tg \<in> set (rt_users (wb_working w))"
      "tg = rq \<or> is_admin rq" "well_formed req" "handle E rq tg req (ctx_for rq tg, w) = (r, c, w1)"
      "answer = process_result_context (finished r c)" "w' = close w1"
proof (cases "current = None \<or> \<not> well_formed req")
  case True
  then show ?thesis using assms(2) that(1) by (auto simp: serve_def split: if_splits)
next
  case False
  define c0 :: "reply ctx" where "c0 = load_users (rt_users (wb_working w)) True current (user_name_of req) new_context"
  have sv: "serve E current req w = (case exec_manager_func (run_handler E req) (c0, w) of (answer, w') \<Rightarrow> (answer, close w'))"
    using False by (auto simp: serve_def c0_def)
  show ?thesis
  proof (cases "succeed c0")
    case True
    obtain rq tg where u: "c0 = ctx_for rq tg" "rq \<in> set (rt_users (wb_working w))" "tg \<in> set (rt_users (wb_working w))" "current = Some (usr_id rq)"
      "tg = rq \<or> is_admin rq"
      using load_users_succeed [OF _ c0_def True] assms(1) by (auto simp: unique_def ctx_for_def is_admin_def)
    obtain r c w1 where h: "handle E rq tg req (ctx_for rq tg, w) = (r, c, w1)" by (metis prod.exhaust)
    have "serve E current req w = (process_result_context (finished r c), close w1)"
      unfolding sv exec_manager_func_def do_exec_manager_func_def run_handler_def u(1) using h by (simp add: finished_def split: sum.split)
    then show ?thesis using that(2) [OF u(4,2,3,5) _ h] assms(2) False by auto
  next
    case no: False
    then have "serve E current req w = (process_result_context c0, close w)" by (simp add: sv exec_manager_func_def do_exec_manager_func_def)
    then show ?thesis using assms(2) that(1) load_users_fail [OF c0_def no] by auto
  qed
qed

lemma serve_own:
  assumes "find_user i (rt_users (wb_working w)) = Some u" "i \<noteq> 0" "well_formed req" "user_name_of req = None"
  shows "serve E (Some i) req w = (case handle E u u req (ctx_for u u, w) of (r, c, w1) \<Rightarrow> (process_result_context (finished r c), close w1))"
proof -
  have "load_users (rt_users (wb_working w)) True (Some i) None new_context = ctx_for u u"
    using load_users_token [OF assms(1,2), where name = None] by (simp add: ctx_for_def acts_for_def Let_def)
  then show ?thesis
    using assms(3,4)
    by (simp add: serve_def exec_manager_func_def do_exec_manager_func_def run_handler_def finished_def Let_def split: prod.split sum.split)
qed

lemma serve_both:
  assumes "unique usr_id (rt_users (wb_working w))" and "serve E current req w = (answer, w')" and "A (wb_working w)" "A (wb_committed w)"
    and "\<And>rq tg. current = Some (usr_id rq) \<Longrightarrow> rq \<in> set (rt_users (wb_working w)) \<Longrightarrow> tg \<in> set (rt_users (wb_working w)) \<Longrightarrow> tg = rq \<or> is_admin rq \<Longrightarrow>
      triple (\<lambda>cs. both A cs \<and> wb_working (snd cs) = wb_working w) (handle E rq tg req) (both A)"
  shows "A (wb_committed w') \<and> wb_working w' = wb_committed w'"
  using assms(1,2)
proof (cases rule: serve_cases)
  case refused
  then show ?thesis using assms(3) by (simp add: close_def)
next
  case (handled rq tg r c w1)
  have "both A (c, w1)"
    using tripleD [OF assms(5) [OF handled(1,2,3,4)], of "(ctx_for rq tg, w)"] handled(6) assms(3,4) by (simp add: both_def)
  then show ?thesis using handled(8) by (simp add: both_def close_def)
qed

text \<open>C28: Whatever is requested, by whomever, and however it ends, the constraints of the tables hold afterwards: keys are unique and refer to rows that exist, no volume is
  in two groups or in two jobs; and so does what only the code takes care of: no group has two jobs, and every storage has the name of its user.\<close>

theorem requests_keep_constraints:
  assumes "consistent (wb_working w)" and "consistent (wb_committed w)" and "serve E current req w = (answer, w')"
  shows "consistent (wb_committed w') \<and> wb_working w' = wb_committed w'"
proof (rule serve_both [OF _ assms(3,1,2)])
  show "unique usr_id (rt_users (wb_working w))" using assms(1) by (simp add: consistent_def integrity_def keys_unique_def)
  fix rq tg assume "tg \<in> set (rt_users (wb_working w))"
  then have "triple (\<lambda>cs. both consistent cs \<and> rt_users (wb_working (snd cs)) = rt_users (wb_working w)) (handle E rq tg req) (both consistent)"
    by (cases req) (auto intro: storages_consistent nodes_consistent jobs_consistent vms_consistent versions_consistent triple_weaken)
  then show "triple (\<lambda>cs. both consistent cs \<and> wb_working (snd cs) = wb_working w) (handle E rq tg req) (both consistent)"
    by (rule triple_weaken) simp_all
qed

section \<open>Whose rows a request can change\<close>

text \<open>The rows that are not the user's: a job belongs to the owner of its group and to that of its storage.\<close>

definition foreign_groups :: "int \<Rightarrow> tables \<Rightarrow> int set" where
  "foreign_groups u t = vg_id ` {g \<in> set (rt_groups t). vg_user_id g \<noteq> u}"

definition foreign_storages :: "int \<Rightarrow> tables \<Rightarrow> int set" where
  "foreign_storages u t = st_id ` {s \<in> set (rt_storages t). st_user_id s \<noteq> u}"

definition foreign_jobs :: "int \<Rightarrow> tables \<Rightarrow> int set" where
  "foreign_jobs u t = sj_id ` {j \<in> set (rt_jobs t). sj_storage_id j \<in> foreign_storages u t \<and> sj_group_id j \<in> foreign_groups u t}"

text \<open>The tables as far as they are not the user's to change, judged by the tables \<open>t0\<close>.\<close>

definition foreign_rows :: "int \<Rightarrow> tables \<Rightarrow> tables \<Rightarrow> tables" where
  "foreign_rows u t0 t = t\<lparr>
     rt_groups := filter (\<lambda>g. vg_id g \<in> foreign_groups u t0) (rt_groups t),
     rt_group_volumes := filter (\<lambda>v. gv_group_id v \<in> foreign_groups u t0) (rt_group_volumes t),
     rt_jobs := filter (\<lambda>j. sj_id j \<in> foreign_jobs u t0) (rt_jobs t),
     rt_job_volumes := filter (\<lambda>v. jv_sj_id v \<in> foreign_jobs u t0) (rt_job_volumes t),
     rt_versions := filter (\<lambda>v. ver_storage_id v \<in> foreign_storages u t0) (rt_versions t)\<rparr>"

lemma filter_update_other [simp]:
  "i \<notin> F \<Longrightarrow> (\<And>x. k (f x) = k x) \<Longrightarrow> filter (\<lambda>x. k x \<in> F) (map (\<lambda>x. if k x = i then f x else x) xs) = filter (\<lambda>x. k x \<in> F) xs"
  by (induction xs) auto

lemma filter_conj_other [simp]: "i \<notin> F \<Longrightarrow> filter (\<lambda>x. k x \<noteq> i \<and> k x \<in> F) xs = filter (\<lambda>x. k x \<in> F) xs"
  by (auto intro: filter_cong)

lemma merge_volume_own [simp]:
  "gv_group_id v \<notin> F \<Longrightarrow> filter (\<lambda>x. gv_group_id x \<in> F) (rt_group_volumes (merge_volume v t)) = filter (\<lambda>x. gv_group_id x \<in> F) (rt_group_volumes t)"
proof -
  have "gv_group_id v \<notin> F \<Longrightarrow> filter (\<lambda>x. gv_group_id x \<in> F)
      (map (\<lambda>h. if gv_group_id h = gv_group_id v \<and> gv_volume_id h = gv_volume_id v then v else h) xs) = filter (\<lambda>x. gv_group_id x \<in> F) xs" for xs
    by (induction xs) auto
  then show "gv_group_id v \<notin> F \<Longrightarrow> ?thesis" by (simp add: merge_volume_def Let_def)
qed

lemma same_row: "unique k rows \<Longrightarrow> a \<in> set rows \<Longrightarrow> b \<in> set rows \<Longrightarrow> k a = k b \<Longrightarrow> a = b"
  by (auto simp: unique_def distinct_map dest: inj_onD)

text \<open>The keys of own rows are not among the foreign ones; neither are new keys.\<close>

lemma own_group: "integrity t \<Longrightarrow> row vg_id i (rt_groups t) = Some g \<Longrightarrow> i \<in> foreign_groups u t \<longleftrightarrow> vg_user_id g \<noteq> u"
  by (auto simp: foreign_groups_def integrity_def keys_unique_def dest!: row_Some dest: same_row)

lemma own_storage: "integrity t \<Longrightarrow> s \<in> set (rt_storages t) \<Longrightarrow> st_id s \<in> foreign_storages u t \<longleftrightarrow> st_user_id s \<noteq> u"
  by (auto simp: foreign_storages_def integrity_def keys_unique_def dest: same_row)

lemma own_job: "integrity t \<Longrightarrow> j \<in> set (rt_jobs t) \<Longrightarrow> sj_id j \<in> foreign_jobs u t \<longleftrightarrow> sj_storage_id j \<in> foreign_storages u t \<and> sj_group_id j \<in> foreign_groups u t"
  by (auto simp: foreign_jobs_def integrity_def keys_unique_def dest: same_row)

lemma own_by_name:
  assumes "consistent t" "u \<in> set (rt_users t)" "get_by_name (usr_name u) t = Some s"
  shows "s \<in> set (rt_storages t)" "st_user_id s = usr_id u"
proof -
  show s: "s \<in> set (rt_storages t)" using assms(3) by (auto simp: get_by_name_def find_Some_iff)
  have "st_name s = usr_name u" using assms(3) by (auto simp: get_by_name_def find_Some_iff)
  moreover obtain v where "v \<in> set (rt_users t)" "st_user_id s = usr_id v" "st_name s = usr_name v"
    using assms(1) s by (auto simp: consistent_def named_after_user_def)
  moreover have "unique usr_name (rt_users t)" using assms(1) by (simp add: consistent_def integrity_def keys_unique_def)
  ultimately show "st_user_id s = usr_id u" using same_row assms(2) by metis
qed

lemma own_by_name_id: "consistent t \<Longrightarrow> u \<in> set (rt_users t) \<Longrightarrow> get_by_name (usr_name u) t = Some s \<Longrightarrow> st_id s \<notin> foreign_storages (usr_id u) t"
  using own_by_name [of t u s] own_storage [of t s "usr_id u"] by (simp add: consistent_def)

definition fresh_keys :: "web_env \<Rightarrow> bool" where
  "fresh_keys E \<longleftrightarrow> (\<forall>ids. we_key E ids \<notin> set ids)"

lemma new_keys:
  assumes "fresh_keys E"
  shows "we_key E (map vg_id (rt_groups t)) \<notin> foreign_groups u t" "we_key E (map sj_id (rt_jobs t)) \<notin> foreign_jobs u t"
proof -
  have "foreign_groups u t \<subseteq> set (map vg_id (rt_groups t))" "foreign_jobs u t \<subseteq> set (map sj_id (rt_jobs t))"
    by (auto simp: foreign_groups_def foreign_jobs_def)
  then show "we_key E (map vg_id (rt_groups t)) \<notin> foreign_groups u t" "we_key E (map sj_id (rt_jobs t)) \<notin> foreign_jobs u t"
    using assms unfolding fresh_keys_def by blast+
qed

abbreviation keeps_foreign :: "user \<Rightarrow> tables \<Rightarrow> controller \<Rightarrow> bool" where
  "keeps_foreign u t0 m \<equiv> triple (\<lambda>cs. both (\<lambda>t. foreign_rows (usr_id u) t0 t = foreign_rows (usr_id u) t0 t0) cs \<and> wb_working (snd cs) = t0) m
     (both (\<lambda>t. foreign_rows (usr_id u) t0 t = foreign_rows (usr_id u) t0 t0))"

lemma admin_requests_keep_foreign:
  assumes "\<not> is_admin u"
  shows "keeps_foreign u t0 (handle_storage E u u r)" and "keeps_foreign u t0 (handle_node E u u r')"
  subgoal by (cases r; simp only: handle_storage.simps; unfold handler_defs; intro hoare) (use assms in auto)
  subgoal by (cases r'; simp only: handle_node.simps; unfold handler_defs; intro hoare) (use assms in auto)
  done

lemma foreign_rows_eq:
  "foreign_rows u t0 t = foreign_rows u t0 t0 \<longleftrightarrow>
     rt_users t = rt_users t0 \<and> rt_nodes t = rt_nodes t0 \<and> rt_storages t = rt_storages t0 \<and> rt_vms t = rt_vms t0 \<and>
     filter (\<lambda>g. vg_id g \<in> foreign_groups u t0) (rt_groups t) = filter (\<lambda>g. vg_id g \<in> foreign_groups u t0) (rt_groups t0) \<and>
     filter (\<lambda>v. gv_group_id v \<in> foreign_groups u t0) (rt_group_volumes t) = filter (\<lambda>v. gv_group_id v \<in> foreign_groups u t0) (rt_group_volumes t0) \<and>
     filter (\<lambda>j. sj_id j \<in> foreign_jobs u t0) (rt_jobs t) = filter (\<lambda>j. sj_id j \<in> foreign_jobs u t0) (rt_jobs t0) \<and>
     filter (\<lambda>v. jv_sj_id v \<in> foreign_jobs u t0) (rt_job_volumes t) = filter (\<lambda>v. jv_sj_id v \<in> foreign_jobs u t0) (rt_job_volumes t0) \<and>
     filter (\<lambda>v. ver_storage_id v \<in> foreign_storages u t0) (rt_versions t) = filter (\<lambda>v. ver_storage_id v \<in> foreign_storages u t0) (rt_versions t0)"
  unfolding foreign_rows_def by (cases t; cases t0) auto

lemma versions_keep_foreign:
  assumes "consistent t0" "u \<in> set (rt_users t0)" "\<not> is_admin u"
  shows "keeps_foreign u t0 (handle_version E u u r)"
  by (cases r; simp only: handle_version.simps; unfold handler_defs; rule triple_at_tables; intro hoare)
    (use assms(3) own_by_name_id [OF assms(1,2)] in \<open>auto simp: storage_name_for_def both_def foreign_rows_eq add_version_def version_row_def\<close>)

lemma jobs_keep_foreign:
  assumes "consistent t0" "u \<in> set (rt_users t0)" "\<not> is_admin u" "fresh_keys E"
  shows "keeps_foreign u t0 (handle_job E u u r)"
proof -
  have i: "integrity t0" using assms(1) by (simp add: consistent_def)
  have job: "row sj_id i (rt_jobs t0) = Some j \<Longrightarrow> i \<in> foreign_jobs (usr_id u) t0 \<longleftrightarrow>
      sj_storage_id j \<in> foreign_storages (usr_id u) t0 \<and> sj_group_id j \<in> foreign_groups (usr_id u) t0" for i j
    using own_job [OF i] by (metis row_Some)
  have storage: "storage_of_job j t0 = Some s \<Longrightarrow> sj_storage_id j \<in> foreign_storages (usr_id u) t0 \<longleftrightarrow> st_user_id s \<noteq> usr_id u" for j s
    using own_storage [OF i] unfolding storage_of_job_def by (metis row_Some)
  show ?thesis
    by (cases r; simp only: handle_job.simps; unfold handler_defs; rule triple_at_tables; intro hoare)
      (use assms(3) new_keys [OF assms(4), of t0 "usr_id u"] own_by_name_id [OF assms(1,2)] job storage in
        \<open>auto simp: both_def foreign_rows_eq new_job_def Let_def\<close>)
qed

lemma drop_group_simps [simp]:
  "rt_nodes (drop_group i job t) = rt_nodes t" "rt_vms (drop_group i job t) = rt_vms t" "rt_versions (drop_group i job t) = rt_versions t"
  "rt_groups (drop_group i job t) = filter (\<lambda>g. vg_id g \<noteq> i) (rt_groups t)"
  "rt_group_volumes (drop_group i job t) = filter (\<lambda>v. gv_group_id v \<noteq> i) (rt_group_volumes t)"
  "(\<And>j. job = Some j \<Longrightarrow> sj_id j \<notin> F) \<Longrightarrow> filter (\<lambda>v. jv_sj_id v \<in> F) (rt_job_volumes (drop_group i job t)) = filter (\<lambda>v. jv_sj_id v \<in> F) (rt_job_volumes t)"
  by (cases job; simp add: drop_group_def)+

lemma vms_keep_foreign:
  assumes "consistent t0" "u \<in> set (rt_users t0)" "\<not> is_admin u" "fresh_keys E"
  shows "keeps_foreign u t0 (handle_vm E u u r)"
proof -
  have i: "integrity t0" using assms(1) by (simp add: consistent_def)
  note group = own_group [OF i]
  have jobs: "filter (\<lambda>j. sj_group_id j \<noteq> k \<and> sj_id j \<in> foreign_jobs (usr_id u) t0) (rt_jobs t0) = filter (\<lambda>j. sj_id j \<in> foreign_jobs (usr_id u) t0) (rt_jobs t0)"
    if "k \<notin> foreign_groups (usr_id u) t0" for k
    using own_job [OF i] that by (auto intro!: filter_cong)
  have dropped: "filter (\<lambda>v. jv_sj_id v \<in> foreign_jobs (usr_id u) t0) (rt_job_volumes (drop_group k x t)) =
      filter (\<lambda>v. jv_sj_id v \<in> foreign_jobs (usr_id u) t0) (rt_job_volumes t)"
    if "one_or_none (\<lambda>j. sj_group_id j = k) (rt_jobs t0) = Inr x" "k \<notin> foreign_groups (usr_id u) t0" for k x t
  proof (rule drop_group_simps(6))
    fix j assume "x = Some j"
    then have "j \<in> set (filter (\<lambda>j. sj_group_id j = k) (rt_jobs t0))" using that(1) by (simp add: one_or_none_Some)
    then show "sj_id j \<notin> foreign_jobs (usr_id u) t0" using own_job [OF i, of j] that(2) by auto
  qed
  note new = new_keys(1) [OF assms(4), of t0 "usr_id u"]
  show ?thesis
  proof (cases r)
    case (RemoveGroup i)
    show ?thesis
      unfolding RemoveGroup handle_vm.simps handler_defs
      by (rule triple_at_tables; intro hoare) (use assms(3) group jobs dropped in \<open>auto simp: both_def foreign_rows_eq\<close>)
  next
    case (CreateGroup uid name desc vs)
    show ?thesis
      unfolding CreateGroup handle_vm.simps handler_defs
      by (rule triple_at_tables; intro hoare) (use assms(3) new in \<open>auto simp: both_def foreign_rows_eq Let_def\<close>)
  next
    case (UpdateGroup i name desc vs)
    show ?thesis
      unfolding UpdateGroup handle_vm.simps handler_defs
      by (rule triple_at_tables; intro hoare) (use assms(3) group in \<open>auto simp: both_def foreign_rows_eq split: option.split_asm\<close>)
  next
    case (BackUpVolumes vs a)
    show ?thesis
      unfolding BackUpVolumes handle_vm.simps handler_defs
      by (rule triple_at_tables; intro hoare)
        (use assms(3) own_by_name_id [OF assms(1,2)] in \<open>auto simp: both_def foreign_rows_eq storage_name_for_def add_version_def\<close>)
  next
    case (VmVolumes i)
    show ?thesis
      unfolding VmVolumes handle_vm.simps handler_defs by (rule triple_at_tables; intro hoare) auto
  next
    case (GetGroup i)
    show ?thesis
      unfolding GetGroup handle_vm.simps handler_defs by (rule triple_at_tables; intro hoare) auto
  next
    case (BackUpGroups gs)
    show ?thesis
      unfolding BackUpGroups handle_vm.simps handler_defs by (rule triple_at_tables; intro hoare) (auto simp: both_def)
  qed
qed


section \<open>What a refused request leaves behind\<close>

text \<open>No error so far, and the tables are as they were at the beginning; or, at the end, no error of the client's.\<close>

definition quiet :: "reply ctx \<times> web \<Rightarrow> bool" where
  "quiet cs \<longleftrightarrow> cx_error (fst cs) = []"

definition untouched :: "tables \<Rightarrow> reply ctx \<times> web \<Rightarrow> bool" where
  "untouched t0 cs \<longleftrightarrow> both (\<lambda>t. t = t0) cs \<and> quiet cs"

definition client_error :: "reply ctx \<Rightarrow> bool" where
  "client_error c \<longleftrightarrow> cx_error c \<noteq> [] \<and> (\<exists>n. cx_status c = Some n \<and> 400 \<le> n \<and> n < 500)"

definition safe_refusal :: "tables \<Rightarrow> reply ctx \<times> web \<Rightarrow> bool" where
  "safe_refusal t0 cs \<longleftrightarrow> (client_error (fst cs) \<longrightarrow> both (\<lambda>t. t = t0) cs)"

lemma untouched_quiet [simp]: "untouched t0 cs \<Longrightarrow> quiet cs"
  by (simp add: untouched_def)

lemma quiet_safe [simp]: "quiet cs \<Longrightarrow> safe_refusal t0 cs" and untouched_safe [simp]: "untouched t0 cs \<Longrightarrow> safe_refusal t0 cs"
  by (simp_all add: quiet_def untouched_def safe_refusal_def client_error_def)

lemma safe_reject [simp]:
  "untouched t0 (c, w) \<Longrightarrow> safe_refusal t0 (set_error msg st c, w)" "untouched t0 (c, w) \<Longrightarrow> safe_refusal t0 (set_error_obj e st c, w)"
  "untouched t0 (c, w) \<Longrightarrow> safe_refusal t0 (c\<lparr>cx_response := r, cx_status := n\<rparr>, w)"
  "quiet (c\<lparr>cx_response := r, cx_status := n\<rparr>, w) = quiet (c, w)" "untouched t0 (c, w\<lparr>wb_calls := xs\<rparr>) = untouched t0 (c, w)"
  by (simp_all add: untouched_def safe_refusal_def client_error_def quiet_def)

named_theorems refusal \<open>rules for requests that are refused\<close>

lemma refuse_save [refusal]:
  "(\<And>c w. P (c, w) \<Longrightarrow> untouched t0 (c, w)) \<Longrightarrow> triple quiet good quiet \<Longrightarrow> triple (untouched t0) bad (safe_refusal t0) \<Longrightarrow>
    triple P (with_save f good bad) (safe_refusal t0)"
  by (rule triple_save [where G = quiet and B = "untouched t0"]) (auto simp: untouched_def quiet_def both_def intro: triple_weaken)

lemma refuse_call [refusal]:
  "(\<And>c w. P (c, w) \<Longrightarrow> untouched t0 (c, w)) \<Longrightarrow> triple (untouched t0) good (safe_refusal t0) \<Longrightarrow> triple (untouched t0) bad (safe_refusal t0) \<Longrightarrow>
    triple P (with_call E x good bad) (safe_refusal t0)"
  by (rule triple_call [where R = "untouched t0"]) auto

lemma refuse_then [refusal]:
  "triple P m (untouched t0) \<Longrightarrow> triple (untouched t0) k (safe_refusal t0) \<Longrightarrow> triple P (thenS m k) (safe_refusal t0)"
  by (rule triple_then [where R = "untouched t0"]) simp_all

lemma quiet_then [refusal]: "triple P m quiet \<Longrightarrow> triple quiet k quiet \<Longrightarrow> triple P (thenS m k) quiet"
  by (rule triple_then)

lemma quiet_replies [refusal]:
  "(\<And>c w. P (c, w) \<Longrightarrow> quiet (c, w)) \<Longrightarrow> triple P (group_reply g st) quiet"
  "(\<And>c w. P (c, w) \<Longrightarrow> quiet (c, w)) \<Longrightarrow> triple P (job_reply j st) quiet"
  unfolding group_reply_def job_reply_def by (rule hoare; rule hoare; simp)+

lemma safe_replies [refusal]:
  "(\<And>c w. P (c, w) \<Longrightarrow> quiet (c, w)) \<Longrightarrow> triple P (group_reply g st) (safe_refusal t0)"
  by (rule triple_weaken [OF quiet_replies(1) [of P]]) simp_all

lemma quiet_update [refusal]:
  "(\<And>c w. P (c, w) \<Longrightarrow> quiet (c, w)) \<Longrightarrow> triple P (\<lambda>cs. (Inr (), fst cs, f (snd cs))) quiet"
  by (rule triple_update) (simp add: quiet_def)

lemma quiet_add_volumes [refusal]: "(\<And>c w. P (c, w) \<Longrightarrow> quiet (c, w)) \<Longrightarrow> triple P (add_volumes names i vs) quiet"
proof -
  have "quiet cs \<Longrightarrow> quiet (snd (add_volumes names i vs cs))" for cs
    by (induction vs arbitrary: cs) (auto simp: quiet_def try_res_def split: sum.splits)
  then show "(\<And>c w. P (c, w) \<Longrightarrow> quiet (c, w)) \<Longrightarrow> ?thesis" by (fastforce simp: triple_def)
qed

lemma safe_back_up_volumes [refusal]:
  "(\<And>c w. P (c, w) \<Longrightarrow> quiet (c, w)) \<Longrightarrow> triple P (back_up_volumes E a s n vs done) (safe_refusal t0)"
proof -
  have "quiet cs \<Longrightarrow> quiet (snd (back_up_volumes E a s n vs done cs))" for cs
  proof (induction vs arbitrary: cs "done")
    case (Cons v vs)
    then show ?case
      by (auto simp: try_res_def with_tables_def with_save_def save_def Let_def thenS_def bindS_def enqueue_def quiet_def split: sum.splits)
  qed (simp add: respond_def quiet_def)
  then show "(\<And>c w. P (c, w) \<Longrightarrow> quiet (c, w)) \<Longrightarrow> ?thesis" unfolding triple_def by (metis quiet_safe surj_pair)
qed

lemma safe_create_storage_for [refusal]:
  assumes "integrity t0" "fresh_keys E" and P: "\<And>c w. P (c, w) \<Longrightarrow> untouched t0 (c, w)"
  shows "triple P (create_storage_for E u disk) (safe_refusal t0)"
proof -
  have "triple (\<lambda>cs. untouched t0 cs \<and> wb_working (snd cs) = t0) (create_storage_for E u disk) (safe_refusal t0)"
    unfolding create_storage_for_def
  proof (rule triple_at_tables, intro hoare)
    fix n let ?s = "new_storage E t0 u n (disk * GiB)"
    let ?new = "\<lambda>cs. untouched (add_storage ?s t0) cs"
    have undo: "del_storage (st_id ?s) (add_storage ?s t0) = t0"
    proof -
      have "we_key E (map st_id (rt_storages t0)) \<notin> set (map st_id (rt_storages t0))" using assms(2) unfolding fresh_keys_def by blast
      then have "filter (\<lambda>s. st_id s \<noteq> st_id ?s) (rt_storages t0) = rt_storages t0" by (auto simp: filter_id_conv new_storage_def) (metis image_eqI)
      then show ?thesis by (simp add: del_storage_def add_storage_def)
    qed
    have undone: "triple ?new (with_save (del_storage (st_id ?s)) (reject m 400) (reject m 400)) (safe_refusal t0)" for m
      by (rule triple_save [where G = "untouched t0" and B = "\<lambda>_. False"])
        (use assms(1) in \<open>auto simp: untouched_def both_def quiet_def undo triple_def save_def Let_def reject_def safe_refusal_def\<close>)
    show "triple (\<lambda>cs. untouched t0 cs \<and> wb_working (snd cs) = t0)
        (with_save (add_storage ?s)
          (with_call E (MapStorage (addr n) (st_name ?s) (the (st_path ?s)) (disk * GiB)) (respond (RStorage ?s) (Some 201))
            (with_save (del_storage (st_id ?s)) (reject (''Failed to create storage '' @ st_name ?s) 400) (reject (''Failed to create storage '' @ st_name ?s) 400)))
          (reject_save 400)) (safe_refusal t0)"
      by (rule triple_save [where G = ?new and B = "untouched t0"])
        (auto simp: untouched_def both_def quiet_def intro!: triple_call [where R = ?new] undone hoare)
  qed auto
  then show ?thesis by (rule triple_weaken) (use P in \<open>auto simp: untouched_def both_def\<close>)
qed

abbreviation refuses_safely :: "tables \<Rightarrow> controller \<Rightarrow> bool" where
  "refuses_safely t0 m \<equiv> triple (\<lambda>cs. untouched t0 cs \<and> wb_working (snd cs) = t0) m (safe_refusal t0)"

lemma storages_refuse_safely:
  assumes "integrity t0" "fresh_keys E"
  shows "refuses_safely t0 (handle_storage E rq tg r)"
proof (cases r)
  case (CreateStorage u disk)
  show ?thesis
    unfolding CreateStorage handle_storage.simps create_storage_def
    by (rule triple_at_tables; intro safe_create_storage_for [OF assms] hoare) auto
next
  case (UpdateStorageSize i disk)
  show ?thesis
    unfolding UpdateStorageSize handle_storage.simps update_storage_def by (rule triple_at_tables; intro refusal hoare) auto
next
  case (RemoveStorage i force)
  show ?thesis
    unfolding RemoveStorage handle_storage.simps delete_storage_def by (rule triple_at_tables; intro refusal hoare) auto
next
  case (GetStorage i)
  show ?thesis
    unfolding GetStorage handle_storage.simps get_storage_def by (rule triple_at_tables; intro refusal hoare) auto
qed

lemma nodes_refuse_safely: "refuses_safely t0 (handle_node E rq tg r)"
  by (cases r; simp only: handle_node.simps; unfold handler_defs; rule triple_at_tables; intro refusal hoare) auto

lemma jobs_refuse_safely: "refuses_safely t0 (handle_job E rq tg r)"
  by (cases r; simp only: handle_job.simps; unfold handler_defs; rule triple_at_tables; intro refusal hoare) auto

lemma versions_refuse_safely: "refuses_safely t0 (handle_version E rq tg r)"
  by (cases r; simp only: handle_version.simps; unfold handler_defs; rule triple_at_tables; intro refusal hoare) auto

text \<open>Backing up groups changes no table at all.\<close>

lemma group_backup_keeps:
  "triple (both (\<lambda>t. t = t0)) (create_volume_backup_groups tg gs) (both (\<lambda>t. t = t0))"
  unfolding create_volume_backup_groups_def by (intro hoare) (auto simp: both_def)

lemma vms_refuse_safely: "refuses_safely t0 (handle_vm E rq tg r)"
proof (cases r)
  case (BackUpGroups gs)
  show ?thesis
    unfolding BackUpGroups handle_vm.simps
    by (rule triple_weaken [OF group_backup_keeps]) (auto simp: untouched_def safe_refusal_def)
next
  case (BackUpVolumes vs a)
  show ?thesis
    unfolding BackUpVolumes handle_vm.simps handler_defs by (rule triple_at_tables; intro refusal hoare) auto
next
  case (CreateGroup uid name desc vs)
  show ?thesis
    unfolding CreateGroup handle_vm.simps handler_defs by (rule triple_at_tables; intro refusal hoare) auto
next
  case (UpdateGroup i name desc vs)
  show ?thesis
    unfolding UpdateGroup handle_vm.simps handler_defs by (rule triple_at_tables; intro refusal hoare) auto
next
  case (RemoveGroup i)
  show ?thesis
    unfolding RemoveGroup handle_vm.simps handler_defs by (rule triple_at_tables; intro refusal hoare) auto
next
  case (GetGroup i)
  show ?thesis
    unfolding GetGroup handle_vm.simps handler_defs by (rule triple_at_tables; intro refusal hoare) auto
next
  case (VmVolumes i)
  show ?thesis
    unfolding VmVolumes handle_vm.simps handler_defs by (rule triple_at_tables; intro refusal hoare) auto
qed

text \<open>C30: A request that is answered with an error of the client's, a status from 400 to 499, has changed nothing in the database, also where its handler had
  stored rows before it failed: a storage whose volume cannot be made is taken back.\<close>

theorem refused_requests_change_nothing:
  assumes "consistent (wb_working w)" and "wb_committed w = wb_working w" and "fresh_keys E"
    and "serve E current req w = ((Inl es, st), w')" and "400 \<le> st" "st < 500"
  shows "wb_committed w' = wb_committed w"
proof -
  let ?t = "wb_working w"
  have i: "integrity ?t" and users: "unique usr_id (rt_users ?t)" using assms(1) by (simp_all add: consistent_def integrity_def keys_unique_def)
  from users assms(4) show ?thesis
  proof (cases rule: serve_cases)
    case refused
    then show ?thesis using assms(2) by (simp add: close_def)
  next
    case (handled rq tg r c w1)
    have "refuses_safely ?t (handle E rq tg req)"
      by (cases req) (simp_all add: storages_refuse_safely [OF i assms(3)] nodes_refuse_safely jobs_refuse_safely vms_refuse_safely versions_refuse_safely)
    moreover have "untouched ?t (ctx_for rq tg, w)" using assms(2) by (simp add: untouched_def both_def quiet_def)
    ultimately have safe: "safe_refusal ?t (c, w1)" using handled(6) unfolding triple_def by fastforce
    have "client_error (finished r c)"
      using handled(7) assms(5,6) by (auto simp: process_result_context_def client_error_def succeed_def split: if_splits option.splits)
    then have "client_error c" by (auto simp: finished_def client_error_def split: sum.splits)
    then show ?thesis using safe handled(8) assms(2) by (simp add: safe_refusal_def both_def close_def)
  qed
qed

section \<open>The theorems at work\<close>

lemma demo_tables_consistent: "consistent demo_tables"
  by code_simp

lemma demo_web_env_fresh: "fresh_keys (demo_web_env b)"
  by (simp add: fresh_keys_def demo_fresh)

lemma demo_web_simps [simp]: "wb_working demo_web = demo_tables" "wb_committed demo_web = demo_tables" "wb_calls demo_web = []"
  by (simp_all add: demo_web_def)

theorem requests_keep_constraints_witness:
  "let (answer, w') = serve (demo_web_env True) (Some 2) (Jobs (CreateJob demo_job_args)) demo_web in
     snd answer = 201 \<and> consistent (wb_committed w') \<and> wb_working w' = wb_committed w'"
proof -
  let ?r = "serve (demo_web_env True) (Some 2) (Jobs (CreateJob demo_job_args)) demo_web"
  have "snd (fst ?r) = 201" by code_simp
  moreover have "consistent (wb_committed (snd ?r)) \<and> wb_working (snd ?r) = wb_committed (snd ?r)"
    using requests_keep_constraints [of demo_web "demo_web_env True" "Some 2" "Jobs (CreateJob demo_job_args)" "fst ?r" "snd ?r"] by (simp add: demo_tables_consistent)
  ultimately show ?thesis by (simp add: case_prod_unfold)
qed


lemma demo_user [simp]: "find_user 1 (rt_users demo_tables) = Some (demo_users ! 0)" "find_user 2 (rt_users demo_tables) = Some (demo_users ! 1)"
  by (simp_all add: find_user_def demo_tables_def demo_users_def)

lemma demo_roles [simp]: "is_admin (demo_users ! 0)" "\<not> is_admin (demo_users ! Suc 0)"
  by (simp_all add: demo_users_def is_admin_def role_is_admin_def)

lemma demo_select_node: "select_node (demo_web_env b) demo_tables = Some (hd (rt_nodes demo_tables))"
  by (simp add: select_node_def demo_web_env_def demo_tables_def)

theorem refused_requests_change_nothing_witness:
  "let w' = snd (serve (demo_web_env False) (Some 1) (Storages (CreateStorage None 5)) demo_web) in
     wb_committed w' = demo_tables \<and> wb_calls w' \<noteq> []"
proof -
  let ?r = "serve (demo_web_env False) (Some 1) (Storages (CreateStorage None 5)) demo_web" and ?n = "hd (rt_nodes demo_tables)"
  let ?s = "new_storage (demo_web_env False) demo_tables (demo_users ! 0) ?n (5 * GiB)"
  have i: "integrity (add_storage ?s demo_tables)" "integrity (del_storage (st_id ?s) (add_storage ?s demo_tables))" by code_simp+
  have rpc: "we_rpc (demo_web_env False) xs x = Inr False" for xs x by (simp add: demo_web_env_def)
  have c: "wb_calls (snd ?r) \<noteq> [] \<and> (\<exists>es. fst ?r = (Inl es, 400))"
    by (simp add: serve_own create_storage_def create_storage_for_def with_tables_def demo_select_node with_save_def save_def with_call_def call_def rpc i Let_def
      reject_def finished_def close_def process_result_context_def succeed_def)
  then obtain es where "?r = ((Inl es, 400), snd ?r)" by (metis prod.collapse)
  then show ?thesis
    using c refused_requests_change_nothing [of demo_web "demo_web_env False" "Some 1" "Storages (CreateStorage None 5)" es 400 "snd ?r"]
    by (simp add: demo_tables_consistent demo_web_env_fresh Let_def)
qed

end
