(* ===== verification/Rest_Calls.thy ===== *)
theory Rest_Calls
  imports Rest_Theorems
begin

text \<open>
  What requests make the service send to the nodes and to the queue: who may have what sent, and what a schedule job that a request creates does every week.
\<close>

section \<open>What is sent to the nodes\<close>

text \<open>The calls made since the request began, all of which satisfy \<open>allow\<close>.\<close>

definition made :: "(call \<Rightarrow> bool) \<Rightarrow> call list \<Rightarrow> reply ctx \<times> web \<Rightarrow> bool" where
  "made allow calls cs \<longleftrightarrow> (\<exists>new. wb_calls (snd cs) = calls @ new \<and> (\<forall>x \<in> set new. allow x))"

lemma made_simps [simp]:
  "made allow calls (set_error msg st c, w) = made allow calls (c, w)" "made allow calls (set_error_obj e st c, w) = made allow calls (c, w)"
  "made allow calls (c\<lparr>cx_response := r, cx_status := n\<rparr>, w) = made allow calls (c, w)" "made allow calls (c\<lparr>cx_response := r\<rparr>, w) = made allow calls (c, w)"
  "made allow calls (c, w\<lparr>wb_working := t\<rparr>) = made allow calls (c, w)" "made allow calls (c, w\<lparr>wb_committed := t\<rparr>) = made allow calls (c, w)"
  by (simp_all add: made_def)

lemma made_one: "made allow calls (c, w) \<Longrightarrow> allow x \<Longrightarrow> made allow calls (c, w\<lparr>wb_calls := wb_calls w @ [x]\<rparr>)"
  unfolding made_def by (elim exE conjE) (rule exI [of _ "_ @ [x]"], simp)

lemma made_save [hoare]:
  "(\<And>c w. P (c, w) \<Longrightarrow> made allow calls (c, w)) \<Longrightarrow> triple (made allow calls) good (made allow calls) \<Longrightarrow> triple (made allow calls) bad (made allow calls) \<Longrightarrow>
    triple P (with_save f good bad) (made allow calls)"
  by (rule triple_save [where G = "made allow calls" and B = "made allow calls"]) simp_all

lemma made_call [hoare]:
  "(\<And>c w. P (c, w) \<Longrightarrow> made allow calls (c, w)) \<Longrightarrow> allow x \<Longrightarrow> triple (made allow calls) good (made allow calls) \<Longrightarrow> triple (made allow calls) bad (made allow calls) \<Longrightarrow>
    triple P (with_call E x good bad) (made allow calls)"
  by (rule triple_call [where R = "made allow calls"]) (simp_all add: made_one)

lemma made_then [hoare]: "triple P m (made allow calls) \<Longrightarrow> triple (made allow calls) k (made allow calls) \<Longrightarrow> triple P (thenS m k) (made allow calls)"
  by (rule triple_then)

lemma made_replies [hoare]:
  "(\<And>c w. P (c, w) \<Longrightarrow> made allow calls (c, w)) \<Longrightarrow> triple P (group_reply g st) (made allow calls)"
  "(\<And>c w. P (c, w) \<Longrightarrow> made allow calls (c, w)) \<Longrightarrow> triple P (job_reply j st) (made allow calls)"
  unfolding group_reply_def job_reply_def by (rule hoare; rule hoare; simp)+

lemma save_calls [simp]: "wb_calls (snd (save f w)) = wb_calls w"
  by (simp add: save_def Let_def)

lemma made_add_volumes [hoare]: "(\<And>c w. P (c, w) \<Longrightarrow> made allow calls (c, w)) \<Longrightarrow> triple P (add_volumes names i vs) (made allow calls)"
proof -
  have "wb_calls (snd (snd (add_volumes names i vs cs))) = wb_calls (snd cs)" for cs
    by (induction vs arbitrary: cs) (auto simp: try_res_def split: sum.splits)
  then show "(\<And>c w. P (c, w) \<Longrightarrow> made allow calls (c, w)) \<Longrightarrow> ?thesis" by (simp add: triple_def made_def)
qed

lemma made_add_job_volumes [hoare]:
  "(\<And>c w. P (c, w) \<Longrightarrow> made allow calls (c, w)) \<Longrightarrow> triple P (\<lambda>cs. (Inr (), fst cs, add_job_volumes i vs (snd cs))) (made allow calls)"
proof -
  have "wb_calls (add_job_volumes i vs w) = wb_calls w" for w by (induction vs arbitrary: w) simp_all
  then show "(\<And>c w. P (c, w) \<Longrightarrow> made allow calls (c, w)) \<Longrightarrow> ?thesis" by (simp add: triple_def made_def)
qed

lemma made_back_up_groups [hoare]: "(\<And>c w. P (c, w) \<Longrightarrow> made allow calls (c, w)) \<Longrightarrow> triple P (back_up_groups s gs) (made allow calls)"
proof -
  have create: "wb_calls (snd (snd (create_backup s vs cs))) = wb_calls (snd cs)" for vs cs
    by (induction vs arbitrary: cs) (auto simp: need_def split: option.splits)
  have "wb_calls (snd (snd (back_up_groups s gs cs))) = wb_calls (snd cs)" for cs
  proof (induction gs arbitrary: cs)
    case (Cons g gs)
    show ?case
      using create [of "rows_of_group g (wb_working (snd cs))" cs] Cons.IH by (auto simp: thenS_def bindS_def split: prod.splits sum.splits)
  qed simp
  then show "(\<And>c w. P (c, w) \<Longrightarrow> made allow calls (c, w)) \<Longrightarrow> ?thesis" by (simp add: triple_def made_def)
qed

lemma made_back_up_volumes [hoare]:
  assumes "\<And>c w. P (c, w) \<Longrightarrow> made allow calls (c, w)"
    and "\<And>v i x. v \<in> set vs \<Longrightarrow> va_id v = Some x \<Longrightarrow> allow (BackupTask (addr n) i (rbd_source x) None)"
  shows "triple P (back_up_volumes E a s n vs done) (made allow calls)"
proof -
  have "made allow calls cs \<Longrightarrow> made allow calls (snd (back_up_volumes E a s n vs done cs))" for cs
    using assms(2)
  proof (induction vs arbitrary: cs "done")
    case (Cons v vs)
    have ok: "allow (BackupTask (addr n) i (rbd_source x) None)" if "require_key (va_id v) = Inr x" for i x
      using that Cons.prems(2) by (auto simp: require_key_def split: option.splits)
    have IH: "made allow calls cs \<Longrightarrow> made allow calls (snd (back_up_volumes E a s n vs d cs))" for cs d
      by (rule Cons.IH) (use Cons.prems in auto)
    have step: "triple (made allow calls) (\<lambda>cs. back_up_volumes E a s n (v # vs) done cs) (made allow calls)"
      unfolding back_up_volumes.simps
      by (intro hoare) (auto simp: triple_def intro!: IH made_one ok)
    from tripleD [OF step Cons.prems(1)] show ?case .
  qed (simp add: respond_def)
  then show ?thesis using assms(1) by (fastforce simp: triple_def)
qed

text \<open>A volume is backed up only when a machine that counts as the owner's is attached to it.\<close>

lemma attached_True: "attached (Inr p) servers vms = Inr True \<Longrightarrow> \<exists>m \<in> set vms. p m \<and> vm_ems_ref m \<in> Some ` set servers"
proof (induction servers)
  case (Cons server servers)
  show ?case
  proof (cases "one_or_none (\<lambda>v. vm_ems_ref v = Some server \<and> p v) vms")
    case (Inr x)
    show ?thesis
    proof (cases x)
      case (Some m)
      then have "m \<in> set (filter (\<lambda>v. vm_ems_ref v = Some server \<and> p v) vms)" using Inr by (simp add: one_or_none_Some)
      then show ?thesis by auto
    next
      case None
      then show ?thesis using Inr Cons by auto
    qed
  next
    case (Inl e)
    then show ?thesis using Cons.prems by simp
  qed
qed simp

lemma check_backup_volumes_ok:
  "check_backup_volumes cloud owner vms vs = Inr None \<Longrightarrow> v \<in> set vs \<Longrightarrow> va_id v = Some i \<Longrightarrow>
     \<exists>gib servers. cloud i = Some (gib, servers) \<and> attached (Inr owner) servers vms = Inr True"
proof (induction vs)
  case (Cons x xs)
  then show ?case
    by (auto simp: require_key_def bind_res_def split: option.splits sum.splits if_splits prod.splits)
qed simp

section \<open>What a user can have sent\<close>

fun asks_admin_backup :: "request \<Rightarrow> bool" where
  "asks_admin_backup (Versions (CreateVersion volume a)) = admin_backup a"
| "asks_admin_backup (Vms (BackUpVolumes vs a)) = admin_backup a"
| "asks_admin_backup _ = False"

definition may_back_up :: "web_env \<Rightarrow> tables \<Rightarrow> int \<Rightarrow> bool \<Rightarrow> string \<Rightarrow> bool" where
  "may_back_up E t u any volume \<longleftrightarrow>
     (\<exists>cloud gib servers. we_volume E = Some cloud \<and> cloud volume = Some (gib, servers) \<and>
        (\<exists>m \<in> set (rt_vms t). (any \<or> vm_user_id m = u) \<and> vm_ems_ref m \<in> Some ` set servers))"

definition node_of_user :: "tables \<Rightarrow> int \<Rightarrow> node_addr \<Rightarrow> bool" where
  "node_of_user t u n \<longleftrightarrow> (\<exists>s \<in> set (rt_storages t). st_user_id s = u \<and> (\<exists>nd. node_of s t = Some nd \<and> n = addr nd))"

fun may_send :: "web_env \<Rightarrow> tables \<Rightarrow> int \<Rightarrow> bool \<Rightarrow> call \<Rightarrow> bool" where
  "may_send E t u any (BackupTask n i source base) \<longleftrightarrow> node_of_user t u n \<and> (\<exists>volume. source = rbd_source volume \<and> may_back_up E t u any volume)"
| "may_send E t u any (RestoreTask n i volume sparse force backend_less) \<longleftrightarrow>
     (\<exists>v \<in> set (rt_versions t). ver_id v = i \<and> ver_volume v = volume \<and> ver_status v \<noteq> incomplete \<and>
        (\<exists>m \<in> set (rt_vms t). vm_id m = ver_vm_id v \<and> vm_user_id m = u))"
| "may_send E t u any (DeleteTask n i force keep override) \<longleftrightarrow> (\<exists>v \<in> set (rt_versions t). ver_id v = i)"
| "may_send E t u any _ \<longleftrightarrow> False"

lemma rbd_source_inj [simp]: "rbd_source v = rbd_source v' \<longleftrightarrow> v = v'"
  by (simp add: rbd_source_def)

lemma may_back_upI:
  assumes "we_volume E = Some cloud" "cloud volume = Some (gib, servers)" "attached (Inr (backup_owner u u a)) servers (rt_vms t) = Inr True" "\<not> is_admin u"
  shows "may_back_up E t (usr_id u) (admin_backup a) volume"
  using assms(1,2,4) attached_True [OF assms(3)] by (auto simp: may_back_up_def backup_owner_def backup_user_id_def)

lemma may_restoreI:
  "row ver_id i (rt_versions t) = Some v \<Longrightarrow> ver_status v \<noteq> incomplete \<Longrightarrow> row vm_id (ver_vm_id v) (rt_vms t) = Some m \<Longrightarrow> vm_user_id m = u \<Longrightarrow>
     may_send E t u any (RestoreTask n i (ver_volume v) sparse force backend_less)"
  by (auto dest!: row_Some)

lemma may_deleteI: "row ver_id i (rt_versions t) = Some v \<Longrightarrow> may_send E t u any (DeleteTask n i force keep override)"
  by (auto dest!: row_Some)

abbreviation sends :: "web_env \<Rightarrow> tables \<Rightarrow> user \<Rightarrow> bool \<Rightarrow> call list \<Rightarrow> controller \<Rightarrow> bool" where
  "sends E t0 u any calls m \<equiv>
     triple (\<lambda>cs. made (may_send E t0 (usr_id u) any) calls cs \<and> wb_working (snd cs) = t0) m (made (may_send E t0 (usr_id u) any) calls)"

lemma storages_send: "\<not> is_admin u \<Longrightarrow> sends E t0 u any calls (handle_storage E u u r)"
  by (cases r; simp only: handle_storage.simps; unfold handler_defs; rule triple_at_tables; intro hoare) auto

lemma nodes_send: "\<not> is_admin u \<Longrightarrow> sends E t0 u any calls (handle_node E u u r)"
  by (cases r; simp only: handle_node.simps; unfold handler_defs; rule triple_at_tables; intro hoare) auto

lemma jobs_send: "sends E t0 u any calls (handle_job E u u r)"
  by (cases r; simp only: handle_job.simps; unfold handler_defs; rule triple_at_tables; intro hoare) auto

lemma owned_storage:
  assumes "consistent t0" "u \<in> set (rt_users t0)" "get_by_name (usr_name u) t0 = Some s" "node_of s t0 = Some n"
  shows "node_of_user t0 (usr_id u) (addr n)"
  using own_by_name [OF assms(1-3)] assms(4) unfolding node_of_user_def by blast

lemma versions_send:
  assumes "consistent t0" "u \<in> set (rt_users t0)" "\<not> is_admin u"
  shows "sends E t0 u (asks_admin_backup (Versions r)) calls (handle_version E u u r)"
proof (cases r)
  case (CreateVersion volume a)
  show ?thesis
    unfolding CreateVersion handle_version.simps handler_defs asks_admin_backup.simps
    by (rule triple_at_tables; intro hoare)
      (use assms(3) owned_storage [OF assms(1,2)] may_back_upI [OF _ _ _ assms(3)] in \<open>auto simp: storage_name_for_def intro!: made_one\<close>)
next
  case (RestoreVersion i sparse force backend_less wait)
  show ?thesis
    unfolding RestoreVersion handle_version.simps handler_defs
    by (rule triple_at_tables; intro hoare) (use assms(3) in \<open>auto intro!: made_one may_restoreI simp del: may_send.simps\<close>)
next
  case (RemoveVersion i force keep override wait)
  show ?thesis
    unfolding RemoveVersion handle_version.simps handler_defs
    by (rule triple_at_tables; intro hoare) (auto intro!: made_one may_deleteI simp del: may_send.simps)
next
  case (GetVersion i)
  show ?thesis
    unfolding GetVersion handle_version.simps handler_defs by (rule triple_at_tables; intro hoare) auto
qed

lemma vms_send:
  assumes "consistent t0" "u \<in> set (rt_users t0)" "\<not> is_admin u"
  shows "sends E t0 u (asks_admin_backup (Vms r)) calls (handle_vm E u u r)"
proof (cases r)
  case (BackUpVolumes vs a)
  show ?thesis
    unfolding BackUpVolumes handle_vm.simps handler_defs asks_admin_backup.simps
    by (rule triple_at_tables; intro hoare)
      (use assms(3) owned_storage [OF assms(1,2)] may_back_upI [OF _ _ _ assms(3)] in
        \<open>auto simp: storage_name_for_def dest!: check_backup_volumes_ok\<close>)
qed (simp only: handle_vm.simps, unfold handler_defs, rule triple_at_tables, (intro hoare; auto))+

text \<open>C31: What an ordinary user can have sent: storages are never made, resized or deleted for it; a backup goes to the node of its own storage, of a volume that is attached to one of
  its machines, or to anybody's machine when the request says \<open>is_admin_backup\<close>; a version is restored only when it is complete and of
  one of its machines; and a version is deleted, whosever it is.\<close>

theorem calls_of_users:
  assumes "consistent (wb_working w)" and "u \<in> set (rt_users (wb_working w))" "\<not> is_admin u" and "serve E (Some (usr_id u)) req w = (answer, w')"
  shows "\<exists>new. wb_calls w' = wb_calls w @ new \<and> (\<forall>x \<in> set new. may_send E (wb_working w) (usr_id u) (asks_admin_backup req) x)"
proof -
  let ?t = "wb_working w" and ?may = "may_send E (wb_working w) (usr_id u) (asks_admin_backup req)"
  have users: "unique usr_id (rt_users ?t)" using assms(1) by (simp add: consistent_def integrity_def keys_unique_def)
  from users assms(4) show ?thesis
  proof (cases rule: serve_cases)
    case refused
    then show ?thesis by (simp add: close_def)
  next
    case (handled rq tg r c w1)
    then have "rq = u" using same_row [OF users] assms(2) by simp
    then have "tg = u" "rq = u" using handled(4) assms(3) by auto
    then have "sends E ?t u (asks_admin_backup req) (wb_calls w) (handle E rq tg req)"
      using storages_send [OF assms(3)] nodes_send [OF assms(3)] jobs_send vms_send [OF assms(1-3)] versions_send [OF assms(1-3)]
      by (cases req) auto
    from tripleD [OF this, of "(ctx_for rq tg, w)"] have "made ?may (wb_calls w) (c, w1)" using handled(6) by (simp add: made_def)
    then show ?thesis using handled(8) by (simp add: made_def close_def)
  qed
qed

text \<open>Any user can have any version deleted; whether it is one's own is not asked.\<close>

lemma delete_version_unchecked:
  assumes "find_user i (rt_users (wb_working w)) = Some u" "i \<noteq> 0" and "row ver_id k (rt_versions (wb_working w)) = Some v"
    and "row st_id (ver_storage_id v) (rt_storages (wb_working w)) = Some s" "node_of s (wb_working w) = Some n" "nd_deleted n \<noteq> Some True"
  shows "wb_calls (snd (serve E (Some i) (Versions (RemoveVersion k force keep override wait)) w)) = wb_calls w @ [DeleteTask (addr n) k force keep override]"
  using assms
  by (simp add: serve_own delete_version_def with_tables_def need_def thenS_def bindS_def enqueue_def close_def split: prod.split)

text \<open>Backing up groups of volumes sends nothing at all.\<close>

lemma group_backups_send_nothing: "triple (made allow calls) (create_volume_backup_groups tg gs) (made allow calls)"
  unfolding create_volume_backup_groups_def by (intro hoare) auto

section \<open>Removing a storage\<close>

lemma refers_gone: "refers fk key rows (filter (\<lambda>s. key s \<noteq> k) targets) \<Longrightarrow> r \<in> set rows \<Longrightarrow> fk r \<noteq> k"
  by (force simp: refers_def)

text \<open>When an administrator removes a storage that still has versions or jobs, its volume is destroyed on the node first; only then the database refuses to
  remove the row. The request is answered as refused, and the storage stays in the tables with its versions, whose blocks are gone.\<close>

theorem storage_deletion_destroys:
  assumes "find_user i (rt_users (wb_working w)) = Some u" "i \<noteq> 0" "is_admin u"
    and "row st_id k (rt_storages (wb_working w)) = Some s" "st_path s = Some path" "node_of s (wb_working w) = Some n"
    and "(\<exists>v \<in> set (rt_versions (wb_working w)). ver_storage_id v = k) \<or> (\<exists>j \<in> set (rt_jobs (wb_working w)). sj_storage_id j = k)"
    and "we_rpc E (wb_calls w) (DeleteStorage (addr n) (st_name s) path) = Inr True" and "wb_committed w = wb_working w"
  shows "serve E (Some i) (Storages (RemoveStorage k True)) w =
    ((Inl [(Some 400, ''Failed to delete storage'')], 400), w\<lparr>wb_calls := wb_calls w @ [DeleteStorage (addr n) (st_name s) path]\<rparr>)"
proof -
  have "\<not> integrity (del_storage k (wb_working w))"
    using assms(7) by (auto simp: integrity_def keys_exist_def del_storage_def dest: refers_gone)
  then show ?thesis
    using assms(1-6,8,9)
    by (simp add: serve_own delete_storage_def with_tables_def need_def with_call_def call_def with_save_def save_def Let_def reject_def finished_def close_def
      process_result_context_def succeed_def set_error_def set_error_obj_def add_error_def clear_error_def)
qed

section \<open>A job that a request has made\<close>

definition made_job :: "web_env \<Rightarrow> job_args \<Rightarrow> reply ctx \<times> web \<Rightarrow> bool" where
  "made_job E a cs \<longleftrightarrow>
     (\<forall>j vols. cx_response (fst cs) = Some (RJob j vols) \<longrightarrow>
        j \<in> set (rt_jobs (wb_working (snd cs))) \<and> (\<exists>t s. j = new_job E t a s) \<and> \<not> bad_start_time (ja_start_time a))"

lemma made_job_simps [simp]:
  "made_job E a (c, w\<lparr>wb_calls := xs\<rparr>) = made_job E a (c, w)"
  "made_job E a (set_error msg st c, w) = made_job E a (c, w)" "made_job E a (set_error_obj e st c, w) = made_job E a (c, w)"
  by (simp_all add: made_job_def set_error_def set_error_obj_def add_error_def clear_error_def)

lemma no_answer_made_job [simp]: "cx_response (fst cs) = None \<Longrightarrow> made_job E a cs"
  by (simp add: made_job_def)

lemma add_job_volumes_jobs [simp]:
  assumes "rt_jobs (wb_committed w) = rt_jobs (wb_working w)"
  shows "rt_jobs (wb_working (add_job_volumes i vs w)) = rt_jobs (wb_working w)"
  using assms by (induction vs arbitrary: w) (simp_all add: save_def Let_def)

lemma create_schedule_job_makes:
  "triple (\<lambda>cs. cx_response (fst cs) = None) (create_schedule_job E rq tg a) (made_job E a)"
proof -
  have save: "triple P (with_save (\<lambda>t. t\<lparr>rt_jobs := rt_jobs t @ [j]\<rparr>) (thenS (\<lambda>cs. (Inr (), fst cs, add_job_volumes (sj_id j) vs (snd cs))) (job_reply j (Some 201)))
      (reject ''Failed to create schedule job'' 400)) (made_job E a)"
    if "\<And>cs. P cs \<Longrightarrow> cx_response (fst cs) = None" "j = new_job E t a s" "\<not> bad_start_time (ja_start_time a)" for P j vs t s
    using that
    by (auto simp: triple_def with_save_def save_def Let_def thenS_def bindS_def job_reply_def with_tables_def respond_def reject_def made_job_def)
  show ?thesis
    unfolding create_schedule_job_def by (rule triple_with_tables) (intro hoare save; auto)
qed

lemma week_facts: "distinct week" "set week \<subseteq> set week" "length week = 7" "length (remove1 ''mon'' week) = 6" "''tue'' \<in> set week"
  by (simp_all add: week_def)

lemma new_job_picks:
  assumes "0 \<le> ph" "ph < 10" and "we_start_time E \<in> {1020..1920}" and "distinct (ja_days_of_week a)" "set (ja_days_of_week a) \<subseteq> set week"
    and "\<not> bad_start_time (ja_start_time a)"
  shows "weekly_picks ph (new_job E t a s) =
    (if ja_retention a = -1 then 7
     else if ja_start_time a = 1440 then 0
     else if ph \<le> ja_start_time a then length (ja_days_of_week a)
     else length (remove1 ''mon'' (ja_days_of_week a)) + (if ''tue'' \<in> set (ja_days_of_week a) then 1 else 0))"
proof (cases "ja_retention a = -1")
  case True
  let ?j = "new_job E t a s"
  have start: "sj_start_time ?j \<in> {0..480} \<union> {1020..<1440}" using outside_working_time [OF assms(3)] True by (simp add: new_job_def)
  have days: "sj_days_of_week ?j = join_with CHR '','' week" using True by (simp add: new_job_def)
  have "0 \<le> sj_start_time ?j" "sj_start_time ?j < 1440" using start by auto
  then show ?thesis
    using weekly_count [OF assms(1,2) _ week_facts(1,2) days] True by (simp add: week_facts)
next
  case False
  let ?j = "new_job E t a s"
  have j: "sj_start_time ?j = ja_start_time a" "sj_days_of_week ?j = join_with CHR '','' (ja_days_of_week a)" using False by (simp_all add: new_job_def)
  moreover have "0 \<le> ja_start_time a" "ja_start_time a \<le> 1440" using assms(6) by (simp_all add: bad_start_time_def)
  ultimately show ?thesis using weekly_count [OF assms(1,2) _ assms(4,5) j(2)] False by simp
qed

text \<open>A job that a request has made is stored, and the task that runs every ten minutes picks it every week once for each of the days asked for; with retention -1 it
  is picked seven times, at a time outside working hours. Two exceptions: a job for minute 1440, which is accepted, is never picked, and one for a minute before the
  first run of a day is picked on Tuesdays in place of Mondays.\<close>

theorem created_job_runs:
  assumes "consistent (wb_working w)" and "serve E current (Jobs (CreateJob a)) w = ((Inr (Some (RJob j vols)), st), w')"
    and "we_start_time E \<in> {1020..1920}" and "distinct (ja_days_of_week a)" and "0 \<le> ph" "ph < 10"
  shows "j \<in> set (rt_jobs (wb_committed w')) \<and> weekly_picks ph j =
    (if ja_retention a = -1 then 7
     else if ja_start_time a = 1440 then 0
     else if ph \<le> ja_start_time a then length (ja_days_of_week a)
     else length (remove1 ''mon'' (ja_days_of_week a)) + (if ''tue'' \<in> set (ja_days_of_week a) then 1 else 0))"
proof -
  have "unique usr_id (rt_users (wb_working w))" using assms(1) by (simp add: consistent_def integrity_def keys_unique_def)
  from this assms(2) show ?thesis
  proof (cases rule: serve_cases)
    case (handled rq tg r c w1)
    have "cx_response (ctx_for rq tg) = None" by (simp add: ctx_for_def new_context_def)
    then have m: "made_job E a (c, w1)"
      using tripleD [OF create_schedule_job_makes [of E rq tg a], of "(ctx_for rq tg, w)"] handled(6) by simp
    have "cx_response c = Some (RJob j vols)"
      using handled(7) by (cases r) (auto simp: finished_def process_result_context_def succeed_def set_error_def set_error_obj_def add_error_def split: if_splits)
    then obtain t s where "j \<in> set (rt_jobs (wb_working w1))" "j = new_job E t a s" "\<not> bad_start_time (ja_start_time a)"
      using m by (auto simp: made_job_def)
    then show ?thesis
      using new_job_picks [OF assms(5,6,3,4)] handled(5,8) by (simp add: close_def)
  qed simp
qed

section \<open>The theorems at work\<close>

theorem calls_of_users_witness:
  "let w' = snd (serve (demo_web_env True) (Some 2) (Vms (BackUpVolumes [\<lparr> va_id = Some ''vol-a'', va_name = Some [], va_vm_id = None \<rparr>] demo_backup_args)) demo_web) in
     \<exists>new. wb_calls w' = new \<and> new \<noteq> [] \<and> (\<forall>x \<in> set new. may_send (demo_web_env True) demo_tables 2 False x)"
proof -
  let ?q = "Vms (BackUpVolumes [\<lparr> va_id = Some ''vol-a'', va_name = Some [], va_vm_id = None \<rparr>] demo_backup_args)" and ?u = "demo_users ! 1"
  let ?r = "serve (demo_web_env True) (Some 2) ?q demo_web"
  have "wb_calls (snd ?r) \<noteq> []" by code_simp
  moreover have "usr_id ?u = 2" "\<not> is_admin ?u" "?u \<in> set (rt_users demo_tables)" "\<not> asks_admin_backup ?q" by code_simp+
  ultimately show ?thesis
    using calls_of_users [of demo_web ?u "demo_web_env True" ?q "fst ?r" "snd ?r"] by (simp add: demo_tables_consistent Let_def)
qed

theorem storage_deletion_destroys_witness:
  "wb_committed (snd (serve (demo_web_env True) (Some 1) (Storages (RemoveStorage 1 True)) demo_web)) = demo_tables \<and>
   wb_calls (snd (serve (demo_web_env True) (Some 1) (Storages (RemoveStorage 1 True)) demo_web)) = [DeleteStorage (''10.0.0.1'', 8000) ''ann'' ''/backup/ann'']"
proof -
  let ?s = "demo_storage 1 ''ann'' 2" and ?n = "hd (rt_nodes demo_tables)"
  have "row st_id 1 (rt_storages demo_tables) = Some ?s" "node_of ?s demo_tables = Some ?n" "st_path ?s = Some ''/backup/ann''" "st_name ?s = ''ann''"
    "addr ?n = (''10.0.0.1'', 8000)" "\<exists>v \<in> set (rt_versions demo_tables). ver_storage_id v = 1" "we_rpc (demo_web_env True) [] x = Inr True" for x
    by (simp_all add: demo_tables_def demo_storage_def demo_done_version_def row_def node_of_def addr_def demo_web_env_def)
  then show ?thesis
    using storage_deletion_destroys [of 1 demo_web "demo_users ! 0" 1 ?s "''/backup/ann''" ?n "demo_web_env True"] by simp
qed

lemma job_answer: "(case x of (Inr (Some (RJob j vols)), st) \<Rightarrow> st = n | _ \<Rightarrow> False) \<Longrightarrow> \<exists>j vols. x = (Inr (Some (RJob j vols)), n)"
  by (auto split: prod.split_asm sum.split_asm option.split_asm reply.split_asm)

theorem created_job_runs_witness:
  "\<exists>j vols w'. serve (demo_web_env True) (Some 2) (Jobs (CreateJob demo_job_args)) demo_web = ((Inr (Some (RJob j vols)), 201), w') \<and> weekly_picks 5 j = 2"
proof -
  let ?r = "serve (demo_web_env True) (Some 2) (Jobs (CreateJob demo_job_args)) demo_web"
  have "case fst ?r of (Inr (Some (RJob j vols)), st) \<Rightarrow> st = 201 | _ \<Rightarrow> False" by code_simp
  then obtain j vols where r: "?r = ((Inr (Some (RJob j vols)), 201), snd ?r)" using job_answer by (metis prod.collapse)
  have e: "we_start_time (demo_web_env True) \<in> {1020..1920}" "consistent (wb_working demo_web)" "distinct (ja_days_of_week demo_job_args)"
    "ja_retention demo_job_args = 14" "ja_start_time demo_job_args = 90" "length (ja_days_of_week demo_job_args) = 2"
    by (simp_all add: demo_tables_consistent demo_web_env_def demo_job_args_def)
  have "weekly_picks 5 j = 2" using created_job_runs [OF e(2) r e(1,3), of 5] e(4-6) by simp
  then show ?thesis using r by blast
qed

end
