(* ===== verification/Read_Cache.thy ===== *)
theory Read_Cache
  imports File_Storage
begin

text \<open>
  \<open>storage/base.py\<close>, the class \<open>ReadCacheStorageBase\<close> from which the S3 and B2 storages derive: reads of blocks are
  served from a cache on disk when they can be, and fill it. The cache itself (\<open>diskcache.FanoutCache\<close>) is third-party
  code and a parameter, the record \<open>read_cache\<close>; what the code relies on is \<open>cache_laws\<close>: an entry that is found is
  the one that was set last under its key, and entries may disappear at any time.
\<close>

section \<open>Cached reads\<close>

text \<open>
  One cache holds both kinds of entries; the keys of metadata end in \<open>.meta\<close>, which no key of a block does, so that
  the two kinds are read with an operation each.
\<close>

record 'c read_cache =
  rc_get_meta :: "string \<Rightarrow> 'c \<Rightarrow> (string, json) dict option \<times> 'c"
  rc_get_data :: "string \<Rightarrow> 'c \<Rightarrow> bytes option \<times> 'c"
  rc_set_meta :: "string \<Rightarrow> (string, json) dict \<Rightarrow> 'c \<Rightarrow> 'c"
  rc_set_data :: "string \<Rightarrow> bytes \<Rightarrow> 'c \<Rightarrow> 'c"

text \<open>The attributes \<open>_read_cache\<close> (\<open>None\<close>: off) and \<open>_use_read_cache\<close> beside the state of the store.\<close>

record ('s, 'c) cached =
  cs_store :: 's
  cs_cache :: "'c option"
  cs_use :: bool

text \<open>
  \<open>__init__\<close>: the results of \<open>os.makedirs\<close> and of the constructor of the cache are arguments; a constructor that
  raises leaves the cache off, \<open>makedirs\<close> is outside the \<open>try\<close>.
\<close>

definition init_read_cache :: "string option \<Rightarrow> int option \<Rightarrow> unit res \<Rightarrow> 'c res \<Rightarrow> 'c option res" where
  "init_read_cache directory maximum_size made opened =
     (if (case directory of None \<Rightarrow> False | Some d \<Rightarrow> d \<noteq> []) \<and> (case maximum_size of None \<Rightarrow> False | Some n \<Rightarrow> n \<noteq> 0)
      then bind_res made (\<lambda>_. Inr (case opened of Inl _ \<Rightarrow> None | Inr c \<Rightarrow> Some c))
      else Inr None)"

definition new_cached :: "'s \<Rightarrow> 'c option \<Rightarrow> ('s, 'c) cached" where
  "new_cached s c = \<lparr> cs_store = s, cs_cache = c, cs_use = True \<rparr>"

definition use_read_cache :: "bool \<Rightarrow> ('s, 'c) cached \<Rightarrow> bool \<times> ('s, 'c) cached" where
  "use_read_cache enable st = (cs_use st, st\<lparr>cs_use := enable\<rparr>)"

definition on_inner :: "(exn, 's, 'a) py \<Rightarrow> (exn, ('s, 'c) cached, 'a) py" where
  "on_inner m st = (case m (cs_store st) of (r, s') \<Rightarrow> (r, st\<lparr>cs_store := s'\<rparr>))"

text \<open>The lookup before the read: an empty entry counts as absent, both for the metadata and for the data.\<close>

definition cache_lookup :: "'c read_cache \<Rightarrow> string \<Rightarrow> bool
    \<Rightarrow> (exn, ('s, 'c) cached, (bytes option \<times> (string, json) dict) option) py" where
  "cache_lookup rc key metadata_only st =
     (case cs_cache st of
        None \<Rightarrow> (Inr None, st)
      | Some c \<Rightarrow>
          if \<not> cs_use st then (Inr None, st)
          else
            (case rc_get_meta rc (key @ META_SUFFIX) c of (metadata, c1) \<Rightarrow>
              (case metadata of
                 None \<Rightarrow> (Inr None, st\<lparr>cs_cache := Some c1\<rparr>)
               | Some m \<Rightarrow>
                   if m = [] then (Inr None, st\<lparr>cs_cache := Some c1\<rparr>)
                   else if metadata_only then (Inr (Some (None, m)), st\<lparr>cs_cache := Some c1\<rparr>)
                   else
                     (case rc_get_data rc key c1 of (data, c2) \<Rightarrow>
                       (Inr (case data of
                               None \<Rightarrow> None
                             | Some d \<Rightarrow> if d = [] then None else Some (Some d, m)),
                        st\<lparr>cs_cache := Some c2\<rparr>)))))"

text \<open>After the read the cache is filled, in use or not; a full read of the store always returns data.\<close>

definition cache_fill :: "'c read_cache \<Rightarrow> string \<Rightarrow> bool \<Rightarrow> bytes option \<Rightarrow> (string, json) dict
    \<Rightarrow> (exn, ('s, 'c) cached, unit) py" where
  "cache_fill rc key metadata_only data m st =
     (Inr (),
      st\<lparr>cs_cache := map_option
          (\<lambda>c. let c1 = rc_set_meta rc (key @ META_SUFFIX) m c in
               if metadata_only then c1 else (case data of None \<Rightarrow> c1 | Some d \<Rightarrow> rc_set_data rc key d c1))
          (cs_cache st)\<rparr>)"

text \<open>\<open>_read\<close>.\<close>

definition cached_read :: "'c read_cache \<Rightarrow> storage_conf \<Rightarrow> 's backend \<Rightarrow> block \<Rightarrow> bool
    \<Rightarrow> (exn, ('s, 'c) cached, block \<times> bytes option \<times> (string, json) dict) py" where
  "cached_read rc cf be blk metadata_only =
     bindS (liftS (block_to_path (md5_hex cf) (blk_uid blk))) (\<lambda>key.
     bindS (cache_lookup rc key metadata_only) (\<lambda>hit.
       (case hit of
          Some (data, m) \<Rightarrow> returnS (blk, data, m)
        | None \<Rightarrow>
            bindS (on_inner (storage_read cf be blk metadata_only)) (\<lambda>(b, data, m).
            thenS (cache_fill rc key metadata_only data m) (returnS (b, data, m))))))"

section \<open>Runs of the storage\<close>

text \<open>What the program does with a cached storage; \<open>_write\<close> and \<open>_rm_block\<close> are inherited and leave the cache alone.\<close>

datatype cache_op = CRead block bool | CWrite string nat block bytes | CRemove block_uid | CUse bool

datatype cache_outcome =
    ORead block bool "(block \<times> bytes option \<times> (string, json) dict) res"
  | OWrite "block res" | ORemove "block_uid res" | OUse bool

fun cached_step :: "'c read_cache \<Rightarrow> storage_conf \<Rightarrow> 's backend \<Rightarrow> cache_op \<Rightarrow> ('s, 'c) cached \<Rightarrow> cache_outcome \<times> ('s, 'c) cached" where
  "cached_step rc cf be (CRead b mo) st = (case cached_read rc cf be b mo st of (r, st') \<Rightarrow> (ORead b mo r, st'))"
| "cached_step rc cf be (CWrite ts rnd b d) st =
     (case on_inner (storage_write cf be ts rnd b d) st of (r, st') \<Rightarrow> (OWrite r, st'))"
| "cached_step rc cf be (CRemove u) st = (case on_inner (rm_block cf be u) st of (r, st') \<Rightarrow> (ORemove r, st'))"
| "cached_step rc cf be (CUse b) st = (case use_read_cache b st of (old, st') \<Rightarrow> (OUse old, st'))"

text \<open>Each operation's outcome, with the store's state it started in.\<close>

fun cached_run :: "'c read_cache \<Rightarrow> storage_conf \<Rightarrow> 's backend \<Rightarrow> cache_op list \<Rightarrow> ('s, 'c) cached \<Rightarrow> ('s \<times> cache_outcome) list" where
  "cached_run rc cf be [] st = []"
| "cached_run rc cf be (op # ops) st =
     (case cached_step rc cf be op st of (r, st') \<Rightarrow> (cs_store st, r) # cached_run rc cf be ops st')"

text \<open>No block is written or removed once it was read; \<open>seen\<close> are the blocks read before.\<close>

fun undisturbed :: "block_uid set \<Rightarrow> cache_op list \<Rightarrow> bool" where
  "undisturbed seen [] \<longleftrightarrow> True"
| "undisturbed seen (CRead b mo # ops) \<longleftrightarrow> key_uid (blk_uid b) \<and> undisturbed (insert (blk_uid b) seen) ops"
| "undisturbed seen (CWrite ts rnd b d # ops) \<longleftrightarrow> key_uid (blk_uid b) \<and> blk_uid b \<notin> seen \<and> undisturbed seen ops"
| "undisturbed seen (CRemove u # ops) \<longleftrightarrow> key_uid u \<and> u \<notin> seen \<and> undisturbed seen ops"
| "undisturbed seen (CUse b # ops) \<longleftrightarrow> undisturbed seen ops"

section \<open>What a read may return\<close>

text \<open>
  \<open>decodes_to cf c key data m\<close>: in the contents \<open>c\<close> the objects under \<open>key\<close> decode to the metadata \<open>m\<close>, with a
  checksum, and the data, when asked for, is what its object decapsulates to.
\<close>

definition decodes_to :: "storage_conf \<Rightarrow> (string \<Rightarrow> bytes option) \<Rightarrow> string \<Rightarrow> bytes option \<Rightarrow> (string, json) dict \<Rightarrow> bool" where
  "decodes_to cf c key data m \<longleftrightarrow>
     (\<exists>d mj. c key = Some d \<and> c (key @ META_SUFFIX) = Some mj \<and>
        decode_metadata cf mj (int (length d)) = Inr m \<and> dict_get m ''checksum'' \<noteq> None \<and>
        (case data of None \<Rightarrow> True
         | Some x \<Rightarrow> (case dict_get m ''transforms'' of None \<Rightarrow> Inr d | Some tm \<Rightarrow> decapsulate cf d tm) = Inr x))"

lemma readable_meta: "decodes_to cf c key data m \<Longrightarrow> decodes_to cf c key None m"
  by (auto simp: decodes_to_def)

lemma readable_agree: "decodes_to cf c key data m \<Longrightarrow> decodes_to cf c key None m' \<Longrightarrow> m' = m"
  by (auto simp: decodes_to_def)

lemma readable_data: "decodes_to cf c key (Some x) m \<Longrightarrow> decodes_to cf c key None m' \<Longrightarrow> decodes_to cf c key (Some x) m'"
  using readable_agree by fast

lemma readable_cong:
  "c' key = c key \<Longrightarrow> c' (key @ META_SUFFIX) = c (key @ META_SUFFIX) \<Longrightarrow> decodes_to cf c' key data m = decodes_to cf c key data m"
  by (simp add: decodes_to_def)

context object_store begin

lemma read_readable:
  assumes "block_to_path (md5_hex cf) (blk_uid blk) = Inr key" and "storage_read cf be blk mo s = (r, s')"
  shows "content s' = content s \<and>
    (\<forall>b data m. r = Inr (b, data, m) \<longrightarrow> b = blk \<and> decodes_to cf (content s) key data m \<and> (data = None \<longleftrightarrow> mo))"
proof -
  note Inr = assms(1)
  have keep: "keeps content (storage_read cf be blk mo)"
    unfolding storage_read_def by (intro keeps_intros | simp split: prod.splits option.splits | safe)+
  note c = keepsD [OF keep assms(2)]
  have "b = blk \<and> decodes_to cf (content s) key data m \<and> (data = None \<longleftrightarrow> mo)"
    if r: "r = Inr (b, data, m)" for b data m
  proof (cases mo)
    case True
    obtain r1 s1 where r1: "be_read_length be key s = (r1, s1)" by force
    obtain r2 s2 where r2: "be_read be (key @ META_SUFFIX) s1 = (r2, s2)" by force
    note k = length_keeps [OF r1] length_result [OF r1] read_keeps [OF r2] read_result [OF r2]
    show ?thesis using assms(2) r1 r2 k True r Inr
      by (auto simp: storage_read_def py_defs decodes_to_def split: sum.splits option.splits if_splits)
  next
    case False
    obtain r1 s1 where r1: "be_read be key s = (r1, s1)" by force
    obtain r2 s2 where r2: "be_read be (key @ META_SUFFIX) s1 = (r2, s2)" by force
    note k = read_keeps [OF r1] read_result [OF r1] read_keeps [OF r2] read_result [OF r2]
    show ?thesis using assms(2) r1 r2 k False r Inr
      by (auto simp: storage_read_def py_defs decodes_to_def split: sum.splits option.splits if_splits) (metis option.exhaust)+
  qed
  with c show ?thesis by blast
qed

lemma readable_read:
  assumes "block_to_path (md5_hex cf) (blk_uid blk) = Inr key" and "decodes_to cf (content s) key data m" and "data = None \<longleftrightarrow> mo"
    and "storage_read cf be blk mo s = (r, s')"
  shows "r = Inr (blk, data, m) \<or> r = Inl OSError"
proof -
  obtain d mj where c: "content s key = Some d" "content s (key @ META_SUFFIX) = Some mj"
    "decode_metadata cf mj (int (length d)) = Inr m" "dict_get m ''checksum'' \<noteq> None"
    "case data of None \<Rightarrow> True
     | Some x \<Rightarrow> (case dict_get m ''transforms'' of None \<Rightarrow> Inr d | Some tm \<Rightarrow> decapsulate cf d tm) = Inr x"
    using assms(2) unfolding decodes_to_def by blast
  show ?thesis
  proof (cases mo)
    case True
    obtain r1 s1 where r1: "be_read_length be key s = (r1, s1)" by force
    obtain r2 s2 where r2: "be_read be (key @ META_SUFFIX) s1 = (r2, s2)" by force
    note k = length_keeps [OF r1] length_result [OF r1] read_result [OF r2]
    show ?thesis using assms(1,3,4) c r1 r2 k True
      by (auto simp: storage_read_def py_defs split: option.splits)
  next
    case False
    then obtain x where x: "data = Some x" using assms(3) by auto
    obtain r1 s1 where r1: "be_read be key s = (r1, s1)" by force
    obtain r2 s2 where r2: "be_read be (key @ META_SUFFIX) s1 = (r2, s2)" by force
    note k = read_keeps [OF r1] read_result [OF r1] read_result [OF r2]
    show ?thesis using assms(1,4) c x r1 r2 k False
      by (auto simp: storage_read_def py_defs split: option.splits)
  qed
qed

end

section \<open>Coherence of the cache\<close>

text \<open>
  \<open>em\<close> and \<open>ed\<close> say what a cache may still return; the laws of the cache over them.
\<close>

definition cache_laws :: "'c read_cache \<Rightarrow> ('c \<Rightarrow> string \<Rightarrow> (string, json) dict option) \<Rightarrow> ('c \<Rightarrow> string \<Rightarrow> bytes option) \<Rightarrow> bool" where
  "cache_laws rc em ed \<longleftrightarrow>
     (\<forall>k c v c'. rc_get_meta rc k c = (v, c') \<longrightarrow> (\<forall>m. v = Some m \<longrightarrow> em c k = Some m) \<and> em c' \<subseteq>\<^sub>m em c \<and> ed c' \<subseteq>\<^sub>m ed c) \<and>
     (\<forall>k c v c'. rc_get_data rc k c = (v, c') \<longrightarrow> (\<forall>d. v = Some d \<longrightarrow> ed c k = Some d) \<and> em c' \<subseteq>\<^sub>m em c \<and> ed c' \<subseteq>\<^sub>m ed c) \<and>
     (\<forall>k m c. em (rc_set_meta rc k m c) \<subseteq>\<^sub>m (em c)(k \<mapsto> m) \<and> ed (rc_set_meta rc k m c) \<subseteq>\<^sub>m ed c) \<and>
     (\<forall>k d c. em (rc_set_data rc k d c) \<subseteq>\<^sub>m em c \<and> ed (rc_set_data rc k d c) \<subseteq>\<^sub>m (ed c)(k \<mapsto> d))"

text \<open>Everything the cache may return about the blocks is decodes_to in the store.\<close>

definition cache_coherent :: "storage_conf \<Rightarrow> (string \<Rightarrow> bytes option) \<Rightarrow> (string \<Rightarrow> (string, json) dict option)
    \<Rightarrow> (string \<Rightarrow> bytes option) \<Rightarrow> bool" where
  "cache_coherent cf c mm dd \<longleftrightarrow>
     (\<forall>key. CHR ''.'' \<notin> set key \<longrightarrow> (\<forall>m. mm (key @ META_SUFFIX) = Some m \<longrightarrow> decodes_to cf c key None m) \<and>
        (\<forall>x. dd key = Some x \<longrightarrow> (\<exists>m. decodes_to cf c key (Some x) m)))"

lemma coherent_mono: "cache_coherent cf c mm dd \<Longrightarrow> mm' \<subseteq>\<^sub>m mm \<Longrightarrow> dd' \<subseteq>\<^sub>m dd \<Longrightarrow> cache_coherent cf c mm' dd'"
  by (auto simp: cache_coherent_def map_le_def dom_def)

lemma coherent_set_meta: "cache_coherent cf c mm dd \<Longrightarrow> decodes_to cf c key data m \<Longrightarrow> cache_coherent cf c (mm(key @ META_SUFFIX \<mapsto> m)) dd"
  by (auto simp: cache_coherent_def readable_meta)

lemma coherent_set_data: "cache_coherent cf c mm dd \<Longrightarrow> decodes_to cf c key (Some x) m \<Longrightarrow> cache_coherent cf c mm (dd(key \<mapsto> x))"
  by (auto simp: cache_coherent_def)

lemma coherent_frame:
  assumes "cache_coherent cf c mm dd" and "CHR ''.'' \<notin> set key" and "mm (key @ META_SUFFIX) = None" and "dd key = None"
    and "\<And>k. k \<noteq> key \<Longrightarrow> k \<noteq> key @ META_SUFFIX \<Longrightarrow> c' k = c k"
  shows "cache_coherent cf c' mm dd"
proof -
  have same: "decodes_to cf c' k data m = decodes_to cf c k data m" if "k \<noteq> key" "CHR ''.'' \<notin> set k" for k data m
  proof (rule readable_cong)
    have "CHR ''.'' \<in> set (x @ META_SUFFIX)" for x by (simp add: META_SUFFIX_def)
    then have "k \<noteq> key @ META_SUFFIX" "k @ META_SUFFIX \<noteq> key" using that(2) assms(2) by metis+
    then show "c' k = c k" "c' (k @ META_SUFFIX) = c (k @ META_SUFFIX)" using that(1) assms(5) by simp_all
  qed
  show ?thesis unfolding cache_coherent_def
  proof (intro allI impI conjI)
    fix k m assume k: "CHR ''.'' \<notin> set k" "mm (k @ META_SUFFIX) = Some m"
    then have "k \<noteq> key" using assms(3) by auto
    then show "decodes_to cf c' k None m" using same [OF _ k(1)] assms(1) k by (auto simp: cache_coherent_def)
  next
    fix k x assume k: "CHR ''.'' \<notin> set k" "dd k = Some x"
    then have "k \<noteq> key" using assms(4) by auto
    then show "\<exists>m. decodes_to cf c' k (Some x) m" using same [OF _ k(1)] assms(1) k by (auto simp: cache_coherent_def)
  qed
qed

text \<open>The invariant of the cached store: the cache, when there is one, is coherent with the contents.\<close>

definition cache_inv :: "storage_conf \<Rightarrow> ('s \<Rightarrow> string \<Rightarrow> bytes option) \<Rightarrow> ('c \<Rightarrow> string \<Rightarrow> (string, json) dict option)
    \<Rightarrow> ('c \<Rightarrow> string \<Rightarrow> bytes option) \<Rightarrow> ('s, 'c) cached \<Rightarrow> bool" where
  "cache_inv cf content em ed st \<longleftrightarrow>
     (\<forall>c. cs_cache st = Some c \<longrightarrow> cache_coherent cf (content (cs_store st)) (em c) (ed c))"

text \<open>What the cache holds of the other keys after a read of \<open>key\<close>.\<close>

definition holds_only :: "('c \<Rightarrow> string \<Rightarrow> (string, json) dict option) \<Rightarrow> ('c \<Rightarrow> string \<Rightarrow> bytes option)
    \<Rightarrow> string set \<Rightarrow> ('s, 'c) cached \<Rightarrow> bool" where
  "holds_only em ed keys st \<longleftrightarrow>
     (\<forall>c k. cs_cache st = Some c \<longrightarrow> k \<notin> keys \<longrightarrow> em c (k @ META_SUFFIX) = None \<and> ed c k = None)"

lemma cache_lookup_result:
  assumes "cache_laws rc em ed" and "cache_inv cf content em ed st" and "holds_only em ed keys st"
    and "CHR ''.'' \<notin> set key" and "cache_lookup rc key mo st = (r, st')"
  shows "cs_store st' = cs_store st \<and> cs_use st' = cs_use st \<and> cache_inv cf content em ed st' \<and> holds_only em ed keys st' \<and>
    (r = Inr None \<or> (\<exists>data m. r = Inr (Some (data, m)) \<and> (data = None \<longleftrightarrow> mo) \<and> decodes_to cf (content (cs_store st)) key data m))"
proof (cases "cs_cache st")
  case None
  then show ?thesis using assms by (simp add: cache_lookup_def)
next
  case (Some c)
  have coh: "cache_coherent cf (content (cs_store st)) (em c) (ed c)" using assms(2) Some by (simp add: cache_inv_def)
  obtain v c1 where v: "rc_get_meta rc (key @ META_SUFFIX) c = (v, c1)" by force
  obtain w c2 where w: "rc_get_data rc key c1 = (w, c2)" by force
  have l1: "\<And>m. v = Some m \<Longrightarrow> em c (key @ META_SUFFIX) = Some m" "em c1 \<subseteq>\<^sub>m em c" "ed c1 \<subseteq>\<^sub>m ed c"
    using assms(1) v by (auto simp: cache_laws_def)
  have l2: "\<And>d. w = Some d \<Longrightarrow> ed c1 key = Some d" "em c2 \<subseteq>\<^sub>m em c1" "ed c2 \<subseteq>\<^sub>m ed c1"
    using assms(1) w by (auto simp: cache_laws_def)
  have keep: "cache_inv cf content em ed (st\<lparr>cs_cache := Some c'\<rparr>) \<and> holds_only em ed keys (st\<lparr>cs_cache := Some c'\<rparr>)"
    if "em c' \<subseteq>\<^sub>m em c" "ed c' \<subseteq>\<^sub>m ed c" for c'
    using coherent_mono [OF coh that] that assms(3) Some
    by (auto simp: cache_inv_def holds_only_def map_le_def dom_def)
  note k1 = keep [OF l1(2,3)] and k2 = keep [OF map_le_trans [OF l2(2) l1(2)] map_le_trans [OF l2(3) l1(3)]]
  have m: "decodes_to cf (content (cs_store st)) key None m" if "v = Some m" for m
    using coh l1(1) [OF that] assms(4) by (simp add: cache_coherent_def)
  have d: "decodes_to cf (content (cs_store st)) key (Some x) m" if "v = Some m" "w = Some x" for m x
  proof -
    have "ed c key = Some x" using l2(1) [OF that(2)] l1(3) by (auto simp: map_le_def dom_def)
    then obtain m' where "decodes_to cf (content (cs_store st)) key (Some x) m'" using coh assms(4) unfolding cache_coherent_def by blast
    with m [OF that(1)] show ?thesis by (rule readable_data [rotated])
  qed
  show ?thesis
    using assms(2,3,5) Some v w k1 k2 m d by (auto simp: cache_lookup_def split: if_splits option.splits)
qed

lemma cache_fill_result:
  assumes "cache_laws rc em ed" and "cache_inv cf content em ed st" and "holds_only em ed keys st"
    and "decodes_to cf (content (cs_store st)) key data m" and "cache_fill rc key mo data m st = (r, st')"
  shows "r = Inr () \<and> cs_store st' = cs_store st \<and> cs_use st' = cs_use st \<and> cache_inv cf content em ed st' \<and>
    holds_only em ed (insert key keys) st'"
proof (cases "cs_cache st")
  case None
  then show ?thesis using assms by (auto simp: cache_fill_def cache_inv_def holds_only_def)
next
  case (Some c)
  have coh: "cache_coherent cf (content (cs_store st)) (em c) (ed c)" using assms(2) Some by (simp add: cache_inv_def)
  define c1 where "c1 = rc_set_meta rc (key @ META_SUFFIX) m c"
  have l1: "em c1 \<subseteq>\<^sub>m (em c)(key @ META_SUFFIX \<mapsto> m)" "ed c1 \<subseteq>\<^sub>m ed c"
    using assms(1) by (auto simp: cache_laws_def c1_def)
  have coh1: "cache_coherent cf (content (cs_store st)) (em c1) (ed c1)"
    by (rule coherent_mono [OF coherent_set_meta [OF coh assms(4)] l1])
  have h: "em c (k @ META_SUFFIX) = None \<and> ed c k = None" if "k \<notin> keys" for k
    using assms(3) Some that by (simp add: holds_only_def)
  have h1: "em c1 (k @ META_SUFFIX) = None \<and> ed c1 k = None" if "k \<notin> insert key keys" for k
    using l1 h [of k] that by (cases "em c1 (k @ META_SUFFIX)"; cases "ed c1 k") (auto simp: map_le_def dom_def split: if_splits)
  show ?thesis
  proof (cases "mo \<or> data = None")
    case True
    then have "cs_cache st' = Some c1" using assms(5) Some by (auto simp: cache_fill_def c1_def Let_def)
    then show ?thesis using assms(5) coh1 h1 by (auto simp: cache_fill_def cache_inv_def holds_only_def)
  next
    case False
    then obtain x where x: "data = Some x" by auto
    define c2 where "c2 = rc_set_data rc key x c1"
    have l2: "em c2 \<subseteq>\<^sub>m em c1" "ed c2 \<subseteq>\<^sub>m (ed c1)(key \<mapsto> x)"
      using assms(1) by (auto simp: cache_laws_def c2_def)
    have coh2: "cache_coherent cf (content (cs_store st)) (em c2) (ed c2)"
      using coherent_set_data [OF coh1] assms(4) x by (blast intro: coherent_mono [OF _ l2])
    have h2: "em c2 (k @ META_SUFFIX) = None \<and> ed c2 k = None" if "k \<notin> insert key keys" for k
      using l2 h1 [OF that] that by (cases "em c2 (k @ META_SUFFIX)"; cases "ed c2 k") (auto simp: map_le_def dom_def split: if_splits)
    have "cs_cache st' = Some c2" using assms(5) Some False x by (auto simp: cache_fill_def c1_def c2_def Let_def)
    then show ?thesis using assms(5) coh2 h2 by (auto simp: cache_fill_def cache_inv_def holds_only_def)
  qed
qed

lemma holds_only_mono: "holds_only em ed keys st \<Longrightarrow> keys \<subseteq> keys' \<Longrightarrow> holds_only em ed keys' st"
  by (auto simp: holds_only_def)

text \<open>
  A read is as good as one of the store: the same outcome, unless the store would not have been reached and the
  cache had what is in it.
\<close>

definition as_uncached :: "storage_conf \<Rightarrow> 's backend \<Rightarrow> ('s \<Rightarrow> string \<Rightarrow> bytes option) \<Rightarrow> 's \<Rightarrow> block \<Rightarrow> bool
    \<Rightarrow> (block \<times> bytes option \<times> (string, json) dict) res \<Rightarrow> bool" where
  "as_uncached cf be content s blk mo r \<longleftrightarrow>
     r = fst (storage_read cf be blk mo s) \<or>
     (fst (storage_read cf be blk mo s) = Inl OSError \<and>
      (\<exists>key data m. r = Inr (blk, data, m) \<and> (data = None \<longleftrightarrow> mo) \<and>
         block_to_path (md5_hex cf) (blk_uid blk) = Inr key \<and> decodes_to cf (content s) key data m))"

context object_store begin

lemma cached_read_result:
  assumes "cache_laws rc em ed" and "cache_inv cf content em ed st" and "holds_only em ed keys st"
    and "block_to_path (md5_hex cf) (blk_uid blk) = Inr key" and "CHR ''.'' \<notin> set key"
    and "cached_read rc cf be blk mo st = (r, st')"
  shows "content (cs_store st') = content (cs_store st) \<and> cache_inv cf content em ed st' \<and>
    holds_only em ed (insert key keys) st' \<and> as_uncached cf be content (cs_store st) blk mo r"
proof -
  obtain q st1 where q: "cache_lookup rc key mo st = (q, st1)" by force
  note l = cache_lookup_result [OF assms(1-3,5) q]
  obtain u s' where u: "storage_read cf be blk mo (cs_store st) = (u, s')" by force
  note rr = read_readable [OF assms(4) u]
  consider (miss) "q = Inr None"
    | (hit) data m where "q = Inr (Some (data, m))" "data = None \<longleftrightarrow> mo" "decodes_to cf (content (cs_store st)) key data m"
    using l by blast
  then show ?thesis
  proof cases
    case hit
    then have r: "r = Inr (blk, data, m)" "st' = st1" using assms(4,6) q by (auto simp: cached_read_def py_defs)
    have "as_uncached cf be content (cs_store st) blk mo r"
      using readable_read [OF assms(4) hit(3,2) u] r(1) hit(2,3) u assms(4) by (auto simp: as_uncached_def)
    with l r(2) show ?thesis using holds_only_mono [of em ed keys st1 "insert key keys"] by auto
  next
    case miss
    let ?st2 = "st1\<lparr>cs_store := s'\<rparr>"
    have inner: "on_inner (storage_read cf be blk mo) st1 = (u, ?st2)" using l u by (simp add: on_inner_def)
    have inv2: "cache_inv cf content em ed ?st2" "holds_only em ed keys ?st2"
      using l rr by (auto simp: cache_inv_def holds_only_def)
    show ?thesis
    proof (cases u)
      case (Inl e)
      then have "r = Inl e" "st' = ?st2" using assms(4,6) q miss inner by (auto simp: cached_read_def py_defs)
      then show ?thesis using inv2 rr u Inl holds_only_mono [OF inv2(2), of "insert key keys"]
        by (auto simp: as_uncached_def)
    next
      case (Inr x)
      obtain b data m where x: "x = (b, data, m)" by (cases x)
      have rd: "decodes_to cf (content (cs_store ?st2)) key data m" using rr Inr x by simp
      obtain f st3 where f: "cache_fill rc key mo data m ?st2 = (f, st3)" by force
      note fl = cache_fill_result [OF assms(1) inv2 rd f]
      have "r = u" "st' = st3" using assms(4,6) q miss inner Inr x f fl by (auto simp: cached_read_def py_defs)
      then show ?thesis using fl rr u by (auto simp: as_uncached_def)
    qed
  qed
qed

text \<open>The keys the cache may hold: those of the blocks read.\<close>

lemma change_keeps_inv:
  assumes "cache_inv cf content em ed st" and "holds_only em ed keys st" and "key \<notin> keys" and "CHR ''.'' \<notin> set key"
    and "\<And>k. k \<noteq> key \<Longrightarrow> k \<noteq> key @ META_SUFFIX \<Longrightarrow> content s' k = content (cs_store st) k"
  shows "cache_inv cf content em ed (st\<lparr>cs_store := s'\<rparr>) \<and> holds_only em ed keys (st\<lparr>cs_store := s'\<rparr>)"
  using assms coherent_frame [where key = key and c = "content (cs_store st)" and c' = "content s'"]
  by (auto simp: cache_inv_def holds_only_def)

lemma run_as_uncached:
  assumes "good_conf cf" and "cache_laws rc em ed" and "cache_inv cf content em ed st" and "undisturbed seen ops"
    and "holds_only em ed {k. \<exists>u \<in> seen. key_uid u \<and> block_to_path (md5_hex cf) u = Inr k} st"
    and "(s, ORead blk mo r) \<in> set (cached_run rc cf be ops st)"
  shows "as_uncached cf be content s blk mo r"
  using assms(3-6)
proof (induction ops arbitrary: st seen)
  case (Cons op ops)
  let ?keys = "\<lambda>seen. {k. \<exists>u \<in> seen. key_uid u \<and> block_to_path (md5_hex cf) u = Inr k}"
  have fresh: "k \<notin> ?keys seen \<and> CHR ''.'' \<notin> set k"
    if "key_uid u" "u \<notin> seen" "block_to_path (md5_hex cf) u = Inr k" for u k
  proof -
    have md5: "\<And>k. 4 \<le> length (md5_hex cf k)" using assms(1) by (simp add: good_conf_def)
    have "v = u" if "key_uid v" "block_to_path (md5_hex cf) v = Inr k" for v
      by (rule block_to_path_inj [OF that(1) \<open>key_uid u\<close> md5 that(2) \<open>block_to_path (md5_hex cf) u = Inr k\<close>])
    then show ?thesis using block_path_no_dot [OF assms(1) that(1,3)] that(2) by blast
  qed
  obtain q st' where q: "cached_step rc cf be op st = (q, st')" by force
  from Cons.prems(4) consider "s = cs_store st" "q = ORead blk mo r" | "(s, ORead blk mo r) \<in> set (cached_run rc cf be ops st')"
    using q by auto
  note split = this
  show ?case
  proof (cases op)
    case (CRead b mo')
    obtain key where key: "block_to_path (md5_hex cf) (blk_uid b) = Inr key"
      using block_to_path_Inr Cons.prems(2) CRead by auto
    have dot: "CHR ''.'' \<notin> set key" using block_path_no_dot [OF assms(1) _ key] Cons.prems(2) CRead by simp
    obtain x where x: "cached_read rc cf be b mo' st = (x, st')" "q = ORead b mo' x" using q CRead by (auto split: prod.splits)
    note res = cached_read_result [OF assms(2) Cons.prems(1,3) key dot x(1)]
    have "insert key (?keys seen) \<subseteq> ?keys (insert (blk_uid b) seen)" using key Cons.prems(2) CRead by auto
    then have "holds_only em ed (?keys (insert (blk_uid b) seen)) st'" using res holds_only_mono by blast
    moreover have "undisturbed (insert (blk_uid b) seen) ops" using Cons.prems(2) CRead by simp
    ultimately show ?thesis using split Cons.IH res x(2) by blast
  next
    case (CWrite ts rnd b d)
    obtain key where key: "block_to_path (md5_hex cf) (blk_uid b) = Inr key"
      using block_to_path_Inr Cons.prems(2) CWrite by auto
    obtain x s' where x: "storage_write cf be ts rnd b d (cs_store st) = (x, s')" by force
    have st': "st' = st\<lparr>cs_store := s'\<rparr>" "q = OWrite x" using q CWrite x by (simp_all add: on_inner_def)
    note f = fresh [OF _ _ key] and k = change_keeps_inv [OF Cons.prems(1,3) _ _ write_frame [OF key x]]
    from k f Cons.prems(2) CWrite st'(1)
    have "cache_inv cf content em ed st'" "holds_only em ed (?keys seen) st'" "undisturbed seen ops" by auto
    then show ?thesis using split Cons.IH st'(2) by blast
  next
    case (CRemove u)
    obtain key where key: "block_to_path (md5_hex cf) u = Inr key" using block_to_path_Inr Cons.prems(2) CRemove by auto
    obtain x s' where x: "rm_block cf be u (cs_store st) = (x, s')" by force
    have st': "st' = st\<lparr>cs_store := s'\<rparr>" "q = ORemove x" using q CRemove x by (simp_all add: on_inner_def)
    note f = fresh [OF _ _ key] and k = change_keeps_inv [OF Cons.prems(1,3) _ _ rm_frame [OF key x]]
    from k f Cons.prems(2) CRemove st'(1)
    have "cache_inv cf content em ed st'" "holds_only em ed (?keys seen) st'" "undisturbed seen ops" by auto
    then show ?thesis using split Cons.IH st'(2) by blast
  next
    case (CUse b)
    then have st': "st' = st\<lparr>cs_use := b\<rparr>" "\<And>x. q \<noteq> ORead blk mo x" using q by (auto simp: use_read_cache_def)
    have "cache_inv cf content em ed st'" "holds_only em ed (?keys seen) st'" "undisturbed seen ops"
      using Cons.prems(1-3) CUse by (auto simp: st' cache_inv_def holds_only_def)
    then show ?thesis using split Cons.IH st'(2) by blast
  qed
qed simp

lemma rm_block_removes:
  assumes "block_to_path (md5_hex cf) u = Inr key" and "rm_block cf be u s = (Inr v, s')"
  shows "content s' key = None"
proof -
  let ?conv = "\<lambda>e. if e = FileNotFoundError then BlockNotFoundError u else e"
  let ?meta = "exceptS (be_rm be (key @ META_SUFFIX)) (\<lambda>e. if e = FileNotFoundError then returnS () else raiseS e)"
  have "rm_pair be key ?conv s = (Inr (), s')"
    using assms by (auto simp: rm_block_def py_defs split: prod.splits sum.splits)
  then obtain r1 s1 w where 1: "exceptS (be_rm be key) (\<lambda>e. raiseS (?conv e)) s = (r1, s1)" "r1 = Inr ()" "?meta s1 = (Inr w, s')"
    unfolding rm_pair_def by (cases rule: finallyS_cases) auto
  then obtain x where "be_rm be key s = (Inr x, s1)" by (auto elim!: exceptS_cases)
  then have "content s1 key = None" using rm_ok by fastforce
  moreover have "content s' key = content s1 key"
    using rm_meta [OF 1(3)] by (auto simp: META_SUFFIX_def)
  ultimately show ?thesis by simp
qed

lemma cached_read_shape:
  assumes "cached_read rc cf be blk mo st = (Inr (b, data, m), st')"
  shows "b = blk \<and> (data = None \<longleftrightarrow> mo)"
proof -
  obtain key where key: "block_to_path (md5_hex cf) (blk_uid blk) = Inr key"
    using assms by (cases "block_to_path (md5_hex cf) (blk_uid blk)") (auto simp: cached_read_def py_defs)
  obtain q st1 where q: "cache_lookup rc key mo st = (q, st1)" by force
  obtain u s' where u: "storage_read cf be blk mo (cs_store st1) = (u, s')" by force
  have hit: "data' = None \<longleftrightarrow> mo" if "q = Inr (Some (data', m'))" for data' m'
    using q that by (auto simp: cache_lookup_def split: option.splits prod.splits if_splits)
  have "\<exists>x. q = Inr x" using q by (auto simp: cache_lookup_def split: option.splits prod.splits if_splits)
  then show ?thesis
    using assms key q hit read_readable [OF key u] u
    by (auto simp: cached_read_def on_inner_def cache_fill_def py_defs split: option.splits sum.splits)
qed

lemma read_missing:
  assumes "block_to_path (md5_hex cf) (blk_uid blk) = Inr key" and "content s key = None"
  shows "fst (storage_read cf be blk mo s) = Inl (InvalidBlockException blk)"
proof -
  obtain r1 s1 where 1: "be_read be key s = (r1, s1)" by force
  obtain r2 s2 where 2: "be_read_length be key s = (r2, s2)" by force
  show ?thesis using assms 1 2 read_result [OF 1] length_result [OF 2] by (auto simp: storage_read_def py_defs)
qed

end

section \<open>A cache that forgets nothing\<close>

definition dict_cache :: "((string, (string, json) dict) dict \<times> (string, bytes) dict) read_cache" where
  "dict_cache = \<lparr> rc_get_meta = (\<lambda>k c. (dict_get (fst c) k, c)), rc_get_data = (\<lambda>k c. (dict_get (snd c) k, c)),
     rc_set_meta = (\<lambda>k m c. (dict_set (fst c) k m, snd c)), rc_set_data = (\<lambda>k d c. (fst c, dict_set (snd c) k d)) \<rparr>"

text \<open>A cache within its size limit: \<open>get\<close> returns what is there and \<open>set\<close> puts it there.\<close>

definition cache_exact :: "'c read_cache \<Rightarrow> ('c \<Rightarrow> string \<Rightarrow> (string, json) dict option) \<Rightarrow> ('c \<Rightarrow> string \<Rightarrow> bytes option) \<Rightarrow> bool" where
  "cache_exact rc em ed \<longleftrightarrow>
     (\<forall>k c. fst (rc_get_meta rc k c) = em c k \<and> em (snd (rc_get_meta rc k c)) = em c \<and> ed (snd (rc_get_meta rc k c)) = ed c) \<and>
     (\<forall>k c. fst (rc_get_data rc k c) = ed c k \<and> em (snd (rc_get_data rc k c)) = em c \<and> ed (snd (rc_get_data rc k c)) = ed c) \<and>
     (\<forall>k m c. em (rc_set_meta rc k m c) = (em c)(k \<mapsto> m) \<and> ed (rc_set_meta rc k m c) = ed c) \<and>
     (\<forall>k d c. em (rc_set_data rc k d c) = em c \<and> ed (rc_set_data rc k d c) = (ed c)(k \<mapsto> d))"

lemma cache_exact_laws: "cache_exact rc em ed \<Longrightarrow> cache_laws rc em ed"
  unfolding cache_exact_def cache_laws_def by (simp add: prod_eq_iff)

lemma dict_cache_exact: "cache_exact dict_cache (\<lambda>c. dict_get (fst c)) (\<lambda>c. dict_get (snd c))"
  by (simp add: cache_exact_def dict_cache_def fun_eq_iff update_conv)

text \<open>After a successful read the entries are in an exact cache, and while they are the store is not asked.\<close>

definition cache_has :: "('c \<Rightarrow> string \<Rightarrow> (string, json) dict option) \<Rightarrow> ('c \<Rightarrow> string \<Rightarrow> bytes option)
    \<Rightarrow> string \<Rightarrow> bytes option \<Rightarrow> (string, json) dict \<Rightarrow> ('s, 'c) cached \<Rightarrow> bool" where
  "cache_has em ed key data m st \<longleftrightarrow>
     (\<exists>c. cs_cache st = Some c \<and> em c (key @ META_SUFFIX) = Some m \<and> (\<forall>x. data = Some x \<longrightarrow> ed c key = Some x))"

lemma cached_read_hit:
  assumes "cache_exact rc em ed" and "block_to_path (md5_hex cf) (blk_uid blk) = Inr key" and "cs_use st"
    and "cache_has em ed key data m st" and "m \<noteq> []" and "data \<noteq> Some []" and "data = None \<longleftrightarrow> mo"
  shows "fst (cached_read rc cf be blk mo st) = Inr (blk, data, m)"
proof -
  obtain c where c: "cs_cache st = Some c" "em c (key @ META_SUFFIX) = Some m" "\<And>x. data = Some x \<Longrightarrow> ed c key = Some x"
    using assms(4) by (auto simp: cache_has_def)
  obtain v c1 where v: "rc_get_meta rc (key @ META_SUFFIX) c = (v, c1)" by force
  obtain w c2 where w: "rc_get_data rc key c1 = (w, c2)" by force
  have "v = Some m" "ed c1 = ed c" "w = ed c1 key"
    using assms(1) v w c(2) unfolding cache_exact_def by (metis fst_conv snd_conv)+
  then show ?thesis using assms(2,3,5-7) c(1,3) v w
    by (cases data) (auto simp: cached_read_def cache_lookup_def py_defs)
qed

lemma cached_read_has:
  assumes "cache_exact rc em ed" and "block_to_path (md5_hex cf) (blk_uid blk) = Inr key" and "cs_cache st \<noteq> None"
    and "cached_read rc cf be blk mo st = (Inr (b, data, m), st')" and "data = None \<longleftrightarrow> mo"
  shows "cache_has em ed key data m st' \<and> cs_use st' = cs_use st"
proof -
  obtain c where c: "cs_cache st = Some c" using assms(3) by auto
  obtain v c1 where v: "rc_get_meta rc (key @ META_SUFFIX) c = (v, c1)" by force
  obtain w c2 where w: "rc_get_data rc key c1 = (w, c2)" by force
  have e: "v = em c (key @ META_SUFFIX)" "em c1 = em c" "ed c1 = ed c" "w = ed c1 key" "em c2 = em c1" "ed c2 = ed c1"
    using assms(1) v w unfolding cache_exact_def by (metis fst_conv snd_conv)+
  have set: "em (rc_set_meta rc k m' c') = (em c')(k \<mapsto> m')" "ed (rc_set_meta rc k m' c') = ed c'"
    "em (rc_set_data rc k d c') = em c'" "ed (rc_set_data rc k d c') = (ed c')(k \<mapsto> d)" for k m' d c'
    using assms(1) by (simp_all add: cache_exact_def)
  obtain q st1 where q: "cache_lookup rc key mo st = (q, st1)" by force
  show ?thesis
  proof (cases "\<exists>d' m'. q = Inr (Some (d', m'))")
    case True
    then have "q = Inr (Some (data, m))" "st' = st1" using assms(2,4) q by (auto simp: cached_read_def py_defs)
    then show ?thesis using q c v w e
      by (auto simp: cache_lookup_def cache_has_def split: if_splits option.splits)
  next
    case False
    then have miss: "q = Inr None" "cs_cache st1 \<noteq> None" "cs_use st1 = cs_use st"
      using q c v w by (auto simp: cache_lookup_def split: if_splits option.splits)
    then obtain c' where c': "cs_cache st1 = Some c'" by auto
    obtain u s' where u: "storage_read cf be blk mo (cs_store st1) = (u, s')" by force
    show ?thesis using assms(2,4,5) q miss c' u set
      by (cases u) (auto simp: cached_read_def on_inner_def cache_fill_def cache_has_def py_defs Let_def split: option.splits if_splits)
  qed
qed

lemma calm_rm_block:
  assumes "calm s" and "stored cf (fs_content s) blk data"
  shows "\<exists>s'. rm_block cf file_backend (blk_uid blk) s = (Inr (blk_uid blk), s')"
proof -
  obtain key d mj where key: "block_to_path (md5_hex cf) (blk_uid blk) = Inr key"
    and c: "fs_content s key = Some d" "fs_content s (key @ META_SUFFIX) = Some mj"
    using assms(2) unfolding stored_def by blast
  obtain s1 where 1: "be_rm file_backend key s = (Inr (), s1)" "calm s1" "fs_content s1 = (fs_content s)(key := None)"
    using calm_rm [OF assms(1) c(1)] by blast
  have "fs_content s1 (key @ META_SUFFIX) = Some mj" using 1(3) c(2) by (simp add: META_SUFFIX_def)
  then obtain s2 where 2: "be_rm file_backend (key @ META_SUFFIX) s1 = (Inr (), s2)" using calm_rm [OF 1(2)] by blast
  show ?thesis using key 1(1) 2 by (simp add: rm_block_def rm_pair_def py_defs)
qed

section \<open>What the cache guarantees\<close>


text \<open>A block is written, read twice (the second time from the cache), and another one is removed.\<close>

definition demo_cache_ops :: "cache_op list" where
  "demo_cache_ops = [CWrite ''t'' 0 (demo_stored_block 0) [7, 8], CRead (demo_stored_block 0) False,
     CRemove (BlockUid (Some 1) (Some 9)), CUse True, CRead (demo_stored_block 0) False]"


text \<open>The metadata scrub reads through the cache, and a removal does not clear it: with a cache that still has its
  entries, a block that was read and then removed from the storage is read again with the same data and metadata as before,
  although the storage would report it as an invalid block.\<close>

theorem removed_block_still_read:
  assumes "object_store be content" and "cache_exact rc em ed" and "block_to_path (md5_hex cf) (blk_uid blk) = Inr key"
    and "cs_cache st \<noteq> None" and "cs_use st" and "cached_read rc cf be blk mo st = (Inr (b, data, m), st1)"
    and "m \<noteq> []" and "data \<noteq> Some []" and "on_inner (rm_block cf be (blk_uid blk)) st1 = (Inr u, st2)"
  shows "fst (cached_read rc cf be blk mo st2) = Inr (b, data, m) \<and>
    fst (storage_read cf be blk mo (cs_store st2)) = Inl (InvalidBlockException blk)"
proof -
  note shape = object_store.cached_read_shape [OF assms(1,6)]
  have has: "cache_has em ed key data m st1" "cs_use st1"
    using cached_read_has [OF assms(2,3,4,6)] shape assms(5) by auto
  obtain s' where s': "rm_block cf be (blk_uid blk) (cs_store st1) = (Inr u, s')" "st2 = st1\<lparr>cs_store := s'\<rparr>"
    using assms(9) by (auto simp: on_inner_def split: prod.splits)
  then have "cs_use st2" "cache_has em ed key data m st2" using has by (simp_all add: cache_has_def)
  then have hit: "fst (cached_read rc cf be blk mo st2) = Inr (blk, data, m)"
    by (rule cached_read_hit [OF assms(2,3) _ _ assms(7,8)]) (use shape in simp)
  have "content s' key = None" by (rule object_store.rm_block_removes [OF assms(1,3) s'(1)])
  then have "fst (storage_read cf be blk mo (cs_store st2)) = Inl (InvalidBlockException blk)"
    using object_store.read_missing [OF assms(1,3), of "cs_store st2"] s'(2) by simp
  with hit shape show ?thesis by simp
qed

theorem removed_block_still_read_witness:
  "\<exists>m st st1 u st2.
     cached_read dict_cache demo_conf file_backend (demo_stored_block 0) False st = (Inr (demo_stored_block 0, Some [7, 8], m), st1) \<and>
     on_inner (rm_block demo_conf file_backend (blk_uid (demo_stored_block 0))) st1 = (Inr u, st2) \<and>
     fst (cached_read dict_cache demo_conf file_backend (demo_stored_block 0) False st2) = Inr (demo_stored_block 0, Some [7, 8], m) \<and>
     fst (storage_read demo_conf file_backend (demo_stored_block 0) False (cs_store st2)) = Inl (InvalidBlockException (demo_stored_block 0))"
proof -
  let ?b = "demo_stored_block 0"
  obtain s1 where s1: "storage_write demo_conf file_backend ''t'' 0 ?b [7, 8] demo_fs = (Inr ?b, s1)" "calm s1"
    by (rule calm_storage_write [OF good_demo_conf calm_demo_fs, of ?b]) (simp_all add: demo_block_facts)
  have st: "stored demo_conf (fs_content s1) ?b [7, 8]"
    using fobj.write_stores [OF good_demo_conf _ _ _ _ s1(1), of "''c''"] by (simp add: demo_block_facts)
  obtain m s2 where m: "storage_read demo_conf file_backend ?b False s1 = (Inr (?b, Some [7, 8], m), s2)" "calm s2"
    "fs_content s2 = fs_content s1" "check_block_metadata ?b (Some (int (length [7, 8 :: 8 word]))) m = Inr ()"
    by (rule calm_storage_read [OF s1(2) st])
  obtain key where key: "block_to_path (md5_hex demo_conf) (blk_uid ?b) = Inr key"
    using st unfolding stored_def by blast
  let ?st = "new_cached s1 (Some ([], []))"
  obtain st1 where st1: "cached_read dict_cache demo_conf file_backend ?b False ?st = (Inr (?b, Some [7, 8], m), st1)" "cs_store st1 = s2"
    using m(1) key by (simp add: cached_read_def cache_lookup_def cache_fill_def on_inner_def new_cached_def dict_cache_def py_defs)
  obtain s3 where "rm_block demo_conf file_backend (blk_uid ?b) s2 = (Inr (blk_uid ?b), s3)"
    using calm_rm_block [OF m(2), of demo_conf ?b "[7, 8]"] st m(3) by auto
  then have rm: "on_inner (rm_block demo_conf file_backend (blk_uid ?b)) st1 = (Inr (blk_uid ?b), st1\<lparr>cs_store := s3\<rparr>)"
    using st1(2) by (simp add: on_inner_def)
  have "m \<noteq> []" using m(4) by (auto simp: check_block_metadata_def)
  note still = removed_block_still_read [OF fobj.object_store_axioms dict_cache_exact key _ _ st1(1) this _ rm]
  show ?thesis
    by (intro exI conjI, rule st1(1), rule rm) (use still in \<open>simp_all add: new_cached_def\<close>)
qed

end
