(* ===== verification/Cloud_Stores.thy ===== *)
theory Cloud_Stores
  imports Read_Cache
begin

text \<open>
  \<open>storage/s3.py\<close> and \<open>storage/b2.py\<close>: the object methods of \<open>StorageBase\<close> over the buckets of two services. The calls into
  \<open>boto3\<close> and \<open>b2sdk\<close> are the records \<open>s3_bucket\<close> and \<open>b2_bucket\<close>; \<open>s3_laws\<close> and \<open>b2_laws\<close> state what these document.
\<close>

section \<open>S3\<close>

text \<open>
  \<open>Bucket.Object(key)\<close> with \<open>put\<close>, \<open>load\<close> (and then \<open>content_length\<close>) and \<open>delete\<close>, the listing of the bucket, and
  \<open>get()\<close> called on the bucket itself, which has no key.
\<close>

record 's s3_bucket =
  s3_put :: "string \<Rightarrow> bytes \<Rightarrow> (exn, 's, unit) py"
  s3_bucket_get :: "(exn, 's, bytes) py"
  s3_load :: "string \<Rightarrow> (exn, 's, int) py"
  s3_delete :: "string \<Rightarrow> (exn, 's, unit) py"
  s3_objects :: "string option \<Rightarrow> 's \<Rightarrow> (string \<times> int) list"

definition s3_convert :: "exn \<Rightarrow> exn" where
  "s3_convert e = (if e = ClientError ''NoSuchKey'' \<or> e = ClientError ''404'' then FileNotFoundError else e)"

definition s3_write_object :: "'s s3_bucket \<Rightarrow> string \<Rightarrow> bytes \<Rightarrow> (exn, 's, unit) py" where
  "s3_write_object b key data = s3_put b key data"

text \<open>\<open>_read_object\<close> says \<open>object = self._local.bucket\<close> where the other methods have \<open>bucket.Object(key)\<close>.\<close>

definition s3_read_object :: "'s s3_bucket \<Rightarrow> string \<Rightarrow> (exn, 's, bytes) py" where
  "s3_read_object b key = exceptS (s3_bucket_get b) (\<lambda>e. raiseS (s3_convert e))"

definition s3_read_object_length :: "'s s3_bucket \<Rightarrow> string \<Rightarrow> (exn, 's, int) py" where
  "s3_read_object_length b key = exceptS (s3_load b key) (\<lambda>e. raiseS (s3_convert e))"

definition s3_rm_object :: "'s s3_bucket \<Rightarrow> string \<Rightarrow> (exn, 's, unit) py" where
  "s3_rm_object b key = bindS (exceptS (s3_load b key) (\<lambda>e. raiseS (s3_convert e))) (\<lambda>_. s3_delete b key)"

definition s3_list_objects :: "'s s3_bucket \<Rightarrow> string option \<Rightarrow> 's \<Rightarrow> (string \<times> int) list" where
  "s3_list_objects b pre s = s3_objects b pre s"

definition s3_backend :: "'s s3_bucket \<Rightarrow> 's backend" where
  "s3_backend b = \<lparr> be_write = s3_write_object b, be_read = s3_read_object b, be_read_length = s3_read_object_length b,
     be_rm = s3_rm_object b, be_list = s3_list_objects b \<rparr>"

text \<open>A stored object can be read back at once; a \<open>Bucket\<close> resource of boto3 has no action \<open>get\<close>.\<close>

definition s3_laws :: "'s s3_bucket \<Rightarrow> ('s \<Rightarrow> string \<Rightarrow> bytes option) \<Rightarrow> bool" where
  "s3_laws b content \<longleftrightarrow>
     (\<forall>k d s u s'. s3_put b k d s = (Inr u, s') \<longrightarrow> content s' = (content s)(k \<mapsto> d)) \<and>
     (\<forall>s. s3_bucket_get b s = (Inl AttributeError, s)) \<and>
     (\<forall>k s r s'. s3_load b k s = (r, s') \<longrightarrow> content s' = content s \<and>
        (case r of Inr n \<Rightarrow> \<exists>d. content s k = Some d \<and> n = int (length d)
         | Inl e \<Rightarrow> content s k = None \<longrightarrow> e = ClientError ''404'')) \<and>
     (\<forall>k s u s'. s3_delete b k s = (Inr u, s') \<longrightarrow> content s' = (content s)(k := None))"

lemma s3_writes:
  assumes "s3_laws b content"
  shows "object_writes (s3_backend b) content"
proof
  fix k d s u s' assume "be_write (s3_backend b) k d s = (Inr u, s')"
  then show "content s' = (content s)(k \<mapsto> d)"
    using assms by (simp add: s3_laws_def s3_backend_def s3_write_object_def)
next
  fix k s r s' assume "be_read (s3_backend b) k s = (r, s')"
  then show "content s' = content s"
    using assms by (simp add: s3_laws_def s3_backend_def s3_read_object_def py_defs)
qed

lemma s3_read_fails:
  "s3_laws b content \<Longrightarrow> be_read (s3_backend b) key s = (Inl AttributeError, s)"
  by (simp add: s3_laws_def s3_backend_def s3_read_object_def s3_convert_def py_defs)

section \<open>B2\<close>

text \<open>
  \<open>upload_bytes\<close>, \<open>download_file_by_name\<close>, \<open>get_file_info_by_name\<close> (the id, name and size of the newest version of
  the file), \<open>delete_file_version\<close> and \<open>ls\<close>. \<open>FileNotPresent\<close> is a \<open>B2Error\<close>.
\<close>

record 's b2_bucket =
  b2_upload :: "string \<Rightarrow> bytes \<Rightarrow> (exn, 's, unit) py"
  b2_download :: "string \<Rightarrow> (exn, 's, bytes) py"
  b2_info :: "string \<Rightarrow> (exn, 's, string \<times> string \<times> int) py"
  b2_delete_version :: "string \<Rightarrow> string \<Rightarrow> (exn, 's, unit) py"
  b2_ls :: "string \<Rightarrow> 's \<Rightarrow> (string \<times> int) list"

fun is_b2_error :: "exn \<Rightarrow> bool" where
  "is_b2_error B2Error = True"
| "is_b2_error FileNotPresent = True"
| "is_b2_error _ = False"

text \<open>The bucket and the sleeps so far, in milliseconds.\<close>

record 's b2_store =
  b2_inner :: 's
  b2_slept :: "nat list"

text \<open>
  \<open>sleep_time = 2 ** (i + 1) + random.randint(0, 1000) / 1000\<close>; \<open>jit n\<close> is what \<open>randint\<close> returns before the \<open>n\<close>-th sleep.
\<close>

definition b2_sleep :: "(nat \<Rightarrow> nat) \<Rightarrow> nat \<Rightarrow> 's b2_store \<Rightarrow> 's b2_store" where
  "b2_sleep jit i st = st\<lparr>b2_slept := b2_slept st @ [2 ^ (i + 1) * 1000 + jit (length (b2_slept st))]\<rparr>"

definition on_bucket :: "(exn, 's, 'a) py \<Rightarrow> (exn, 's b2_store, 'a) py" where
  "on_bucket m st = (case m (b2_inner st) of (r, s') \<Rightarrow> (r, st\<lparr>b2_inner := s'\<rparr>))"

text \<open>
  The loop the three methods share, over the rest of \<open>range(attempts)\<close>: \<open>handled e\<close> is the exception a \<open>B2Error\<close> is
  turned into at once, if it is not retried, and \<open>unbound\<close> is what follows when no attempt was made.
\<close>

fun b2_attempts :: "(exn \<Rightarrow> exn option) \<Rightarrow> 'a res \<Rightarrow> (exn, 's, 'a) py \<Rightarrow> int \<Rightarrow> (nat \<Rightarrow> nat) \<Rightarrow> nat list
    \<Rightarrow> (exn, 's b2_store, 'a) py" where
  "b2_attempts handled unbound m attempts jit [] st = (unbound, st)"
| "b2_attempts handled unbound m attempts jit (i # is) st =
     (case on_bucket m st of
        (Inr x, st') \<Rightarrow> (Inr x, st')
      | (Inl e, st') \<Rightarrow>
          if \<not> is_b2_error e then (Inl e, st')
          else (case handled e of
                  Some e' \<Rightarrow> (Inl e', st')
                | None \<Rightarrow>
                    if int i + 1 < attempts then b2_attempts handled unbound m attempts jit is (b2_sleep jit i st')
                    else (Inl e, st')))"

definition b2_write_object :: "'s b2_bucket \<Rightarrow> int \<Rightarrow> (nat \<Rightarrow> nat) \<Rightarrow> string \<Rightarrow> bytes \<Rightarrow> (exn, 's b2_store, unit) py" where
  "b2_write_object b attempts jit key data =
     b2_attempts (\<lambda>_. None) (Inr ()) (b2_upload b key data) attempts jit [0..<nat attempts]"

definition not_present :: "exn \<Rightarrow> exn option" where
  "not_present e = (if e = FileNotPresent then Some FileNotFoundError else None)"

text \<open>Without an attempt the local variable the result is taken from is unbound.\<close>

definition b2_read_object :: "'s b2_bucket \<Rightarrow> int \<Rightarrow> (nat \<Rightarrow> nat) \<Rightarrow> string \<Rightarrow> (exn, 's b2_store, bytes) py" where
  "b2_read_object b attempts jit key =
     b2_attempts not_present (Inl NameError) (b2_download b key) attempts jit [0..<nat attempts]"

definition b2_read_object_length :: "'s b2_bucket \<Rightarrow> int \<Rightarrow> (nat \<Rightarrow> nat) \<Rightarrow> string \<Rightarrow> (exn, 's b2_store, int) py" where
  "b2_read_object_length b attempts jit key =
     bindS (b2_attempts not_present (Inl NameError) (b2_info b key) attempts jit [0..<nat attempts])
       (\<lambda>(_, _, size). returnS size)"

text \<open>\<open>_rm_object\<close> is not retried, and deletes the newest version of the file only.\<close>

definition b2_rm_object :: "'s b2_bucket \<Rightarrow> string \<Rightarrow> (exn, 's b2_store, unit) py" where
  "b2_rm_object b key =
     exceptS (bindS (on_bucket (b2_info b key)) (\<lambda>(fid, name, _). on_bucket (b2_delete_version b fid name)))
       (\<lambda>e. if e = FileNotPresent then raiseS FileNotFoundError else raiseS e)"

definition b2_list_objects :: "'s b2_bucket \<Rightarrow> string option \<Rightarrow> 's b2_store \<Rightarrow> (string \<times> int) list" where
  "b2_list_objects b pre st = b2_ls b (case pre of None \<Rightarrow> [] | Some p \<Rightarrow> p) (b2_inner st)"

definition b2_backend :: "'s b2_bucket \<Rightarrow> int \<Rightarrow> int \<Rightarrow> (nat \<Rightarrow> nat) \<Rightarrow> 's b2_store backend" where
  "b2_backend b write_attempts read_attempts jit =
     \<lparr> be_write = b2_write_object b write_attempts jit, be_read = b2_read_object b read_attempts jit,
       be_read_length = b2_read_object_length b read_attempts jit, be_rm = b2_rm_object b, be_list = b2_list_objects b \<rparr>"

section \<open>Attempts\<close>

text \<open>\<open>n\<close> attempts in a row that failed with a \<open>B2Error\<close> to be retried.\<close>

fun failed_attempts :: "(exn \<Rightarrow> exn option) \<Rightarrow> (exn, 's, 'a) py \<Rightarrow> nat \<Rightarrow> 's \<Rightarrow> 's option" where
  "failed_attempts handled m 0 s = Some s"
| "failed_attempts handled m (Suc n) s =
     (case m s of
        (Inr x, s') \<Rightarrow> None
      | (Inl e, s') \<Rightarrow> if is_b2_error e \<and> handled e = None then failed_attempts handled m n s' else None)"

text \<open>The sleeps before the attempts \<open>i + 1\<close>, ..., \<open>i + n\<close>.\<close>

definition sleeps :: "(nat \<Rightarrow> nat) \<Rightarrow> nat \<Rightarrow> nat \<Rightarrow> nat \<Rightarrow> nat list" where
  "sleeps jit before i n = map (\<lambda>m. 2 ^ (i + m + 1) * 1000 + jit (before + m)) [0..<n]"

lemma sleeps_0 [simp]: "sleeps jit before i 0 = []"
  by (simp add: sleeps_def)

lemma sleeps_Suc: "sleeps jit before i (Suc n) = (2 ^ (i + 1) * 1000 + jit before) # sleeps jit (Suc before) (Suc i) n"
  by (simp add: sleeps_def upt_conv_Cons map_Suc_upt [symmetric] o_def del: upt_Suc)

definition attempt_result :: "(exn \<Rightarrow> exn option) \<Rightarrow> 'a res \<Rightarrow> 'a res" where
  "attempt_result handled q =
     (case q of Inr x \<Rightarrow> Inr x
      | Inl e \<Rightarrow> Inl (if is_b2_error e then (case handled e of Some e' \<Rightarrow> e' | None \<Rightarrow> e) else e))"

lemma b2_attempts_result:
  assumes "int i < attempts" and "b2_attempts handled unbound m attempts jit [i..<nat attempts] st = (r, st')"
  shows "\<exists>n s1 q. int (i + n) < attempts \<and> failed_attempts handled m n (b2_inner st) = Some s1 \<and>
     m s1 = (q, b2_inner st') \<and> r = attempt_result handled q \<and>
     b2_slept st' = b2_slept st @ sleeps jit (length (b2_slept st)) i n \<and>
     (\<forall>e. q = Inl e \<longrightarrow> is_b2_error e \<longrightarrow> handled e = None \<longrightarrow> int (i + n) + 1 = attempts)"
  using assms
proof (induction "nat attempts - i" arbitrary: i st)
  case 0
  then show ?case by linarith
next
  case (Suc k)
  have upt: "[i..<nat attempts] = i # [Suc i..<nat attempts]" using Suc.prems(1) by (simp add: upt_conv_Cons)
  obtain q s1 where q: "m (b2_inner st) = (q, s1)" by force
  let ?st1 = "st\<lparr>b2_inner := s1\<rparr>"
  show ?case
  proof (cases "\<exists>e. q = Inl e \<and> is_b2_error e \<and> handled e = None \<and> int i + 1 < attempts")
    case False
    then have "r = attempt_result handled q \<and> st' = ?st1"
      using Suc.prems(2) q upt
      by (auto simp: on_bucket_def attempt_result_def split: sum.splits option.splits if_splits)
    with False q Suc.prems(1) show ?thesis
      by (intro exI [of _ 0] exI [of _ "b2_inner st"] exI [of _ q]) auto
  next
    case True
    then obtain e where e: "q = Inl e" "is_b2_error e" "handled e = None" "int (Suc i) < attempts" by auto
    have rec: "b2_attempts handled unbound m attempts jit [Suc i..<nat attempts] (b2_sleep jit i ?st1) = (r, st')"
      using Suc.prems(2) q upt e by (simp add: on_bucket_def)
    have "k = nat attempts - Suc i" using Suc.hyps(2) by simp
    from Suc.hyps(1) [OF this e(4) rec] obtain n s2 q' where n: "int (Suc i + n) < attempts"
      "failed_attempts handled m n s1 = Some s2" "m s2 = (q', b2_inner st')" "r = attempt_result handled q'"
      "b2_slept st' = b2_slept (b2_sleep jit i ?st1) @ sleeps jit (length (b2_slept (b2_sleep jit i ?st1))) (Suc i) n"
      "\<forall>e. q' = Inl e \<longrightarrow> is_b2_error e \<longrightarrow> handled e = None \<longrightarrow> int (Suc i + n) + 1 = attempts"
      by (auto simp: b2_sleep_def)
    show ?thesis
      by (rule exI [of _ "Suc n"], rule exI [of _ s2], rule exI [of _ q'])
         (use n q e in \<open>auto simp: b2_sleep_def sleeps_Suc\<close>)
  qed
qed

lemma sleeps_bound:
  assumes "\<And>m. jit m \<le> 1000"
  shows "sum_list (sleeps jit before i n) + 2 ^ (i + 1) * 1000 \<le> 2 ^ (i + n + 1) * 1000 + n * 1000"
proof (induction n arbitrary: before i)
  case (Suc n)
  have "jit before \<le> 1000" by (rule assms)
  with Suc.IH [of "Suc before" "Suc i"] show ?case by (simp add: sleeps_Suc)
qed simp

section \<open>File versions\<close>

text \<open>
  B2 keeps every version of a file: an upload adds one (also one that fails after the service has stored it), \<open>get_file_info_by_name\<close> describes the
  newest, and \<open>delete_file_version\<close> deletes the one with the given id. \<open>versions s key\<close> lists ids and contents, newest first.
\<close>

definition b2_laws :: "'s b2_bucket \<Rightarrow> ('s \<Rightarrow> string \<Rightarrow> (string \<times> bytes) list) \<Rightarrow> bool" where
  "b2_laws b versions \<longleftrightarrow>
     (\<forall>k d s r s'. b2_upload b k d s = (r, s') \<longrightarrow>
        (\<forall>k'. k' \<noteq> k \<longrightarrow> versions s' k' = versions s k') \<and>
        (versions s' k = versions s k \<and> r \<noteq> Inr () \<or>
         (\<exists>fid. fid \<notin> fst ` set (versions s k) \<and> versions s' k = (fid, d) # versions s k))) \<and>
     (\<forall>k s r s'. b2_download b k s = (r, s') \<longrightarrow> versions s' = versions s) \<and>
     (\<forall>k s r s'. b2_info b k s = (r, s') \<longrightarrow> versions s' = versions s \<and>
        (\<forall>fid name n. r = Inr (fid, name, n) \<longrightarrow> name = k \<and> (\<exists>d vs. versions s k = (fid, d) # vs \<and> n = int (length d)))) \<and>
     (\<forall>fid k s r s'. b2_delete_version b fid k s = (r, s') \<longrightarrow>
        versions s' = (versions s)(k := filter (\<lambda>(i, _). i \<noteq> fid) (versions s k)) \<or> (versions s' = versions s \<and> r \<noteq> Inr ()))"

text \<open>No two versions of a file have the same id; \<open>depth\<close> counts the versions.\<close>

definition distinct_ids :: "('s \<Rightarrow> string \<Rightarrow> (string \<times> bytes) list) \<Rightarrow> 's b2_store \<Rightarrow> bool" where
  "distinct_ids versions st \<longleftrightarrow> (\<forall>k. distinct (map fst (versions (b2_inner st) k)))"

definition depth :: "('s \<Rightarrow> string \<Rightarrow> (string \<times> bytes) list) \<Rightarrow> string \<Rightarrow> 's b2_store \<Rightarrow> nat" where
  "depth versions k st = length (versions (b2_inner st) k)"

lemma b2_attempts_invariant:
  assumes "\<And>s r s'. m s = (r, s') \<Longrightarrow> P s \<Longrightarrow> P s'" and "P (b2_inner st)"
    and "b2_attempts handled unbound m attempts jit is st = (r, st')"
  shows "P (b2_inner st')"
  using assms(2,3)
proof (induction "is" arbitrary: st)
  case (Cons i "is")
  obtain q s1 where q: "m (b2_inner st) = (q, s1)" by force
  have P: "P s1" using assms(1) [OF q] Cons.prems(1) .
  then have "P (b2_inner (b2_sleep jit i (st\<lparr>b2_inner := s1\<rparr>)))" by (simp add: b2_sleep_def)
  from Cons.IH [OF this] Cons.prems(2) P q show ?case
    by (auto simp: on_bucket_def split: sum.splits if_splits option.splits)
qed simp

lemma b2_upload_step:
  assumes "b2_laws b versions" and "b2_upload b k d s = (r, s')" and "\<forall>k. distinct (map fst (versions s k))"
  shows "(\<forall>k'. distinct (map fst (versions s' k')) \<and> length (versions s k') \<le> length (versions s' k')) \<and>
    (r = Inr () \<longrightarrow> length (versions s k) < length (versions s' k))"
proof -
  have other: "\<And>k'. k' \<noteq> k \<Longrightarrow> versions s' k' = versions s k'"
    and same: "versions s' k = versions s k \<and> r \<noteq> Inr () \<or>
      (\<exists>fid. fid \<notin> fst ` set (versions s k) \<and> versions s' k = (fid, d) # versions s k)"
    using assms(1,2) unfolding b2_laws_def by blast+
  from same have at: "distinct (map fst (versions s' k)) \<and> length (versions s k) \<le> length (versions s' k) \<and>
      (r = Inr () \<longrightarrow> length (versions s k) < length (versions s' k))"
    using assms(3) by auto
  show ?thesis using other at assms(3) by (metis order_refl)
qed

lemma failed_attempts_invariant:
  assumes "\<And>s r s'. m s = (r, s') \<Longrightarrow> P s \<Longrightarrow> P s'" and "P s" and "failed_attempts handled m n s = Some s'"
  shows "P s'"
  using assms(2,3)
proof (induction n arbitrary: s)
  case (Suc n)
  obtain q s1 where q: "m s = (q, s1)" by force
  with Suc.prems have "failed_attempts handled m n s1 = Some s'" by (auto split: sum.splits if_splits)
  then show ?case using Suc.IH assms(1) [OF q Suc.prems(1)] by blast
qed simp

lemma b2_write_depth:
  assumes "b2_laws b versions" and "distinct_ids versions st" and "b2_write_object b attempts jit key d st = (r, st')"
  shows "distinct_ids versions st' \<and> (\<forall>k. depth versions k st \<le> depth versions k st') \<and>
    (r = Inr () \<longrightarrow> 1 \<le> attempts \<longrightarrow> depth versions key st < depth versions key st')"
proof -
  let ?P = "\<lambda>s. (\<forall>k. distinct (map fst (versions s k))) \<and> (\<forall>k. depth versions k st \<le> length (versions s k))"
  have step: "?P s'" if "b2_upload b key d s = (r, s')" "?P s" for s r s'
    using b2_upload_step [OF assms(1) that(1)] that(2) by (meson le_trans)
  have init: "?P (b2_inner st)" using assms(2) by (simp add: distinct_ids_def depth_def)
  note w = assms(3) [unfolded b2_write_object_def]
  have inv: "?P (b2_inner st')" by (rule b2_attempts_invariant [where P = ?P, OF _ init w]) (rule step)
  have "depth versions key st < depth versions key st'" if "r = Inr ()" "1 \<le> attempts"
  proof -
    have pos: "int 0 < attempts" using that(2) by simp
    from b2_attempts_result [OF pos w] obtain n s1 q where
      f: "failed_attempts (\<lambda>_. None) (b2_upload b key d) n (b2_inner st) = Some s1"
      and u: "b2_upload b key d s1 = (q, b2_inner st')" and q: "r = attempt_result (\<lambda>_. None) q" by blast
    have "?P s1" by (rule failed_attempts_invariant [where P = ?P, OF _ init f]) (rule step)
    moreover have "q = Inr ()" using q that(1) by (auto simp: attempt_result_def split: sum.splits)
    ultimately show ?thesis using b2_upload_step [OF assms(1) u] by (simp add: depth_def) (meson le_less_trans)
  qed
  with inv show ?thesis by (simp add: distinct_ids_def depth_def)
qed

lemma filter_one: "distinct (map fst vs) \<Longrightarrow> length vs \<le> Suc (length (filter (\<lambda>(i, _). i \<noteq> fid) vs))"
proof (induction vs)
  case (Cons v vs)
  then show ?case
  proof (cases "fst v = fid")
    case True
    with Cons.prems have "filter (\<lambda>v. fst v \<noteq> fid) vs = vs" by (auto simp: filter_id_conv image_iff)
    with True show ?thesis by (simp add: case_prod_beta)
  qed (auto simp: case_prod_beta)
qed simp

text \<open>A removal takes away one version at most, and of its file only.\<close>

lemma b2_rm_depth:
  assumes "b2_laws b versions" and "distinct_ids versions st" and "b2_rm_object b key st = (r, st')"
  shows "distinct_ids versions st' \<and> depth versions key st \<le> Suc (depth versions key st') \<and>
    (\<forall>k. k \<noteq> key \<longrightarrow> depth versions k st' = depth versions k st)"
proof -
  obtain q s1 where q: "b2_info b key (b2_inner st) = (q, s1)" by force
  have v1: "versions s1 = versions (b2_inner st)" "\<And>fid name n. q = Inr (fid, name, n) \<Longrightarrow> name = key"
    using assms(1) q unfolding b2_laws_def by blast+
  have "\<exists>fid. versions (b2_inner st') = versions (b2_inner st) \<or>
      versions (b2_inner st') = (versions (b2_inner st))(key := filter (\<lambda>(i, _). i \<noteq> fid) (versions (b2_inner st) key))"
  proof (cases q)
    case (Inl e)
    then have "b2_inner st' = s1" using assms(3) q by (auto simp: b2_rm_object_def on_bucket_def py_defs split: if_splits)
    with v1 show ?thesis by simp
  next
    case (Inr x)
    obtain fid name n where x: "x = (fid, name, n)" by (cases x)
    obtain d s2 where d: "b2_delete_version b fid name s1 = (d, s2)" by force
    have "b2_inner st' = s2"
      using assms(3) q d Inr x by (cases d) (auto simp: b2_rm_object_def on_bucket_def py_defs split: if_splits)
    moreover have "name = key" using v1(2) Inr x by simp
    ultimately show ?thesis using assms(1) d v1(1) unfolding b2_laws_def by metis
  qed
  then show ?thesis using assms(2) filter_one [of "versions (b2_inner st) key"]
    by (auto simp: distinct_ids_def depth_def distinct_map_filter)
qed

lemma b2_reads_keep:
  assumes "b2_laws b versions"
  shows "keeps (\<lambda>st. versions (b2_inner st)) (b2_read_object b attempts jit key)"
proof (rule keepsI)
  fix st r st' assume r: "b2_read_object b attempts jit key st = (r, st')"
  let ?P = "\<lambda>s. versions s = versions (b2_inner st)"
  have "?P (b2_inner st')"
  proof (rule b2_attempts_invariant [where P = ?P, OF _ _ r [unfolded b2_read_object_def]])
    show "?P s'" if "b2_download b key s = (q, s')" "?P s" for s q s'
      using assms that unfolding b2_laws_def by metis
  qed simp
  then show "versions (b2_inner st') = versions (b2_inner st)" .
qed

lemma b2_write_pair_depth:
  assumes "b2_laws b versions" and "1 \<le> wa" and "distinct_ids versions st"
    and "write_pair (b2_backend b wa ra jit) key d mj st = (Inr u, st')"
  shows "distinct_ids versions st' \<and> (\<forall>k \<in> {key, key @ META_SUFFIX}. depth versions k st < depth versions k st')"
proof -
  let ?w = "b2_write_object b wa jit"
  have "thenS (?w key d) (?w (key @ META_SUFFIX) mj) st = (Inr u, st')"
    using assms(4) unfolding write_pair_def
    by (cases rule: exceptS_cases) (auto simp: b2_backend_def elim!: thenS_cases)
  then obtain u1 s1 where 1: "?w key d st = (Inr u1, s1)" and 2: "?w (key @ META_SUFFIX) mj s1 = (Inr u, st')"
    by (cases rule: thenS_cases) auto
  note d1 = b2_write_depth [OF assms(1,3) 1]
  then have "distinct_ids versions s1" by blast
  note d2 = b2_write_depth [OF assms(1) this 2]
  have "depth versions key st < depth versions key s1" "depth versions key s1 \<le> depth versions key st'"
    "depth versions (key @ META_SUFFIX) st \<le> depth versions (key @ META_SUFFIX) s1"
    "depth versions (key @ META_SUFFIX) s1 < depth versions (key @ META_SUFFIX) st'"
    using d1 d2 assms(2) by auto
  with d2 show ?thesis by (auto intro: less_le_trans le_less_trans)
qed

lemma b2_write_version_depth:
  assumes "b2_laws b versions" and "1 \<le> wa" and "distinct_ids versions st"
    and "version_to_path (md5_hex cf) uid = Inr key"
    and "write_version cf (b2_backend b wa ra jit) ts rnd uid text overwrite st = (Inr u, st')"
  shows "distinct_ids versions st' \<and> (\<forall>k \<in> {key, key @ META_SUFFIX}. depth versions k st < depth versions k st')"
proof -
  let ?be = "b2_backend b wa ra jit" and ?obs = "\<lambda>st. versions (b2_inner st)"
  have rd: "keeps ?obs (be_read ?be k)" for k
    using b2_reads_keep [OF assms(1)] by (simp add: b2_backend_def)
  obtain d tm where enc: "encapsulate cf rnd (encode_utf8 text) = (d, tm)" by force
  obtain m mj where bm: "build_metadata cf ts (int (length (encode_utf8 text))) (int (length d)) tm None = (m, mj)" by force
  let ?pre = "if overwrite then returnS ()
    else bindS (exceptS (bindS (be_read ?be key) (\<lambda>_. returnS True)) (\<lambda>e. if e = FileNotFoundError then returnS False else raiseS e))
      (\<lambda>present. if present then raiseS FileExistsError else returnS ())"
  let ?chk = "if consistency_check_writes cf then check_write cf ?be key d else returnS ()"
  have "thenS ?pre (thenS (write_pair ?be key d mj) ?chk) st = (Inr u, st')"
    using assms(4,5) by (simp add: write_version_def enc bm bindS_def Let_def)
  then obtain u1 s1 where 1: "?pre st = (Inr u1, s1)" and w: "thenS (write_pair ?be key d mj) ?chk s1 = (Inr u, st')"
    by (cases rule: thenS_cases) auto
  from w obtain u2 s2 where 2: "write_pair ?be key d mj s1 = (Inr u2, s2)" and 3: "?chk s2 = (Inr u, st')"
    by (cases rule: thenS_cases) auto
  have "keeps ?obs ?pre" by (intro keeps_intros rd)
  from keepsD [OF this 1] have v1: "?obs s1 = ?obs st" .
  have "keeps ?obs ?chk" unfolding check_write_def by (intro keeps_intros rd)
  from keepsD [OF this 3] have v3: "?obs st' = ?obs s2" .
  have "distinct_ids versions s1" using v1 assms(3) by (simp add: distinct_ids_def)
  from b2_write_pair_depth [OF assms(1,2) this 2] v1 v3 show ?thesis by (simp add: distinct_ids_def depth_def)
qed

lemma b2_rm_version_depth:
  assumes "b2_laws b versions" and "distinct_ids versions st" and "version_to_path (md5_hex cf) uid = Inr key"
    and "rm_version cf (b2_backend b wa ra jit) uid st = (r, st')"
  shows "\<forall>k \<in> {key, key @ META_SUFFIX}. depth versions k st \<le> Suc (depth versions k st')"
proof -
  let ?rm = "b2_rm_object b"
  obtain q s1 where q: "?rm key st = (q, s1)" by force
  obtain p s2 where p: "?rm (key @ META_SUFFIX) s1 = (p, s2)" by force
  have "st' = s2" using assms(3,4) q p
    by (auto simp: rm_version_def rm_pair_def b2_backend_def py_defs split: sum.splits if_splits)
  moreover note d1 = b2_rm_depth [OF assms(1,2) q]
  moreover have "distinct_ids versions s1" using d1 by blast
  note b2_rm_depth [OF assms(1) this p]
  moreover have "key \<noteq> key @ META_SUFFIX" by (simp add: META_SUFFIX_def)
  ultimately show ?thesis by auto
qed

section \<open>What the two services make of it\<close>

text \<open>A bucket of S3 as a dictionary, for the witness.\<close>

definition demo_s3 :: "(string, bytes) dict s3_bucket" where
  "demo_s3 = \<lparr> s3_put = (\<lambda>k d s. (Inr (), dict_set s k d)), s3_bucket_get = (\<lambda>s. (Inl AttributeError, s)),
     s3_load = (\<lambda>k s. (case dict_get s k of None \<Rightarrow> Inl (ClientError ''404'') | Some d \<Rightarrow> Inr (int (length d)), s)),
     s3_delete = (\<lambda>k s. (Inr (), dict_del s k)), s3_objects = (\<lambda>_ s. map (\<lambda>(k, d). (k, int (length d))) s) \<rparr>"

lemma demo_s3_laws: "s3_laws demo_s3 dict_get"
  by (auto simp: s3_laws_def demo_s3_def fun_eq_iff update_conv delete_conv' split: option.splits)

text \<open>C19: On S3, backups can be written and never be read. A block whose write succeeds is stored, with its
  data and metadata decodable from the bucket's objects, and still every read of it raises \<open>AttributeError\<close>, since
  \<open>_read_object\<close> calls \<open>get\<close> on the bucket and not on the object; reading the metadata alone never succeeds either, and
  with consistency checks switched on no write does.\<close>

theorem s3_blocks_unreadable:
  assumes "s3_laws b content" and "good_conf cf" and "key_uid (blk_uid blk)" and "blk_checksum blk = Some c" and "c \<noteq> []"
    and "int (length data) = blk_size blk" and "storage_write cf (s3_backend b) ts rnd blk data s = (Inr r, s')"
  shows "stored cf (content s') blk data \<and> \<not> consistency_check_writes cf \<and>
    storage_read cf (s3_backend b) blk False s' = (Inl AttributeError, s') \<and>
    (\<forall>x. fst (storage_read cf (s3_backend b) blk True s') \<noteq> Inr x)"
proof (intro conjI allI)
  obtain key where key: "block_to_path (md5_hex cf) (blk_uid blk) = Inr key"
    using block_to_path_Inr [OF assms(3)] by blast
  note fails = s3_read_fails [OF assms(1)]
  show "stored cf (content s') blk data"
    using object_writes.write_stores [OF s3_writes [OF assms(1)] assms(2-7)] by simp
  show "storage_read cf (s3_backend b) blk False s' = (Inl AttributeError, s')"
    using fails by (simp add: storage_read_def key py_defs)
  show "fst (storage_read cf (s3_backend b) blk True s') \<noteq> Inr x" for x
    using fails by (cases "be_read_length (s3_backend b) key s'"; cases "fst (be_read_length (s3_backend b) key s')")
      (simp_all add: storage_read_def key py_defs)
  have "check_write cf (s3_backend b) key d t = (Inl AttributeError, t)" for d t
    using fails by (simp add: check_write_def py_defs)
  then show "\<not> consistency_check_writes cf"
    using assms(7) by (auto simp: storage_write_def key py_defs split: prod.splits sum.splits)
qed

theorem s3_blocks_unreadable_witness:
  "\<exists>s'. storage_write (demo_conf\<lparr>consistency_check_writes := False\<rparr>) (s3_backend demo_s3) ''t'' 0 (demo_stored_block 0) [7, 8] [] =
       (Inr (demo_stored_block 0), s') \<and>
     stored (demo_conf\<lparr>consistency_check_writes := False\<rparr>) (dict_get s') (demo_stored_block 0) [7, 8] \<and>
     storage_read (demo_conf\<lparr>consistency_check_writes := False\<rparr>) (s3_backend demo_s3) (demo_stored_block 0) False s' =
       (Inl AttributeError, s')"
proof -
  let ?cf = "demo_conf\<lparr>consistency_check_writes := False\<rparr>" and ?b = "demo_stored_block 0"
  have good: "good_conf ?cf" using good_demo_conf by (simp add: good_conf_def)
  obtain key where key: "block_to_path (md5_hex demo_conf) (blk_uid ?b) = Inr key"
    using block_to_path_Inr [OF demo_block_facts(1)] by auto
  have wp: "write_pair (s3_backend demo_s3) k d mj s = (Inr (), dict_set (dict_set s k d) (k @ META_SUFFIX) mj)" for k d mj s
    by (simp add: write_pair_def s3_backend_def s3_write_object_def demo_s3_def py_defs)
  obtain s' where s': "storage_write ?cf (s3_backend demo_s3) ''t'' 0 ?b [7, 8] [] = (Inr ?b, s')"
  proof -
    obtain d tm where enc: "encapsulate ?cf 0 [7, 8] = (d, tm)" by force
    obtain m mj where bm: "build_metadata ?cf ''t'' (blk_size ?b) (int (length d)) tm (blk_checksum ?b) = (m, mj)" by force
    show thesis by (rule that) (simp add: storage_write_def enc bm key thenS_def bindS_def wp)
  qed
  from s3_blocks_unreadable [OF demo_s3_laws good _ demo_block_facts(2) _ _ s'] s' show ?thesis
    by (simp add: demo_block_facts)
qed

text \<open>
  A bucket of B2 for the witnesses: the outages still to come, and the versions of each file; the id of a new version is
  longer than those of the others.
\<close>

definition b2_serve :: "('v \<Rightarrow> 'a res \<times> 'v) \<Rightarrow> (exn, nat \<times> 'v, 'a) py" where
  "b2_serve f s = (case s of (0, vs) \<Rightarrow> (case f vs of (r, vs') \<Rightarrow> (r, 0, vs')) | (Suc m, vs) \<Rightarrow> (Inl B2Error, m, vs))"

definition demo_b2 :: "(nat \<times> (string \<Rightarrow> (string \<times> bytes) list)) b2_bucket" where
  "demo_b2 =
     \<lparr> b2_upload = (\<lambda>k d. b2_serve (\<lambda>vs. (Inr (), vs(k := (CHR ''v'' # concat (map fst (vs k)), d) # vs k)))),
       b2_download = (\<lambda>k. b2_serve (\<lambda>vs. (case vs k of [] \<Rightarrow> Inl FileNotPresent | (_, d) # _ \<Rightarrow> Inr d, vs))),
       b2_info = (\<lambda>k. b2_serve (\<lambda>vs. (case vs k of [] \<Rightarrow> Inl FileNotPresent | (i, d) # _ \<Rightarrow> Inr (i, k, int (length d)), vs))),
       b2_delete_version = (\<lambda>i k. b2_serve (\<lambda>vs. (Inr (), vs(k := filter (\<lambda>(j, _). j \<noteq> i) (vs k))))),
       b2_ls = (\<lambda>_ _. []) \<rparr>"

lemma demo_b2_laws: "b2_laws demo_b2 snd"
proof -
  have len: "x \<in> set xs \<Longrightarrow> length (fst x) \<le> length (concat (map fst xs))" for x and xs :: "(string \<times> bytes) list"
    by (induction xs) auto
  have fresh: "CHR ''v'' # concat (map fst xs) \<notin> fst ` set xs" for xs :: "(string \<times> bytes) list"
    using len [of _ xs] by fastforce
  have at: "\<exists>fid. fid \<notin> fst ` set xs \<and> CHR ''v'' # concat (map fst xs) = fid" for xs :: "(string \<times> bytes) list"
    by (rule exI, rule conjI, rule fresh) simp
  show ?thesis unfolding b2_laws_def
    by (intro conjI allI impI)
      (use at in \<open>fastforce simp: demo_b2_def b2_serve_def split: nat.splits list.splits\<close>)+
qed

text \<open>A write to B2 with a positive number of attempts uploads until an attempt succeeds, a failure is none of
  B2's errors, or the attempts are used up, and its outcome is that of the last attempt; all earlier ones failed with an error of
  B2. It sleeps once between any two attempts, with \<open>n\<close> retries at most \<open>2 ^ (n + 1) - 2 + n\<close> seconds in all.\<close>

theorem b2_write_attempts:
  assumes "1 \<le> attempts" and "\<And>m. jit m \<le> 1000" and "b2_write_object b attempts jit key data st = (r, st')"
  shows "\<exists>n s1 new. int n < attempts \<and> failed_attempts (\<lambda>_. None) (b2_upload b key data) n (b2_inner st) = Some s1 \<and>
     b2_upload b key data s1 = (r, b2_inner st') \<and> (\<forall>e. r = Inl e \<longrightarrow> is_b2_error e \<longrightarrow> int n + 1 = attempts) \<and>
     b2_slept st' = b2_slept st @ new \<and> length new = n \<and> sum_list new + 2000 \<le> 2 ^ (n + 1) * 1000 + n * 1000"
proof -
  have "int 0 < attempts" using assms(1) by simp
  from b2_attempts_result [OF this assms(3) [unfolded b2_write_object_def]] obtain n s1 q where
    n: "int n < attempts" "failed_attempts (\<lambda>_. None) (b2_upload b key data) n (b2_inner st) = Some s1"
      "b2_upload b key data s1 = (q, b2_inner st')" "r = attempt_result (\<lambda>_. None) q"
      "b2_slept st' = b2_slept st @ sleeps jit (length (b2_slept st)) 0 n"
      "\<forall>e. q = Inl e \<longrightarrow> is_b2_error e \<longrightarrow> int n + 1 = attempts" by auto
  have "r = q" using n(4) by (auto simp: attempt_result_def split: sum.splits)
  with n sleeps_bound [OF assms(2), where before = "length (b2_slept st)" and i = 0 and n = n] show ?thesis
    by (intro exI [of _ n] exI [of _ s1] exI [of _ "sleeps jit (length (b2_slept st)) 0 n"]) (auto simp: sleeps_def)
qed

text \<open>Two outages and three attempts.\<close>

theorem b2_write_attempts_witness:
  "\<exists>r st' n s1 new. b2_write_object demo_b2 3 (\<lambda>_. 500) ''k'' [1] \<lparr> b2_inner = (2, \<lambda>_. []), b2_slept = [] \<rparr> = (r, st') \<and>
     r = Inr () \<and> int n < (3 :: int) \<and> failed_attempts (\<lambda>_. None) (b2_upload demo_b2 ''k'' [1]) n (2, \<lambda>_. []) = Some s1 \<and>
     b2_slept st' = new \<and> length new = n \<and> sum_list new + 2000 \<le> 2 ^ (n + 1) * 1000 + n * 1000"
proof -
  let ?st = "\<lparr> b2_inner = (2 :: nat, \<lambda>_ :: string. [] :: (string \<times> bytes) list), b2_slept = [] \<rparr>"
  obtain r st' where w: "b2_write_object demo_b2 3 (\<lambda>_. 500) ''k'' [1] ?st = (r, st')" by force
  have range: "[0..<3] = [0, 1, 2 :: nat]" by code_simp
  have serve: "on_bucket (b2_upload demo_b2 k d) st =
      (case b2_inner st of (0, vs) \<Rightarrow> (Inr (), st\<lparr>b2_inner := (0, vs(k := (CHR ''v'' # concat (map fst (vs k)), d) # vs k))\<rparr>)
       | (Suc n, vs) \<Rightarrow> (Inl B2Error, st\<lparr>b2_inner := (n, vs)\<rparr>))" for k d st
    by (simp add: on_bucket_def demo_b2_def b2_serve_def split: prod.splits nat.splits)
  have "r = Inr ()" using w
    by (simp add: b2_write_object_def range serve b2_sleep_def numeral_2_eq_2)
  moreover from b2_write_attempts [OF _ _ w] obtain n s1 new where
    "int n < (3 :: int)" "failed_attempts (\<lambda>_. None) (b2_upload demo_b2 ''k'' [1]) n (2, \<lambda>_. []) = Some s1"
    "b2_slept st' = new" "length new = n" "sum_list new + 2000 \<le> 2 ^ (n + 1) * 1000 + n * 1000" by auto
  ultimately show ?thesis using w by blast
qed

text \<open>On B2, the metadata of a version that was written twice (a second export with \<open>overwrite\<close>) survives the
  removal of the version: \<open>rm_version\<close> deletes the newest version of the two objects only, so that an older one of each is
  there again.\<close>

theorem b2_removed_metadata_remains:
  assumes "b2_laws b versions" and "1 \<le> wa" and "distinct_ids versions st"
    and "version_to_path (md5_hex cf) uid = Inr key"
    and "write_version cf (b2_backend b wa ra jit) ts rnd uid text overwrite st = (Inr u, st1)"
    and "write_version cf (b2_backend b wa ra jit) ts' rnd' uid text' True st1 = (Inr u', st2)"
    and "rm_version cf (b2_backend b wa ra jit) uid st2 = (r, st3)"
  shows "versions (b2_inner st3) key \<noteq> [] \<and> versions (b2_inner st3) (key @ META_SUFFIX) \<noteq> []"
proof -
  note w1 = b2_write_version_depth [OF assms(1-5)]
  then have "distinct_ids versions st1" by blast
  note w2 = b2_write_version_depth [OF assms(1,2) this assms(4,6)]
  then have "distinct_ids versions st2" by blast
  note rm = b2_rm_version_depth [OF assms(1) this assms(4,7)]
  have "2 \<le> depth versions k st2" if "k \<in> {key, key @ META_SUFFIX}" for k
    using w1 w2 that by fastforce
  then have "1 \<le> depth versions k st3" if "k \<in> {key, key @ META_SUFFIX}" for k
    using rm that by fastforce
  then have "1 \<le> depth versions key st3" "1 \<le> depth versions (key @ META_SUFFIX) st3" by simp_all
  then show ?thesis by (auto simp: depth_def)
qed

theorem b2_removed_metadata_remains_witness:
  "\<exists>key st1 st2 st3.
     write_version (demo_conf\<lparr>consistency_check_writes := False\<rparr>) (b2_backend demo_b2 3 3 (\<lambda>_. 0)) ''t'' 0 ''v1'' ''a'' True
       \<lparr> b2_inner = (0, \<lambda>_. []), b2_slept = [] \<rparr> = (Inr (), st1) \<and>
     write_version (demo_conf\<lparr>consistency_check_writes := False\<rparr>) (b2_backend demo_b2 3 3 (\<lambda>_. 0)) ''t'' 0 ''v1'' ''b'' True st1
       = (Inr (), st2) \<and>
     rm_version (demo_conf\<lparr>consistency_check_writes := False\<rparr>) (b2_backend demo_b2 3 3 (\<lambda>_. 0)) ''v1'' st2 = (Inr (), st3) \<and>
     snd (b2_inner st3) key \<noteq> []"
proof -
  let ?cf = "demo_conf\<lparr>consistency_check_writes := False\<rparr>" and ?be = "b2_backend demo_b2 3 3 (\<lambda>_. 0)"
  let ?st = "\<lparr> b2_inner = (0 :: nat, \<lambda>_ :: string. [] :: (string \<times> bytes) list), b2_slept = [] \<rparr>"
  obtain key where key: "version_to_path (md5_hex demo_conf) ''v1'' = Inr key"
    by (simp add: version_to_path_def to_path_def Let_def encode_ascii_def)
  let ?s = "\<lambda>vs. \<lparr> b2_inner = (0 :: nat, vs :: string \<Rightarrow> (string \<times> bytes) list), b2_slept = [] \<rparr>"
  have up: "\<exists>vs'. be_write ?be k d (?s vs) = (Inr (), ?s vs')" for k d vs
    by (simp add: b2_backend_def b2_write_object_def demo_b2_def b2_serve_def on_bucket_def upt_rec)
  have wp: "\<exists>vs'. write_pair ?be k d mj (?s vs) = (Inr (), ?s vs')" for k d mj vs
  proof -
    obtain v where v: "be_write ?be k d (?s vs) = (Inr (), ?s v)" using up by blast
    obtain w where "be_write ?be (k @ META_SUFFIX) mj (?s v) = (Inr (), ?s w)" using up by blast
    with v show ?thesis by (simp add: write_pair_def thenS_def bindS_def exceptS_def)
  qed
  have wr: "\<exists>vs'. write_version ?cf ?be ''t'' 0 ''v1'' x True (?s vs) = (Inr (), ?s vs')" for x vs
  proof -
    obtain d tm where enc: "encapsulate ?cf 0 (encode_utf8 x) = (d, tm)" by force
    obtain m mj where bm: "build_metadata ?cf ''t'' (int (length (encode_utf8 x))) (int (length d)) tm None = (m, mj)" by force
    obtain v where "write_pair ?be key d mj (?s vs) = (Inr (), ?s v)" using wp by blast
    then show ?thesis by (simp add: write_version_def enc bm key thenS_def bindS_def Let_def)
  qed
  obtain v1 where 1: "write_version ?cf ?be ''t'' 0 ''v1'' ''a'' True ?st = (Inr (), ?s v1)" using wr by blast
  obtain v2 where 2: "write_version ?cf ?be ''t'' 0 ''v1'' ''b'' True (?s v1) = (Inr (), ?s v2)" using wr by blast
  have key': "version_to_path (md5_hex ?cf) ''v1'' = Inr key" using key by simp
  have d0: "distinct_ids snd ?st" by (simp add: distinct_ids_def)
  note w1 = b2_write_version_depth [OF demo_b2_laws _ d0 key' 1]
  then have d1: "distinct_ids snd (?s v1)" by simp
  have "v2 key \<noteq> []" using b2_write_version_depth [OF demo_b2_laws _ d1 key' 2] by (auto simp: depth_def)
  then obtain v3 where 3: "be_rm ?be key (?s v2) = (Inr (), ?s v3)"
    by (cases "v2 key") (auto simp: b2_backend_def b2_rm_object_def demo_b2_def b2_serve_def on_bucket_def py_defs)
  have "fst (be_rm ?be k (?s v3)) \<in> {Inr (), Inl FileNotFoundError}" for k
    by (auto simp: b2_backend_def b2_rm_object_def demo_b2_def b2_serve_def on_bucket_def py_defs split: list.splits)
  then have rm: "fst (be_rm ?be (key @ META_SUFFIX) (?s v3)) \<in> {Inr (), Inl FileNotFoundError}" .
  obtain q st3' where q: "be_rm ?be (key @ META_SUFFIX) (?s v3) = (q, st3')" by force
  with rm have "q = Inr () \<or> q = Inl FileNotFoundError" by simp
  then obtain st3 where st3: "rm_version ?cf ?be ''v1'' (?s v2) = (Inr (), st3)"
    using 3 q by (auto simp: rm_version_def rm_pair_def key py_defs)
  from b2_removed_metadata_remains [OF demo_b2_laws _ d0 key' 1 2 st3]
  have "snd (b2_inner st3) key \<noteq> []" by simp
  with 1 2 st3 show ?thesis by blast
qed

end
