(* ===== verification/Import_Export.thy ===== *)
theory Import_Export
  imports Version_Ops Rest
begin

text \<open>
  \<open>_Database.export\<close> with its encoder and \<open>_Database.import_\<close> with the three readers of \<open>database.py\<close>: the metadata
  of versions as a JSON document. The text form, semantic versions, dates and the parameters of a query are third-party
  code and belong to the record \<open>import_env\<close>.
\<close>

section \<open>JSON documents as Python values\<close>

definition is_infix :: "string \<Rightarrow> string \<Rightarrow> bool" where
  "is_infix k s \<longleftrightarrow> list_ex (\<lambda>i. take (length k) (drop i s) = k) [0..<Suc (length s)]"

text \<open>\<open>key in value\<close>, \<open>value[key]\<close> (\<open>json_item\<close>), and \<open>for x in value\<close>.\<close>

definition py_in :: "string \<Rightarrow> json \<Rightarrow> bool res" where
  "py_in k j =
     (case j of
        JDict d \<Rightarrow> Inr (dict_get d k \<noteq> None)
      | JList xs \<Rightarrow> Inr (JStr k \<in> set xs)
      | JStr s \<Rightarrow> Inr (is_infix k s)
      | _ \<Rightarrow> Inl TypeError)"

definition py_iter :: "json \<Rightarrow> json list res" where
  "py_iter j =
     (case j of
        JDict d \<Rightarrow> Inr (map JStr (dict_keys d))
      | JList xs \<Rightarrow> Inr xs
      | JStr s \<Rightarrow> Inr (map (\<lambda>c. JStr [c]) s)
      | _ \<Rightarrow> Inl TypeError)"

text \<open>Checks that end in an exception: \<open>guard\<close> and a loop over them.\<close>

definition guard :: "bool \<Rightarrow> exn \<Rightarrow> unit res" where
  "guard b e = (if b then Inr () else Inl e)"

definition andthen :: "unit res \<Rightarrow> 'a res \<Rightarrow> 'a res" where
  "andthen m k = bind_res m (\<lambda>_. k)"

fun all_res :: "('a \<Rightarrow> unit res) \<Rightarrow> 'a list \<Rightarrow> unit res" where
  "all_res f [] = Inr ()"
| "all_res f (x # xs) = andthen (f x) (all_res f xs)"

text \<open>\<open>for attribute in attributes: if attribute not in value: raise InputDataError\<close>.\<close>

definition require_attributes :: "string list \<Rightarrow> json \<Rightarrow> unit res" where
  "require_attributes ks j = all_res (\<lambda>k. bind_res (py_in k j) (\<lambda>present. guard present InputDataError)) ks"

section \<open>Environment of an import\<close>

text \<open>
  \<open>ie_load\<close>: \<open>json.load\<close>. \<open>ie_version\<close>: \<open>semantic_version.Version\<close> of a string, as its major and minor part.
  \<open>ie_supported\<close>: membership in the supported range, by major and minor part. \<open>ie_bind\<close>: the string the database compares names with, for a
  parameter of another type. \<open>ie_date\<close>: \<open>strptime\<close> on a string. \<open>ie_session_get\<close>: what \<open>Session.get\<close> with one argument raises.
\<close>

record import_env =
  ie_load :: "string \<Rightarrow> json res"
  ie_version :: "string \<Rightarrow> (int \<times> int) res"
  ie_supported :: "int \<times> int \<Rightarrow> bool"
  ie_bind :: "json \<Rightarrow> string option res"
  ie_date :: "string \<Rightarrow> int res"
  ie_session_get :: exn

text \<open>\<open>InputValidation\<close> on a value that need not be a string: \<open>re.fullmatch\<close> raises \<open>TypeError\<close>.\<close>

definition on_str :: "(string \<Rightarrow> bool res) \<Rightarrow> json \<Rightarrow> bool res" where
  "on_str p j = (case j of JStr s \<Rightarrow> p s | _ \<Rightarrow> Inl TypeError)"

definition version_uid_of :: "json \<Rightarrow> string res" where
  "version_uid_of j = (case j of JStr s \<Rightarrow> VersionUid s | _ \<Rightarrow> Inl InternalError)"

definition status_of_name :: "json \<Rightarrow> version_status res" where
  "status_of_name j =
     (case j of
        JStr s \<Rightarrow> if s = ''incomplete'' then Inr incomplete else if s = ''valid'' then Inr valid
                  else if s = ''invalid'' then Inr invalid else Inl KeyError
      | JList _ \<Rightarrow> Inl TypeError
      | JDict _ \<Rightarrow> Inl TypeError
      | _ \<Rightarrow> Inl KeyError)"

definition date_of :: "import_env \<Rightarrow> json \<Rightarrow> int res" where
  "date_of E j = (case j of JStr s \<Rightarrow> ie_date E s | _ \<Rightarrow> Inl TypeError)"

section \<open>import_v3\<close>

definition v3_attributes :: "string list" where
  "v3_attributes = [''date'', ''volume'', ''snapshot'', ''size'', ''storage'', ''block_size'', ''status'', ''protected'',
     ''blocks'', ''labels'', ''bytes_read'', ''bytes_written'', ''bytes_deduplicated'', ''bytes_sparse'', ''duration'']"

text \<open>
  The columns and relationships of the class \<open>Version\<close>. Its declarative constructor sets the keyword arguments one by one and raises
  \<open>TypeError\<close> for one that is no attribute of the class.
\<close>

definition version_columns :: "string list" where
  "version_columns = [''id'', ''uid'', ''volume'', ''volume_name'', ''job_name'', ''snapshot'', ''size'', ''block_size'', ''storage_id'',
     ''storage'', ''status'', ''protected'', ''bytes_read'', ''bytes_written'', ''bytes_deduplicated'', ''bytes_sparse'', ''duration'', ''deleted'',
     ''created_at'', ''expired_at'', ''deleted_at'', ''labels'', ''vm_id'', ''vm'']"

definition construct_version :: "string list \<Rightarrow> unit res" where
  "construct_version kwargs = all_res (\<lambda>k. guard (k \<in> set version_columns) TypeError) kwargs"

definition v3_kwargs :: "string list" where
  "v3_kwargs = [''uid'', ''date'', ''volume'', ''snapshot'', ''size'', ''storage'', ''block_size'', ''status'', ''protected'',
     ''bytes_read'', ''bytes_written'', ''bytes_deduplicated'', ''bytes_sparse'', ''duration'']"

text \<open>The error for an invalid volume name reads \<open>version_dict['name']\<close>.\<close>

definition check_volume :: "json \<Rightarrow> unit res" where
  "check_volume vd =
     bind_res (json_item vd ''volume'') (\<lambda>volume.
     bind_res (on_str (\<lambda>s. Inr (is_volume_name s)) volume) (\<lambda>good.
     if good then Inr () else bind_res (json_item vd ''name'') (\<lambda>_. Inl InputDataError)))"

definition check_snapshot :: "json \<Rightarrow> unit res" where
  "check_snapshot vd =
     bind_res (json_item vd ''snapshot'') (\<lambda>snapshot.
     bind_res (on_str (\<lambda>s. Inr (is_snapshot_name s)) snapshot) (\<lambda>good. guard good InputDataError))"

definition check_labels :: "json \<Rightarrow> unit res" where
  "check_labels labels =
     (case labels of
        JDict d \<Rightarrow>
          all_res (\<lambda>(name, v).
            bind_res (is_label_name name) (\<lambda>good.
            andthen (guard good InputDataError)
              (bind_res (on_str (\<lambda>s. Inr (is_label_value s)) v) (\<lambda>good. guard good InputDataError)))) d
      | _ \<Rightarrow> Inl InputDataError)"

definition check_blocks :: "json \<Rightarrow> unit res" where
  "check_blocks bs =
     (case bs of
        JList xs \<Rightarrow>
          all_res (\<lambda>b. case b of
                     JDict _ \<Rightarrow> require_attributes [''uid'', ''size'', ''valid'', ''checksum''] b
                   | _ \<Rightarrow> Inl InputDataError) xs
      | _ \<Rightarrow> Inl InputDataError)"

definition find_storage :: "import_env \<Rightarrow> json \<Rightarrow> database \<Rightarrow> storage_row option res" where
  "find_storage E name d =
     bind_res (case name of JStr s \<Rightarrow> Inr (Some s) | JNull \<Rightarrow> Inr None | _ \<Rightarrow> ie_bind E name) (\<lambda>n.
     one_or_none (\<lambda>r. n = Some (sto_name r)) (db_storages d))"

text \<open>One element of the list of versions, up to the construction of its row, after which nothing is reached.\<close>

definition import_v3_version :: "import_env \<Rightarrow> database \<Rightarrow> json \<Rightarrow> string res" where
  "import_v3_version E d vd =
     (case vd of
        JDict _ \<Rightarrow>
          bind_res (py_in ''uid'' vd) (\<lambda>present.
          andthen (guard present InputDataError)
          (bind_res (json_item vd ''uid'') (\<lambda>u.
          bind_res (version_uid_of u) (\<lambda>uid.
          andthen (require_attributes v3_attributes vd)
          (andthen (check_volume vd)
          (andthen (check_snapshot vd)
          (bind_res (json_item vd ''labels'') (\<lambda>labels.
          bind_res (json_item vd ''blocks'') (\<lambda>bs.
          andthen (guard (case labels of JDict _ \<Rightarrow> True | _ \<Rightarrow> False) InputDataError)
          (andthen (guard (case bs of JList _ \<Rightarrow> True | _ \<Rightarrow> False) InputDataError)
          (andthen (check_labels labels)
          (andthen (check_blocks bs)
          (bind_res (json_item vd ''storage'') (\<lambda>name.
          bind_res (find_storage E name d) (\<lambda>storage.
          andthen (guard (storage \<noteq> None) InputDataError)
          (andthen (case get_by_uid uid d of Inl _ \<Rightarrow> Inr () | Inr _ \<Rightarrow> Inl FileExistsError)
          (bind_res (json_item vd ''date'') (\<lambda>date.
          bind_res (date_of E date) (\<lambda>_.
          bind_res (json_item vd ''status'') (\<lambda>status.
          bind_res (status_of_name status) (\<lambda>_.
          andthen (construct_version v3_kwargs) (Inr uid))))))))))))))))))))))
      | _ \<Rightarrow> Inl InputDataError)"

definition import_v3 :: "import_env \<Rightarrow> database \<Rightarrow> json \<Rightarrow> string list res" where
  "import_v3 E d j =
     bind_res (json_item j ''versions'') (\<lambda>vs. bind_res (py_iter vs) (map_res (import_v3_version E d)))"

section \<open>import_v1 and import_v2\<close>

text \<open>\<open>f'V{uid:010d}'\<close>: only integers (and booleans) have this format.\<close>

definition pad_left :: "nat \<Rightarrow> string \<Rightarrow> string" where
  "pad_left n s = replicate (n - length s) CHR ''0'' @ s"

definition format_010d :: "int \<Rightarrow> string" where
  "format_010d i = (if i < 0 then CHR ''-'' # pad_left 9 (str_nat (nat (- i))) else pad_left 10 (str_nat (nat i)))"

definition v1_uid :: "json \<Rightarrow> string res" where
  "v1_uid j =
     (case j of
        JInt i \<Rightarrow> Inr (CHR ''V'' # format_010d i)
      | JBool b \<Rightarrow> Inr (CHR ''V'' # format_010d (if b then 1 else 0))
      | JStr _ \<Rightarrow> Inl ValueError
      | JFloat _ \<Rightarrow> Inl ValueError
      | _ \<Rightarrow> Inl TypeError)"

definition dict_part :: "json \<Rightarrow> (string, json) dict" where
  "dict_part j = (case j of JDict d \<Rightarrow> d | _ \<Rightarrow> [])"

text \<open>The list of labels, each with a name that can be a key of a dictionary.\<close>

definition v1_label :: "json \<Rightarrow> unit res" where
  "v1_label l =
     (case l of
        JDict _ \<Rightarrow>
          andthen (require_attributes [''name'', ''value''] l)
            (bind_res (json_item l ''name'') (\<lambda>n. case n of JList _ \<Rightarrow> Inl TypeError | JDict _ \<Rightarrow> Inl TypeError | _ \<Rightarrow> Inr ()))
      | _ \<Rightarrow> Inl InputDataError)"

text \<open>\<open>block_dict['idx'] = block_dict['id']\<close> on something that only contains the string \<open>id\<close> is a \<open>TypeError\<close>.\<close>

definition v1_block :: "json \<Rightarrow> unit res" where
  "v1_block b =
     bind_res (py_in ''id'' b) (\<lambda>present.
     andthen (guard present InputDataError) (case b of JDict _ \<Rightarrow> Inr () | _ \<Rightarrow> Inl TypeError))"

definition v1_list :: "json \<Rightarrow> (json \<Rightarrow> unit res) \<Rightarrow> unit res" where
  "v1_list j f = (case j of JList xs \<Rightarrow> all_res f xs | _ \<Rightarrow> Inl InputDataError)"

text \<open>
  One element of the list, up to \<open>Session.get(version_dict['storage_id'])\<close>, which lacks the class it is to look up. Where the statistics are not faked
  (\<open>minor\<close> is not 0), \<open>bytes_dedup\<close> is read without a check.
\<close>

definition import_v1_version :: "import_env \<Rightarrow> int \<Rightarrow> json \<Rightarrow> unit res" where
  "import_v1_version E minor vd =
     (case vd of
        JDict d \<Rightarrow>
          bind_res (py_in ''uid'' vd) (\<lambda>present.
          andthen (guard present InputDataError)
          (bind_res (json_item vd ''uid'') (\<lambda>u.
          bind_res (v1_uid u) (\<lambda>uid.
          bind_res (VersionUid uid) (\<lambda>_.
          andthen (require_attributes [''labels'', ''blocks'', ''date'', ''storage_id'', ''name''] vd)
          (andthen (if minor = 0 then Inr () else bind_res (json_item vd ''bytes_dedup'') (\<lambda>_. Inr ()))
          (bind_res (json_item vd ''labels'') (\<lambda>labels.
          andthen (v1_list labels v1_label)
          (bind_res (json_item vd ''blocks'') (\<lambda>bs.
          andthen (v1_list bs v1_block)
          (bind_res (json_item vd ''date'') (\<lambda>date.
          andthen (guard (case date of JStr _ \<Rightarrow> True | _ \<Rightarrow> False) InputDataError)
            (Inl (ie_session_get E))))))))))))))
      | _ \<Rightarrow> Inl InputDataError)"

text \<open>
  Since no element is converted successfully, the call of \<open>import_v3\<close> at the end is reached with an empty list only.
\<close>

definition import_v1 :: "import_env \<Rightarrow> database \<Rightarrow> int \<times> int \<Rightarrow> json \<Rightarrow> string list res" where
  "import_v1 E d ver j =
     bind_res (json_item j ''versions'') (\<lambda>vs.
     bind_res (py_iter vs) (\<lambda>xs. andthen (all_res (import_v1_version E (snd ver)) xs) (import_v3 E d j)))"

definition import_v2 :: "import_env \<Rightarrow> database \<Rightarrow> json \<Rightarrow> string list res" where
  "import_v2 E d j = import_v3 E d j"

section \<open>import_\<close>

definition METADATA_VERSION_KEY :: string where "METADATA_VERSION_KEY = ''metadata_version''"

text \<open>\<open>re.fullmatch(r'\d+\.\d+\.\d+', metadata_version)\<close>.\<close>

definition metadata_version_matches :: "string \<Rightarrow> bool" where
  "metadata_version_matches s \<longleftrightarrow>
     (case split_on CHR ''.'' s of
        [a, b, c] \<Rightarrow> list_all (\<lambda>p. p \<noteq> [] \<and> list_all (\<lambda>ch. ch \<in> set digits) p) [a, b, c]
      | _ \<Rightarrow> False)"

text \<open>The reader chosen by the major part.\<close>

definition import_method :: "import_env \<Rightarrow> database \<Rightarrow> int \<times> int \<Rightarrow> json \<Rightarrow> string list res" where
  "import_method E d ver j =
     (if fst ver = 1 then import_v1 E d ver j
      else if fst ver = 2 then import_v2 E d j
      else if fst ver = 3 then import_v3 E d j
      else Inl InputDataError)"

definition read_version_number :: "import_env \<Rightarrow> json \<Rightarrow> (int \<times> int) res" where
  "read_version_number E j =
     bind_res (py_in METADATA_VERSION_KEY j) (\<lambda>present.
     andthen (guard present InputDataError)
     (bind_res (json_item j METADATA_VERSION_KEY) (\<lambda>m.
     bind_res (on_str (\<lambda>s. Inr (metadata_version_matches s)) m) (\<lambda>good.
     andthen (guard good InputDataError)
     (bind_res (case m of JStr s \<Rightarrow> ie_version E s | _ \<Rightarrow> Inl TypeError) (\<lambda>ver.
     andthen (guard (ie_supported E ver) InputDataError) (Inr ver)))))))"

definition import_doc :: "import_env \<Rightarrow> json \<Rightarrow> (exn, session, string list) py" where
  "import_doc E j s =
     (case read_version_number E j of
        Inl e \<Rightarrow> (Inl e, s)
      | Inr ver \<Rightarrow>
          if fst ver \<notin> {1, 2, 3} then (Inl InputDataError, s)
          else (case import_method E (working s) ver j of
                  Inl e \<Rightarrow> (Inl e, rollback s)
                | Inr uids \<Rightarrow> (Inr uids, commit s)))"

definition import_text :: "import_env \<Rightarrow> string \<Rightarrow> (exn, session, string list) py" where
  "import_text E text s =
     (case ie_load E text of
        Inl _ \<Rightarrow> (Inl InputDataError, s)
      | Inr j \<Rightarrow> if j = JNull then (Inl InputDataError, s) else import_doc E j s)"

section \<open>Export\<close>

text \<open>
  What the encoder needs beside the tables: \<open>xe_iso\<close> is \<open>isoformat(timespec='microseconds')\<close>, and the columns the model's rows leave out (times, names and flags
  of the web service) come as values by name. \<open>xe_vms\<close> and \<open>xe_users\<close> are the tables the relationships lead to.
\<close>

record export_env =
  xe_iso :: "int \<Rightarrow> string"
  xe_version_extra :: "version \<Rightarrow> string \<Rightarrow> json"
  xe_vm_created_at :: "vm_row \<Rightarrow> json"
  xe_user_miq_id :: "user \<Rightarrow> json"
  xe_vms :: "vm_row list"
  xe_users :: "user list"

definition json_opt :: "('a \<Rightarrow> json) \<Rightarrow> 'a option \<Rightarrow> json" where
  "json_opt f x = (case x of None \<Rightarrow> JNull | Some a \<Rightarrow> f a)"

text \<open>\<open>enum.Enum\<close>: the name of the member.\<close>

fun status_name :: "version_status \<Rightarrow> string" where
  "status_name incomplete = ''incomplete''" | "status_name valid = ''valid''" | "status_name invalid = ''invalid''"

fun role_name :: "role \<Rightarrow> string" where
  "role_name USER = ''USER''" | "role_name ADMIN_IT = ''ADMIN_IT''" | "role_name ADMIN = ''ADMIN''"

text \<open>
  The names of fields to leave out. For versions they are the string \<open>('storage_id')\<close>, not a tuple, so that every field whose name occurs in it goes.
\<close>

datatype field_names = Names "string list" | NameString string

definition in_names :: "string \<Rightarrow> field_names \<Rightarrow> bool" where
  "in_names k ns = (case ns of Names xs \<Rightarrow> k \<in> set xs | NameString s \<Rightarrow> is_infix k s)"

definition drop_fields :: "field_names list \<Rightarrow> (string \<times> json) list \<Rightarrow> (string \<times> json) list" where
  "drop_fields ignore cols = filter (\<lambda>(k, _). \<not> list_ex (in_names k) ignore) cols"

definition block_ignore :: "field_names list" where
  "block_ignore = [Names [''version_id''], Names [''uid_left'', ''uid_right'']]"

definition version_ignore :: "field_names list" where
  "version_ignore = [NameString ''storage_id'']"

definition block_json :: "block \<Rightarrow> json" where
  "block_json b =
     JDict (drop_fields block_ignore
       [(''uid'', JDict [(''left'', json_opt JInt (uid_left (blk_uid b))), (''right'', json_opt JInt (uid_right (blk_uid b)))]),
        (''idx'', JInt (blk_idx b)), (''uid_right'', json_opt JInt (uid_right (blk_uid b))),
        (''uid_left'', json_opt JInt (uid_left (blk_uid b))), (''size'', JInt (blk_size b)),
        (''version_id'', JInt (blk_version_id b)), (''valid'', JBool (blk_valid b)), (''checksum'', json_opt JStr (blk_checksum b))])"

text \<open>The relationships \<open>vm\<close> and \<open>user\<close> are followed, with all columns.\<close>

definition user_json :: "export_env \<Rightarrow> user \<Rightarrow> json" where
  "user_json X u =
     JDict [(''id'', JInt (usr_id u)), (''miq_id'', xe_user_miq_id X u), (''fullname'', JStr (usr_fullname u)), (''email'', JStr (usr_email u)),
       (''user_name'', JStr (usr_name u)), (''status'', json_opt JBool (usr_active u)), (''password'', JStr (usr_password u)),
       (''enable_two_factors'', json_opt JBool (usr_two_factors u)), (''user_role'', JStr (role_name (usr_role u)))]"

definition vm_json :: "export_env \<Rightarrow> vm_row \<Rightarrow> json" where
  "vm_json X m =
     JDict [(''id'', JInt (vm_id m)), (''name'', JStr (vm_name m)), (''ems_ref'', json_opt JStr (vm_ems_ref m)),
       (''created_at'', xe_vm_created_at X m), (''user_id'', JInt (vm_user_id m)),
       (''user'', json_opt (user_json X) (find_user (vm_user_id m) (xe_users X)))]"

definition version_json :: "export_env \<Rightarrow> database \<Rightarrow> version \<Rightarrow> json" where
  "version_json X d v =
     JDict
       (drop_fields version_ignore
          [(''id'', JInt (ver_id v)), (''uid'', JStr (ver_uid v)), (''volume'', JStr (ver_volume v)),
           (''volume_name'', xe_version_extra X v ''volume_name''), (''job_name'', xe_version_extra X v ''job_name''),
           (''snapshot'', JStr (ver_snapshot v)), (''size'', JInt (ver_size v)), (''block_size'', JInt (ver_block_size v)),
           (''storage_id'', JInt (ver_storage_id v)), (''status'', JStr (status_name (ver_status v))), (''protected'', JBool (ver_protected v)),
           (''bytes_read'', json_opt JInt (ver_bytes_read v)), (''bytes_written'', json_opt JInt (ver_bytes_written v)),
           (''bytes_deduplicated'', json_opt JInt (ver_bytes_deduplicated v)), (''bytes_sparse'', json_opt JInt (ver_bytes_sparse v)),
           (''duration'', json_opt JInt (ver_duration v)), (''deleted'', xe_version_extra X v ''deleted''),
           (''created_at'', JStr (xe_iso X (ver_created_at v) @ ''Z'')), (''expired_at'', xe_version_extra X v ''expired_at''),
           (''deleted_at'', xe_version_extra X v ''deleted_at''), (''vm_id'', JInt (ver_vm_id v))] @
        [(''storage'', json_opt (\<lambda>r. JStr (sto_name r)) (find (\<lambda>r. sto_id r = ver_storage_id v) (db_storages d))),
         (''vm'', json_opt (vm_json X) (find (\<lambda>m. vm_id m = ver_vm_id v) (xe_vms X))),
         (''labels'', JDict (map (\<lambda>l. (lbl_name l, JStr (lbl_value l))) (filter (\<lambda>l. lbl_version_id l = ver_id v) (db_labels d)))),
         (''blocks'', JList (map block_json (blocks v d)))])"

text \<open>\<open>export_any\<close> puts the version of the format first; \<open>export_data\<close> returns a plain dictionary less some keys.\<close>

definition with_metadata_version :: "(string \<times> json) list \<Rightarrow> (string \<times> json) list" where
  "with_metadata_version doc = (METADATA_VERSION_KEY, JStr ''3.0.0'') # dict_del doc METADATA_VERSION_KEY"

definition export_doc :: "export_env \<Rightarrow> database \<Rightarrow> version list \<Rightarrow> json" where
  "export_doc X d vs = JDict (with_metadata_version [(''versions'', JList (map (version_json X d) vs))])"

definition export_data :: "(string \<times> json) list \<Rightarrow> string list \<Rightarrow> (string \<times> json) list" where
  "export_data doc ignore_fields = filter (\<lambda>(k, _). k \<notin> set ignore_fields) (with_metadata_version doc)"

section \<open>Restoring metadata\<close>

definition metadata_restore :: "env \<Rightarrow> import_env \<Rightarrow> string \<Rightarrow> string list \<Rightarrow> (exn, engine, unit) py" where
  "metadata_restore E I n uids =
     under_locks E ''Restoring version metadata'' uids
       (for_each (\<lambda>u. bindS (on_store n (read_version (env_cf E n) file_backend u))
          (\<lambda>text. bindS (on_session (import_text I text)) (\<lambda>_. returnS ()))) uids)"

section \<open>No version is ever imported\<close>

lemma andthen_simps [simp]: "andthen (Inl e) k = Inl e" "andthen (Inr ()) k = k"
  by (simp_all add: andthen_def)

lemma andthen_Inr: "andthen m k = Inr x \<longleftrightarrow> m = Inr () \<and> k = Inr x"
  by (cases m) (simp_all add: andthen_def)

lemma construct_fails: "construct_version v3_kwargs = Inl TypeError"
  by (simp add: construct_version_def v3_kwargs_def version_columns_def guard_def)

lemma import_v3_version_fails: "import_v3_version E d vd \<noteq> Inr uid"
  by (cases vd) (simp_all add: import_v3_version_def construct_fails bind_res_eq_Inr andthen_Inr)

lemma import_v1_version_fails: "import_v1_version E minor vd \<noteq> Inr ()"
  by (cases vd) (simp_all add: import_v1_version_def bind_res_eq_Inr andthen_Inr)

lemma map_res_none: "(\<And>x y. f x \<noteq> Inr y) \<Longrightarrow> map_res f xs = Inr ys \<longleftrightarrow> xs = [] \<and> ys = []"
  by (cases xs) (auto simp: bind_res_eq_Inr)

lemma import_method_empty:
  assumes "import_method E d ver j = Inr uids"
  shows "uids = []"
proof -
  have v3: "us = []" if "import_v3 E d j = Inr us" for us
    using that by (auto simp: import_v3_def bind_res_eq_Inr map_res_none import_v3_version_fails)
  with assms show ?thesis
    by (auto simp: import_method_def import_v1_def import_v2_def bind_res_eq_Inr andthen_Inr split: if_splits)
qed

lemma import_doc_outcome:
  assumes "import_doc E j s = (r, s')"
  shows "(\<exists>e. r = Inl e \<and> (s' = s \<or> s' = rollback s)) \<or> r = Inr [] \<and> s' = commit s"
proof (cases "read_version_number E j")
  case (Inl e)
  with assms show ?thesis by (auto simp: import_doc_def)
next
  case (Inr ver)
  show ?thesis
  proof (cases "fst ver \<in> {1, 2, 3}")
    case False
    with assms Inr show ?thesis by (auto simp: import_doc_def)
  next
    case True
    then have run: "import_doc E j s =
        (case import_method E (working s) ver j of Inl e \<Rightarrow> (Inl e, rollback s) | Inr uids \<Rightarrow> (Inr uids, commit s))"
      using Inr by (simp add: import_doc_def)
    show ?thesis
    proof (cases "import_method E (working s) ver j")
      case (Inr uids)
      with run assms import_method_empty [OF Inr] show ?thesis by simp
    qed (use run assms in simp)
  qed
qed

text \<open>C20: Importing metadata never imports a version. Whatever the file holds, in any of the three formats,
  the import either raises, and leaves the session as it was or rolls it back, or it returns an empty list; no row is ever added, since
  every element that passes the checks ends in the constructor of \<open>Version\<close>, which has no attribute \<open>date\<close> (format 1 fails
  before, in \<open>Session.get\<close>).\<close>

theorem import_adds_nothing:
  assumes "import_text E text s = (r, s')"
  shows "(\<exists>e. r = Inl e \<and> (s' = s \<or> s' = rollback s)) \<or> r = Inr [] \<and> s' = commit s"
  using assms by (cases "ie_load E text") (auto simp: import_text_def dest: import_doc_outcome split: if_splits)

text \<open>A document for a new version that passes every check, an environment that reads it, and an empty database with its storage.\<close>

definition demo_import_doc :: json where
  "demo_import_doc = JDict [(''metadata_version'', JStr ''3.0.0''), (''versions'', JList [JDict
     [(''uid'', JStr ''v1''), (''date'', JStr ''d''), (''volume'', JStr ''vol''), (''snapshot'', JStr []), (''size'', JInt 8),
      (''storage'', JStr ''s''), (''block_size'', JInt 4), (''status'', JStr ''valid''), (''protected'', JBool False),
      (''blocks'', JList []), (''labels'', JDict [(''a'', JStr ''b'')]), (''bytes_read'', JNull), (''bytes_written'', JNull),
      (''bytes_deduplicated'', JNull), (''bytes_sparse'', JNull), (''duration'', JNull)]])]"

definition demo_import_env :: import_env where
  "demo_import_env = \<lparr> ie_load = (\<lambda>t. if t = ''doc'' then Inr demo_import_doc else Inl ValueError), ie_version = (\<lambda>_. Inr (3, 0)),
     ie_supported = (\<lambda>v. v = (3, 0)), ie_bind = (\<lambda>_. Inr None), ie_date = (\<lambda>_. Inr 0), ie_session_get = AttributeError \<rparr>"

definition demo_import_session :: session where
  "demo_import_session =
     (let d = \<lparr> db_versions = [], db_blocks = [], db_labels = [], db_deleted = [], db_locks = [],
          db_storages = [\<lparr> sto_id = 1, sto_name = ''s'', sto_module = ''file'' \<rparr>] \<rparr>
      in \<lparr> working = d, committed = d, clock = (\<lambda>_. 0), tick = 0, last_timed_commit = 0 \<rparr>)"

theorem import_adds_nothing_witness:
  "\<exists>s'. import_text demo_import_env ''doc'' demo_import_session = (Inl TypeError, s') \<and>
     (s' = demo_import_session \<or> s' = rollback demo_import_session)"
proof -
  have "fst (import_text demo_import_env ''doc'' demo_import_session) = Inl TypeError" by code_simp
  then obtain s' where s': "import_text demo_import_env ''doc'' demo_import_session = (Inl TypeError, s')"
    by (cases "import_text demo_import_env ''doc'' demo_import_session") simp
  from import_adds_nothing [OF this] s' show ?thesis by auto
qed

section \<open>Exports\<close>

text \<open>The fields of an exported version that the ignored names leave, and those that are there.\<close>

lemma version_json_get:
  "\<exists>cols. version_json X d v = JDict cols \<and> dict_get cols ''date'' = None \<and> dict_get cols ''id'' = None \<and>
     dict_get cols ''uid'' = Some (JStr (ver_uid v)) \<and> dict_get cols ''volume'' = Some (JStr (ver_volume v)) \<and>
     dict_get cols ''vm'' = Some (json_opt (vm_json X) (find (\<lambda>m. vm_id m = ver_vm_id v) (xe_vms X))) \<and>
     dict_get cols ''blocks'' = Some (JList (map block_json (blocks v d)))"
proof -
  have out: "is_infix ''id'' ''storage_id''" "is_infix ''storage_id'' ''storage_id''" by code_simp+
  have "list_all (\<lambda>k. \<not> is_infix k ''storage_id'')
    [''uid'', ''volume'', ''volume_name'', ''job_name'', ''snapshot'', ''size'', ''block_size'', ''status'', ''protected'', ''bytes_read'',
     ''bytes_written'', ''bytes_deduplicated'', ''bytes_sparse'', ''duration'', ''deleted'', ''created_at'', ''expired_at'', ''deleted_at'', ''vm_id'']"
    by code_simp
  with out show ?thesis by (simp add: version_json_def drop_fields_def version_ignore_def in_names_def)
qed

lemma export_refused:
  assumes "ie_version I ''3.0.0'' = Inr (3, 0)" and "ie_supported I (3, 0)" and "vs \<noteq> []"
  shows "import_doc I (export_doc X d vs) s = (Inl InputDataError, rollback s)"
proof -
  obtain v vs' where vs: "vs = v # vs'" using assms(3) by (cases vs) auto
  have keys: "dict_get (with_metadata_version [(''versions'', x)]) METADATA_VERSION_KEY = Some (JStr ''3.0.0'')"
    "dict_get (with_metadata_version [(''versions'', x)]) ''versions'' = Some x" for x
    by (simp_all add: with_metadata_version_def METADATA_VERSION_KEY_def)
  have "metadata_version_matches ''3.0.0''" by code_simp
  then have ver: "read_version_number I (export_doc X d vs) = Inr (3, 0)"
    using assms(1,2) keys by (simp add: read_version_number_def export_doc_def py_in_def json_item_def on_str_def guard_def)
  obtain cols where c: "version_json X d v = JDict cols" "dict_get cols ''date'' = None" "dict_get cols ''uid'' = Some (JStr (ver_uid v))"
    using version_json_get by blast
  have "require_attributes v3_attributes (JDict cols) = Inl InputDataError"
    using c(2) by (simp add: require_attributes_def v3_attributes_def py_in_def guard_def)
  then have "import_v3_version I d' (version_json X d v) = Inl InputDataError" for d'
    using c by (simp add: import_v3_version_def py_in_def json_item_def guard_def version_uid_of_def VersionUid_def bind_res_def)
  then have "import_v3 I d' (export_doc X d vs) = Inl InputDataError" for d'
    using keys vs by (simp add: import_v3_def export_doc_def json_item_def py_iter_def)
  then show ?thesis by (simp add: import_doc_def ver import_method_def)
qed

lemma lock_versions_stores: "lock_versions E reason us locked e = (r, l, e') \<Longrightarrow> stores e' = stores e"
proof (induction us arbitrary: locked e)
  case (Cons u us)
  obtain q e1 where q: "on_session (lock_version (env_me E) u (Some reason) False (env_now E)) e = (q, e1)" by force
  then have "stores e1 = stores e" by (simp add: on_session_cases)
  with Cons q show ?case by (auto split: sum.splits)
qed simp

lemma under_locks_fails:
  assumes "under_locks E reason uids body e = (r, e')" and "\<And>e1. stores e1 = stores e \<Longrightarrow> \<exists>x. fst (body e1) = Inl x"
  shows "\<exists>x. r = Inl x"
proof -
  obtain q l e1 where q: "lock_versions E reason uids [] e = (q, l, e1)" using prod_cases3 by blast
  then have s: "stores e1 = stores e" by (rule lock_versions_stores)
  have "\<exists>x. fst ((case q of Inl x \<Rightarrow> raiseS x | Inr _ \<Rightarrow> body) e1) = Inl x"
    using assms(2) [OF s] by (cases q) auto
  then show ?thesis using assms(1) q
    by (auto simp: under_locks_def finallyS_def split: prod.splits sum.splits)
qed

text \<open>C21: A metadata backup cannot be restored. A version's metadata is written to its storage without a fault of the
  environment; when it is restored from there later, whatever the database then holds, the restore raises: the document
  that \<open>export\<close> made is read back unchanged and refused, since it calls the date \<open>created_at\<close> and the import requires \<open>date\<close>.\<close>

theorem metadata_backup_not_restorable:
  assumes "good_conf (env_cf E n)" and "calm (stores e n)" and "VersionUid (ver_uid v) = Inr (ver_uid v)"
    and "get_by_uid (ver_uid v) (working (ses e)) = Inr v" and "storage_name_of (working (ses e)) v = Inr n"
    and "\<And>w d. env_export E w d = dumps (export_doc X d [w])" and "\<And>j. ie_load I (dumps j) = Inr j"
    and "ie_version I ''3.0.0'' = Inr (3, 0)" and "ie_supported I (3, 0)"
    and "backup_metadata_of E True v e = (r, e1)" and "stores e2 = stores e1"
    and "metadata_restore E I n [ver_uid v] e2 = (r', e3)"
  shows "r = Inr () \<and> (\<exists>x. r' = Inl x)"
proof -
  let ?text = "dumps (export_doc X (working (ses e)) [v])"
  obtain s1 s2 where w: "write_version (env_cf E n) file_backend (env_timestamp E) 0 (ver_uid v) ?text True (stores e n) = (Inr (), s1)"
    and rd: "read_version (env_cf E n) file_backend (ver_uid v) s1 = (Inr ?text, s2)"
    using version_write_read [OF assms(1-3)] by blast
  have b: "r = Inr ()" "stores e1 n = s1"
    using assms(10) w by (auto simp: backup_metadata_of_def assms(4-6) on_store_def)
  have "\<exists>x. fst (for_each (\<lambda>u. bindS (on_store n (read_version (env_cf E n) file_backend u))
      (\<lambda>text. bindS (on_session (import_text I text)) (\<lambda>_. returnS ()))) [ver_uid v] e') = Inl x"
    if "stores e' = stores e2" for e'
  proof -
    have "import_text I ?text s = (Inl InputDataError, rollback s)" for s
      using export_refused [OF assms(8,9), of "[v]" X "working (ses e)" s]
      by (simp add: import_text_def assms(7)) (simp add: export_doc_def)
    then show ?thesis using rd b(2) that assms(11) by (simp add: on_store_def on_session_def py_defs)
  qed
  from under_locks_fails [OF assms(12) [unfolded metadata_restore_def] this] b(1) show ?thesis by blast
qed

text \<open>\<open>j[k1][k2]...\<close> through dictionaries.\<close>

fun json_path :: "string list \<Rightarrow> json \<Rightarrow> json option" where
  "json_path [] j = Some j"
| "json_path (k # ks) j = (case j of JDict d \<Rightarrow> (case dict_get d k of Some x \<Rightarrow> json_path ks x | None \<Rightarrow> None) | _ \<Rightarrow> None)"

text \<open>The metadata of every version that belongs to a machine, exported to a file or backed up to a storage,
  contains all columns of the machine's user, with the hash of the password, while the version's own identifier is left out
  because \<open>'id'\<close> occurs in the string \<open>'storage_id'\<close>.\<close>

theorem exports_hold_password_hashes:
  assumes "v \<in> set vs" and "find (\<lambda>m. vm_id m = ver_vm_id v) (xe_vms X) = Some m"
    and "find_user (vm_user_id m) (xe_users X) = Some u"
  shows "\<exists>js j. json_path [''versions''] (export_doc X d vs) = Some (JList js) \<and> j \<in> set js \<and>
     json_path [''uid''] j = Some (JStr (ver_uid v)) \<and> json_path [''id''] j = None \<and>
     json_path [''vm'', ''user'', ''password''] j = Some (JStr (usr_password u))"
proof -
  obtain cols where c: "version_json X d v = JDict cols" "dict_get cols ''id'' = None" "dict_get cols ''uid'' = Some (JStr (ver_uid v))"
    "dict_get cols ''vm'' = Some (json_opt (vm_json X) (find (\<lambda>m. vm_id m = ver_vm_id v) (xe_vms X)))"
    using version_json_get by blast
  have "json_path [''versions''] (export_doc X d vs) = Some (JList (map (version_json X d) vs))"
    by (simp add: export_doc_def with_metadata_version_def METADATA_VERSION_KEY_def)
  moreover have "json_path [''vm'', ''user'', ''password''] (version_json X d v) = Some (JStr (usr_password u))"
    by (simp add: c(1,4) assms(2,3) json_opt_def vm_json_def user_json_def)
  moreover have "version_json X d v \<in> set (map (version_json X d) vs)" using assms(1) by simp
  moreover have "json_path [''uid''] (version_json X d v) = Some (JStr (ver_uid v))" "json_path [''id''] (version_json X d v) = None"
    using c by simp_all
  ultimately show ?thesis by blast
qed

definition demo_export_env :: export_env where
  "demo_export_env = \<lparr> xe_iso = (\<lambda>_. ''2020-01-01T00:00:00.000000''), xe_version_extra = (\<lambda>_ _. JNull), xe_vm_created_at = (\<lambda>_. JNull),
     xe_user_miq_id = (\<lambda>_. JNull), xe_vms = [\<lparr> vm_id = 1, vm_name = ''m'', vm_ems_ref = None, vm_user_id = 5 \<rparr>],
     xe_users = [\<lparr> usr_id = 5, usr_name = ''u'', usr_email = ''e'', usr_fullname = ''U'', usr_active = Some True,
       usr_password = ''$2b$12$hash'', usr_two_factors = None, usr_role = USER \<rparr>] \<rparr>"

theorem exports_hold_password_hashes_witness:
  "\<exists>js j. json_path [''versions''] (export_doc demo_export_env demo_db [demo_version]) = Some (JList js) \<and> j \<in> set js \<and>
     json_path [''vm'', ''user'', ''password''] j = Some (JStr ''$2b$12$hash'')"
proof -
  have "find (\<lambda>m. vm_id m = ver_vm_id demo_version) (xe_vms demo_export_env) =
      Some \<lparr> vm_id = 1, vm_name = ''m'', vm_ems_ref = None, vm_user_id = 5 \<rparr>"
    by (simp add: demo_export_env_def demo_version_def)
  from exports_hold_password_hashes [OF _ this, of "[demo_version]" _ demo_db] show ?thesis
    by (auto simp: demo_export_env_def find_user_def)
qed

text \<open>An injective text form, and an engine whose only storage is without faults.\<close>

definition demo_dumps :: "json \<Rightarrow> string" where
  "demo_dumps j = replicate (to_nat j) CHR ''x''"

theorem metadata_backup_not_restorable_witness:
  "\<exists>r e1 r' e3.
     backup_metadata_of (demo_env\<lparr>env_export := \<lambda>w d. demo_dumps (export_doc demo_export_env d [w])\<rparr>) True demo_version
       (demo_new_engine\<lparr>ses := (ses demo_new_engine)\<lparr>working := demo_db\<lparr>db_storages := [\<lparr> sto_id = 1, sto_name = ''s'', sto_module = ''file'' \<rparr>]\<rparr>\<rparr>\<rparr>) = (r, e1) \<and>
     metadata_restore (demo_env\<lparr>env_export := \<lambda>w d. demo_dumps (export_doc demo_export_env d [w])\<rparr>)
       (demo_import_env\<lparr>ie_load := \<lambda>t. Inr (from_nat (length t))\<rparr>) ''s'' [''v1''] e1 = (r', e3) \<and>
     r = Inr () \<and> (\<exists>x. r' = Inl x)"
proof -
  let ?E = "demo_env\<lparr>env_export := \<lambda>w d. demo_dumps (export_doc demo_export_env d [w])\<rparr>"
  let ?I = "demo_import_env\<lparr>ie_load := \<lambda>t. Inr (from_nat (length t))\<rparr>"
  let ?e = "demo_new_engine\<lparr>ses := (ses demo_new_engine)\<lparr>working := demo_db\<lparr>db_storages := [\<lparr> sto_id = 1, sto_name = ''s'', sto_module = ''file'' \<rparr>]\<rparr>\<rparr>\<rparr>"
  obtain r e1 where b: "backup_metadata_of ?E True demo_version ?e = (r, e1)" by force
  obtain r' e3 where m: "metadata_restore ?E ?I ''s'' [ver_uid demo_version] e1 = (r', e3)" by force
  have uid: "ver_uid demo_version = ''v1''" by (simp add: demo_version_def)
  have "VersionUid (ver_uid demo_version) = Inr (ver_uid demo_version)" unfolding uid by code_simp
  moreover have "good_conf (env_cf ?E ''s'')" "calm (stores ?e ''s'')"
    by (simp_all add: demo_env_def demo_new_engine_def good_demo_conf calm_demo_fs)
  moreover have "get_by_uid (ver_uid demo_version) (working (ses ?e)) = Inr demo_version"
    "storage_name_of (working (ses ?e)) demo_version = Inr ''s''"
    by (simp_all add: get_by_uid_def demo_db_def storage_name_of_def storage_name_def demo_version_def)
  ultimately have "r = Inr () \<and> (\<exists>x. r' = Inl x)"
    using metadata_backup_not_restorable [of ?E "''s''" ?e demo_version demo_dumps demo_export_env ?I r e1 e1 r' e3] b m
    by (simp add: demo_dumps_def demo_import_env_def)
  with b m uid show ?thesis by auto
qed

end
