(* ===== verification/Node_Service.thy ===== *)
theory Node_Service
  imports Import_Export
begin

text \<open>
  The gRPC service of a node, \<open>taskmanager/grpc/servicers/backup.py\<close>: the handlers that run backups, restores and removals for the web service, with
  the statistics they keep, and the periodic task \<open>delete_expired_versions\<close> of \<open>tasks/schedule_job.py\<close>. The engine is that of \<open>Backup\<close>, \<open>Restore\<close>,
  \<open>Version_Ops\<close> and \<open>Cleanup\<close>. Targets of restores behave as files do (the \<open>rbd\<close> module is not modelled).
\<close>

section \<open>State and environment\<close>

text \<open>
  \<open>ns_storages\<close> and \<open>ns_nodes\<close> are the columns of the tables \<open>storages\<close> and \<open>nodes\<close> the web service keeps, \<open>ns_percent\<close> the column \<open>disk_used_percent\<close>;
  \<open>ns_targets\<close> the volumes by URL, \<open>ns_alerts\<close> the versions alerts were sent for.
\<close>

record node_state =
  ns_eng :: engine
  ns_storages :: "storage_info list"
  ns_nodes :: "node_row list"
  ns_percent :: "int \<Rightarrow> rat option"
  ns_targets :: "string \<Rightarrow> bytes option"
  ns_alerts :: "string list"

text \<open>
  \<open>nv_source\<close> is the contents of a source or what opening it raises; \<open>nv_available\<close>, \<open>nv_percent\<close>, \<open>nv_overcommit\<close> and \<open>nv_lvm\<close> the
  scripts of \<open>helpers/ceph.py\<close>, whose failures are \<open>BenjiError\<close>; \<open>nv_alert\<close> the mail and the message.
\<close>

record node_env =
  nv_env :: env
  nv_import :: import_env
  nv_default_block_size :: int
  nv_default_storage :: string
  nv_source :: "string \<Rightarrow> bytes res"
  nv_available :: "string \<Rightarrow> int res"
  nv_percent :: "rat res"
  nv_overcommit :: "string \<Rightarrow> string \<Rightarrow> rat res"
  nv_lvm :: "string list \<Rightarrow> unit res"
  nv_alert :: "version \<Rightarrow> unit res"

definition on_eng :: "(exn, engine, 'a) py \<Rightarrow> (exn, node_state, 'a) py" where
  "on_eng m st = (case m (ns_eng st) of (r, e) \<Rightarrow> (r, st\<lparr>ns_eng := e\<rparr>))"

definition on_db :: "(exn, session, 'a) py \<Rightarrow> (exn, node_state, 'a) py" where
  "on_db m = on_eng (on_session m)"

text \<open>\<open>with Benji(cfg.CONF)\<close>: the constructor needs the default storage; the exit commits and releases all locks of the process.\<close>

definition open_engine :: "string \<Rightarrow> (exn, engine, unit) py" where
  "open_engine default_storage e =
     (if list_ex (\<lambda>r. sto_name r = default_storage) (db_storages (working (ses e))) then (Inr (), e) else (Inl ConfigurationError, e))"

definition close_engine :: "env \<Rightarrow> (exn, engine, unit) py" where
  "close_engine E = on_session (\<lambda>s. (Inr (), unlock_all (env_me E) (commit s)))"

definition open_benji :: "node_env \<Rightarrow> (exn, node_state, unit) py" where
  "open_benji N = on_eng (open_engine (nv_default_storage N))"

definition close_benji :: "node_env \<Rightarrow> (exn, node_state, unit) py" where
  "close_benji N = on_eng (close_engine (nv_env N))"

definition with_benji :: "node_env \<Rightarrow> (exn, node_state, 'a) py \<Rightarrow> (exn, node_state, 'a) py" where
  "with_benji N body = thenS (open_benji N) (finallyS body (close_benji N))"

text \<open>\<open>Version.find_by_id\<close>.\<close>

definition find_version :: "int \<Rightarrow> node_state \<Rightarrow> version option" where
  "find_version i st = find (\<lambda>v. ver_id v = i) (db_versions (working (ses (ns_eng st))))"

definition mark_version_invalid :: "version \<Rightarrow> (exn, node_state, unit) py" where
  "mark_version_invalid v = on_db (\<lambda>s. (Inr (), set_version v (Some invalid) None s))"

text \<open>\<open>try: m except Exception as e\<close>, with the exception as a value.\<close>

definition attempt :: "(exn, 's, 'a) py \<Rightarrow> (exn, 's, exn + 'a) py" where
  "attempt m st = (case m st of (r, st') \<Rightarrow> (Inr r, st'))"

section \<open>Statistics\<close>

definition storage_of :: "version \<Rightarrow> node_state \<Rightarrow> storage_info option" where
  "storage_of v st = find (\<lambda>r. st_id r = ver_storage_id v) (ns_storages st)"

definition set_disk_used :: "version \<Rightarrow> int \<Rightarrow> node_state \<Rightarrow> node_state" where
  "set_disk_used v n st =
     st\<lparr>ns_storages := map (\<lambda>r. if st_id r = ver_storage_id v then r\<lparr>st_disk_used := Some n\<rparr> else r) (ns_storages st)\<rparr>"

definition set_percent :: "int \<Rightarrow> rat \<Rightarrow> node_state \<Rightarrow> node_state" where
  "set_percent node p st = st\<lparr>ns_percent := (ns_percent st)(node \<mapsto> p)\<rparr>"

text \<open>
  The measurements: \<open>disk_allowed\<close> less the available space, then the percentage of the node. \<open>configuration['path']\<close> is a \<open>KeyError\<close> when the
  storage has none, and a storage without a limit a \<open>TypeError\<close>.
\<close>

definition measure_storage :: "node_env \<Rightarrow> version \<Rightarrow> string \<Rightarrow> (exn, node_state, unit) py" where
  "measure_storage N v path st =
     (case storage_of v st of
        None \<Rightarrow> (Inl AttributeError, st)
      | Some r \<Rightarrow>
          (case nv_available N path of
             Inl e \<Rightarrow> (Inl e, st)
           | Inr free \<Rightarrow>
               (case st_disk_allowed r of
                  None \<Rightarrow> (Inl TypeError, st)
                | Some allowed \<Rightarrow>
                    let st1 = set_disk_used v (allowed - free) st in
                    (case nv_percent N of
                       Inl e \<Rightarrow> (Inl e, st1)
                     | Inr p \<Rightarrow> (Inr (), set_percent (st_node_id r) p st1)))))"

definition storage_path :: "version \<Rightarrow> node_state \<Rightarrow> string res" where
  "storage_path v st =
     (case storage_of v st of None \<Rightarrow> Inl AttributeError | Some r \<Rightarrow> (case st_path r of None \<Rightarrow> Inl KeyError | Some p \<Rightarrow> Inr p))"

definition log_benji_error :: "(exn, node_state, unit) py \<Rightarrow> (exn, node_state, unit) py" where
  "log_benji_error m = exceptS m (\<lambda>e. if e = BenjiError then returnS () else raiseS e)"

text \<open>\<open>update_statistic\<close> reads the path before its \<open>try\<close>.\<close>

definition update_statistic :: "node_env \<Rightarrow> version \<Rightarrow> (exn, node_state, unit) py" where
  "update_statistic N v =
     bindS (\<lambda>st. (storage_path v st, st)) (\<lambda>path. log_benji_error (measure_storage N v path))"

section \<open>Backups\<close>

record create_request =
  rq_id :: int
  rq_source :: string
  rq_hint :: string
  rq_base :: string

datatype backup_output = Reply int bool

text \<open>
  \<open>Benji.backup\<close> with the request's hints: the empty string is no hints. Another string is not a list of triples: \<open>h[1]\<close> of its first character
  raises \<open>IndexError\<close>, after the version was prepared and locked.
\<close>

definition backup_with_text :: "env \<Rightarrow> int \<Rightarrow> version \<Rightarrow> bytes \<Rightarrow> string option \<Rightarrow> (exn, engine, version) py" where
  "backup_with_text E default_block_size v src base =
     bindS (on_session (update_version E v (if ver_block_size v \<noteq> 0 then ver_block_size v else default_block_size) (io_size src) base)) (\<lambda>v'.
     thenS (on_session (update_version_lock (env_me E) (ver_uid v') (Some ''Backing up''))) (raiseS IndexError))"

definition run_backup :: "node_env \<Rightarrow> create_request \<Rightarrow> version \<Rightarrow> string option \<Rightarrow> (exn, node_state, version) py" where
  "run_backup N rq v base =
     bindS (liftS (nv_source N (rq_source rq))) (\<lambda>src.
       on_eng (if rq_hint rq = [] then backup (nv_env N) (nv_default_block_size N) v src None base
               else backup_with_text (nv_env N) (nv_default_block_size N) v src base))"

text \<open>\<open>disk_used >= disk_allowed\<close> of the version's storage.\<close>

definition storage_full :: "version \<Rightarrow> node_state \<Rightarrow> bool res" where
  "storage_full v st =
     (case storage_of v st of
        None \<Rightarrow> Inl AttributeError
      | Some r \<Rightarrow> (case (st_disk_used r, st_disk_allowed r) of (Some u, Some a) \<Rightarrow> Inr (u \<ge> a) | _ \<Rightarrow> Inl TypeError))"

definition send_alert :: "node_env \<Rightarrow> version \<Rightarrow> (exn, node_state, unit) py" where
  "send_alert N v st = (nv_alert N v, st\<lparr>ns_alerts := ns_alerts st @ [ver_uid v]\<rparr>)"

definition backup_failed :: "node_env \<Rightarrow> create_request \<Rightarrow> version \<Rightarrow> (exn, node_state, backup_output option) py" where
  "backup_failed N rq v =
     thenS (mark_version_invalid v)
     (thenS (update_statistic N v)
     (bindS (\<lambda>st. (storage_full v st, st)) (\<lambda>full.
      thenS (if full then send_alert N v else returnS ()) (returnS (Some (Reply (rq_id rq) False))))))"

definition base_of :: "create_request \<Rightarrow> string option res" where
  "base_of rq = (if rq_base rq \<noteq> [] then bind_res (VersionUid (rq_base rq)) (\<lambda>b. Inr (Some b)) else Inr None)"

definition create_backup_of :: "node_env \<Rightarrow> create_request \<Rightarrow> version \<Rightarrow> (exn, node_state, backup_output option) py" where
  "create_backup_of N rq v =
     bindS (liftS (base_of rq)) (\<lambda>base.
     bindS (attempt (run_backup N rq v base)) (\<lambda>outcome.
       (case outcome of
          Inl _ \<Rightarrow> backup_failed N rq v
        | Inr _ \<Rightarrow> thenS (update_statistic N v) (returnS (Some (Reply (ver_id v) True))))))"

text \<open>\<open>create\<close>: without the version it returns no reply at all; whatever else goes wrong marks the version invalid.\<close>

definition handle_create :: "node_env \<Rightarrow> create_request \<Rightarrow> (exn, node_state, backup_output option) py" where
  "handle_create N rq =
     with_benji N (\<lambda>st.
       (case find_version (rq_id rq) st of
          None \<Rightarrow> (Inr None, st)
        | Some v \<Rightarrow>
            exceptS (create_backup_of N rq v)
              (\<lambda>e. thenS (mark_version_invalid v) (returnS (Some (Reply (rq_id rq) False)))) st))"

section \<open>Restores and removals\<close>

record restore_request =
  rr_id :: int
  rr_volume :: string
  rr_sparse :: bool
  rr_force :: bool
  rr_database_less :: bool

definition target_url :: "string \<Rightarrow> string" where
  "target_url volume = ''rbd:volumes/volume-'' @ volume"

definition restore_to :: "env \<Rightarrow> string \<Rightarrow> string \<Rightarrow> bool \<Rightarrow> bool \<Rightarrow> (exn, node_state, unit) py" where
  "restore_to E uid target sparse force st =
     (case restore E uid sparse force (start_restore (ns_eng st) (ns_targets st target)) of
        (r, k) \<Rightarrow> (r, st\<lparr>ns_eng := rs_eng k, ns_targets := (ns_targets st)(target := rs_target k)\<rparr>))"

definition failed_reply :: "int \<Rightarrow> exn \<Rightarrow> (exn, node_state, backup_output option) py" where
  "failed_reply i e = returnS (Some (Reply i False))"

definition handle_restore :: "node_env \<Rightarrow> restore_request \<Rightarrow> (exn, node_state, backup_output option) py" where
  "handle_restore N rq =
     with_benji N (exceptS (\<lambda>st.
       (case find_version (rr_id rq) st of
          None \<Rightarrow> (Inr None, st)
        | Some v \<Rightarrow>
            bindS (liftS (VersionUid (ver_uid v))) (\<lambda>uid.
            thenS (if rr_database_less rq then on_eng (metadata_restore (nv_env N) (nv_import N) (nv_default_storage N) [uid]) else returnS ())
            (thenS (restore_to (nv_env N) uid (target_url (rr_volume rq)) (rr_sparse rq) (rr_force rq))
              (returnS (Some (Reply (ver_id v) True))))) st))
       (failed_reply (rr_id rq)))"

record delete_request =
  rd_id :: int
  rd_force :: bool
  rd_keep_metadata :: bool
  rd_override :: bool

text \<open>The storage is the row the version had; \<open>clean\<close> takes deleted blocks that are at least an hour old.\<close>

definition clean_storage_of :: "node_env \<Rightarrow> version \<Rightarrow> (exn, node_state, unit) py" where
  "clean_storage_of N v st =
     (case find (\<lambda>r. sto_id r = ver_storage_id v) (db_storages (working (ses (ns_eng st)))) of
        None \<Rightarrow> (Inl AttributeError, st)
      | Some r \<Rightarrow> on_eng (clean (env_me (nv_env N)) (env_cf (nv_env N)) (env_now (nv_env N)) r 3600 False) st)"

definition handle_delete :: "node_env \<Rightarrow> delete_request \<Rightarrow> (exn, node_state, backup_output option) py" where
  "handle_delete N rq =
     with_benji N (exceptS (\<lambda>st.
       (case find_version (rd_id rq) st of
          None \<Rightarrow> (Inr None, st)
        | Some v \<Rightarrow>
            bindS (liftS (VersionUid (ver_uid v))) (\<lambda>uid.
            thenS (on_eng (rm (nv_env N) uid (rd_force rq) 0 (rd_keep_metadata rq) (rd_override rq)))
            (thenS (clean_storage_of N v)
            (thenS (log_benji_error (bindS (\<lambda>st. (storage_path v st, st)) (measure_storage N v)))
              (returnS (Some (Reply (ver_id v) True)))))) st))
       (failed_reply (rd_id rq)))"

section \<open>Storages and nodes\<close>

datatype node_reply = NodeReply bool

record storage_request =
  rs_node_id :: int
  rs_name :: string
  rs_vg_name :: string
  rs_path :: string
  rs_lv_thinpool :: string
  rs_disk_allowed :: int

definition lvm_call :: "node_env \<Rightarrow> string list \<Rightarrow> (exn, node_state, unit) py" where
  "lvm_call N args = liftS (nv_lvm N args)"

definition set_overcommit :: "int \<Rightarrow> rat \<Rightarrow> node_state \<Rightarrow> node_state" where
  "set_overcommit node x st =
     st\<lparr>ns_nodes := map (\<lambda>n. if nd_id n = node then n\<lparr>nd_disk_used_overcommit := Some x\<rparr> else n) (ns_nodes st)\<rparr>"

definition answer :: "(exn, node_state, unit) py \<Rightarrow> (exn, node_state, node_reply) py" where
  "answer m = exceptS (thenS m (returnS (NodeReply True))) (\<lambda>e. returnS (NodeReply False))"

definition handle_map_storage :: "node_env \<Rightarrow> storage_request \<Rightarrow> (exn, node_state, node_reply) py" where
  "handle_map_storage N rq =
     answer (with_benji N
       (thenS (lvm_call N [''create'', rs_name rq, rs_vg_name rq, rs_lv_thinpool rq, rs_path rq, str_int (rs_disk_allowed rq)])
       (bindS (liftS (nv_overcommit N (rs_vg_name rq) (rs_lv_thinpool rq))) (\<lambda>x st.
          (Inr (), set_overcommit (rs_node_id rq) x st)))))"

definition handle_update_storage :: "node_env \<Rightarrow> storage_request \<Rightarrow> (exn, node_state, node_reply) py" where
  "handle_update_storage N rq =
     answer (lvm_call N [''update'', rs_name rq, rs_vg_name rq, str_int (rs_disk_allowed rq)])"

definition handle_delete_storage :: "node_env \<Rightarrow> storage_request \<Rightarrow> (exn, node_state, node_reply) py" where
  "handle_delete_storage N rq =
     answer (with_benji N
       (thenS (lvm_call N [''delete'', rs_name rq, rs_vg_name rq, rs_path rq])
       (bindS (liftS (nv_overcommit N (rs_vg_name rq) (rs_lv_thinpool rq))) (\<lambda>x st.
          (Inr (), case find (\<lambda>r. st_name r = rs_name rq) (ns_storages st) of
             None \<Rightarrow> st | Some r \<Rightarrow> set_overcommit (st_node_id r) x st)))))"

text \<open>
  \<open>get_node_disk_used_overcommit\<close> and \<open>get_node_disk_used_percent\<close>. The message \<open>NodeInput\<close> has the fields \<open>vg_name\<close> and \<open>lvm_lvthinpool\<close>; reading another
  one raises \<open>AttributeError\<close>. \<open>NodeOutput\<close> has \<open>status\<close> and \<open>size\<close>; naming another field in its constructor raises \<open>ValueError\<close>.
\<close>

type_synonym message = "(string, string) dict"

definition message_field :: "string \<Rightarrow> message \<Rightarrow> string res" where
  "message_field k m = (case dict_get m k of None \<Rightarrow> Inl AttributeError | Some x \<Rightarrow> Inr x)"

definition node_input :: "string \<Rightarrow> string \<Rightarrow> message" where
  "node_input vg thinpool = [(''vg_name'', vg), (''lvm_lvthinpool'', thinpool)]"

definition node_output :: "string list \<Rightarrow> bool \<Rightarrow> node_reply res" where
  "node_output ks status = (if set ks \<subseteq> {''status'', ''size''} then Inr (NodeReply status) else Inl ValueError)"

definition get_overcommit :: "node_env \<Rightarrow> message \<Rightarrow> node_reply res" where
  "get_overcommit N rq =
     bind_res (message_field ''vg_name'' rq) (\<lambda>vg. bind_res (message_field ''lv_thinpool'' rq) (\<lambda>tp.
     bind_res (nv_overcommit N vg tp) (\<lambda>_. node_output [''overcommit'', ''status''] True)))"

definition get_percent :: "node_env \<Rightarrow> message \<Rightarrow> node_reply res" where
  "get_percent N rq =
     bind_res (message_field ''lv_thinpool'' rq) (\<lambda>_. bind_res (nv_percent N) (\<lambda>_. node_output [''percent'', ''status''] True))"

definition or_failed :: "node_reply res \<Rightarrow> node_reply res" where
  "or_failed r = (case r of Inl _ \<Rightarrow> node_output [''size'', ''status''] False | Inr x \<Rightarrow> Inr x)"

definition handle_overcommit :: "node_env \<Rightarrow> message \<Rightarrow> node_reply res" where
  "handle_overcommit N rq = or_failed (get_overcommit N rq)"

definition handle_percent :: "node_env \<Rightarrow> message \<Rightarrow> node_reply res" where
  "handle_percent N rq = or_failed (get_percent N rq)"

section \<open>Expired versions\<close>

text \<open>
  \<open>delete_expired_versions\<close>: the versions whose column \<open>expired_at\<close> (\<open>expiry\<close>) falls on the current day, from midnight \<open>today\<close>, are removed with \<open>force\<close>; the
  again removal of the row, by \<open>version.remove()\<close>, ends as \<open>again\<close> says and finds nothing to delete. Errors are logged.
\<close>

definition expires_today :: "(version \<Rightarrow> int option) \<Rightarrow> int \<Rightarrow> version \<Rightarrow> bool" where
  "expires_today expiry today v = (case expiry v of None \<Rightarrow> False | Some t \<Rightarrow> today \<le> t \<and> t < today + 86400)"

definition remove_again :: "unit res \<Rightarrow> (exn, node_state, unit) py" where
  "remove_again again = on_db (\<lambda>s. case again of Inl e \<Rightarrow> (Inl e, rollback s) | Inr _ \<Rightarrow> (Inr (), commit s))"

definition delete_expired_version :: "node_env \<Rightarrow> (version \<Rightarrow> unit res) \<Rightarrow> version \<Rightarrow> (exn, node_state, unit) py" where
  "delete_expired_version N again v =
     exceptS
       (bindS (liftS (VersionUid (ver_uid v))) (\<lambda>uid.
        thenS (on_eng (rm (nv_env N) uid True 0 False False)) (remove_again (again v))))
       (\<lambda>e. returnS ())"

definition delete_expired_versions :: "node_env \<Rightarrow> (version \<Rightarrow> int option) \<Rightarrow> int \<Rightarrow> (version \<Rightarrow> unit res) \<Rightarrow> (exn, node_state, unit) py" where
  "delete_expired_versions N expiry today again =
     with_benji N (\<lambda>st. for_each (delete_expired_version N again)
       (filter (expires_today expiry today) (db_versions (working (ses (ns_eng st))))) st)"

end
