(* ===== verification/Node_Theorems.thy ===== *)
theory Node_Theorems
  imports Node_Service Restore
begin

text \<open>
  What the procedures of a node promise to the web service: the status a backup answers with, a backup on one node followed by a restore on another, the
  removal of expired versions, and the procedures that always fail.
\<close>

section \<open>Versions keep their identifiers during a backup\<close>

definition names :: "database \<Rightarrow> (int \<times> string) list \<times> storage_row list" where
  "names d = (map (\<lambda>v. (ver_id v, ver_uid v)) (db_versions d), db_storages d)"

definition named :: "(int \<times> string) list \<times> storage_row list \<Rightarrow> session \<Rightarrow> bool" where
  "named L s \<longleftrightarrow> names (working s) = L \<and> names (committed s) = L"

lemma named_steps [simp]:
  "named L s \<Longrightarrow> named L (commit s)" "named L s \<Longrightarrow> named L (rollback s)" "named L s \<Longrightarrow> named L (timed_commit s)"
  by (simp_all add: named_def commit_def rollback_def timed_commit_def Let_def)

lemma named_update [simp]: "(\<And>d. names (f d) = names d) \<Longrightarrow> named L s \<Longrightarrow> named L (update_db f s)"
  by (simp add: named_def update_db_def)

lemma names_updates [simp]:
  "names (db_locks_update f d) = names d" "names (db_blocks_update g d) = names d" "names (set_version_size v d) = names d"
  "names (delete_block v i d) = names d" "names (put_block v i uid cs sz vld d) = names d"
  by (auto simp: names_def set_version_size_def delete_block_def put_block_def Let_def split: option.splits)

lemma named_set [simp]:
  assumes "named L s"
  shows "named L (set_block v i uid cs sz vld s)" "named L (set_stats v a b c d f s)" "named L (set_version v q p s)"
  unfolding set_block_def Let_def set_stats_def set_version_def
  by (auto intro!: named_steps named_update assms) (auto simp: names_def set_attrs_def Let_def split: option.splits)

lemma named_locks [preserves_intros]:
  "preserves (named L) (lock_version me u reason ov now)" "preserves (named L) (unlock_version me u)"
  "preserves (named L) (update_version_lock me u reason)" "preserves (named L) (unlock_if_locked me u)"
  unfolding preserves_def lock_version_def lock_def unlock_version_def unlock_def update_version_lock_def update_lock_def unlock_if_locked_def Let_def
  by (auto intro!: named_steps named_update split: option.splits)

lemma named_create [preserves_intros]: "preserves (named L) (create_blocks v bs)"
  by (auto simp: preserves_def create_blocks_def Let_def)

lemma named_packages [preserves_intros]: "preserves (named L) (create_packages k v bs)"
proof -
  have "named L s \<Longrightarrow> named L (snd (create_packages k v bs s))" for s
  proof (induction k v bs s rule: create_packages.induct)
    case (1 k v rows s)
    have c: "named L (snd (create_blocks v rs s))" for rs using 1(2) named_create by (auto simp: preserves_def)
    show ?case
    proof (cases "k = 0 \<or> length rows < k")
      case False
      obtain r s1 where r: "create_blocks v (take k rows) s = (r, s1)" by force
      have "named L s1" using c [of "take k rows"] r by simp
      then show ?thesis using 1(1) [OF False] False r by (subst create_packages.simps) (auto split: sum.splits)
    qed (use c in \<open>subst create_packages.simps, simp\<close>)
  qed
  then show ?thesis by (simp add: preserves_def)
qed

lemma named_state [preserves_intros]:
  "preserves (named L) (\<lambda>s. (r s, s))" "preserves (named L) (\<lambda>s. (q, commit s))" "preserves (named L) (\<lambda>s. (u, update_db (set_version_size v) s))"
  by (auto simp: preserves_def)

lemma named_update_version: "preserves (named L) (update_version E v bs sz base)"
  unfolding update_version_def Let_def
  by (auto intro!: preserves_intros split: option.split)

abbreviation named_engine :: "(int \<times> string) list \<times> storage_row list \<Rightarrow> engine \<Rightarrow> bool" where
  "named_engine L e \<equiv> named L (ses e)"

lemma named_on_session: "preserves (named L) m \<Longrightarrow> preserves (named_engine L) (on_session m)"
  by (auto simp: preserves_def on_session_def split: prod.splits)

lemma named_on_store: "preserves (named_engine L) (on_store n m)"
  by (auto simp: preserves_def on_store_def split: prod.splits)

lemma named_metadata: "preserves (named_engine L) (metadata_backup E n v)"
  by (auto simp: preserves_def metadata_backup_def on_store_ses [OF surjective_pairing] split: sum.splits)

abbreviation named_bk :: "(int \<times> string) list \<times> storage_row list \<Rightarrow> bk \<Rightarrow> bool" where
  "named_bk L k \<equiv> named L (ses (bk_eng k))"

lemma named_bk_set [simp]: "named_bk L k \<Longrightarrow> named_bk L (bk_set_block v i uid cs sz vld k)"
  by (simp add: bk_set_block_def)

lemma named_queue: "named_bk L k \<Longrightarrow> queue_blocks v sp rd bs k = (r, k') \<Longrightarrow> named_bk L k'"
proof (induction bs arbitrary: k r k')
  case (Cons b bs)
  show ?case using Cons.prems
    by (auto split: if_splits prod.splits sum.splits intro: Cons.IH [of "k\<lparr>bk_bytes_sparse := x\<rparr>" for x]
        Cons.IH [of "bk_set_block v i uid cs sz vld k\<lparr>bk_bytes_sparse := x\<rparr>" for i uid cs sz vld x] dest: Cons.IH)
qed simp

lemma named_finish: "preserves (named_bk L) (finish_write E n v j)"
  by (cases j) (auto simp: preserves_def finish_write_def Let_def split: prod.splits sum.splits)

lemma named_take: "named_bk L k \<Longrightarrow> named_bk L (take_block E v b data k)"
  by (auto simp: take_block_def Let_def split: option.splits)

lemma named_for_each: "named_bk L k \<Longrightarrow> named_bk L (snd (for_each (finish_write E n v) js k))"
  by (rule preservesD [OF preserves_for_each [OF named_finish] _ surjective_pairing])

lemma named_copy: "preserves (named_bk L) (copy_block E n v src b)"
  by (auto simp: preserves_def copy_block_def poll_def Let_def split: sum.splits prod.splits intro!: named_for_each named_take)

lemma named_copy_blocks: "preserves (named_bk L) (copy_blocks E n v src sp rd)"
proof -
  have d: "preserves (named_bk L) (drain E n v)"
    by (auto simp: preserves_def drain_def intro!: named_for_each)
  have "named_bk L (snd (copy_blocks E n v src sp rd k))" if k: "named_bk L k" for k
  proof -
    obtain r k1 where q: "queue_blocks v sp rd (blocks v (bk_db k)) k = (r, k1)" by force
    note k1 = named_queue [OF k q]
    have "preserves (named_bk L) (bindS (thenS (for_each (copy_block E n v src) js) (drain E n v)) (\<lambda>_. returnS c))" for js and c :: nat
      by (intro preserves_intros named_copy d)
    then show ?thesis using k1 by (auto simp: copy_blocks_def q preserves_def split: sum.splits)
  qed
  then show ?thesis by (simp add: preserves_def)
qed

lemma named_conclude: "preserves (named_engine L) (conclude E n v c k)"
proof -
  have s: "preserves (named L) (\<lambda>s. (Inr (), set_version v q p s))" "preserves (named L) (\<lambda>s. (Inr (), set_stats v a b x y z s))" for q p a b x y z
    by (simp_all add: preserves_def)
  show ?thesis unfolding conclude_def by (intro preserves_intros named_metadata named_on_session s)
qed

text \<open>What \<open>do_create_backup\<close> does once it knows its storage.\<close>

abbreviation after_checks :: "env \<Rightarrow> version \<Rightarrow> bytes \<Rightarrow> int list \<Rightarrow> int list \<Rightarrow> string \<Rightarrow> (exn, engine, unit) py" where
  "after_checks E w src sp rd n e \<equiv>
     (case copy_blocks E n w src (\<lambda>i. i \<in> set sp) (\<lambda>i. i \<in> set rd) (empty_bk e) of
        (Inl x, k) \<Rightarrow>
          (case on_session (unlock_version (env_me E) (ver_uid w)) (bk_eng k) of
             (Inl x', e1) \<Rightarrow> (Inl x', e1\<lparr>ses := commit (ses e1)\<rparr>)
           | (Inr _, e1) \<Rightarrow> (Inl x, e1\<lparr>ses := commit (ses e1)\<rparr>))
      | (Inr read_jobs, k) \<Rightarrow> conclude E n w read_jobs k ((bk_eng k)\<lparr>ses := commit (ses (bk_eng k))\<rparr>))"

lemma named_after_checks:
  assumes e: "named_engine L e"
  shows "named_engine L (snd (after_checks E w src sp rd n e))"
proof -
  obtain r k where k: "copy_blocks E n w src (\<lambda>i. i \<in> set sp) (\<lambda>i. i \<in> set rd) (empty_bk e) = (r, k)" by force
  have "named_bk L (empty_bk e)" using e by (simp add: empty_bk_def)
  then have nk: "named_bk L k" by (rule preservesD [OF named_copy_blocks _ k])
  obtain q e1 where q: "on_session (unlock_version (env_me E) (ver_uid w)) (bk_eng k) = (q, e1)" by force
  have n1: "named_engine L e1" by (rule preservesD [OF named_on_session [OF named_locks(2)] nk q])
  have "named_engine L (snd (conclude E n w c k ((bk_eng k)\<lparr>ses := commit (ses (bk_eng k))\<rparr>)))" for c
    using nk named_conclude by (auto simp: preserves_def)
  then show ?thesis using n1 by (simp add: k q split: sum.split)
qed

lemma named_backup: "preserves (named_engine L) (backup E bs v src None base)"
proof -
  have u: "preserves (named_engine L) (thenS (on_session (unlock_version (env_me E) (ver_uid w))) (raiseS x :: (exn, engine, unit) py))" for w x
    by (intro preserves_intros named_on_session)
  have "preserves (named_engine L) (\<lambda>e. case storage_name_of (working (ses e)) w of
          Inl x \<Rightarrow> thenS (on_session (unlock_version (env_me E) (ver_uid w))) (raiseS x) e
        | Inr n \<Rightarrow> after_checks E w src sp rd n e)" for w sp rd
    unfolding preserves_def using named_after_checks preservesD [OF u _ surjective_pairing] by (auto split: sum.split)
  then have "preserves (named_engine L) (do_create_backup E w src None base)" for w
    unfolding do_create_backup_def
    by (auto intro!: preserves_intros named_on_session split: prod.split)
  then show ?thesis unfolding backup_def Let_def by (intro preserves_intros named_on_session named_update_version)
qed

section \<open>The session of a node\<close>

lemma bind_lift [simp]: "bindS (liftS (Inr x)) f = f x" "bindS (liftS (Inl e)) f = raiseS e"
  by (simp_all add: fun_eq_iff bindS_def)

text \<open>The statistics and the alerts leave the engine alone.\<close>

lemma eng_statistics: "keeps ns_eng (update_statistic N v)" "keeps ns_eng (send_alert N v)"
  by (auto simp: keeps_def update_statistic_def bindS_def log_benji_error_def exceptS_def measure_storage_def send_alert_def Let_def
      set_disk_used_def set_percent_def split: sum.splits option.splits prod.splits if_splits)

lemma on_eng_run: "on_eng m st = (r, st') \<longleftrightarrow> m (ns_eng st) = (r, ns_eng st') \<and> st' = st\<lparr>ns_eng := ns_eng st'\<rparr>"
  by (auto simp: on_eng_def split: prod.splits)

lemma close_benji_run:
  "close_benji N st = (Inr (), st\<lparr>ns_eng := (ns_eng st)\<lparr>ses := unlock_all (env_me (nv_env N)) (commit (ses (ns_eng st)))\<rparr>\<rparr>)"
  by (simp add: close_benji_def close_engine_def on_eng_def on_session_def)

lemma unlock_all_tables:
  "rest (working (unlock_all me s)) = rest (working s)" "committed (unlock_all me s) = working (unlock_all me s)"
  "set (db_locks (working (unlock_all me s))) \<subseteq> set (db_locks (working s))"
  by (auto simp: unlock_all_def rest_def commit_def update_db_def)

text \<open>A procedure that runs inside the context: it fails when the default storage is missing, or it is the body, and then the locks of the process are gone.\<close>

lemma with_benji_cases:
  assumes "with_benji N body st = (r, st')"
  obtains (closed) "open_benji N st = (Inl ConfigurationError, st)" "r = Inl ConfigurationError" "st' = st"
    | (ran) st1 where "open_benji N st = (Inr (), st)" "body st = (r, st1)"
        "st' = st1\<lparr>ns_eng := (ns_eng st1)\<lparr>ses := unlock_all (env_me (nv_env N)) (commit (ses (ns_eng st1)))\<rparr>\<rparr>"
  using assms unfolding with_benji_def
  by (auto simp: thenS_def bindS_def finallyS_def close_benji_run open_benji_def open_engine_def on_eng_def split: if_splits prod.splits)

section \<open>Expired versions\<close>

abbreviation node_db :: "node_state \<Rightarrow> database" where
  "node_db st \<equiv> working (ses (ns_eng st))"

text \<open>The state keeps the version \<open>w\<close> and its blocks as they were in \<open>t\<close>.\<close>

definition still :: "Version_Ops.tables \<Rightarrow> version \<Rightarrow> node_state \<Rightarrow> bool" where
  "still t w st \<longleftrightarrow> wf_db (node_db st) \<and> settled (ses (ns_eng st)) \<and> kept t (rest (node_db st)) w"

lemma still_same:
  "still t w st \<Longrightarrow> rest (node_db st') = rest (node_db st) \<Longrightarrow> settled (ses (ns_eng st')) \<Longrightarrow> still t w st'"
  using wf_rest [of "node_db st" "node_db st'"] by (simp add: still_def)

lemma still_expired:
  assumes "ver_uid w \<noteq> ver_uid v \<or> ver_protected w"
  shows "preserves (still t w) (delete_expired_version N again v)"
proof -
  have rm: "preserves (still t w) (on_eng (rm E uid True 0 False False))" if "uid = ver_uid v" for E uid
    unfolding preserves_def
  proof (intro allI impI)
    fix st assume s: "still t w st"
    then have w: "w \<in> set (db_versions (node_db st))" by (auto simp: still_def intro: kept_member)
    obtain r st' where r: "on_eng (rm E uid True 0 False False) st = (r, st')" by force
    then have e: "rm E uid True 0 False False (ns_eng st) = (r, ns_eng st')" by (simp add: on_eng_run)
    have wf: "wf_db (node_db st)" "settled (ses (ns_eng st))" using s by (simp_all add: still_def)
    have "settled (ses (ns_eng st')) \<and> kept (rest (node_db st)) (rest (node_db st')) w"
      using rm_result [OF wf e] w assms unfolding that by simp
    then have "still t w st'" using s rm_keeps_wf [OF wf e] by (auto simp: still_def intro: kept_trans)
    then show "still t w (snd (on_eng (rm E uid True 0 False False) st))" using r by simp
  qed
  have again: "preserves (still t w) (remove_again x)" for x
    unfolding preserves_def
  proof (intro allI impI)
    fix st assume s: "still t w st"
    then have "committed (ses (ns_eng st)) = node_db st" by (simp add: still_def settled_def)
    then show "still t w (snd (remove_again x st))"
      by (intro still_same [OF s])
        (auto simp: remove_again_def on_db_def on_eng_def on_session_def rollback_def commit_def settled_def split: sum.splits)
  qed
  show ?thesis
  proof (cases "VersionUid (ver_uid v)")
    case (Inl x)
    then show ?thesis by (simp add: delete_expired_version_def preserves_def exceptS_def)
  next
    case (Inr uid)
    then have "uid = ver_uid v" by (auto simp: VersionUid_def split: if_splits)
    then have "preserves (still t w) (exceptS (thenS (on_eng (rm (nv_env N) uid True 0 False False)) (remove_again (again v))) (\<lambda>e. returnS ()))"
      by (intro preserves_intros rm again)
    then show ?thesis using Inr by (simp add: delete_expired_version_def)
  qed
qed

text \<open>C13: The task that deletes expired versions removes nothing else. Whatever the storages and locks do, a version that is protected, has no expiry or
  expires on another day is there afterwards with its blocks. A version whose day has passed is kept as well: when the task did not run on that day (a node was
  down, or its removal failed), no later run removes the version.\<close>

theorem expiry_keeps_others:
  assumes "wf_db (node_db st)" and "settled (ses (ns_eng st))" and "delete_expired_versions N expiry today again st = (r, st')"
    and "w \<in> set (db_versions (node_db st))"
    and "ver_protected w \<or> (case expiry w of None \<Rightarrow> True | Some t \<Rightarrow> t < today \<or> today + 86400 \<le> t)"
  shows "kept (rest (node_db st)) (rest (node_db st')) w"
proof -
  let ?t = "rest (node_db st)"
  have start: "still ?t w st" using assms(1,2,4) by (simp add: still_def kept_def rest_def)
  have other: "ver_uid w \<noteq> ver_uid v \<or> ver_protected w" if "v \<in> set (db_versions (node_db st))" "expires_today expiry today v" for v
  proof -
    have "inj_on ver_uid (set (db_versions (node_db st)))" using assms(1) by (simp add: wf_db_def distinct_map)
    moreover have "v \<noteq> w \<or> ver_protected w" using that(2) assms(5) by (auto simp: expires_today_def split: option.splits)
    ultimately show ?thesis using that(1) assms(4) by (auto dest: inj_onD)
  qed
  from assms(3) show ?thesis unfolding delete_expired_versions_def
  proof (cases rule: with_benji_cases)
    case closed
    then show ?thesis using start by (simp add: still_def)
  next
    case (ran st1)
    have "still ?t w (snd (for_each (delete_expired_version N again) (filter (expires_today expiry today) (db_versions (node_db st))) st))"
    proof (rule for_each_invariant [where P = "still ?t w"])
      fix v s assume "v \<in> set (filter (expires_today expiry today) (db_versions (node_db st)))" "still ?t w s"
      then show "still ?t w (snd (delete_expired_version N again v s))"
        using still_expired [OF other, of v] by (simp add: preserves_def)
    qed (fact start)
    then have "still ?t w st1" using ran(2) by simp
    then have "kept ?t (rest (node_db st1)) w" by (simp add: still_def)
    then show ?thesis using ran(3) unlock_all_tables(1) by (simp add: commit_def)
  qed
qed

section \<open>The status of a backup\<close>

definition all_invalid :: "int \<Rightarrow> node_state \<Rightarrow> bool" where
  "all_invalid i st \<longleftrightarrow> (\<forall>w \<in> set (db_versions (node_db st)). ver_id w = i \<longrightarrow> ver_status w = invalid)"

lemma mark_invalid: "\<exists>st'. mark_version_invalid v st = (Inr (), st') \<and> all_invalid (ver_id v) st'"
  by (auto simp: mark_version_invalid_def on_db_def on_eng_def on_session_def set_version_def set_attrs_def commit_def update_db_def
      all_invalid_def Let_def)

lemma all_invalid_same: "all_invalid i st \<Longrightarrow> ns_eng st' = ns_eng st \<Longrightarrow> all_invalid i st'"
  by (simp add: all_invalid_def)

lemma mark_and_fail:
  assumes "thenS (mark_version_invalid v) (returnS (Some (Reply i False))) st = (r, st')"
  shows "r = Inr (Some (Reply i False)) \<and> all_invalid (ver_id v) st'"
  using assms mark_invalid [of v st] by (auto simp: thenS_def bindS_def)

lemma backup_failed_result:
  assumes "backup_failed N rq v st = (r, st')"
  shows "all_invalid (ver_id v) st' \<and> (\<forall>x. r = Inr x \<longrightarrow> x = Some (Reply (rq_id rq) False))"
proof -
  obtain st1 where st1: "mark_version_invalid v st = (Inr (), st1)" "all_invalid (ver_id v) st1" using mark_invalid by blast
  let ?k = "thenS (update_statistic N v) (bindS (\<lambda>st. (storage_full v st, st)) (\<lambda>full.
      thenS (if full then send_alert N v else returnS ()) (returnS (Some (Reply (rq_id rq) False)))))"
  have "keeps ns_eng ?k"
    by (intro keeps_intros eng_statistics keepsI) auto
  moreover have k: "?k st1 = (r, st')" using assms st1(1) by (simp add: backup_failed_def thenS_ok)
  ultimately have "ns_eng st' = ns_eng st1" by (rule keepsD)
  moreover have "x = Some (Reply (rq_id rq) False)" if "r = Inr x" for x
    using k that by (auto simp: thenS_def bindS_def split: prod.splits sum.splits if_splits)
  ultimately show ?thesis using st1(2) all_invalid_same by blast
qed

lemma create_backup_result:
  assumes "exceptS (create_backup_of N rq v) (\<lambda>e. thenS (mark_version_invalid v) (returnS (Some (Reply (rq_id rq) False)))) st = (r, st')"
    and "ver_id v = rq_id rq"
  shows "\<exists>ok. r = Inr (Some (Reply (rq_id rq) ok)) \<and> (\<not> ok \<longrightarrow> all_invalid (rq_id rq) st') \<and>
    (ok \<longleftrightarrow> (\<exists>base w st1 st2. base_of rq = Inr base \<and> run_backup N rq v base st = (Inr w, st1) \<and> update_statistic N v st1 = (Inr (), st2))) \<and>
    (ok \<longrightarrow> (\<exists>base w st1. base_of rq = Inr base \<and> run_backup N rq v base st = (Inr w, st1) \<and> ns_eng st' = ns_eng st1))"
proof (cases "base_of rq")
  case (Inl e)
  then show ?thesis using assms mark_and_fail [of v "rq_id rq" st r st'] by (auto simp: create_backup_of_def exceptS_def)
next
  case (Inr base)
  obtain q st1 where q: "run_backup N rq v base st = (q, st1)" by force
  show ?thesis
  proof (cases q)
    case (Inl e)
    obtain r2 st2 where b: "backup_failed N rq v st1 = (r2, st2)" by force
    have "create_backup_of N rq v st = (r2, st2)"
      using Inr q Inl b by (simp add: create_backup_of_def attempt_def bindS_def [of "\<lambda>st. _ st"] bindS_def [of "attempt _"])
    then show ?thesis using assms backup_failed_result [OF b] mark_and_fail [of v "rq_id rq" st2 r st'] Inr q Inl
      by (cases r2) (auto simp: exceptS_def)
  next
    case w: (Inr w)
    obtain r2 st2 where u: "update_statistic N v st1 = (r2, st2)" by force
    have e: "ns_eng st2 = ns_eng st1" by (rule keepsD [OF eng_statistics(1) u])
    have "create_backup_of N rq v st = (map_sum id (\<lambda>_. Some (Reply (ver_id v) True)) r2, st2)"
      using Inr q w u by (cases r2) (simp_all add: create_backup_of_def attempt_def bindS_def [of "attempt _"] thenS_def bindS_def [of "update_statistic _ _"])
    then show ?thesis using assms mark_and_fail [of v "rq_id rq" st2 r st'] Inr q w u e
      by (cases r2) (auto simp: exceptS_def)
  qed
qed

lemma find_version_id: "find_version i st = Some v \<Longrightarrow> ver_id v = i \<and> v \<in> set (db_versions (node_db st))"
  by (auto simp: find_version_def dest: find_SomeD)


section \<open>A backup on one node and a restore on another\<close>

text \<open>The storage row is complete, and the scripts work or fail with \<open>BenjiError\<close>.\<close>

definition measured :: "'a res \<Rightarrow> bool" where
  "measured r \<longleftrightarrow> (case r of Inl e \<Rightarrow> e = BenjiError | Inr _ \<Rightarrow> True)"

definition measurable :: "node_env \<Rightarrow> version \<Rightarrow> node_state \<Rightarrow> bool" where
  "measurable N v st \<longleftrightarrow> (case storage_of v st of None \<Rightarrow> False
     | Some r \<Rightarrow> st_disk_allowed r \<noteq> None \<and> (case st_path r of None \<Rightarrow> False | Some p \<Rightarrow> measured (nv_available N p))) \<and> measured (nv_percent N)"

lemma statistics_taken:
  assumes "measurable N v st"
  shows "\<exists>st'. update_statistic N v st = (Inr (), st') \<and> ns_eng st' = ns_eng st \<and> ns_targets st' = ns_targets st"
  using assms
  by (auto simp: measurable_def measured_def update_statistic_def bindS_def storage_path_def log_benji_error_def exceptS_def measure_storage_def Let_def
      set_disk_used_def set_percent_def split: option.splits sum.splits)

lemma find_same_ids:
  assumes "map f xs = map f ys" and "find (\<lambda>v. P (f v)) xs = Some v"
  obtains w where "find (\<lambda>v. P (f v)) ys = Some w" "f w = f v"
proof -
  have fm: "map_option f (find (\<lambda>v. P (f v)) zs) = find P (map f zs)" for zs by (induction zs) auto
  have "map_option f (find (\<lambda>v. P (f v)) ys) = Some (f v)" using fm [of ys] fm [of xs] assms by simp
  then show thesis using that by auto
qed

lemma storage_open:
  assumes "storage_name (node_db st) i = Inr (nv_default_storage N)"
  shows "open_benji N st = (Inr (), st)"
  using assms by (auto simp: storage_name_def open_benji_def open_engine_def on_eng_def list_ex_iff dest: find_SomeD split: option.splits)

text \<open>After the context is left: the tables are those of the body, and its locks a part of them.\<close>

lemma promises_rest:
  assumes "promises E n v src d f" and "rest d' = rest d"
  shows "promises E n v src d' f"
  using assms by (simp add: promises_def rest_def wf_blocks_def get_by_uid_def storage_name_def get_block_by_idx_def query_block_def)

lemma node_restore:
  assumes "find_version i st = Some x" and "promises (nv_env N) n w src (node_db st) (stores (ns_eng st) n)" and "nv_default_storage N = n"
    and "VersionUid (ver_uid w) = Inr (ver_uid w)" and uid: "ver_uid x = ver_uid w" and "fair_sched (env_sched (nv_env N))"
    and "version_lock_name (ver_uid w) \<notin> set (map lck_name (db_locks (node_db st)))"
    and "src \<noteq> []" and "calm (stores (ns_eng st) n)" and "ns_targets st (target_url vol) = None"
  shows "\<exists>st'. handle_restore N \<lparr>rr_id = i, rr_volume = vol, rr_sparse = True, rr_force = False, rr_database_less = False\<rparr> st =
      (Inr (Some (Reply i True)), st') \<and> ns_targets st' (target_url vol) = Some src"
proof -
  obtain q k where k: "restore (nv_env N) (ver_uid w) True False (start_restore (ns_eng st) None) = (q, k)" by force
  have tgt: "target_ok src True False None" using \<open>src \<noteq> []\<close> by (simp add: target_ok_def)
  have q: "q = Inr ()" and "\<exists>t. rs_target k = Some t \<and> take (length src) t = src \<and> length t = length (opened src None)"
    using restore_result [OF assms(2,6,7) tgt k] assms(9) by blast+
  then have t: "rs_target k = Some src" by (auto simp: opened_def)
  have open_ok: "open_benji N st = (Inr (), st)" by (rule storage_open [of _ "ver_storage_id w"]) (use assms(2,3) in \<open>simp add: promises_def\<close>)
  have "ver_id x = i" using find_version_id [OF assms(1)] by simp
  then show ?thesis
    using assms(1,4,10) uid open_ok k q t
    by (simp add: handle_restore_def with_benji_def thenS_ok exceptS_def finallyS_def close_benji_run restore_to_def thenS_def bindS_def)
qed


section \<open>Disk usage of a node\<close>

text \<open>C0: The procedures that report the disk usage of a node always answer failure, whatever the scripts measure: they read the request's field
  \<open>lv_thinpool\<close>, which the message calls \<open>lvm_lvthinpool\<close>.\<close>

theorem disk_usage_never_reported:
  "handle_overcommit N (node_input vg thinpool) = Inr (NodeReply False) \<and> handle_percent N (node_input vg thinpool) = Inr (NodeReply False)"
  by (simp add: handle_overcommit_def handle_percent_def or_failed_def get_overcommit_def get_percent_def node_input_def message_field_def node_output_def)

section \<open>Witnesses\<close>

definition demo_node_env :: node_env where
  "demo_node_env = \<lparr> nv_env = demo_env, nv_import = demo_import_env, nv_default_block_size = 2, nv_default_storage = ''s'',
     nv_source = (\<lambda>u. if u = ''rbd:a'' then Inr [1, 2, 0, 0, 7] else Inl FileNotFoundError), nv_available = (\<lambda>_. Inr 10),
     nv_percent = Inr (1 / 2), nv_overcommit = (\<lambda>_ _. Inr (1 / 2)), nv_lvm = (\<lambda>_. Inr ()), nv_alert = (\<lambda>_. Inr ()) \<rparr>"

definition demo_node :: "string option \<Rightarrow> engine \<Rightarrow> node_state" where
  "demo_node path e = \<lparr> ns_eng = e,
     ns_storages = [\<lparr> st_id = 1, st_name = ''s'', st_module = ''file'', st_path = path, st_disk_used = Some 0, st_disk_allowed = Some 100,
        st_deleted = None, st_node_id = 1, st_user_id = 1 \<rparr>],
     ns_nodes = [], ns_percent = (\<lambda>_. None), ns_targets = (\<lambda>_. None), ns_alerts = [] \<rparr>"

definition demo_create :: create_request where
  "demo_create = \<lparr> rq_id = 1, rq_source = ''rbd:a'', rq_hint = [], rq_base = [] \<rparr>"

lemmas demo_node_defs = demo_node_env_def demo_node_def demo_create_def demo_new_engine_def demo_new_version_def demo_version_def

lemma demo_found: "find_version 1 (demo_node p demo_new_engine) = Some demo_new_version"
  by (simp add: find_version_def demo_node_defs)

lemma demo_new_ok: "wf_blocks (working (ses demo_new_engine))" "calm (stores demo_new_engine ''s'')" "settled (ses demo_new_engine)"
  "sound_rows (env_hash demo_env) (env_cf demo_env ''s'') UNIV demo_new_version (stores demo_new_engine ''s'') (working (ses demo_new_engine))"
  by (simp_all add: demo_new_engine_def wf_blocks_def calm_demo_fs sound_rows_def settled_def)



text \<open>One version expired a second before midnight, the other expires today: the first stays.\<close>

definition demo_expiry :: "version \<Rightarrow> int option" where
  "demo_expiry v = Some (if ver_id v = 2 then 90000 else 86399)"

theorem expiry_keeps_others_witness:
  "\<exists>r st'. delete_expired_versions demo_node_env demo_expiry 86400 (\<lambda>_. Inl KeyError) (demo_node None two_engine) = (r, st') \<and>
     hole_version \<in> set (db_versions (node_db st'))"
proof -
  obtain r st' where run: "delete_expired_versions demo_node_env demo_expiry 86400 (\<lambda>_. Inl KeyError) (demo_node None two_engine) = (r, st')" by force
  have "kept (rest (node_db (demo_node None two_engine))) (rest (node_db st')) hole_version"
    by (rule expiry_keeps_others [OF _ _ run]) (use two_engine_ok in \<open>simp_all add: demo_node_def demo_expiry_def two_engine_def hole_defs\<close>)
  then show ?thesis using run by (blast intro: kept_member)
qed

end
