(* ===== verification/Command_Line.thy ===== *)
theory Command_Line
  imports Node_Theorems Scrub Filter_Expressions
begin

text \<open>
  The command line: the commands of \<open>commands.py\<close> and their exit codes in \<open>scripts/benji.py\<close>. Every command runs the engine inside the context of a \<open>Benji\<close>
  object. Tables for people are not modelled, except for what building them raises; the JSON of \<open>--machine-output\<close> is.
\<close>

section \<open>State and environment\<close>

text \<open>\<open>cl_targets\<close> are the volumes restores write to, \<open>cl_files\<close> the text files, \<open>cl_out\<close> what went to standard output.\<close>

record cli =
  cl_eng :: engine
  cl_targets :: "string \<Rightarrow> bytes option"
  cl_files :: "string \<Rightarrow> string option"
  cl_out :: "string list"

text \<open>
  \<open>ce_younger\<close> is \<open>disallowRemoveWhenYounger\<close>, \<open>ce_random\<close> the random string, \<open>ce_load_diff\<close> reads the JSON of a diff, \<open>ce_dumps\<close> writes JSON; the
  parameters of filter expressions, of retention and of sampling are those of the theories they come from.
\<close>

record cli_env =
  ce_env :: env
  ce_import :: import_env
  ce_export :: export_env
  ce_dumps :: "json \<Rightarrow> string"
  ce_default_storage :: string
  ce_younger :: int
  ce_machine :: bool
  ce_random :: string
  ce_load_diff :: "string \<Rightarrow> (int \<times> int \<times> exists_value) list res"
  ce_source :: "string \<Rightarrow> bytes res"
  ce_stdin :: string
  ce_grammar :: "string \<Rightarrow> ptree res"
  ce_foreign :: foreign
  ce_table :: "version table"
  ce_rnd :: "nat \<Rightarrow> int"
  ce_sample :: "version list \<Rightarrow> nat \<Rightarrow> version list"
  ce_dateutil :: dateutil
  ce_ref :: datetime

definition on_cli :: "(exn, engine, 'a) py \<Rightarrow> (exn, cli, 'a) py" where
  "on_cli m st = (case m (cl_eng st) of (r, e) \<Rightarrow> (r, st\<lparr>cl_eng := e\<rparr>))"

abbreviation cli_db :: "cli \<Rightarrow> database" where
  "cli_db st \<equiv> working (ses (cl_eng st))"

text \<open>\<open>with Benji(self.config) as benji_obj\<close>.\<close>

definition in_benji :: "cli_env \<Rightarrow> (exn, cli, 'a) py \<Rightarrow> (exn, cli, 'a) py" where
  "in_benji C body = thenS (on_cli (open_engine (ce_default_storage C))) (finallyS body (on_cli (close_engine (ce_env C))))"

text \<open>
  \<open>Benji(self.config, in_memory_database=True)\<close>: a new database with empty tables. The storages of the configuration are stored with \<open>init_database\<close> only,
  which is not given.
\<close>

definition empty_session :: session where
  "empty_session =
     (let d = \<lparr> db_versions = [], db_blocks = [], db_labels = [], db_deleted = [], db_locks = [], db_storages = [] \<rparr>
      in \<lparr> working = d, committed = d, clock = (\<lambda>_. 0), tick = 0, last_timed_commit = 0 \<rparr>)"

definition in_memory :: "cli_env \<Rightarrow> (exn, cli, 'a) py \<Rightarrow> (exn, cli, 'a) py" where
  "in_memory C body st =
     (case in_benji C body (st\<lparr>cl_eng := (cl_eng st)\<lparr>ses := empty_session\<rparr>\<rparr>) of
        (r, st') \<Rightarrow> (r, st'\<lparr>cl_eng := (cl_eng st')\<lparr>ses := ses (cl_eng st)\<rparr>\<rparr>))"

definition emit :: "string \<Rightarrow> (exn, cli, unit) py" where
  "emit text st = (Inr (), st\<lparr>cl_out := cl_out st @ [text]\<rparr>)"

definition read_file :: "string \<Rightarrow> (exn, cli, string) py" where
  "read_file f st = (case cl_files st f of None \<Rightarrow> (Inl FileNotFoundError, st) | Some text \<Rightarrow> (Inr text, st))"

text \<open>\<open>[VersionUid(version_uid) for version_uid in version_uids]\<close>.\<close>

definition version_uids_of :: "string list \<Rightarrow> (exn, cli, string list) py" where
  "version_uids_of us = liftS (map_res VersionUid us)"

definition versions_found :: "cli_env \<Rightarrow> string option \<Rightarrow> (exn, cli, version list) py" where
  "versions_found C flt st = (find_with_filter (ce_grammar C) (ce_foreign C) (ce_table C) flt (cli_db st), st)"

section \<open>Machine output\<close>

text \<open>\<open>export_any\<close> of lists of versions with \<open>ignore_relationships\<close> for their blocks.\<close>

definition without_blocks :: "json \<Rightarrow> json" where
  "without_blocks j = (case j of JDict d \<Rightarrow> JDict (filter (\<lambda>(k, _). k \<noteq> ''blocks'') d) | _ \<Rightarrow> j)"

definition versions_doc :: "cli_env \<Rightarrow> database \<Rightarrow> (string \<times> version list) list \<Rightarrow> json" where
  "versions_doc C d parts =
     JDict (with_metadata_version (map (\<lambda>(k, vs). (k, JList (map (\<lambda>v. without_blocks (version_json (ce_export C) d v)) vs))) parts))"

definition machine :: "cli_env \<Rightarrow> (cli \<Rightarrow> (string \<times> version list) list res) \<Rightarrow> (exn, cli, unit) py" where
  "machine C parts =
     (if ce_machine C
      then bindS (\<lambda>st. (parts st, st)) (\<lambda>ps st. emit (ce_dumps C (versions_doc C (cli_db st) ps)) st)
      else returnS ())"

section \<open>Backup and restore\<close>

definition given :: "string option \<Rightarrow> bool" where
  "given x = (case x of None \<Rightarrow> False | Some s \<Rightarrow> s \<noteq> [])"

definition load_hints :: "cli_env \<Rightarrow> string option \<Rightarrow> (exn, cli, hint list option) py" where
  "load_hints C rbd_hints =
     (if given rbd_hints
      then bindS (read_file (the rbd_hints)) (\<lambda>text. bindS (liftS (ce_load_diff C text)) (\<lambda>data. returnS (Some (hints_from_rbd_diff data))))
      else returnS None)"

text \<open>
  \<open>benji_obj.backup(version_uid=..., volume=..., ...)\<close>: the method takes \<open>version\<close>, \<open>source\<close>, \<open>hints\<close> and \<open>base_version_uid\<close> only, and the call raises
  \<open>TypeError\<close>; what follows it is never reached.
\<close>

definition cmd_backup :: "cli_env \<Rightarrow> string option \<Rightarrow> string \<Rightarrow> string option \<Rightarrow> string option \<Rightarrow> string list \<Rightarrow> (exn, cli, unit) py" where
  "cmd_backup C version_uid volume rbd_hints base_version_uid labels =
     bindS (liftS (VersionUid (case version_uid of None \<Rightarrow> take 248 volume @ ''-'' @ ce_random C | Some u \<Rightarrow> u))) (\<lambda>_.
     bindS (liftS (if given base_version_uid then VersionUid (the base_version_uid) else Inr [])) (\<lambda>_.
     bindS (liftS (if labels \<noteq> [] then parse_and_validate_labels labels else Inr ([], []))) (\<lambda>_.
     in_benji C (bindS (load_hints C rbd_hints) (\<lambda>_. raiseS TypeError)))))"

definition restore_into :: "env \<Rightarrow> string \<Rightarrow> string \<Rightarrow> bool \<Rightarrow> bool \<Rightarrow> (exn, cli, unit) py" where
  "restore_into E uid target sparse force st =
     (case restore E uid sparse force (start_restore (cl_eng st) (cl_targets st target)) of
        (r, k) \<Rightarrow> (r, st\<lparr>cl_eng := rs_eng k, cl_targets := (cl_targets st)(target := rs_target k)\<rparr>))"

text \<open>\<open>storage_name or self._default_storage_name\<close>, and \<open>StorageFactory.get_by_name\<close>.\<close>

definition storage_or_default :: "cli_env \<Rightarrow> string option \<Rightarrow> (exn, cli, string) py" where
  "storage_or_default C storage st =
     (let n = (if given storage then the storage else ce_default_storage C) in
      (if get_storage_by_name n (cli_db st) = None then Inl ConfigurationError else Inr n, st))"

definition restore_metadata :: "cli_env \<Rightarrow> string list \<Rightarrow> string option \<Rightarrow> (exn, cli, unit) py" where
  "restore_metadata C uids storage =
     bindS (storage_or_default C storage) (\<lambda>n. on_cli (metadata_restore (ce_env C) (ce_import C) n uids))"

definition cmd_restore :: "cli_env \<Rightarrow> string \<Rightarrow> string \<Rightarrow> bool \<Rightarrow> bool \<Rightarrow> bool \<Rightarrow> string option \<Rightarrow> (exn, cli, unit) py" where
  "cmd_restore C version_uid destination sparse force database_less storage =
     (if \<not> database_less \<and> storage \<noteq> None then raiseS UsageError
      else bindS (liftS (VersionUid version_uid)) (\<lambda>uid.
        if database_less
        then in_memory C (thenS (restore_metadata C [uid] storage) (restore_into (ce_env C) uid destination sparse force))
        else in_benji C (restore_into (ce_env C) uid destination sparse force)))"

section \<open>Protecting, removing, labels\<close>

definition cmd_protect :: "cli_env \<Rightarrow> bool \<Rightarrow> string list \<Rightarrow> (exn, cli, unit) py" where
  "cmd_protect C b version_uids =
     bindS (version_uids_of version_uids) (\<lambda>uids. in_benji C (for_each (\<lambda>u. on_cli (on_session (protect u b))) uids))"

definition cmd_rm :: "cli_env \<Rightarrow> string list \<Rightarrow> bool \<Rightarrow> bool \<Rightarrow> bool \<Rightarrow> (exn, cli, unit) py" where
  "cmd_rm C version_uids force keep override =
     bindS (version_uids_of version_uids) (\<lambda>uids.
       in_benji C (for_each (\<lambda>u. on_cli (rm (ce_env C) u force (ce_younger C) keep override)) uids))"

definition cmd_label :: "cli_env \<Rightarrow> string \<Rightarrow> string list \<Rightarrow> (exn, cli, unit) py" where
  "cmd_label C version_uid labels =
     bindS (liftS (VersionUid version_uid)) (\<lambda>uid.
     bindS (liftS (parse_and_validate_labels labels)) (\<lambda>(add, remove_names).
     in_benji C
       (thenS (for_each (\<lambda>(n, v). on_cli (on_session (benji_add_label uid n v))) add)
         (for_each (\<lambda>n. on_cli (on_session (benji_rm_label uid n))) remove_names))))"

section \<open>Scrubbing\<close>

definition start_scrub :: "engine \<Rightarrow> scr" where
  "start_scrub e = \<lparr> sc_eng = e, sc_history = None, sc_valid = True, sc_mismatch = False, sc_affected = [], sc_done = 0 \<rparr>"

definition on_scrub :: "(exn, scr, 'a) py \<Rightarrow> (exn, cli, 'a) py" where
  "on_scrub m st = (case m (start_scrub (cl_eng st)) of (r, k) \<Rightarrow> (r, st\<lparr>cl_eng := sc_eng k\<rparr>))"

text \<open>Both commands report the version, and with \<open>ScrubbingError\<close> the version as an error.\<close>

definition report_scrub :: "cli_env \<Rightarrow> string \<Rightarrow> (exn, cli, unit) py \<Rightarrow> (exn, cli, unit) py" where
  "report_scrub C uid m st =
     (case m st of
        (Inl x, st1) \<Rightarrow>
          if x = ScrubbingError
          then thenS (machine C (\<lambda>s. bind_res (get_by_uid uid (cli_db s)) (\<lambda>v. Inr [(''versions'', [v]), (''errors'', [v])]))) (raiseS x) st1
          else (Inl x, st1)
      | (Inr _, st1) \<Rightarrow> machine C (\<lambda>s. bind_res (get_by_uid uid (cli_db s)) (\<lambda>v. Inr [(''versions'', [v]), (''errors'', [])])) st1)"

definition cmd_scrub :: "cli_env \<Rightarrow> string \<Rightarrow> int \<Rightarrow> (exn, cli, unit) py" where
  "cmd_scrub C version_uid pct =
     bindS (liftS (VersionUid version_uid)) (\<lambda>uid.
     in_benji C (report_scrub C uid (on_scrub (scrub (ce_env C) uid pct (ce_rnd C)))))"

definition cmd_deep_scrub :: "cli_env \<Rightarrow> string \<Rightarrow> string option \<Rightarrow> int \<Rightarrow> (exn, cli, unit) py" where
  "cmd_deep_scrub C version_uid source pct =
     bindS (liftS (VersionUid version_uid)) (\<lambda>uid.
     in_benji C (report_scrub C uid
       (on_scrub (deep_scrub (ce_env C) uid (if given source then Some (ce_source C (the source)) else None) pct (ce_rnd C)))))"

definition cmd_batch_scrub :: "cli_env \<Rightarrow> bool \<Rightarrow> string option \<Rightarrow> int \<Rightarrow> int \<Rightarrow> string option \<Rightarrow> (exn, cli, unit) py" where
  "cmd_batch_scrub C deep flt version_pct block_pct group_label =
     in_benji C
       (bindS (versions_found C flt) (\<lambda>found.
        bindS (on_scrub (batch_scrub (ce_sample C)
            (\<lambda>u. if deep then deep_scrub (ce_env C) u None block_pct (ce_rnd C) else scrub (ce_env C) u block_pct (ce_rnd C))
            found version_pct group_label)) (\<lambda>(vs, errors).
        thenS (machine C (\<lambda>_. Inr [(''versions'', vs), (''errors'', errors)]))
          (if errors \<noteq> [] then raiseS ScrubbingError else returnS ()))))"

section \<open>Listing, cleaning up, retention\<close>

text \<open>A row of the table needs \<open>version.date\<close>, which versions do not have.\<close>

definition versions_table :: "version list \<Rightarrow> unit res" where
  "versions_table vs = (if vs = [] then Inr () else Inl AttributeError)"

definition cmd_ls :: "cli_env \<Rightarrow> string option \<Rightarrow> (exn, cli, unit) py" where
  "cmd_ls C flt =
     in_benji C (bindS (versions_found C flt) (\<lambda>vs.
       if ce_machine C then machine C (\<lambda>_. Inr [(''versions'', vs)]) else liftS (versions_table vs)))"

definition cmd_cleanup :: "cli_env \<Rightarrow> bool \<Rightarrow> (exn, cli, unit) py" where
  "cmd_cleanup C override =
     in_benji C (on_cli (cleanup (env_me (ce_env C)) (env_cf (ce_env C)) (env_now (ce_env C)) 3600 override))"

definition cmd_enforce :: "cli_env \<Rightarrow> string \<Rightarrow> string option \<Rightarrow> bool \<Rightarrow> bool \<Rightarrow> string option \<Rightarrow> (exn, cli, unit) py" where
  "cmd_enforce C rules_spec flt dry_run keep group_label =
     in_benji C (bindS (versions_found C flt) (\<lambda>found.
       bindS (on_cli (enforce_retention_policy (ce_env C) (ce_dateutil C) (ce_ref C) version_date found rules_spec dry_run keep group_label))
         (\<lambda>vs. machine C (\<lambda>_. Inr [(''versions'', vs)]))))"

section \<open>Metadata\<close>

definition uids_found :: "cli_env \<Rightarrow> string option \<Rightarrow> (exn, cli, string list) py" where
  "uids_found C flt = bindS (versions_found C flt) (\<lambda>vs. returnS (map ver_uid vs))"

definition export_text :: "cli_env \<Rightarrow> string list \<Rightarrow> (exn, cli, string) py" where
  "export_text C uids = on_cli (metadata_export (ce_env C) (\<lambda>vs d. ce_dumps C (export_doc (ce_export C) d vs)) uids)"

text \<open>\<open>open(f, 'w')\<close> empties the file before anything is written to it.\<close>

definition write_file :: "string \<Rightarrow> string \<Rightarrow> (exn, cli, unit) py" where
  "write_file f text st = (Inr (), st\<lparr>cl_files := (cl_files st)(f \<mapsto> text)\<rparr>)"

definition cmd_metadata_export :: "cli_env \<Rightarrow> string option \<Rightarrow> string option \<Rightarrow> bool \<Rightarrow> (exn, cli, unit) py" where
  "cmd_metadata_export C flt output_file force =
     in_benji C (bindS (uids_found C flt) (\<lambda>uids.
       (case output_file of
          None \<Rightarrow> bindS (export_text C uids) emit
        | Some f \<Rightarrow> (\<lambda>st.
            if cl_files st f \<noteq> None \<and> \<not> force then (Inl FileExistsError, st)
            else thenS (write_file f []) (bindS (export_text C uids) (write_file f)) st))))"

definition cmd_metadata_backup :: "cli_env \<Rightarrow> string option \<Rightarrow> bool \<Rightarrow> (exn, cli, unit) py" where
  "cmd_metadata_backup C flt force =
     in_benji C (bindS (uids_found C flt) (\<lambda>uids. on_cli (metadata_backups (ce_env C) uids force True)))"

definition cmd_metadata_import :: "cli_env \<Rightarrow> string option \<Rightarrow> (exn, cli, unit) py" where
  "cmd_metadata_import C input_file =
     in_benji C (bindS (case input_file of None \<Rightarrow> returnS (ce_stdin C) | Some f \<Rightarrow> read_file f) (\<lambda>text.
       bindS (on_cli (on_session (import_text (ce_import C) text))) (\<lambda>_. returnS ())))"

definition cmd_metadata_restore :: "cli_env \<Rightarrow> string list \<Rightarrow> string option \<Rightarrow> (exn, cli, unit) py" where
  "cmd_metadata_restore C version_uids storage =
     bindS (version_uids_of version_uids) (\<lambda>uids. in_benji C (restore_metadata C uids storage))"

definition cmd_metadata_ls :: "cli_env \<Rightarrow> string option \<Rightarrow> (exn, cli, unit) py" where
  "cmd_metadata_ls C storage =
     in_benji C (bindS (storage_or_default C storage) (\<lambda>n.
       bindS (\<lambda>st. (list_versions file_backend (stores (cl_eng st) n), st)) (\<lambda>us.
         if ce_machine C then emit (ce_dumps C (JList (map JStr us))) else returnS ())))"

section \<open>Storages\<close>

definition cmd_storage_stats :: "cli_env \<Rightarrow> string option \<Rightarrow> (exn, cli, unit) py" where
  "cmd_storage_stats C storage =
     in_benji C (bindS (storage_or_default C storage) (\<lambda>n st.
       (case storage_stats file_backend (stores (cl_eng st) n) of (cnt, sz) \<Rightarrow>
          (if ce_machine C then emit (ce_dumps C (JDict [(''objects_count'', JInt cnt), (''objects_size'', JInt sz)])) else returnS ()) st)))"

definition usage_json :: "usage \<Rightarrow> json" where
  "usage_json u =
     JDict [(''virtual'', JInt (us_virtual u)), (''sparse'', JInt (us_sparse u)), (''shared'', JInt (us_shared u)),
       (''exclusive'', JInt (us_exclusive u)), (''deduplicated_exclusive'', JInt (us_deduplicated_exclusive u))]"

text \<open>The ids of the versions an expression selects; without one all versions count.\<close>

definition usage_ids :: "cli_env \<Rightarrow> string option \<Rightarrow> database \<Rightarrow> int list option res" where
  "usage_ids C flt d =
     (case flt of
        None \<Rightarrow> Inr None
      | Some _ \<Rightarrow> bind_res (build_query (ce_grammar C) (ce_foreign C) flt) (\<lambda>q. Inr (Some (map ver_id (run_query (ce_table C) q (db_versions d))))))"

definition cmd_storage_usage :: "cli_env \<Rightarrow> string option \<Rightarrow> (exn, cli, unit) py" where
  "cmd_storage_usage C flt =
     in_benji C (bindS (\<lambda>st. (usage_ids C flt (cli_db st), st)) (\<lambda>ids st.
       (if ce_machine C then emit (ce_dumps C (JDict (map (\<lambda>(n, u). (n, usage_json u)) (storage_usage (cli_db st) ids)))) else returnS ()) st))"

section \<open>The program\<close>

text \<open>\<open>integer_range\<close>, the type of percentages; \<open>parsed\<close> is what \<open>int(arg)\<close> does, and \<open>None\<close> the missing argument.\<close>

definition integer_range :: "int \<Rightarrow> int option \<Rightarrow> int res option \<Rightarrow> int option res" where
  "integer_range minimum maximum parsed =
     (case parsed of
        None \<Rightarrow> Inr None
      | Some (Inl _) \<Rightarrow> Inl ArgumentError
      | Some (Inr x) \<Rightarrow> if x < minimum \<or> (\<exists>m \<in> set_option maximum. x > m) then Inl ArgumentError else Inr (Some x))"

datatype command =
    Backup "string option" string "string option" "string option" "string list"
  | Restore string string bool bool bool "string option"
  | Protect "string list" | Unprotect "string list"
  | Remove "string list" bool bool bool
  | Scrub string int | Deep_Scrub string "string option" int
  | Batch_Scrub "string option" int int "string option" | Batch_Deep_Scrub "string option" int int "string option"
  | Ls "string option" | Cleanup bool
  | Metadata_Export "string option" "string option" bool | Metadata_Backup "string option" bool
  | Metadata_Import "string option" | Metadata_Restore "string list" "string option" | Metadata_Ls "string option"
  | Add_Labels string "string list"
  | Enforce string "string option" bool bool "string option"
  | Storage_Stats "string option" | Storage_Usage "string option"

text \<open>\<open>func = getattr(commands, args.func)\<close>, \<open>func(**func_args)\<close>.\<close>

fun run_command :: "cli_env \<Rightarrow> command \<Rightarrow> (exn, cli, unit) py" where
  "run_command C (Backup u vol hints base labels) = cmd_backup C u vol hints base labels"
| "run_command C (Restore u dest sparse force dbless storage) = cmd_restore C u dest sparse force dbless storage"
| "run_command C (Protect us) = cmd_protect C True us"
| "run_command C (Unprotect us) = cmd_protect C False us"
| "run_command C (Remove us force keep override) = cmd_rm C us force keep override"
| "run_command C (Scrub u pct) = cmd_scrub C u pct"
| "run_command C (Deep_Scrub u source pct) = cmd_deep_scrub C u source pct"
| "run_command C (Batch_Scrub flt vp bp g) = cmd_batch_scrub C False flt vp bp g"
| "run_command C (Batch_Deep_Scrub flt vp bp g) = cmd_batch_scrub C True flt vp bp g"
| "run_command C (Ls flt) = cmd_ls C flt"
| "run_command C (Cleanup override) = cmd_cleanup C override"
| "run_command C (Metadata_Export flt f force) = cmd_metadata_export C flt f force"
| "run_command C (Metadata_Backup flt force) = cmd_metadata_backup C flt force"
| "run_command C (Metadata_Import f) = cmd_metadata_import C f"
| "run_command C (Metadata_Restore us storage) = cmd_metadata_restore C us storage"
| "run_command C (Metadata_Ls storage) = cmd_metadata_ls C storage"
| "run_command C (Add_Labels u labels) = cmd_label C u labels"
| "run_command C (Enforce spec flt dry keep g) = cmd_enforce C spec flt dry keep g"
| "run_command C (Storage_Stats storage) = cmd_storage_stats C storage"
| "run_command C (Storage_Usage flt) = cmd_storage_usage C flt"

text \<open>\<open>exception_mappings\<close>, in the order of the list; since Python 3.3 \<open>IOError\<close> is \<open>OSError\<close>, so that the rows behind it for \<open>OSError\<close> and its
  subclass \<open>ConnectionError\<close> are never used.\<close>

definition is_lookup_error :: "exn \<Rightarrow> bool" where
  "is_lookup_error e \<longleftrightarrow> e = KeyError \<or> e = IndexError"

definition exception_mappings :: "((exn \<Rightarrow> bool) \<times> int) list" where
  "exception_mappings =
     [(\<lambda>e. e = UsageError, 64), (\<lambda>e. e = AlreadyLocked, 77), (\<lambda>e. e = InternalError, 70), (\<lambda>e. e = ConfigurationError, 78),
      (\<lambda>e. e = InputDataError, 65), (\<lambda>e. e = ScrubbingError, 65), (\<lambda>e. e = PermissionError, 77), (\<lambda>e. e = FileExistsError, 73),
      (\<lambda>e. e = FileNotFoundError, 66), (\<lambda>e. e = EOFError, 74), (is_io_error, 74), (is_io_error, 71), (\<lambda>_. False, 74), (is_lookup_error, 66),
      (\<lambda>_. False, 66), (\<lambda>_. True, 70)]"

definition exit_code :: "exn \<Rightarrow> int" where
  "exit_code e = (case find (\<lambda>(matches, _). matches e) exception_mappings of Some (_, code) \<Rightarrow> code | None \<Rightarrow> 0)"

definition benji_main :: "cli_env \<Rightarrow> command \<Rightarrow> cli \<Rightarrow> int \<times> cli" where
  "benji_main C cmd st =
     (case run_command C cmd st of (Inr _, st') \<Rightarrow> (0, st') | (Inl e, st') \<Rightarrow> (exit_code e, st'))"

section \<open>Exit codes\<close>

lemma exit_code_failure: "exit_code e \<in> {64, 65, 66, 70, 73, 74, 77, 78}"
  by (simp add: exit_code_def exception_mappings_def)

lemma exit_code_nonzero: "exit_code e \<noteq> 0"
  using exit_code_failure [of e] by auto

lemma main_zero: "benji_main C cmd st = (code, st') \<Longrightarrow> code = 0 \<longleftrightarrow> run_command C cmd st = (Inr (), st')"
  using exit_code_nonzero by (auto simp: benji_main_def split: prod.splits sum.splits)

end
