(* ===== verification/Command_Theorems.thy ===== *)
theory Command_Theorems
  imports Command_Line
begin

text \<open>
  What the exit code of a command says: commands that can only fail, how far a removal of several versions got, and the verdict of a deep scrub.
\<close>

section \<open>The context of a command\<close>

lemma on_cli_run: "on_cli m st = (r, st') \<longleftrightarrow> m (cl_eng st) = (r, cl_eng st') \<and> st' = st\<lparr>cl_eng := cl_eng st'\<rparr>"
  by (auto simp: on_cli_def split: prod.splits)

definition after_close :: "env \<Rightarrow> cli \<Rightarrow> cli" where
  "after_close E st = st\<lparr>cl_eng := (cl_eng st)\<lparr>ses := unlock_all (env_me E) (commit (ses (cl_eng st)))\<rparr>\<rparr>"

lemma after_close_simps [simp]:
  "cl_targets (after_close E st) = cl_targets st" "cl_files (after_close E st) = cl_files st" "cl_out (after_close E st) = cl_out st"
  "stores (cl_eng (after_close E st)) = stores (cl_eng st)" "rest (cli_db (after_close E st)) = rest (cli_db st)" "settled (ses (cl_eng (after_close E st)))"
  using unlock_all_tables by (simp_all add: after_close_def settled_def commit_def)

lemma close_run: "on_cli (close_engine E) st = (Inr (), after_close E st)"
  by (simp add: on_cli_def close_engine_def on_session_def after_close_def)

lemma open_run: "on_cli (open_engine n) st = (if get_storage_by_name n (cli_db st) = None then Inl ConfigurationError else Inr (), st)"
  by (auto simp: on_cli_def open_engine_def get_storage_by_name_def find_None_iff list_ex_iff)

lemma in_benji_run:
  "in_benji C body st =
     (if get_storage_by_name (ce_default_storage C) (cli_db st) = None then (Inl ConfigurationError, st)
      else (case body st of (r, st1) \<Rightarrow> (r, after_close (ce_env C) st1)))"
  by (simp add: in_benji_def thenS_def bindS_def finallyS_def open_run close_run split: prod.split)

lemma in_benji_cases:
  assumes "in_benji C body st = (r, st')"
  obtains (no_storage) "get_storage_by_name (ce_default_storage C) (cli_db st) = None" "r = Inl ConfigurationError" "st' = st"
    | (ran) st1 where "get_storage_by_name (ce_default_storage C) (cli_db st) \<noteq> None" "body st = (r, st1)" "st' = after_close (ce_env C) st1"
  using assms unfolding in_benji_run by (cases "body st") (simp split: if_splits)

lemma for_each_on_cli: "for_each (\<lambda>x. on_cli (f x)) xs = on_cli (for_each f xs)"
proof
  fix st show "for_each (\<lambda>x. on_cli (f x)) xs st = on_cli (for_each f xs) st"
  proof (induction xs arbitrary: st)
    case (Cons x xs)
    show ?case using Cons.IH by (cases "f x (cl_eng st)"; cases "fst (f x (cl_eng st))") (simp_all add: on_cli_def)
  qed (simp add: on_cli_def)
qed

section \<open>Commands that can only fail\<close>

fun never_works :: "command \<Rightarrow> bool" where
  "never_works (Backup u vol hints base labels) = True"
| "never_works (Restore u dest sparse force database_less storage) = database_less"
| "never_works _ = False"

lemma in_memory_fails: "in_memory C body st = (Inl ConfigurationError, st)"
  by (simp add: in_memory_def in_benji_def thenS_def bindS_def on_cli_def open_engine_def empty_session_def Let_def)

lemma load_hints_pure: "load_hints C h st = (fst (load_hints C h st), st)"
  by (auto simp: load_hints_def bindS_def read_file_def split: prod.splits sum.splits option.splits)

lemma in_benji_raises:
  assumes "in_benji C body st = (r, st')" and "settled (ses (cl_eng st))" and "\<exists>e. body st = (Inl e, st)"
  shows "(\<exists>e. r = Inl e) \<and> rest (cli_db st') = rest (cli_db st) \<and> settled (ses (cl_eng st')) \<and> stores (cl_eng st') = stores (cl_eng st) \<and>
    cl_targets st' = cl_targets st \<and> cl_files st' = cl_files st \<and> cl_out st' = cl_out st"
  using assms(1) by (cases rule: in_benji_cases) (use assms(2,3) in auto)

lemma cmd_backup_fails:
  assumes "cmd_backup C u vol hints base labels st = (r, st')" and "settled (ses (cl_eng st))"
  shows "(\<exists>e. r = Inl e) \<and> rest (cli_db st') = rest (cli_db st) \<and> settled (ses (cl_eng st')) \<and> stores (cl_eng st') = stores (cl_eng st) \<and>
    cl_targets st' = cl_targets st \<and> cl_files st' = cl_files st \<and> cl_out st' = cl_out st"
proof -
  have b: "\<exists>e. bindS (load_hints C hints) (\<lambda>_. raiseS TypeError :: (exn, cli, unit) py) st = (Inl e, st)"
    by (subst bindS_def, subst load_hints_pure) (simp split: sum.split)
  show ?thesis
    using assms in_benji_raises [of C "bindS (load_hints C hints) (\<lambda>_. raiseS TypeError)" st r st', OF _ assms(2) b]
    by (auto simp: cmd_backup_def bindS_def [of "liftS _"] split: sum.splits)
qed

text \<open>Two commands can only fail, with an exit code other than 0 and nothing done: \<open>backup\<close>, since the engine's method does not take the arguments it is called
  with, and \<open>restore --database-less\<close>, since the database in memory has no storages, so that the default storage is undefined. No table, object,
  volume or file is changed, and nothing is printed.\<close>

theorem dead_commands:
  assumes "never_works cmd" and "settled (ses (cl_eng st))" and "benji_main C cmd st = (code, st')"
  shows "code \<noteq> 0 \<and> rest (cli_db st') = rest (cli_db st) \<and> settled (ses (cl_eng st')) \<and> stores (cl_eng st') = stores (cl_eng st) \<and>
    cl_targets st' = cl_targets st \<and> cl_files st' = cl_files st \<and> cl_out st' = cl_out st"
proof -
  obtain r where run: "run_command C cmd st = (r, st')" and code: "code = (case r of Inl e \<Rightarrow> exit_code e | Inr _ \<Rightarrow> 0)"
    using assms(3) by (auto simp: benji_main_def split: prod.splits sum.splits)
  have "(\<exists>e. r = Inl e) \<and> rest (cli_db st') = rest (cli_db st) \<and> settled (ses (cl_eng st')) \<and> stores (cl_eng st') = stores (cl_eng st) \<and>
    cl_targets st' = cl_targets st \<and> cl_files st' = cl_files st \<and> cl_out st' = cl_out st"
  proof (cases cmd)
    case (Backup u vol hints base labels)
    then show ?thesis using cmd_backup_fails [OF _ assms(2)] run by simp
  next
    case (Restore u dest sparse force less storage)
    then show ?thesis using run assms(1,2)
      by (auto simp: cmd_restore_def in_memory_fails bindS_def split: sum.splits if_splits)
  qed (use assms(1) in simp_all)
  then show ?thesis using code exit_code_nonzero by auto
qed

section \<open>Removing several versions\<close>

lemma rm_loop:
  assumes "wf_db (working (ses e))" and "settled (ses e)"
    and "for_each (\<lambda>u. rm E u force young keep override) us e = (r, e')"
  shows "settled (ses e') \<and> (\<exists>n \<le> length us. (r = Inr () \<longleftrightarrow> n = length us) \<and>
    (\<forall>u \<in> set (take n us). \<forall>w \<in> set (db_versions (working (ses e'))). ver_uid w \<noteq> u) \<and>
    (\<forall>w \<in> set (db_versions (working (ses e))). ver_uid w \<notin> set (take (Suc n) us) \<or> ver_protected w \<longrightarrow>
       kept (rest (working (ses e))) (rest (working (ses e'))) w)) \<and>
    set (db_versions (working (ses e'))) \<subseteq> set (db_versions (working (ses e)))"
  using assms
proof (induction us arbitrary: e)
  case Nil
  then show ?case by (simp add: kept_def rest_def)
next
  case (Cons u us)
  let ?vs = "\<lambda>e. set (db_versions (working (ses e)))"
  obtain q e1 where q: "rm E u force young keep override e = (q, e1)" by force
  note R = rm_result [OF Cons.prems(1,2) q]
  have sub: "?vs e1 \<subseteq> ?vs e"
    using R by (auto simp: rest_def remove_version_def)
  have k1: "kept (rest (working (ses e))) (rest (working (ses e1))) w" if "w \<in> ?vs e" "ver_uid w \<noteq> u \<or> ver_protected w" for w
    using R that by blast
  show ?case
  proof (cases q)
    case (Inl x)
    then have "e' = e1" "r = Inl x" using Cons.prems(3) q by simp_all
    then show ?thesis using R sub k1 by (intro conjI exI [of _ 0]) auto
  next
    case (Inr y)
    then have run: "for_each (\<lambda>u. rm E u force young keep override) us e1 = (r, e')" using Cons.prems(3) q by simp
    have wf1: "wf_db (working (ses e1))" by (rule rm_keeps_wf [OF Cons.prems(1,2) q])
    have s1: "settled (ses e1)" using R by blast
    from Cons.IH [OF wf1 s1 run] obtain n where n: "n \<le> length us" "r = Inr () \<longleftrightarrow> n = length us" "settled (ses e')" "?vs e' \<subseteq> ?vs e1"
      "\<forall>u \<in> set (take n us). \<forall>w \<in> ?vs e'. ver_uid w \<noteq> u"
      "\<forall>w \<in> ?vs e1. ver_uid w \<notin> set (take (Suc n) us) \<or> ver_protected w \<longrightarrow> kept (rest (working (ses e1))) (rest (working (ses e'))) w"
      by blast
    obtain v where v: "v \<in> ?vs e" "ver_uid v = u" "v \<notin> ?vs e1" using R Inr by (auto simp: gone_def rest_def)
    have "ver_uid w \<noteq> u" if "w \<in> ?vs e1" for w
    proof
      assume "ver_uid w = u"
      moreover have "inj_on ver_uid (?vs e)" using Cons.prems(1) by (simp add: wf_db_def distinct_map)
      ultimately have "w = v" using that sub v by (auto dest: inj_onD)
      then show False using that v(3) by simp
    qed
    then have "\<forall>x \<in> set (take (Suc n) (u # us)). \<forall>w \<in> ?vs e'. ver_uid w \<noteq> x" using n(4,5) by auto
    moreover have "kept (rest (working (ses e))) (rest (working (ses e'))) w"
      if "w \<in> ?vs e" "ver_uid w \<notin> set (take (Suc (Suc n)) (u # us)) \<or> ver_protected w" for w
    proof -
      have k: "kept (rest (working (ses e))) (rest (working (ses e1))) w" by (rule k1) (use that in auto)
      then have "w \<in> ?vs e1" by (rule kept_member)
      then have "kept (rest (working (ses e1))) (rest (working (ses e'))) w" using n(6) that(2) by auto
      with k show ?thesis by (rule kept_trans)
    qed
    ultimately show ?thesis using n(1-4) sub by (intro conjI exI [of _ "Suc n"]) auto
  qed
qed

lemma version_uids: "map_res VersionUid us = Inr vs \<Longrightarrow> vs = us"
  by (induction us arbitrary: vs) (auto simp: bind_res_eq_Inr VersionUid_def split: if_splits)

lemma run_code:
  assumes "benji_main C cmd st = (code, st')"
  obtains r where "run_command C cmd st = (r, st')" "code = 0 \<longleftrightarrow> r = Inr ()"
  using assms exit_code_nonzero by (auto simp: benji_main_def split: prod.splits sum.splits)

text \<open>C10: \<open>benji rm\<close> of one or more versions goes as far as it can in the order given, and its exit code says whether it came to the end: for some \<open>n\<close> the first
  \<open>n\<close> versions are gone; the code is 0 exactly when these are all; and versions that are not named, are named behind the one that failed, or are
  protected are there as before, with their blocks, whatever the locks and the storages did.\<close>

theorem rm_command_prefix:
  assumes "wf_db (cli_db st)" and "settled (ses (cl_eng st))" and "us \<noteq> []" and "benji_main C (Remove us force keep override) st = (code, st')"
  shows "\<exists>n \<le> length us. (code = 0 \<longleftrightarrow> n = length us) \<and>
    (\<forall>u \<in> set (take n us). \<forall>w \<in> set (db_versions (cli_db st')). ver_uid w \<noteq> u) \<and>
    (\<forall>w \<in> set (db_versions (cli_db st)). ver_uid w \<notin> set (take (Suc n) us) \<or> ver_protected w \<longrightarrow>
       kept (rest (cli_db st)) (rest (cli_db st')) w)"
proof -
  let ?body = "for_each (\<lambda>u. on_cli (rm (ce_env C) u force (ce_younger C) keep override)) us"
  have refl: "kept (rest (cli_db st)) (rest (cli_db st)) w" if "w \<in> set (db_versions (cli_db st))" for w
    using that by (simp add: kept_def rest_def)
  obtain r where run: "cmd_rm C us force keep override st = (r, st')" and code: "code = 0 \<longleftrightarrow> r = Inr ()"
    using run_code [OF assms(4)] by auto
  show ?thesis
  proof (cases "map_res VersionUid us")
    case (Inl x)
    then have "st' = st" "r \<noteq> Inr ()" using run by (auto simp: cmd_rm_def version_uids_of_def)
    then show ?thesis using refl code assms(3) by (intro exI [of _ 0]) auto
  next
    case (Inr vs)
    then have run: "in_benji C ?body st = (r, st')" using run version_uids [OF Inr] by (simp add: cmd_rm_def version_uids_of_def)
    then show ?thesis
    proof (cases rule: in_benji_cases)
      case no_storage
      then show ?thesis using refl code assms(3) by (intro exI [of _ 0]) auto
    next
      case (ran st1)
      from ran(2) have "for_each (\<lambda>u. rm (ce_env C) u force (ce_younger C) keep override) us (cl_eng st) = (r, cl_eng st1)"
        unfolding for_each_on_cli on_cli_run by simp
      from rm_loop [OF assms(1,2) this] obtain n where n: "n \<le> length us" "r = Inr () \<longleftrightarrow> n = length us"
        "\<forall>u \<in> set (take n us). \<forall>w \<in> set (db_versions (cli_db st1)). ver_uid w \<noteq> u"
        "\<forall>w \<in> set (db_versions (cli_db st)). ver_uid w \<notin> set (take (Suc n) us) \<or> ver_protected w \<longrightarrow> kept (rest (cli_db st)) (rest (cli_db st1)) w"
        by blast
      have same: "rest (cli_db st') = rest (cli_db st1)" using ran(3) by simp
      then have "db_versions (cli_db st') = db_versions (cli_db st1)" by (simp add: rest_def)
      then show ?thesis using n code same by (intro exI [of _ n]) simp
    qed
  qed
qed

section \<open>The verdict of a deep scrub\<close>

lemma machine_run:
  assumes "parts st = Inr ps"
  shows "machine C parts st = (Inr (), if ce_machine C then st\<lparr>cl_out := cl_out st @ [ce_dumps C (versions_doc C (cli_db st) ps)]\<rparr> else st)"
  using assms by (simp add: machine_def bindS_def emit_def)

text \<open>C8: The exit code of \<open>benji deep-scrub\<close> is the verdict on the version: 0 when every block of it can be read, fits its metadata and has the recorded checksum, and
  65 otherwise; the version is then marked valid, or every version that shares a bad block is marked invalid. With machine output exactly one document is printed; it
  lists the version as it is then, under \<open>errors\<close> too when the scrub failed.\<close>

theorem deep_scrub_exit_code:
  assumes "scrub_ready uid n v False (ce_env C) (start_scrub (cl_eng st))" and "is_deep_scrubbable (ver_status v)"
    and "VersionUid uid = Inr uid" and "get_storage_by_name (ce_default_storage C) (cli_db st) \<noteq> None"
    and "benji_main C (Deep_Scrub uid None 100) st = (code, st')"
  shows "let good = deep_sound (ce_env C) n (stores (cl_eng st) n); bs = checked_blocks v (start_scrub (cl_eng st)); all_good = (\<forall>b \<in> set bs. good b);
      mark = (\<lambda>w. if all_good \<and> ver_id w = ver_id v then w\<lparr>ver_status := valid\<rparr> else judged (cli_db st) good bs w);
      doc = (\<lambda>d. versions_doc C d [(''versions'', [mark v]), (''errors'', if all_good then [] else [mark v])])
    in code = (if all_good then 0 else 65) \<and> db_versions (cli_db st') = map mark (db_versions (cli_db st)) \<and>
      (\<exists>d. rest d = rest (cli_db st') \<and> cl_out st' = cl_out st @ (if ce_machine C then [ce_dumps C (doc d)] else []))"
proof -
  let ?k = "start_scrub (cl_eng st)" and ?E = "ce_env C"
  obtain r k where k: "deep_scrub ?E uid None 100 (ce_rnd C) ?k = (r, k)" by force
  define good where "good = deep_sound ?E n (stores (cl_eng st) n)"
  define bs where "bs = checked_blocks v ?k"
  define mark where "mark = (\<lambda>w. if (\<forall>b \<in> set bs. good b) \<and> ver_id w = ver_id v then w\<lparr>ver_status := valid\<rparr> else judged (cli_db st) good bs w)"
  have eng: "sc_eng ?k = cl_eng st" by (simp add: start_scrub_def)
  from deep_scrub_result [OF assms(1,2) k] have r: "r = (if \<forall>b \<in> set bs. good b then Inr () else Inl ScrubbingError)"
    and vs: "db_versions (sc_db k) = map mark (db_versions (cli_db st))"
    by (simp_all add: Let_def eng good_def bs_def mark_def)
  define s1 where "s1 = st\<lparr>cl_eng := sc_eng k\<rparr>"
  have "ver_uid (mark w) = ver_uid w" for w by (simp add: mark_def judged_def)
  then have found: "get_by_uid uid (cli_db s1) = Inr (mark v)"
    by (rule get_by_uid_map [of mark _ "cli_db st"]) (use assms(1) vs in \<open>simp_all add: s1_def scrub_ready_def eng Let_def\<close>)
  have os: "on_scrub (deep_scrub ?E uid None 100 (ce_rnd C)) st = (r, s1)" by (simp add: on_scrub_def k s1_def)
  let ?ps = "[(''versions'', [mark v]), (''errors'', if \<forall>b \<in> set bs. good b then [] else [mark v])]"
  define s2 where "s2 = (if ce_machine C then s1\<lparr>cl_out := cl_out s1 @ [ce_dumps C (versions_doc C (cli_db s1) ?ps)]\<rparr> else s1)"
  have rep: "report_scrub C uid (on_scrub (deep_scrub ?E uid None 100 (ce_rnd C))) st = (r, s2)"
    using r found by (simp add: report_scrub_def os s2_def machine_run thenS_def bindS_def)
  have run: "run_command C (Deep_Scrub uid None 100) st = (r, after_close ?E s2)"
    using assms(3,4) rep by (auto simp: cmd_deep_scrub_def given_def in_benji_run)
  have "code = (if \<forall>b \<in> set bs. good b then 0 else 65)" "st' = after_close ?E s2"
    using assms(5) run r by (auto simp: benji_main_def exit_code_def exception_mappings_def split: if_splits)
  moreover have v2: "db_versions (cli_db (after_close ?E s2)) = map mark (db_versions (cli_db st))"
    using after_close_simps(5) [of ?E s2] vs by (simp add: rest_def s2_def s1_def split: if_splits)
  moreover have "cl_out s2 = cl_out st @ (if ce_machine C then [ce_dumps C (versions_doc C (cli_db s1) ?ps)] else [])"
    by (simp add: s2_def s1_def)
  moreover have "rest (cli_db s1) = rest (cli_db (after_close ?E s2))" by (simp add: s2_def)
  ultimately show ?thesis
    unfolding Let_def good_def [symmetric] bs_def [symmetric] mark_def [symmetric]
    by (intro conjI exI [of _ "cli_db s1"]) (simp_all add: mark_def)
qed

section \<open>Listing\<close>

text \<open>Without machine output \<open>ls\<close> fails with 70 as soon as it finds a version.\<close>

lemma ls_fails:
  assumes "find_with_filter (ce_grammar C) (ce_foreign C) (ce_table C) flt (cli_db st) = Inr vs" and "vs \<noteq> []" and "\<not> ce_machine C"
    and "get_storage_by_name (ce_default_storage C) (cli_db st) \<noteq> None"
  shows "fst (benji_main C (Ls flt) st) = 70"
  using assms by (auto simp: benji_main_def cmd_ls_def in_benji_run versions_found_def bindS_def versions_table_def exit_code_def exception_mappings_def
      is_lookup_error_def)

section \<open>Witnesses\<close>

definition demo_cli_env :: cli_env where
  "demo_cli_env = \<lparr> ce_env = demo_env, ce_import = demo_import_env, ce_export = demo_export_env, ce_dumps = demo_dumps,
     ce_default_storage = ''s'', ce_younger = 6, ce_machine = False, ce_random = ''abcdef'', ce_load_diff = (\<lambda>_. Inl ValueError),
     ce_source = (\<lambda>_. Inl FileNotFoundError), ce_stdin = [], ce_grammar = (\<lambda>_. Inl ParseFatalException), ce_foreign = no_foreign,
     ce_table = \<lparr> tb_column = (\<lambda>_ _. None), tb_labels = (\<lambda>_. []), tb_cmp = (\<lambda>_ _ _. False) \<rparr>, ce_rnd = (\<lambda>_. 1),
     ce_sample = (\<lambda>vs k. take k vs), ce_dateutil = utc_dateutil, ce_ref = noon 2020 3 10 \<rparr>"

definition demo_cli :: "engine \<Rightarrow> cli" where
  "demo_cli e = \<lparr> cl_eng = e, cl_targets = (\<lambda>_. None), cl_files = (\<lambda>_. None), cl_out = [] \<rparr>"

lemma demo_cli_simps [simp]: "cl_eng (demo_cli e) = e" "ce_env demo_cli_env = demo_env" "ce_default_storage demo_cli_env = ''s''" "\<not> ce_machine demo_cli_env"
  by (simp_all add: demo_cli_def demo_cli_env_def)

theorem dead_commands_witness:
  "\<exists>code st'. benji_main demo_cli_env (Restore ''v1'' ''file:x'' False True True None) (demo_cli two_engine) = (code, st') \<and> code \<noteq> 0 \<and>
     cl_targets st' ''file:x'' = None \<and> db_versions (cli_db st') = db_versions (working (ses two_engine))"
proof -
  obtain code st' where run: "benji_main demo_cli_env (Restore ''v1'' ''file:x'' False True True None) (demo_cli two_engine) = (code, st')" by force
  from dead_commands [OF _ _ run] have "code \<noteq> 0" "rest (cli_db st') = rest (working (ses two_engine))" "cl_targets st' = cl_targets (demo_cli two_engine)"
    using two_engine_ok by simp_all
  then show ?thesis using run by (intro exI [of _ code] exI [of _ st']) (simp add: demo_cli_def rest_def)
qed

text \<open>The first of two versions is protected: it stays, and so does the second.\<close>

theorem rm_command_prefix_witness:
  "\<exists>code st'. benji_main demo_cli_env (Remove [''v2'', ''v1''] True False False) (demo_cli two_engine) = (code, st') \<and> code \<noteq> 0 \<and>
     hole_version \<in> set (db_versions (cli_db st'))"
proof -
  let ?w = "hole_version\<lparr>ver_id := 2, ver_uid := ''v2'', ver_protected := True\<rparr>"
  obtain code st' where run: "benji_main demo_cli_env (Remove [''v2'', ''v1''] True False False) (demo_cli two_engine) = (code, st')" by force
  have vs: "set (db_versions (cli_db (demo_cli two_engine))) = {hole_version, ?w}" by (simp add: two_engine_def)
  have uids: "ver_uid hole_version = ''v1''" "ver_uid ?w = ''v2''" "ver_protected ?w" by (simp_all add: hole_defs)
  have pre: "wf_db (cli_db (demo_cli two_engine))" "settled (ses (cl_eng (demo_cli two_engine)))" using two_engine_ok by simp_all
  from rm_command_prefix [OF pre _ run] obtain n where n: "n \<le> length [''v2'', ''v1'']" "code = 0 \<longleftrightarrow> n = length [''v2'', ''v1'']"
    "\<forall>u \<in> set (take n [''v2'', ''v1'']). \<forall>w \<in> set (db_versions (cli_db st')). ver_uid w \<noteq> u"
    "\<forall>w \<in> {hole_version, ?w}. ver_uid w \<notin> set (take (Suc n) [''v2'', ''v1'']) \<or> ver_protected w \<longrightarrow>
       kept (rest (cli_db (demo_cli two_engine))) (rest (cli_db st')) w"
    unfolding vs by blast
  have "?w \<in> set (db_versions (cli_db st'))" using n(4) uids(3) by (blast intro: kept_member)
  then have "''v2'' \<notin> set (take n [''v2'', ''v1''])" using n(3) uids(2) by blast
  then have "n = 0" by (cases n) simp_all
  then have "kept (rest (cli_db (demo_cli two_engine))) (rest (cli_db st')) hole_version" using n(4) uids(1) by simp
  then show ?thesis using run n(2) \<open>n = 0\<close> by (blast intro: kept_member)
qed

text \<open>A version whose only object is lost.\<close>

theorem deep_scrub_exit_code_witness:
  "\<exists>st'. benji_main demo_cli_env (Deep_Scrub ''v1'' None 100) (demo_cli lost_engine) = (65, st') \<and>
     db_versions (cli_db st') = [hole_version\<lparr>ver_status := invalid\<rparr>] \<and> cl_out st' = []"
proof -
  obtain code st' where run: "benji_main demo_cli_env (Deep_Scrub ''v1'' None 100) (demo_cli lost_engine) = (code, st')" by force
  have start: "start_scrub (cl_eng (demo_cli lost_engine)) = lost_scr" by (simp add: start_scrub_def lost_scr_def)
  have bad: "\<not> deep_sound demo_env ''s'' (stores lost_engine ''s'') (demo_stored_block 0)"
    using lost_read [of False] by (simp add: deep_sound_def lost_engine_def)
  have dep: "is_deep_scrubbable (ver_status hole_version)" by (simp add: lost_defs is_deep_scrubbable_def)
  have uid: "VersionUid ''v1'' = Inr ''v1''" by code_simp
  have here: "get_storage_by_name (ce_default_storage demo_cli_env) (cli_db (demo_cli lost_engine)) \<noteq> None"
    by (simp add: get_storage_by_name_def lost_engine_def)
  have "judged (working (ses lost_engine)) (deep_sound demo_env ''s'' (stores lost_engine ''s'')) [demo_stored_block 0] hole_version = hole_version\<lparr>ver_status := invalid\<rparr>"
    using bad by (simp add: judged_def) (simp add: refers_to_def lost_defs)
  moreover have "db_versions (working (ses lost_engine)) = [hole_version]" by (simp add: lost_engine_def)
  moreover have "scrub_ready ''v1'' ''s'' hole_version False (ce_env demo_cli_env) (start_scrub (cl_eng (demo_cli lost_engine)))"
    unfolding start using lost_ready by simp
  ultimately show ?thesis
    using deep_scrub_exit_code [OF _ dep uid here run] bad run
    unfolding start lost_checked by (auto simp: Let_def demo_cli_def)
qed

end
