(* ===== verification/Listing.thy ===== *)
theory Listing
  imports Rest_Demo Pagination Filter_Expressions Storage_Keys
begin

text \<open>
  The lists the web service answers with: the conditions the controllers put together as text (\<open>build_condition\<close> of \<open>services/*/controller.py\<close>),
  \<open>dump_raw_object\<close> and \<open>dump_object\<close> of \<open>services/base.py\<close>, and the handlers that list machines, groups, schedule jobs, storages, users, nodes
  and versions. Time stamps and the configuration of a storage are left out of the rows. A list reads the tables once.
\<close>

section \<open>Conditions\<close>

definition quoted :: "string \<Rightarrow> string" where
  "quoted s = CHR 0x27 # s @ [CHR 0x27]"

text \<open>One condition with the word that joins it to the next; and the condition, in parentheses, without the last five characters.\<close>

definition clause :: "string \<Rightarrow> string \<Rightarrow> string" where
  "clause column v = '' '' @ column @ '' == '' @ quoted v @ '' and ''"

definition unjoined :: "string \<Rightarrow> string" where
  "unjoined c = py_strip (take (length c - 5) c)"

definition enclosed :: "string \<Rightarrow> string option" where
  "enclosed c = (if c \<noteq> [] then Some (''('' @ unjoined c @ '')'') else None)"

definition given_clause :: "string \<Rightarrow> string option \<Rightarrow> string" where
  "given_clause column v = (case v of Some s \<Rightarrow> if s \<noteq> [] then clause column s else [] | None \<Rightarrow> [])"

text \<open>What \<open>dump_raw_object\<close> adds to the condition of an ordinary user, when the table has a column \<open>user_id\<close>.\<close>

definition scoped :: "bool \<Rightarrow> bool \<Rightarrow> int \<Rightarrow> string option \<Rightarrow> string option" where
  "scoped admin has_user_id uid c =
     (if admin then c
      else (case c of
          Some s \<Rightarrow>
            if s \<noteq> [] then (if has_user_id then Some (''('' @ s @ '' and user_id == '' @ str_int uid @ '')'') else c)
            else (if has_user_id then Some (''(user_id == '' @ str_int uid @ '')'') else None)
        | None \<Rightarrow> if has_user_id then Some (''(user_id == '' @ str_int uid @ '')'') else None))"

section \<open>Tables as the parser and the answers see them\<close>

text \<open>\<open>to_dict\<close> and \<open>to_user_dict\<close>: a value for each column, or for each of \<open>__user__fields__\<close>; an attribute that does not exist is \<open>None\<close>.\<close>

type_synonym row_dict = "(string, literal option) dict"

record 'r model =
  md_name :: string
  md_id :: "'r \<Rightarrow> int"
  md_keys :: "string list"
  md_user_fields :: "string list"
  md_column :: "'r \<Rightarrow> string \<Rightarrow> literal option"

definition to_dict :: "'r model \<Rightarrow> string list \<Rightarrow> 'r \<Rightarrow> row_dict" where
  "to_dict M ignore_fields r = map (\<lambda>k. (k, md_column M r k)) (filter (\<lambda>k. k \<notin> set ignore_fields) (md_keys M))"

definition to_user_dict :: "'r model \<Rightarrow> 'r \<Rightarrow> row_dict" where
  "to_user_dict M r = map (\<lambda>k. (k, md_column M r k)) (md_user_fields M)"

definition get_model_attr :: "'r model \<Rightarrow> string \<Rightarrow> bool" where
  "get_model_attr M attr \<longleftrightarrow> attr \<in> set (md_keys M)"

fun vm_column :: "vm_row \<Rightarrow> string \<Rightarrow> literal option" where
  "vm_column r k =
     (if k = ''id'' then Some (LInt (vm_id r)) else if k = ''name'' then Some (LStr (vm_name r))
      else if k = ''ems_ref'' then map_option LStr (vm_ems_ref r) else if k = ''user_id'' then Some (LInt (vm_user_id r)) else None)"

definition vm_model :: "vm_row model" where
  "vm_model = \<lparr> md_name = ''vms'', md_id = vm_id, md_keys = [''id'', ''name'', ''ems_ref'', ''user_id''],
     md_user_fields = [''id'', ''name'', ''user_id''], md_column = vm_column \<rparr>"

fun group_column :: "group_row \<Rightarrow> string \<Rightarrow> literal option" where
  "group_column r k =
     (if k = ''id'' then Some (LInt (vg_id r)) else if k = ''name'' then Some (LStr (vg_name r))
      else if k = ''description'' then map_option LStr (vg_description r) else if k = ''user_id'' then Some (LInt (vg_user_id r)) else None)"

definition group_model :: "group_row model" where
  "group_model = \<lparr> md_name = ''volume_group'', md_id = vg_id, md_keys = [''id'', ''name'', ''description'', ''user_id''],
     md_user_fields = [''id'', ''name'', ''description'', ''user_id''], md_column = group_column \<rparr>"

fun job_column :: "schedule_job \<Rightarrow> string \<Rightarrow> literal option" where
  "job_column r k =
     (if k = ''id'' then Some (LInt (sj_id r)) else if k = ''retention'' then Some (LInt (sj_retention r))
      else if k = ''name'' then Some (LStr (sj_name r)) else if k = ''days_of_week'' then Some (LStr (sj_days_of_week r))
      else if k = ''start_time'' then Some (LInt (sj_start_time r)) else if k = ''mode'' then map_option LStr (sj_mode r)
      else if k = ''compression'' then map_option LStr (sj_compression r) else if k = ''storage_id'' then Some (LInt (sj_storage_id r))
      else if k = ''group_id'' then Some (LInt (sj_group_id r)) else None)"

definition job_model :: "schedule_job model" where
  "job_model = \<lparr> md_name = ''schedule_job'', md_id = sj_id,
     md_keys = [''id'', ''retention'', ''name'', ''days_of_week'', ''start_time'', ''mode'', ''compression'', ''storage_id'', ''group_id''],
     md_user_fields = [''id'', ''name'', ''days_of_week'', ''retention'', ''start_time''], md_column = job_column \<rparr>"

fun user_column :: "user \<Rightarrow> string \<Rightarrow> literal option" where
  "user_column r k =
     (if k = ''id'' then Some (LInt (usr_id r)) else if k = ''fullname'' then Some (LStr (usr_fullname r))
      else if k = ''email'' then Some (LStr (usr_email r)) else if k = ''user_name'' then Some (LStr (usr_name r))
      else if k = ''status'' then map_option LBool (usr_active r) else if k = ''password'' then Some (LStr (usr_password r))
      else if k = ''enable_two_factors'' then map_option LBool (usr_two_factors r)
      else if k = ''user_role'' then Some (LStr (role_str (usr_role r))) else None)"

definition user_model :: "user model" where
  "user_model = \<lparr> md_name = ''users'', md_id = usr_id,
     md_keys = [''id'', ''fullname'', ''email'', ''user_name'', ''status'', ''password'', ''enable_two_factors'', ''user_role''],
     md_user_fields = [], md_column = user_column \<rparr>"

fun storage_column :: "storage_info \<Rightarrow> string \<Rightarrow> literal option" where
  "storage_column r k =
     (if k = ''id'' then Some (LInt (st_id r)) else if k = ''name'' then Some (LStr (st_name r))
      else if k = ''module'' then Some (LStr (st_module r)) else if k = ''disk_used'' then map_option LInt (st_disk_used r)
      else if k = ''disk_allowed'' then map_option LInt (st_disk_allowed r) else if k = ''deleted'' then map_option LBool (st_deleted r)
      else if k = ''node_id'' then Some (LInt (st_node_id r)) else if k = ''user_id'' then Some (LInt (st_user_id r)) else None)"

definition storage_model :: "storage_info model" where
  "storage_model = \<lparr> md_name = ''storages'', md_id = st_id,
     md_keys = [''id'', ''name'', ''module'', ''disk_used'', ''disk_allowed'', ''deleted'', ''node_id'', ''user_id''],
     md_user_fields = [], md_column = storage_column \<rparr>"

text \<open>The columns of a node that hold fractions or are never read are left out.\<close>

fun node_column :: "node_row \<Rightarrow> string \<Rightarrow> literal option" where
  "node_column r k =
     (if k = ''id'' then Some (LInt (nd_id r)) else if k = ''name'' then Some (LStr (nd_name r))
      else if k = ''host'' then Some (LStr (nd_host r)) else if k = ''port'' then Some (LInt (nd_port r))
      else if k = ''deleted'' then map_option LBool (nd_deleted r) else None)"

definition node_model :: "node_row model" where
  "node_model = \<lparr> md_name = ''nodes'', md_id = nd_id, md_keys = [''id'', ''name'', ''host'', ''port'', ''deleted''],
     md_user_fields = [], md_column = node_column \<rparr>"

section \<open>Pages of rows\<close>

text \<open>
  The environment: the parser of a table, what SQLAlchemy makes of odd comparisons, the comparison of the database, the labels of the version with an
  identifier (a label in a condition is looked up under the identifier of the row, whatever its table), and the cloud, which may be out of reach
  or fail for a server.
\<close>

record listing_env =
  le_grammar :: "string \<Rightarrow> string \<Rightarrow> ptree res"
  le_foreign :: "string \<Rightarrow> foreign"
  le_cmp :: "cmp \<Rightarrow> literal \<Rightarrow> literal \<Rightarrow> bool"
  le_labels :: "int \<Rightarrow> (string \<times> string) list"
  le_volumes :: "(string option \<Rightarrow> string list option) option"

definition sql_table :: "listing_env \<Rightarrow> 'r model \<Rightarrow> 'r table" where
  "sql_table E M = \<lparr> tb_column = md_column M, tb_labels = (\<lambda>r. le_labels E (md_id M r)), tb_cmp = le_cmp E \<rparr>"

text \<open>Without \<open>error_out\<close> no page asks the database for a negative slice, so its answer to one does not matter.\<close>

definition no_slice :: "int \<Rightarrow> int \<Rightarrow> 'r list \<Rightarrow> 'r list res" where
  "no_slice n k rows = Inl RuntimeError"

lemma paginate_total:
  "\<exists>g. paginate neg rows p n False m = Inr g \<and> paginate no_slice rows p n False m = Inr g"
proof -
  have nonneg: "sql_slice neg a b rows = sql_slice neg' a b rows" if "\<not> a < 0" "\<not> b < 0" for neg' a b
    using that by (simp add: sql_slice_def)
  show ?thesis by (auto simp: paginate_def Let_def sql_slice_def mult_less_0_iff not_less split: option.splits)
qed

text \<open>The loop collects pages until it has a row or there is no next page.\<close>

function dump_loop :: "'r list \<Rightarrow> int \<Rightarrow> int \<Rightarrow> 'r list \<Rightarrow> int option \<Rightarrow> ('r list \<times> 'r pagination \<times> int option) res" where
  "dump_loop rows page page_size raw prev =
     (case paginate no_slice rows (Some page) (Some page_size) False None of
        Inl e \<Rightarrow> Inl e
      | Inr g \<Rightarrow>
          if raw @ pg_items g \<noteq> [] \<or> \<not> has_next g
          then Inr (raw @ pg_items g, g, if prev = None \<and> has_prev g then prev_num g else prev)
          else dump_loop rows (page + 1) page_size (raw @ pg_items g) (if prev = None \<and> has_prev g then prev_num g else prev))"
  by pat_completeness auto

termination
  by (relation "measure (\<lambda>(rows, page, page_size, raw, prev). nat (ceil_div (int (length rows)) (if page_size < 0 then 20 else page_size) - page))")
    (auto simp: paginate_def Let_def has_next_def pages_def bind_res_eq_Inr split: if_splits)

declare dump_loop.simps [simp del]

definition or_default :: "int \<Rightarrow> int option \<Rightarrow> int" where
  "or_default d x = (case x of Some n \<Rightarrow> if n = 0 then d else n | None \<Rightarrow> d)"

definition dump_raw_object :: "listing_env \<Rightarrow> 'r model \<Rightarrow> user \<Rightarrow> user \<Rightarrow> int option \<Rightarrow> int option \<Rightarrow> string option \<Rightarrow> 'r list
    \<Rightarrow> ('r list \<times> 'r pagination \<times> int option) res" where
  "dump_raw_object E M rq tg page page_size cond rows =
     bind_res (build_s (le_grammar E (md_name M)) (le_foreign E (md_name M)) (scoped (is_admin rq) (get_model_attr M ''user_id'') (usr_id tg) cond))
       (\<lambda>q. dump_loop (run_query (sql_table E M) q rows) (or_default 1 page) (or_default 10 page_size) [] None)"

text \<open>What every list answers with.\<close>

record 'd listing =
  li_data :: "'d list"
  li_has_more :: bool
  li_next_page :: "int option"
  li_prev_page :: "int option"

definition listing_of :: "'d list \<Rightarrow> 'r pagination \<Rightarrow> int option \<Rightarrow> 'd listing" where
  "listing_of data g prev =
     \<lparr> li_data = data, li_has_more = has_next g, li_next_page = (if has_next g then next_num g else None), li_prev_page = prev \<rparr>"

definition answer_with :: "'d \<Rightarrow> ('d, 's) handler" where
  "answer_with r cs = (Inr (), (fst cs)\<lparr>cx_response := Some r\<rparr>, snd cs)"

definition try_query :: "'a res \<Rightarrow> ('a \<Rightarrow> ('d, 's) handler) \<Rightarrow> ('d, 's) handler" where
  "try_query x k cs = (case x of Inl e \<Rightarrow> (Inl e, cs) | Inr a \<Rightarrow> k a cs)"

text \<open>\<open>dump_object\<close> tests the method \<open>is_admin\<close> instead of calling it: everybody gets \<open>to_dict\<close>.\<close>

definition dump_object :: "listing_env \<Rightarrow> 'r model \<Rightarrow> user \<Rightarrow> user \<Rightarrow> int option \<Rightarrow> int option \<Rightarrow> string option \<Rightarrow> 'r list \<Rightarrow> (row_dict listing, 's) handler" where
  "dump_object E M rq tg page page_size cond rows =
     try_query (dump_raw_object E M rq tg page page_size cond rows) (\<lambda>(raw, g, prev). answer_with (listing_of (map (to_dict M []) raw) g prev))"

section \<open>Lists of the controllers\<close>

type_synonym 'd lister = "('d, tables) handler"

definition on_tables :: "(tables \<Rightarrow> 'd lister) \<Rightarrow> 'd lister" where
  "on_tables k cs = k (snd cs) cs"

text \<open>An attribute of a row that may be missing.\<close>

definition attr :: "'a option \<Rightarrow> 'a res" where
  "attr x = (case x of None \<Rightarrow> Inl AttributeError | Some a \<Rightarrow> Inr a)"

definition dict_for :: "user \<Rightarrow> 'r model \<Rightarrow> 'r \<Rightarrow> row_dict" where
  "dict_for rq M r = (if is_admin rq then to_dict M [] r else to_user_dict M r)"

subsection \<open>Machines\<close>

text \<open>\<open>build_condition\<close> of machines: an unknown user is an error of the request, and the condition is dropped.\<close>

definition vm_condition :: "user \<Rightarrow> string option \<Rightarrow> int option \<Rightarrow> (exn, 'r ctx \<times> tables, string option) py" where
  "vm_condition rq name user_id cs =
     (case user_id of
        Some i \<Rightarrow>
          if is_admin rq
          then (if find_user i (rt_users (snd cs)) = None then (Inr None, set_error ''User not found'' 404 (fst cs), snd cs)
                else (Inr (enclosed (given_clause ''name'' name @ clause ''user_id'' (str_int i))), cs))
          else (Inr (enclosed (given_clause ''name'' name)), cs)
      | None \<Rightarrow> (Inr (enclosed (given_clause ''name'' name)), cs))"

record vm_entry =
  ve_vm :: row_dict
  ve_volumes :: "(string \<times> bool) list option"

text \<open>A machine with its volumes, as far as the cloud knows them, and whether each is in a group.\<close>

definition volume_in_group :: "tables \<Rightarrow> vm_row \<Rightarrow> string \<Rightarrow> (string \<times> bool) res" where
  "volume_in_group t m v =
     bind_res (one_or_none (\<lambda>g. gv_vm_id g = vm_id m \<and> gv_volume_id g = v) (rt_group_volumes t)) (\<lambda>x. Inr (v, x \<noteq> None))"

definition vm_entry_of :: "user \<Rightarrow> (string option \<Rightarrow> string list option) \<Rightarrow> tables \<Rightarrow> vm_row \<Rightarrow> vm_entry res" where
  "vm_entry_of rq volumes t m =
     (case volumes (vm_ems_ref m) of
        None \<Rightarrow> Inr \<lparr> ve_vm = dict_for rq vm_model m, ve_volumes = None \<rparr>
      | Some vs \<Rightarrow> bind_res (map_res (volume_in_group t m) vs) (\<lambda>ws. Inr \<lparr> ve_vm = dict_for rq vm_model m, ve_volumes = Some ws \<rparr>))"

definition list_vms :: "listing_env \<Rightarrow> user \<Rightarrow> user \<Rightarrow> int option \<Rightarrow> int option \<Rightarrow> string option \<Rightarrow> int option \<Rightarrow> vm_entry listing lister" where
  "list_vms E rq tg page page_size name user_id =
     bindS (vm_condition rq name user_id) (\<lambda>cond. on_tables (\<lambda>t.
       try_query (dump_raw_object E vm_model rq tg page page_size cond (rt_vms t)) (\<lambda>(vms, g, prev).
         if vms = [] then returnS ()
         else (case le_volumes E of
             None \<Rightarrow> returnS ()
           | Some volumes \<Rightarrow> try_query (map_res (vm_entry_of rq volumes t) vms) (\<lambda>es. answer_with (listing_of es g prev))))))"

subsection \<open>Groups of volumes\<close>

definition groups_condition :: "user \<Rightarrow> tables \<Rightarrow> string option \<Rightarrow> string option \<Rightarrow> int option \<Rightarrow> string option" where
  "groups_condition rq t group_name user_name user_id =
     enclosed
       ((if is_admin rq
         then (case user_id of
             Some i \<Rightarrow> clause ''user_id'' (str_int i)
           | None \<Rightarrow>
               (case (case user_name of Some n \<Rightarrow> get_by_username n (rt_users t) | None \<Rightarrow> None) of
                  Some u \<Rightarrow> clause ''user_id'' (str_int (usr_id u))
                | None \<Rightarrow> []))
         else []) @ given_clause ''name'' group_name)"

record group_entry =
  ge_group :: row_dict
  ge_volumes :: "group_volume list"
  ge_user_name :: "string option"
  ge_in_job :: bool

definition group_entry_of :: "user \<Rightarrow> tables \<Rightarrow> group_row \<Rightarrow> group_entry res" where
  "group_entry_of rq t g =
     bind_res (if is_admin rq then bind_res (attr (find_user (vg_user_id g) (rt_users t))) (\<lambda>u. Inr (Some (usr_name u))) else Inr None) (\<lambda>n.
       bind_res (one_or_none (\<lambda>j. sj_group_id j = vg_id g) (rt_jobs t)) (\<lambda>j.
         Inr \<lparr> ge_group = to_user_dict group_model g, ge_volumes = filter (\<lambda>v. gv_group_id v = vg_id g) (rt_group_volumes t),
               ge_user_name = n, ge_in_job = (j \<noteq> None) \<rparr>))"

definition list_volume_groups :: "listing_env \<Rightarrow> user \<Rightarrow> user \<Rightarrow> int option \<Rightarrow> int option \<Rightarrow> string option \<Rightarrow> string option \<Rightarrow> int option
    \<Rightarrow> group_entry listing lister" where
  "list_volume_groups E rq tg page page_size group_name user_name user_id = on_tables (\<lambda>t.
     try_query (dump_raw_object E group_model rq tg page page_size (groups_condition rq t group_name user_name user_id) (rt_groups t)) (\<lambda>(gs, g, prev).
       try_query (map_res (group_entry_of rq t) gs) (\<lambda>es. answer_with (listing_of es g prev))))"

subsection \<open>Schedule jobs\<close>

text \<open>A user's own jobs are those on the storage of its name; without that storage there is no condition, and no answer.\<close>

definition jobs_condition :: "user \<Rightarrow> user \<Rightarrow> tables \<Rightarrow> string option \<Rightarrow> string option res" where
  "jobs_condition rq tg t user_name =
     bind_res (one_or_none (\<lambda>s. Some (st_name s) = (if is_admin rq then user_name else Some (usr_name tg))) (rt_storages t)) (\<lambda>x.
       Inr (enclosed (case x of Some s \<Rightarrow> clause ''storage_id'' (str_int (st_id s)) | None \<Rightarrow> [])))"

record job_entry =
  je_job :: row_dict
  je_volumes :: "job_volume list"
  je_group_name :: string
  je_user_name :: "string option"

definition job_entry_of :: "user \<Rightarrow> tables \<Rightarrow> schedule_job \<Rightarrow> job_entry res" where
  "job_entry_of rq t j =
     bind_res (attr (row vg_id (sj_group_id j) (rt_groups t))) (\<lambda>g.
       bind_res
         (if is_admin rq
          then bind_res (attr (row st_id (sj_storage_id j) (rt_storages t))) (\<lambda>s.
                 bind_res (attr (find_user (st_user_id s) (rt_users t))) (\<lambda>u. Inr (Some (usr_name u))))
          else Inr None)
         (\<lambda>n. Inr \<lparr> je_job = dict_for rq job_model j, je_volumes = filter (\<lambda>v. jv_sj_id v = sj_id j) (rt_job_volumes t),
                    je_group_name = vg_name g, je_user_name = n \<rparr>))"

definition list_schedule_jobs :: "listing_env \<Rightarrow> user \<Rightarrow> user \<Rightarrow> int option \<Rightarrow> int option \<Rightarrow> string option \<Rightarrow> job_entry listing lister" where
  "list_schedule_jobs E rq tg page page_size user_name = on_tables (\<lambda>t.
     try_query (jobs_condition rq tg t user_name) (\<lambda>cond.
       try_query (dump_raw_object E job_model rq tg page page_size cond (rt_jobs t)) (\<lambda>(js, g, prev).
         let entries = try_query (map_res (job_entry_of rq t) js) (\<lambda>es. answer_with (listing_of es g prev)) in
         if is_admin rq then entries
         else try_query (one_or_none (\<lambda>s. st_name s = usr_name tg) (rt_storages t)) (\<lambda>x.
           if x = None then (\<lambda>cs. (Inr (), (fst cs)\<lparr>cx_response := None\<rparr>, snd cs)) else entries))))"

subsection \<open>Storages, users and nodes\<close>

definition list_storages :: "listing_env \<Rightarrow> user \<Rightarrow> user \<Rightarrow> int option \<Rightarrow> int option \<Rightarrow> string option \<Rightarrow> row_dict listing lister" where
  "list_storages E rq tg page page_size storage_name = on_tables (\<lambda>t.
     if \<not> is_admin rq then reject USER_ACTION_NOT_ALLOWED 403
     else dump_object E storage_model rq tg page page_size (Some (unjoined (given_clause ''name'' storage_name))) (rt_storages t))"

definition users_condition :: "string option \<Rightarrow> string option \<Rightarrow> string option" where
  "users_condition user_name email =
     enclosed (given_clause ''user_name'' user_name @ given_clause ''email'' email @ clause ''user_role'' ''USER'')"

record user_entry =
  ue_user :: row_dict
  ue_has_storage :: bool

definition user_entry_of :: "tables \<Rightarrow> user \<Rightarrow> user_entry res" where
  "user_entry_of t u =
     bind_res (one_or_none (\<lambda>s. st_name s = usr_name u) (rt_storages t)) (\<lambda>x.
       Inr \<lparr> ue_user = to_dict user_model [''password'', ''miq_id'', ''enable_two_factors''] u, ue_has_storage = (x \<noteq> None) \<rparr>)"

definition list_users :: "listing_env \<Rightarrow> user \<Rightarrow> user \<Rightarrow> int option \<Rightarrow> int option \<Rightarrow> string option \<Rightarrow> string option \<Rightarrow> user_entry listing lister" where
  "list_users E rq tg page page_size user_name email = on_tables (\<lambda>t.
     if \<not> is_admin rq then reject USER_ACTION_NOT_ALLOWED 403
     else try_query (dump_raw_object E user_model rq tg page page_size (users_condition user_name email) (rt_users t)) (\<lambda>(us, g, prev).
       if us = [] then returnS ()
       else try_query (map_res (user_entry_of t) us) (\<lambda>es. answer_with (listing_of es g prev))))"

text \<open>The count of storages is not started anew for each node.\<close>

record node_entry =
  ne_node :: node_row
  ne_storage_count :: nat

fun node_entries :: "tables \<Rightarrow> nat \<Rightarrow> node_row list \<Rightarrow> node_entry list" where
  "node_entries t storage_count [] = []"
| "node_entries t storage_count (n # ns) =
     (let count = storage_count + node_load t n in \<lparr> ne_node = n, ne_storage_count = count \<rparr> # node_entries t count ns)"

definition list_nodes :: "listing_env \<Rightarrow> user \<Rightarrow> user \<Rightarrow> int option \<Rightarrow> int option \<Rightarrow> node_entry listing lister" where
  "list_nodes E rq tg page page_size = on_tables (\<lambda>t.
     if \<not> is_admin rq then reject USER_ACTION_NOT_ALLOWED 403
     else try_query (dump_raw_object E node_model rq tg page page_size None (rt_nodes t)) (\<lambda>(ns, g, prev).
       answer_with (listing_of (node_entries t 0 ns) g prev)))"

subsection \<open>Versions\<close>

text \<open>\<open>itertools.groupby\<close>: runs of neighbours with the same key.\<close>

function groupby :: "('a \<Rightarrow> 'k) \<Rightarrow> 'a list \<Rightarrow> 'a list list" where
  "groupby key [] = []"
| "groupby key (x # xs) = (x # takeWhile (\<lambda>y. key y = key x) xs) # groupby key (dropWhile (\<lambda>y. key y = key x) xs)"
  by pat_completeness auto

termination
  by (relation "measure (\<lambda>(key, xs). length xs)") (auto simp: le_imp_less_Suc length_dropWhile_le)

record volume_entry =
  vle_id :: string
  vle_versions :: "version list"

record machine_entry =
  me_vm_id :: int
  me_vm_name :: string
  me_volumes :: "volume_entry list"

record storage_entry =
  se_user_name :: string
  se_storage_name :: string
  se_vms :: "machine_entry list"

text \<open>The entries of the answer: the versions of one volume, of each storage (for an administrator), or of each machine (for a user).\<close>

datatype version_entry = OneVolume volume_entry | OneStorage storage_entry | OneMachine machine_entry

definition machine_entry_of :: "tables \<Rightarrow> version list \<Rightarrow> machine_entry res" where
  "machine_entry_of t vs =
     bind_res (attr (row vm_id (ver_vm_id (hd vs)) (rt_vms t))) (\<lambda>m.
       Inr \<lparr> me_vm_id = vm_id m, me_vm_name = vm_name m,
             me_volumes = map (\<lambda>g. \<lparr> vle_id = ver_volume (hd g), vle_versions = g \<rparr>) (groupby ver_volume vs) \<rparr>)"

text \<open>The versions of one storage. Its name and user are read from the last version, they are those of the first.\<close>

definition storage_entry_of :: "tables \<Rightarrow> version list \<Rightarrow> storage_entry res" where
  "storage_entry_of t vs =
     bind_res (map_res (machine_entry_of t) (groupby ver_vm_id (sort_key ver_vm_id vs))) (\<lambda>ms.
       bind_res (attr (row st_id (ver_storage_id (hd vs)) (rt_storages t))) (\<lambda>s.
         bind_res (attr (find_user (st_user_id s) (rt_users t))) (\<lambda>u.
           Inr \<lparr> se_user_name = usr_name u, se_storage_name = st_name s, se_vms = ms \<rparr>)))"

definition versions_of_users :: "tables \<Rightarrow> user list \<Rightarrow> (string \<times> storage_entry) list res" where
  "versions_of_users t us =
     (let names = map usr_name us;
          ids = map st_id (filter (\<lambda>s. st_name s \<in> set names) (rt_storages t));
          raw = sort_key ver_storage_id (filter (\<lambda>v. ver_storage_id v \<in> set ids) (rt_versions t));
          empty = foldl (\<lambda>d n. dict_set d n \<lparr> se_user_name = n, se_storage_name = n, se_vms = [] \<rparr>) [] names
      in bind_res (map_res (storage_entry_of t) (groupby ver_storage_id raw)) (\<lambda>es.
           Inr (foldl (\<lambda>d e. dict_set d (se_storage_name e) e) empty es)))"

definition list_versions :: "listing_env \<Rightarrow> user \<Rightarrow> user \<Rightarrow> int option \<Rightarrow> int option \<Rightarrow> string option \<Rightarrow> string option
    \<Rightarrow> version_entry listing lister" where
  "list_versions E rq tg page page_size user_name volume_id = on_tables (\<lambda>t.
     let n = (if is_admin rq then user_name else Some (usr_name tg));
         cond = (case n of Some s \<Rightarrow> Some (''(user_name == '' @ quoted s @ '')'') | None \<Rightarrow> Some [])
     in try_query (dump_raw_object E user_model rq tg page page_size cond (rt_users t)) (\<lambda>(us, g, prev).
          let finish = (\<lambda>d. answer_with (listing_of d g prev)) in
          if us = [] then returnS ()
          else if volume_id \<noteq> None \<and> volume_id \<noteq> Some []
          then (let vs = filter (\<lambda>v. Some (ver_volume v) = volume_id) (rt_versions t)
                in finish (if vs = [] then [] else [OneVolume \<lparr> vle_id = ver_volume (hd vs), vle_versions = vs \<rparr>]))
          else try_query (versions_of_users t us) (\<lambda>d.
            if is_admin rq then finish (map (\<lambda>x. OneStorage (snd x)) d)
            else try_query (case dict_get d (usr_name tg) of Some e \<Rightarrow> Inr e | None \<Rightarrow> Inl KeyError) (\<lambda>e. finish (map OneMachine (se_vms e))))))"

end
