(* ===== verification/Listing_Theorems.thy ===== *)
theory Listing_Theorems
  imports Listing
begin

text \<open>
  What the lists of the web service answer. The loop of \<open>dump_raw_object\<close> takes one page; a user's list of machines has that user's machines only, as long
  as the condition on the owner is read as the service means it, which a name can prevent; and the versions a user is shown.
\<close>

section \<open>Pages\<close>

lemma dump_loop_once:
  assumes "paginate no_slice rows (Some p) (Some n) False None = Inr g"
  shows "dump_loop rows p n [] None = Inr (pg_items g, g, prev_num g)"
proof -
  define P where "P = (if p < 1 then 1 else p)"
  define N where "N = (if n < 0 then 20 else n)"
  have P: "1 \<le> P" by (simp add: P_def)
  have N: "0 \<le> N" by (simp add: N_def)
  have "paginate no_slice rows (Some p) (Some n) False None = bind_res (sql_slice no_slice N ((P - 1) * N) rows) (\<lambda>items.
      Inr \<lparr> pg_page = P, pg_per_page = N, pg_total = int (length rows), pg_items = items \<rparr>)"
    by (simp add: paginate_def Let_def P_def N_def)
  moreover have "\<not> N < 0" "\<not> (P - 1) * N < 0" using P N by (simp_all add: not_less)
  ultimately have g: "pg_page g = P" "pg_per_page g = N" "pg_total g = int (length rows)" "pg_items g = take (nat N) (drop (nat ((P - 1) * N)) rows)"
    using assms by (auto simp: sql_slice_def)
  have "pg_items g \<noteq> []" if more: "has_next g"
  proof -
    have N: "0 < N" using more P by (auto simp: has_next_def pages_def g N_def split: if_splits)
    then have "P * N < int (length rows)" using more less_ceil_div_iff [of N P] by (simp add: has_next_def pages_def g)
    moreover have "(P - 1) * N \<le> P * N" using N by (intro mult_right_mono) auto
    ultimately have "(P - 1) * N < int (length rows)" by (rule le_less_trans [rotated])
    then have "nat ((P - 1) * N) < length rows" using N P by (simp add: nat_less_iff)
    then show ?thesis using N by (simp add: g)
  qed
  then show ?thesis by (subst dump_loop.simps) (auto simp: assms prev_num_def)
qed

lemma dump_total: "\<exists>g. dump_loop rows p n [] None = Inr (pg_items g, g, prev_num g) \<and> set (pg_items g) \<subseteq> set rows"
proof -
  obtain g where g: "paginate no_slice rows (Some p) (Some n) False None = Inr g" using paginate_total by blast
  then have "set (pg_items g) \<subseteq> set rows"
    by (auto simp: paginate_def Let_def sql_slice_def no_slice_def split: if_splits dest!: in_set_takeD dest: in_set_dropD)
  then show ?thesis using dump_loop_once [OF g] by blast
qed

text \<open>A page that exists.\<close>

lemma dump_page: "0 < p \<Longrightarrow> dump_loop rows (int p) (int n) [] None = Inr (pg_items (page_of rows n p), page_of rows n p, prev_num (page_of rows n p))"
  by (rule dump_loop_once [OF paginate_page])

section \<open>Whose rows are listed\<close>

definition owner_leaf :: "int \<Rightarrow> ptree" where
  "owner_leaf i = PCmp Eq [PIdent ''user_id'', PLit (LInt i)]"

text \<open>The parser read the last words of the text as the last of the conjuncts, or the text has no other.\<close>

definition owner_tree :: "int \<Rightarrow> ptree \<Rightarrow> bool" where
  "owner_tree i t \<longleftrightarrow> t = owner_leaf i \<or> (\<exists>ts. t = PAnd (ts @ [owner_leaf i]))"

lemma construct_all_append: "construct_all (xs @ ys) = bind_res (construct_all xs) (\<lambda>es. bind_res (construct_all ys) (\<lambda>fs. Inr (es @ fs)))"
  by (induction xs) (auto simp: bind_res_def split: sum.splits)

lemma build_all_append: "build_all F (xs @ ys) = bind_res (build_all F xs) (\<lambda>es. bind_res (build_all F ys) (\<lambda>fs. Inr (es @ fs)))"
  by (induction xs) (auto simp: bind_res_def split: sum.splits)

lemma and3_true: "and3 vs = Some True \<longleftrightarrow> set vs \<subseteq> {Some True}"
  by (auto simp: and3_def) (metis (full_types) not_None_eq)

definition integers_compared :: "listing_env \<Rightarrow> bool" where
  "integers_compared E \<longleftrightarrow> (\<forall>i j. le_cmp E Eq (LInt i) (LInt j) \<longleftrightarrow> i = j)"

lemma owner_selected:
  assumes "grammar s = Inr t" "owner_tree i t" "build_s grammar F (Some s) = Inr q" "integers_compared E"
    "r \<in> set (run_query (sql_table E M) q rows)" "s \<noteq> []"
  and owner: "md_column M r ''user_id'' = Some (LInt j)"
  shows "j = i"
proof -
  let ?T = "sql_table E M" and ?c = "SCol Eq ''user_id'' (LInt i)"
  from assms(2) have "eval ?T r ?c = Some True"
    unfolding owner_tree_def
  proof
    assume "t = owner_leaf i"
    then have "q = Some ?c" using assms(1,3,6) by (simp add: owner_leaf_def build_s_def build_query_def column_cmp_def)
    then show ?thesis using assms(5) by (simp add: run_query_def)
  next
    assume "\<exists>ts. t = PAnd (ts @ [owner_leaf i])"
    then obtain ts where t: "t = PAnd (ts @ [owner_leaf i])" by blast
    obtain qs where "q = Some (SAnd (qs @ [?c]))"
      using assms(1,3,6)
      by (auto simp: t owner_leaf_def build_s_def build_query_def column_cmp_def construct_all_append build_all_append as_sql_def bind_res_def
          split: sum.splits if_splits)
    then show ?thesis using assms(5) by (simp add: run_query_def and3_true)
  qed
  then show ?thesis using assms(4) by (simp add: cmp3_def sql_table_def integers_compared_def owner)
qed


lemma try_query_simps [simp]: "try_query (Inl e) k cs = (Inl e, cs)" "try_query (Inr a) k cs = k a cs"
  by (simp_all add: try_query_def)

lemma on_tables_apply [simp]: "on_tables k (c, t) = k t (c, t)"
  by (simp add: on_tables_def)

lemma answer_with_apply [simp]: "answer_with r cs = (Inr (), (fst cs)\<lparr>cx_response := Some r\<rparr>, snd cs)"
  by (simp add: answer_with_def)

lemma map_res_set: "map_res f xs = Inr ys \<Longrightarrow> y \<in> set ys \<Longrightarrow> \<exists>x \<in> set xs. f x = Inr y"
  by (induction xs arbitrary: ys) (auto simp: bind_res_eq_Inr)

text \<open>The rows of an answer come from the rows the query selects.\<close>

lemma dumped_rows:
  assumes "dump_raw_object E M rq tg page n cond rows = Inr (raw, g, prev)"
  obtains q where "build_s (le_grammar E (md_name M)) (le_foreign E (md_name M)) (scoped (is_admin rq) (get_model_attr M ''user_id'') (usr_id tg) cond) = Inr q"
    "set raw \<subseteq> set (run_query (sql_table E M) q rows)"
proof -
  obtain q where q: "build_s (le_grammar E (md_name M)) (le_foreign E (md_name M)) (scoped (is_admin rq) (get_model_attr M ''user_id'') (usr_id tg) cond) = Inr q"
    "dump_loop (run_query (sql_table E M) q rows) (or_default 1 page) (or_default 10 n) [] None = Inr (raw, g, prev)"
    using assms by (auto simp: dump_raw_object_def bind_res_eq_Inr)
  then have "set raw \<subseteq> set (run_query (sql_table E M) q rows)"
    using dump_total [of "run_query (sql_table E M) q rows" "or_default 1 page" "or_default 10 n"] by auto
  with q show ?thesis using that by blast
qed

text \<open>The text the parser gets for a user's list of a table.\<close>

definition owner_text :: "user \<Rightarrow> string \<Rightarrow> string" where
  "owner_text tg c =
     ''('' @ (if c \<noteq> [] then ''('' @ unjoined c @ '') and '' else []) @ ''user_id == '' @ str_int (usr_id tg) @ '')''"

lemma owner_text_not_Nil [simp]: "owner_text tg c \<noteq> []"
  by (simp add: owner_text_def)

lemma scoped_text: "scoped False True (usr_id tg) (enclosed c) = Some (owner_text tg c)"
  by (simp add: scoped_def enclosed_def owner_text_def)

lemma dumped_own_rows:
  assumes dump: "dump_raw_object E M rq tg page n (enclosed c) rows = Inr (raw, g, prev)"
    and user: "\<not> is_admin rq" and attr: "get_model_attr M ''user_id''"
    and tree: "le_grammar E (md_name M) (owner_text tg c) = Inr t" "owner_tree (usr_id tg) t"
    and cmp: "integers_compared E"
    and m: "m \<in> set raw" "md_column M m ''user_id'' = Some (LInt j)"
  shows "j = usr_id tg"
proof -
  obtain q where q: "build_s (le_grammar E (md_name M)) (le_foreign E (md_name M)) (Some (owner_text tg c)) = Inr q"
    and "set raw \<subseteq> set (run_query (sql_table E M) q rows)"
    using dump user attr by (elim dumped_rows) (simp add: scoped_text)
  then show ?thesis using m(1) by (intro owner_selected [OF tree(1) tree(2) q cmp _ _ m(2)]) auto
qed

lemma vm_condition_user: "\<not> is_admin rq \<Longrightarrow> vm_condition rq name uid cs = (Inr (enclosed (given_clause ''name'' name)), cs)"
  by (simp add: vm_condition_def split: option.split)

lemma list_vms_user:
  assumes "\<not> is_admin rq"
  shows "list_vms E rq tg page n name uid (c, t) =
    try_query (dump_raw_object E vm_model rq tg page n (enclosed (given_clause ''name'' name)) (rt_vms t)) (\<lambda>(vms, g, prev).
      if vms = [] then returnS ()
      else (case le_volumes E of
          None \<Rightarrow> returnS ()
        | Some volumes \<Rightarrow> try_query (map_res (vm_entry_of rq volumes t) vms) (\<lambda>es. answer_with (listing_of es g prev)))) (c, t)"
  using assms by (simp add: list_vms_def bindS_def vm_condition_user)

lemma vm_entry_user: "\<not> is_admin rq \<Longrightarrow> vm_entry_of rq vs t m = Inr e \<Longrightarrow> ve_vm e = to_user_dict vm_model m"
  by (auto simp: vm_entry_of_def dict_for_def bind_res_eq_Inr split: option.splits)

text \<open>What a list of machines that answers has done.\<close>

lemma list_vms_answers:
  assumes user: "\<not> is_admin rq" and run: "list_vms E rq tg page n name uid (c0, t) = (r, c, t')"
    and resp: "cx_response c0 = None" "cx_response c = Some l"
  obtains raw g prev volumes where "dump_raw_object E vm_model rq tg page n (enclosed (given_clause ''name'' name)) (rt_vms t) = Inr (raw, g, prev)"
    "map_res (vm_entry_of rq volumes t) raw = Inr (li_data l)" "l = listing_of (li_data l) g prev" "t' = t"
proof (cases "dump_raw_object E vm_model rq tg page n (enclosed (given_clause ''name'' name)) (rt_vms t)")
  case (Inl e)
  then show ?thesis using run resp by (simp add: list_vms_user [OF user])
next
  case (Inr x)
  obtain raw g prev where x: "x = (raw, g, prev)" by (cases x)
  note run = run [unfolded list_vms_user [OF user] Inr x try_query_simps prod.case]
  have "raw \<noteq> []" using run resp by auto
  moreover then obtain volumes where "le_volumes E = Some volumes" using run resp by (cases "le_volumes E") auto
  moreover then obtain es where "map_res (vm_entry_of rq volumes t) raw = Inr es"
    using run resp \<open>raw \<noteq> []\<close> by (cases "map_res (vm_entry_of rq volumes t) raw") auto
  ultimately have "cx_response c = Some (listing_of es g prev)" "t' = t" using run by auto
  then show ?thesis
    using that [of raw g prev volumes] Inr x \<open>map_res (vm_entry_of rq volumes t) raw = Inr es\<close> resp(2) by (auto simp: listing_of_def)
qed

lemma new_context_response [simp]: "cx_response new_context = None"
  by (simp add: new_context_def)

text \<open>C34: A list of machines answers an ordinary user with that user's machines only, whichever page and name it asks for, provided the
  parser reads the words about the owner that the service adds to the user's condition as a conjunct of the whole.\<close>

theorem own_vms_listed:
  assumes "\<not> is_admin rq" and "integers_compared E"
    and "le_grammar E ''vms'' (owner_text tg (given_clause ''name'' name)) = Inr tree" and "owner_tree (usr_id tg) tree"
    and "list_vms E rq tg page n name uid (new_context, t) = (r, c, t')" and "cx_response c = Some l"
  shows "t' = t \<and> (\<forall>e \<in> set (li_data l). \<exists>m \<in> set (rt_vms t). ve_vm e = to_user_dict vm_model m \<and> vm_user_id m = usr_id tg)"
proof -
  obtain raw g prev volumes where dump: "dump_raw_object E vm_model rq tg page n (enclosed (given_clause ''name'' name)) (rt_vms t) = Inr (raw, g, prev)"
    and es: "map_res (vm_entry_of rq volumes t) raw = Inr (li_data l)" "t' = t"
    using list_vms_answers [OF assms(1,5) new_context_response assms(6)] .
  have "\<exists>m \<in> set (rt_vms t). ve_vm e = to_user_dict vm_model m \<and> vm_user_id m = usr_id tg" if e: "e \<in> set (li_data l)" for e
  proof -
    obtain m where m: "m \<in> set raw" "vm_entry_of rq volumes t m = Inr e" using map_res_set [OF es(1) e] by blast
    have "vm_user_id m = usr_id tg"
      by (rule dumped_own_rows [OF dump assms(1) _ _ assms(4,2) m(1)]) (simp_all add: vm_model_def get_model_attr_def assms(3))
    moreover have "m \<in> set (rt_vms t)" using dump m(1) by (elim dumped_rows) (auto simp: run_query_def split: option.splits)
    ultimately show ?thesis using vm_entry_user [OF assms(1) m(2)] by blast
  qed
  then show ?thesis using es by simp
qed

lemma unique_one_or_none:
  assumes "unique key rows" and "\<And>r s. p r \<Longrightarrow> p s \<Longrightarrow> key r = key s"
  shows "\<exists>x. one_or_none p rows = Inr x"
proof -
  have d: "distinct (map key (filter p rows))" using assms(1) by (simp add: unique_def distinct_map_filter)
  have "length (filter p rows) \<le> 1"
  proof (rule ccontr)
    assume "\<not> length (filter p rows) \<le> 1"
    then have "Suc (Suc 0) \<le> length (filter p rows)" by simp
    then obtain a b rs where ab: "filter p rows = a # b # rs" by (auto simp: Suc_le_length_iff)
    then have "a \<in> set (filter p rows)" "b \<in> set (filter p rows)" by simp_all
    then have "key a = key b" using assms(2) by simp
    with d ab show False by simp
  qed
  then show ?thesis by (auto simp: one_or_none_def split: list.splits)
qed

lemma map_res_total: "(\<And>x. x \<in> set xs \<Longrightarrow> \<exists>y. f x = Inr y \<and> Q x y) \<Longrightarrow> \<exists>ys. map_res f xs = Inr ys \<and> list_all2 Q xs ys"
proof (induction xs)
  case (Cons x xs)
  then obtain y ys where "f x = Inr y" "Q x y" "map_res f xs = Inr ys" "list_all2 Q xs ys" by (metis list.set_intros)
  then show ?case by simp
qed simp

lemma list_all2_map_eq: "list_all2 (\<lambda>x y. f y = g x) xs ys \<Longrightarrow> map f ys = map g xs"
  by (induction rule: list_all2_induct) simp_all

lemma vm_entry_total:
  assumes "keys_unique t"
  shows "\<exists>e. vm_entry_of rq vs t m = Inr e"
proof -
  have "\<exists>w. volume_in_group t m v = Inr w" for v
    using unique_one_or_none [of gv_volume_id "rt_group_volumes t" "\<lambda>g. gv_vm_id g = vm_id m \<and> gv_volume_id g = v"] assms
    by (auto simp: volume_in_group_def keys_unique_def)
  then have "\<exists>ws. map_res (volume_in_group t m) xs = Inr ws" for xs using map_res_total [of xs "volume_in_group t m" "\<lambda>_ _. True"] by blast
  then obtain ws where "map_res (volume_in_group t m) (the (vs (vm_ems_ref m))) = Inr ws" by blast
  then show ?thesis by (cases "vs (vm_ems_ref m)") (simp_all add: vm_entry_of_def)
qed

text \<open>The entries, by what is known of each.\<close>

lemma vm_entries_total:
  assumes "keys_unique t" and "\<And>m e. vm_entry_of rq vs t m = Inr e \<Longrightarrow> f e = g m"
  shows "\<exists>es. map_res (vm_entry_of rq vs t) ms = Inr es \<and> map f es = map g ms"
  using map_res_total [of ms "vm_entry_of rq vs t" "\<lambda>m e. f e = g m"] vm_entry_total [OF assms(1)] assms(2) list_all2_map_eq by metis

lemma owner_text_alone: "owner_text tg [] = ''(user_id == '' @ str_int (usr_id tg) @ '')''"
  by (simp add: owner_text_def)

text \<open>The query for the owner alone.\<close>

lemma owner_query:
  assumes "le_grammar E (md_name M) (owner_text tg []) = Inr (owner_leaf (usr_id tg))" and "integers_compared E" and "\<not> is_admin rq"
    and "get_model_attr M ''user_id''" and owner: "\<And>r. md_column M r ''user_id'' = Some (LInt (ow r))"
  shows "dump_raw_object E M rq tg page n None rows =
    dump_loop (filter (\<lambda>r. ow r = usr_id tg) rows) (or_default 1 page) (or_default 10 n) [] None"
proof -
  have "build_s (le_grammar E (md_name M)) (le_foreign E (md_name M)) (Some (owner_text tg [])) = Inr (Some (SCol Eq ''user_id'' (LInt (usr_id tg))))"
    using assms(1) by (simp add: build_s_def build_query_def owner_leaf_def column_cmp_def)
  moreover have "scoped False True (usr_id tg) None = Some (owner_text tg [])" by (simp add: scoped_def owner_text_alone)
  moreover have "run_query (sql_table E M) (Some (SCol Eq ''user_id'' (LInt (usr_id tg)))) rows = filter (\<lambda>r. ow r = usr_id tg) rows"
    using assms(2) by (simp add: run_query_def cmp3_def sql_table_def owner integers_compared_def)
  ultimately show ?thesis using assms(3,4) by (simp add: dump_raw_object_def)
qed

text \<open>C35: Without a filter a list of machines answers an ordinary user with exactly the requested page of that user's machines, in the order of the
  table, with the numbers of the next and the previous page: the loop over pages in \<open>dump_raw_object\<close> never takes a second page.\<close>

theorem own_vms_page:
  assumes "\<not> is_admin rq" and "integers_compared E" and "keys_unique t" and "le_volumes E = Some volumes"
    and "le_grammar E ''vms'' (owner_text tg []) = Inr (owner_leaf (usr_id tg))"
    and "own = filter (\<lambda>m. vm_user_id m = usr_id tg) (rt_vms t)" and "0 < p" and "0 < k" and "(p - 1) * k < length own"
  shows "\<exists>l. list_vms E rq tg (Some (int p)) (Some (int k)) None uid (new_context, t) = (Inr (), new_context\<lparr>cx_response := Some l\<rparr>, t) \<and>
    map ve_vm (li_data l) = map (to_user_dict vm_model) (take k (drop ((p - 1) * k) own)) \<and>
    li_has_more l = (p * k < length own) \<and> li_next_page l = (if p * k < length own then Some (int p + 1) else None) \<and>
    li_prev_page l = (if p = 1 then None else Some (int p - 1))"
proof -
  let ?g = "page_of own k p" and ?raw = "take k (drop ((p - 1) * k) own)"
  have "dump_raw_object E vm_model rq tg (Some (int p)) (Some (int k)) None (rt_vms t) = dump_loop own (int p) (int k) [] None"
    using owner_query [of E vm_model tg rq vm_user_id] assms by (simp add: vm_model_def get_model_attr_def or_default_def)
  also have "\<dots> = Inr (?raw, ?g, prev_num ?g)" using dump_page [OF assms(7), of own k] by (simp add: page_of_def)
  finally have dump: "dump_raw_object E vm_model rq tg (Some (int p)) (Some (int k)) None (rt_vms t) = Inr (?raw, ?g, prev_num ?g)" .
  have "\<exists>es. map_res (vm_entry_of rq volumes t) ?raw = Inr es \<and> map ve_vm es = map (to_user_dict vm_model) ?raw"
    by (rule vm_entries_total [OF assms(3)]) (rule vm_entry_user [OF assms(1)])
  then obtain es where es: "map_res (vm_entry_of rq volumes t) ?raw = Inr es" "map ve_vm es = map (to_user_dict vm_model) ?raw" by blast
  note es(2)
  moreover have "list_vms E rq tg (Some (int p)) (Some (int k)) None uid (new_context, t) =
      (Inr (), new_context\<lparr>cx_response := Some (listing_of es ?g (prev_num ?g))\<rparr>, t)"
  proof -
    have cond: "enclosed (given_clause ''name'' None) = None" by (simp add: given_clause_def enclosed_def)
    have "?raw \<noteq> []" using assms(8,9) by simp
    then show ?thesis
      unfolding list_vms_user [OF assms(1)] cond dump try_query_simps prod.case assms(4) option.case es(1) by (simp only: if_False) simp
  qed
  moreover have "has_next ?g \<longleftrightarrow> p * k < length own" by (rule has_next_page [OF assms(8)])
  moreover have "next_num ?g = (if p * k < length own then Some (int p + 1) else None)"
    by (simp add: next_num_def has_next_page [OF assms(8)]) (simp add: page_of_def)
  moreover have "prev_num ?g = (if p = 1 then None else Some (int p - 1))" using assms(7) by (simp add: prev_num_def has_prev_def page_of_def)
  ultimately show ?thesis by (intro exI [of _ "listing_of es ?g (prev_num ?g)"]) (simp add: listing_of_def)
qed

section \<open>A name that is more than a name\<close>

text \<open>The name of a machine is put between quotes as it is. This one closes them.\<close>

definition leaking_name :: string where
  "leaking_name = ''x') or (name != 'x') or (name == 'x''"

text \<open>How the parser, in which conjunction binds stronger than disjunction, reads the text it is given for this name.\<close>

definition name_leaf :: "cmp \<Rightarrow> ptree" where
  "name_leaf op = PCmp op [PIdent ''name'', PLit (LStr ''x'')]"

definition leaking_tree :: "int \<Rightarrow> ptree" where
  "leaking_tree i = POr [name_leaf Eq, name_leaf Ne, PAnd [name_leaf Eq, owner_leaf i]]"

lemma leaking_text:
  "owner_text tg (given_clause ''name'' (Some leaking_name)) =
     ''((name == 'x') or (name != 'x') or (name == 'x') and user_id == '' @ str_int (usr_id tg) @ '')''"
proof -
  have "given_clause ''name'' (Some leaking_name) \<noteq> []" by (simp add: given_clause_def leaking_name_def clause_def)
  moreover have "unjoined (given_clause ''name'' (Some leaking_name)) = ''name == 'x') or (name != 'x') or (name == 'x'' @ [CHR 0x27]"
    by code_simp
  ultimately show ?thesis by (simp add: owner_text_def)
qed

definition unequal_is_not_equal :: "listing_env \<Rightarrow> bool" where
  "unequal_is_not_equal E \<longleftrightarrow> (\<forall>a b. le_cmp E Ne a b \<longleftrightarrow> \<not> le_cmp E Eq a b)"

lemma or3_true: "or3 vs = Some True \<longleftrightarrow> Some True \<in> set vs"
  by (simp add: or3_def)

lemma leaking_query:
  assumes "unequal_is_not_equal E" "le_grammar E (md_name M) s = Inr (leaking_tree i)" "s \<noteq> []" "\<And>r. md_column M r ''name'' = Some (LStr (nm r))"
  shows "\<exists>q. build_s (le_grammar E (md_name M)) F (Some s) = Inr q \<and> run_query (sql_table E M) q rows = rows"
proof -
  let ?n = "\<lambda>op. SCol op ''name'' (LStr ''x'')"
  have "build_s (le_grammar E (md_name M)) F (Some s) = Inr (Some (SOr [?n Eq, ?n Ne, SAnd [?n Eq, SCol Eq ''user_id'' (LInt i)]]))"
    using assms(2,3)
    by (simp add: build_s_def build_query_def leaking_tree_def name_leaf_def owner_leaf_def is_buildable_def column_cmp_def as_sql_def)
  moreover have "run_query (sql_table E M) (Some (SOr [?n Eq, ?n Ne, SAnd [?n Eq, SCol Eq ''user_id'' (LInt i)]])) rows = rows"
    using assms(1,4) by (auto simp: run_query_def or3_true cmp3_def sql_table_def unequal_is_not_equal_def)
  ultimately show ?thesis by blast
qed

text \<open>The identifiers of the machines an answer lists.\<close>

definition listed_ids :: "(exn + unit) \<times> vm_entry listing ctx \<times> tables \<Rightarrow> literal option option list option" where
  "listed_ids x = map_option (\<lambda>l. map (\<lambda>e. dict_get (ve_vm e) ''id'') (li_data l)) (cx_response (fst (snd x)))"

lemma vm_entry_id: "vm_entry_of rq vs t m = Inr e \<Longrightarrow> dict_get (ve_vm e) ''id'' = Some (Some (LInt (vm_id m)))"
  by (auto simp: vm_entry_of_def dict_for_def bind_res_eq_Inr to_dict_def to_user_dict_def vm_model_def split: option.splits)

text \<open>The part of the handler behind the query.\<close>

lemma listed_ids_entries:
  assumes "keys_unique t"
  shows "listed_ids ((case le_volumes E of
      None \<Rightarrow> returnS ()
    | Some volumes \<Rightarrow> try_query (map_res (vm_entry_of rq volumes t) ms) (\<lambda>es. answer_with (listing_of es g prev))) (new_context, t)) =
    (if le_volumes E = None then None else Some (map (\<lambda>m. Some (Some (LInt (vm_id m)))) ms))"
proof (cases "le_volumes E")
  case (Some vs)
  have "\<exists>es. map_res (vm_entry_of rq vs t) ms = Inr es \<and> map (\<lambda>e. dict_get (ve_vm e) ''id'') es = map (\<lambda>m. Some (Some (LInt (vm_id m)))) ms"
    by (rule vm_entries_total [OF assms]) (rule vm_entry_id)
  then obtain es where "map_res (vm_entry_of rq vs t) ms = Inr es" "map (\<lambda>e. dict_get (ve_vm e) ''id'') es = map (\<lambda>m. Some (Some (LInt (vm_id m)))) ms"
    by blast
  then show ?thesis by (simp add: Some listed_ids_def listing_of_def)
qed (simp add: listed_ids_def)

text \<open>C36: The condition on the owner does not hold when the name a user filters by closes its quotes and parentheses: then the list of machines
  has exactly the machines an administrator's list without a filter has, page by page, whoever owns them.\<close>

theorem name_filter_leaks:
  assumes "\<not> is_admin rq" and "is_admin adm" and "keys_unique t" and "unequal_is_not_equal E"
    and "le_grammar E ''vms'' (''((name == 'x') or (name != 'x') or (name == 'x') and user_id == '' @ str_int (usr_id tg) @ '')'') = Inr (leaking_tree (usr_id tg))"
  shows "listed_ids (list_vms E rq tg page n (Some leaking_name) uid (new_context, t)) =
    listed_ids (list_vms E adm adm page n None None (new_context, t))"
proof -
  let ?D = "dump_loop (rt_vms t) (or_default 1 page) (or_default 10 n) [] None"
  have name: "md_column vm_model m ''name'' = Some (LStr (vm_name m))" for m by (simp add: vm_model_def)
  have "le_grammar E (md_name vm_model) (owner_text tg (given_clause ''name'' (Some leaking_name))) = Inr (leaking_tree (usr_id tg))"
    unfolding leaking_text using assms(5) by (simp add: vm_model_def)
  then obtain q where q: "build_s (le_grammar E (md_name vm_model)) (le_foreign E (md_name vm_model)) (Some (owner_text tg (given_clause ''name'' (Some leaking_name)))) = Inr q"
    "run_query (sql_table E vm_model) q (rt_vms t) = rt_vms t"
    using leaking_query [OF assms(4) _ owner_text_not_Nil name] by blast
  have attr: "get_model_attr vm_model ''user_id''" by (simp add: vm_model_def get_model_attr_def)
  have user: "dump_raw_object E vm_model rq tg page n (enclosed (given_clause ''name'' (Some leaking_name))) (rt_vms t) = ?D"
    using q assms(1) attr by (simp add: dump_raw_object_def scoped_text)
  have admin: "dump_raw_object E vm_model adm adm page n None (rt_vms t) = ?D"
    using assms(2) by (simp add: dump_raw_object_def scoped_def build_s_def build_query_def run_query_def)
  obtain g where g: "?D = Inr (pg_items g, g, prev_num g)" using dump_total [of "rt_vms t" "or_default 1 page" "or_default 10 n"] by blast
  have run: "list_vms E adm adm page n None None (new_context, t) = try_query ?D (\<lambda>(vms, g, prev).
      if vms = [] then returnS ()
      else (case le_volumes E of
          None \<Rightarrow> returnS ()
        | Some volumes \<Rightarrow> try_query (map_res (vm_entry_of adm volumes t) vms) (\<lambda>es. answer_with (listing_of es g prev)))) (new_context, t)"
    by (simp add: list_vms_def bindS_def vm_condition_def given_clause_def enclosed_def admin)
  show ?thesis
    unfolding run list_vms_user [OF assms(1)] user g try_query_simps prod.case
    by (cases "pg_items g = []") (simp_all only: simp_thms if_True if_False returnS_apply listed_ids_entries [OF assms(3)])
qed

section \<open>Versions\<close>

lemma groupby_group: "g \<in> set (groupby key xs) \<Longrightarrow> g \<noteq> [] \<and> set g \<subseteq> set xs \<and> (\<forall>x \<in> set g. key x = key (hd g))"
proof (induction key xs rule: groupby.induct)
  case (2 key x xs)
  from "2.prems" consider "g = x # takeWhile (\<lambda>y. key y = key x) xs" | "g \<in> set (groupby key (dropWhile (\<lambda>y. key y = key x) xs))" by auto
  then show ?case
  proof cases
    case 1
    then show ?thesis by (simp add: subset_iff) (blast dest: set_takeWhileD)
  next
    case 2
    then show ?thesis using "2.IH" [OF 2] set_dropWhileD by fastforce
  qed
qed simp

lemma dict_get_updates:
  "dict_get (foldl (\<lambda>d e. dict_set d (key e) (val e)) d es) k = Some v \<Longrightarrow> dict_get d k = Some v \<or> (\<exists>e \<in> set es. key e = k \<and> v = val e)"
proof (induction es arbitrary: d)
  case (Cons e es)
  then show ?case by (fastforce simp: update_conv' split: if_splits)
qed simp

lemma machine_versions:
  assumes "machine_entry_of t vs = Inr m" "ve \<in> set (me_volumes m)"
  shows "set (vle_versions ve) \<subseteq> set vs"
  using assms groupby_group by (fastforce simp: machine_entry_of_def bind_res_eq_Inr)

lemma storage_versions:
  assumes "storage_entry_of t vs = Inr e" "m \<in> set (se_vms e)" "ve \<in> set (me_volumes m)"
  shows "set (vle_versions ve) \<subseteq> set vs"
    and "\<exists>s. row st_id (ver_storage_id (hd vs)) (rt_storages t) = Some s \<and> st_name s = se_storage_name e"
proof -
  obtain ms s where e: "map_res (machine_entry_of t) (groupby ver_vm_id (sort_key ver_vm_id vs)) = Inr ms" "ms = se_vms e"
    "row st_id (ver_storage_id (hd vs)) (rt_storages t) = Some s" "st_name s = se_storage_name e"
    using assms(1) by (auto simp: storage_entry_of_def bind_res_eq_Inr attr_def split: option.splits)
  then obtain g where g: "g \<in> set (groupby ver_vm_id (sort_key ver_vm_id vs))" "machine_entry_of t g = Inr m"
    using map_res_set assms(2) by fastforce
  show "set (vle_versions ve) \<subseteq> set vs" using machine_versions [OF g(2) assms(3)] groupby_group [OF g(1)] by auto
  show "\<exists>s. row st_id (ver_storage_id (hd vs)) (rt_storages t) = Some s \<and> st_name s = se_storage_name e" using e by blast
qed

text \<open>Whose versions are collected under a name.\<close>

lemma versions_of_name:
  assumes "versions_of_users t us = Inr d" "dict_get d n = Some e" "m \<in> set (se_vms e)" "ve \<in> set (me_volumes m)" "v \<in> set (vle_versions ve)"
  shows "v \<in> set (rt_versions t) \<and> (\<exists>s. row st_id (ver_storage_id v) (rt_storages t) = Some s \<and> st_name s = n)"
proof -
  define empty where "empty = foldl (\<lambda>d n. dict_set d n \<lparr> se_user_name = n, se_storage_name = n, se_vms = [] \<rparr>) [] (map usr_name us)"
  define raw where "raw = sort_key ver_storage_id
    (filter (\<lambda>v. ver_storage_id v \<in> set (map st_id (filter (\<lambda>s. st_name s \<in> set (map usr_name us)) (rt_storages t)))) (rt_versions t))"
  have sub: "set raw \<subseteq> set (rt_versions t)" by (auto simp: raw_def)
  obtain es where raw: "map_res (storage_entry_of t) (groupby ver_storage_id raw) = Inr es" "d = foldl (\<lambda>d e. dict_set d (se_storage_name e) e) empty es"
    using assms(1) unfolding versions_of_users_def Let_def bind_res_eq_Inr empty_def [symmetric] raw_def [symmetric] by auto
  have "dict_get empty n \<noteq> Some e"
    using dict_get_updates [of "\<lambda>n. n" "\<lambda>n. \<lparr> se_user_name = n, se_storage_name = n, se_vms = [] \<rparr>" "[]" "map usr_name us" n e] assms(3)
    by (auto simp: empty_def)
  then have e: "e \<in> set es" "se_storage_name e = n"
    using dict_get_updates [of se_storage_name "\<lambda>e. e" empty es n e] assms(2) raw(2) by auto
  then obtain vs where vs: "vs \<in> set (groupby ver_storage_id raw)" "storage_entry_of t vs = Inr e" using map_res_set [OF raw(1)] by blast
  have "v \<in> set vs" using storage_versions(1) [OF vs(2) assms(3,4)] assms(5) by blast
  moreover from this have "ver_storage_id v = ver_storage_id (hd vs)" "v \<in> set (rt_versions t)" using groupby_group [OF vs(1)] sub by blast+
  ultimately show ?thesis using storage_versions(2) [OF vs(2) assms(3,4)] e(2) by simp
qed

text \<open>C37: The list of versions of an ordinary user holds versions on the storage of that user's name only, whatever the parser makes of the name; unless the
  request names a volume: then it is answered with all versions of the volume, whoever owns them.\<close>

theorem listed_versions_owner:
  assumes "\<not> is_admin rq" and "list_versions E rq tg page n user_name volume_id (new_context, t) = (r, c, t')" and "cx_response c = Some l"
  shows "if volume_id = None \<or> volume_id = Some []
    then \<forall>x \<in> set (li_data l). \<exists>m. x = OneMachine m \<and> (\<forall>ve \<in> set (me_volumes m). \<forall>v \<in> set (vle_versions ve).
      v \<in> set (rt_versions t) \<and> (\<exists>s. row st_id (ver_storage_id v) (rt_storages t) = Some s \<and> st_name s = usr_name tg))
    else \<forall>v \<in> set (rt_versions t). Some (ver_volume v) = volume_id \<longrightarrow> (\<exists>ve. li_data l = [OneVolume ve] \<and> v \<in> set (vle_versions ve))"
proof -
  let ?D = "dump_raw_object E user_model rq tg page n (Some (''(user_name == '' @ quoted (usr_name tg) @ '')'')) (rt_users t)"
  obtain us g prev where D: "?D = Inr (us, g, prev)" and us: "us \<noteq> []"
  proof (cases ?D)
    case (Inl e)
    then show ?thesis using assms by (simp add: list_versions_def Let_def)
  next
    case (Inr x)
    then show ?thesis using assms that by (cases x) (auto simp: list_versions_def Let_def split: if_splits)
  qed
  note run = assms(2) [unfolded list_versions_def Let_def on_tables_apply]
  show ?thesis
  proof (cases "volume_id = None \<or> volume_id = Some []")
    case True
    then obtain d where d: "versions_of_users t us = Inr d"
      using run assms(1,3) us D by (cases "versions_of_users t us") auto
    then obtain e where e: "dict_get d (usr_name tg) = Some e"
      using run assms(1,3) us D True by (cases "dict_get d (usr_name tg)") auto
    have "li_data l = map OneMachine (se_vms e)" using run assms(1,3) us D True d e by (auto simp: listing_of_def)
    then show ?thesis using True versions_of_name [OF d e] by fastforce
  next
    case False
    then have "li_data l = (let vs = filter (\<lambda>v. Some (ver_volume v) = volume_id) (rt_versions t) in
        if vs = [] then [] else [OneVolume \<lparr> vle_id = ver_volume (hd vs), vle_versions = vs \<rparr>])"
      using run assms(1,3) us D by (auto simp: listing_of_def Let_def)
    then show ?thesis using False by (auto simp: Let_def filter_empty_conv)
  qed
qed

section \<open>Counts of storages\<close>

text \<open>Each node is listed with the storages of all nodes before it on the page.\<close>

lemma node_counts_add_up:
  "map ne_storage_count (node_entries t c ns) = map (\<lambda>i. c + sum_list (map (node_load t) (take (Suc i) ns))) [0..<length ns]"
proof (induction ns arbitrary: c)
  case (Cons n ns)
  have "[0..<length (n # ns)] = 0 # map Suc [0..<length ns]" by (metis length_Cons map_Suc_upt upt_conv_Cons zero_less_Suc)
  then show ?case using Cons [of "c + node_load t n"] by (simp add: Let_def o_def add.assoc)
qed simp

section \<open>Examples\<close>

text \<open>A parser that reads every text as the given tree, the comparison of the example of filter expressions, and a cloud without volumes.\<close>

definition demo_listing_env :: "ptree \<Rightarrow> listing_env" where
  "demo_listing_env e = \<lparr> le_grammar = (\<lambda>_ _. Inr e), le_foreign = (\<lambda>_. no_foreign), le_cmp = tb_cmp demo_table, le_labels = (\<lambda>_. []),
     le_volumes = Some (\<lambda>_. Some []) \<rparr>"

definition demo_root :: user where "demo_root = demo_users ! 0"
definition demo_ann :: user where "demo_ann = demo_users ! 1"

lemma demo_compared: "integers_compared (demo_listing_env e)" "unequal_is_not_equal (demo_listing_env e)"
  by (auto simp: integers_compared_def unequal_is_not_equal_def demo_listing_env_def demo_table_def split: literal.split)

lemma demo_keys: "keys_unique demo_tables"
  by code_simp

lemma demo_persons: "\<not> is_admin demo_ann" "is_admin demo_root" "usr_id demo_ann = 2" "usr_name demo_ann = ''ann''"
  by code_simp+

lemma demo_listed_ids:
  "listed_ids (list_vms (demo_listing_env (PAnd [PCmp Eq [PIdent ''name'', PLit (LStr ''a'')], owner_leaf 2])) demo_ann demo_ann None None (Some ''a'') None
     (new_context, demo_tables)) = Some [Some (Some (LInt 1))]"
  by code_simp

theorem own_vms_listed_witness:
  "\<exists>c l. snd (list_vms (demo_listing_env (PAnd [PCmp Eq [PIdent ''name'', PLit (LStr ''a'')], owner_leaf 2])) demo_ann demo_ann None None (Some ''a'') None
      (new_context, demo_tables)) = (c, demo_tables) \<and> cx_response c = Some l \<and> li_data l \<noteq> [] \<and>
    (\<forall>e \<in> set (li_data l). \<exists>m \<in> set (rt_vms demo_tables). ve_vm e = to_user_dict vm_model m \<and> vm_user_id m = 2)"
proof -
  let ?tree = "PAnd [PCmp Eq [PIdent ''name'', PLit (LStr ''a'')], owner_leaf 2]"
  obtain r c t' where run: "list_vms (demo_listing_env ?tree) demo_ann demo_ann None None (Some ''a'') None (new_context, demo_tables) = (r, c, t')"
    using prod_cases3 by blast
  then obtain l where l: "cx_response c = Some l" "li_data l \<noteq> []" using demo_listed_ids by (auto simp: listed_ids_def)
  have "owner_tree (usr_id demo_ann) ?tree" by (simp add: owner_tree_def demo_persons)
  then show ?thesis
    using own_vms_listed [OF demo_persons(1) demo_compared(1) _ _ run l(1), of ?tree] run l by (simp add: demo_listing_env_def demo_persons)
qed

theorem own_vms_page_witness:
  "\<exists>l. cx_response (fst (snd (list_vms (demo_listing_env (owner_leaf 2)) demo_ann demo_ann (Some (int 1)) (Some (int 1)) None None (new_context, demo_tables)))) = Some l \<and>
    map ve_vm (li_data l) = [[(''id'', Some (LInt 1)), (''name'', Some (LStr ''a'')), (''user_id'', Some (LInt 2))]] \<and> \<not> li_has_more l"
proof -
  have own: "filter (\<lambda>m. vm_user_id m = usr_id demo_ann) (rt_vms demo_tables) = [\<lparr> vm_id = 1, vm_name = ''a'', vm_ems_ref = Some ''srv-a'', vm_user_id = 2 \<rparr>]"
    by (simp add: demo_tables_def demo_persons)
  show ?thesis
    using own_vms_page [OF demo_persons(1) demo_compared(1) demo_keys _ _ refl, of "owner_leaf 2" "\<lambda>_. Some []" demo_ann 1 1 None]
    unfolding own by (auto simp: demo_listing_env_def demo_persons to_user_dict_def vm_model_def)
qed

theorem name_filter_leaks_witness:
  "listed_ids (list_vms (demo_listing_env (leaking_tree 2)) demo_ann demo_ann None None (Some leaking_name) None (new_context, demo_tables)) =
     Some [Some (Some (LInt 1)), Some (Some (LInt 2))]"
proof -
  have "listed_ids (list_vms (demo_listing_env (leaking_tree 2)) demo_root demo_root None None None None (new_context, demo_tables)) =
     Some [Some (Some (LInt 1)), Some (Some (LInt 2))]" by code_simp
  moreover have "le_grammar (demo_listing_env (leaking_tree 2)) x s = Inr (leaking_tree (usr_id demo_ann))" for x s
    by (simp add: demo_listing_env_def demo_persons)
  ultimately show ?thesis using name_filter_leaks [OF demo_persons(1,2) demo_keys demo_compared(2)] by simp
qed

theorem listed_versions_owner_witness:
  "\<exists>l ve. cx_response (fst (snd (list_versions (demo_listing_env (PCmp Eq [PIdent ''user_name'', PLit (LStr ''ann'')])) demo_ann demo_ann None None None (Some ''vol-b'')
      (new_context, demo_tables)))) = Some l \<and> li_data l = [OneVolume ve] \<and> demo_done_version 2 ''V2'' ''vol-b'' \<in> set (vle_versions ve)"
proof -
  let ?run = "list_versions (demo_listing_env (PCmp Eq [PIdent ''user_name'', PLit (LStr ''ann'')])) demo_ann demo_ann None None None (Some ''vol-b'') (new_context, demo_tables)"
  have "cx_response (fst (snd ?run)) \<noteq> None" by code_simp
  then obtain l where l: "cx_response (fst (snd ?run)) = Some l" by blast
  obtain r c t' where run: "?run = (r, c, t')" using prod_cases3 by blast
  have "demo_done_version 2 ''V2'' ''vol-b'' \<in> set (rt_versions demo_tables)" by (simp add: demo_tables_def)
  moreover have "ver_volume (demo_done_version 2 ''V2'' ''vol-b'') = ''vol-b''" by (simp add: demo_done_version_def)
  ultimately show ?thesis using listed_versions_owner [OF demo_persons(1) run, of l] l run by simp
qed

end
